(* ===== verification/Prelude.thy ===== *)
theory Prelude
  imports Main "HOL-Library.List_Lexorder" "HOL-Library.Char_ord" "HOL-Library.Product_Lexorder"
begin

text \<open>
  Vocabulary shared by every component: the exceptions of the source as values, sequencing of
  fallible steps, and the list idioms of the Python code (\<open>dict.fromkeys\<close>, \<open>sorted(set(..))\<close>,
  sets of node numbers), each with the lemmas the components use.
\<close>

section \<open>Errors as values\<close>

text \<open>The exception classes the modelled code raises; the text is the constant part of the message.
  \<open>Diverges\<close> is the value of a loop of the model that ran out of the fuel it was given; every
  function that can return it comes with a lemma that it does not.\<close>

datatype py_error =
    ValueError string
  | TypeError string
  | AttributeError string
  | KeyError string
  | PermissionError string
  | IndexError string
  | StopIteration
  | RuntimeError string
  | Diverges

type_synonym 'a result = "py_error + 'a"

definition bind_result :: "'e + 'a \<Rightarrow> ('a \<Rightarrow> 'e + 'b) \<Rightarrow> 'e + 'b" where
  "bind_result r f = (case r of Inl e \<Rightarrow> Inl e | Inr x \<Rightarrow> f x)"

lemma bind_result_simps [simp]:
  "bind_result (Inl e) f = Inl e"
  "bind_result (Inr x) f = f x"
  by (simp_all add: bind_result_def)

lemma bind_result_assoc:
  "bind_result (bind_result r f) g = bind_result r (\<lambda>x. bind_result (f x) g)"
  by (simp add: bind_result_def split: sum.splits)

lemma bind_result_eq_Inr:
  "bind_result r f = Inr y \<longleftrightarrow> (\<exists>x. r = Inr x \<and> f x = Inr y)"
  by (cases r) simp_all

lemma bind_result_cong [fundef_cong]:
  "r = r' \<Longrightarrow> (\<And>x. r' = Inr x \<Longrightarrow> f x = f' x) \<Longrightarrow> bind_result r f = bind_result r' f'"
  by (cases r') simp_all

section \<open>\<open>dict.fromkeys\<close>: duplicates dropped, first occurrence kept\<close>

fun dedup_from :: "'a list \<Rightarrow> 'a list \<Rightarrow> 'a list" where
  "dedup_from seen [] = []"
| "dedup_from seen (x # xs) =
     (if x \<in> set seen then dedup_from seen xs else x # dedup_from (x # seen) xs)"

definition dedup :: "'a list \<Rightarrow> 'a list" where
  "dedup xs = dedup_from [] xs"

lemma set_dedup_from: "set (dedup_from seen xs) = set xs - set seen"
  by (induction seen xs rule: dedup_from.induct) auto

lemma distinct_dedup_from: "distinct (dedup_from seen xs)"
  by (induction seen xs rule: dedup_from.induct) (auto simp: set_dedup_from)

lemma set_dedup [simp]: "set (dedup xs) = set xs"
  by (simp add: dedup_def set_dedup_from)

lemma distinct_dedup [simp, intro]: "distinct (dedup xs)"
  by (simp add: dedup_def distinct_dedup_from)

lemma dedup_from_id: "distinct xs \<Longrightarrow> set xs \<inter> set seen = {} \<Longrightarrow> dedup_from seen xs = xs"
  by (induction seen xs rule: dedup_from.induct) auto

lemma dedup_id [simp]: "distinct xs \<Longrightarrow> dedup xs = xs"
  by (simp add: dedup_def dedup_from_id)

lemma dedup_Nil [simp]: "dedup [] = []"
  by (simp add: dedup_def)

lemma dedup_eq_Nil [simp]: "dedup xs = [] \<longleftrightarrow> xs = []"
  by (metis set_dedup set_empty)

lemma dedup_from_seen: "set s = set s' \<Longrightarrow> dedup_from s zs = dedup_from s' zs"
  by (induction s zs arbitrary: s' rule: dedup_from.induct) auto

lemma dedup_from_append:
  "dedup_from seen (xs @ ys) = dedup_from seen xs @ dedup_from (xs @ seen) ys"
proof (induction seen xs rule: dedup_from.induct)
  case (1 seen)
  then show ?case by simp
next
  case (2 seen x xs)
  show ?case
  proof (cases "x \<in> set seen")
    case True
    moreover have "dedup_from (xs @ seen) ys = dedup_from (x # xs @ seen) ys"
      by (rule dedup_from_seen) (use True in auto)
    ultimately show ?thesis using "2.IH"(1) by simp
  next
    case False
    moreover have "dedup_from (xs @ x # seen) ys = dedup_from (x # xs @ seen) ys"
      by (rule dedup_from_seen) auto
    ultimately show ?thesis using "2.IH"(2) by simp
  qed
qed

lemma dedup_append_dedup [simp]: "dedup (dedup xs @ ys) = dedup (xs @ ys)"
proof -
  have "dedup_from (dedup xs) ys = dedup_from xs ys"
    by (rule dedup_from_seen) simp
  then show ?thesis
    by (simp add: dedup_def dedup_from_append) (simp add: dedup_def [symmetric])
qed

lemma dedup_from_dedup:
  "dedup_from seen (dedup_from seen' ys) = dedup_from (seen @ seen') ys" if "set seen' \<subseteq> set seen"
  using that
proof (induction seen' ys arbitrary: seen rule: dedup_from.induct)
  case (1 s)
  then show ?case by simp
next
  case (2 s y ys)
  show ?case
  proof (cases "y \<in> set s")
    case True
    with 2 show ?thesis by auto
  next
    case notin: False
    show ?thesis
    proof (cases "y \<in> set seen")
      case True
      with 2 notin have "dedup_from seen (dedup_from (y # s) ys) = dedup_from (seen @ y # s) ys"
        by simp
      also have "\<dots> = dedup_from (seen @ s) ys"
        by (rule dedup_from_seen) (use True in auto)
      finally show ?thesis using True notin by simp
    next
      case False
      with 2 notin have "dedup_from (y # seen) (dedup_from (y # s) ys) = dedup_from (y # seen @ y # s) ys"
        by (auto simp: subset_iff)
      also have "\<dots> = dedup_from (y # seen @ s) ys"
        by (rule dedup_from_seen) auto
      finally show ?thesis using False notin by simp
    qed
  qed
qed

lemma dedup_append_dedup2 [simp]: "dedup (xs @ dedup ys) = dedup (xs @ ys)"
  by (simp add: dedup_def dedup_from_append dedup_from_dedup)

lemma dedup_from_empty: "set xs \<subseteq> set seen \<Longrightarrow> dedup_from seen xs = []"
  by (induction seen xs rule: dedup_from.induct) auto

lemma dedup_append_absorb: "set ys \<subseteq> set xs \<Longrightarrow> dedup (xs @ ys) = dedup xs"
  by (simp add: dedup_def dedup_from_append dedup_from_empty)

section \<open>\<open>sorted(set(xs))\<close>\<close>

definition sorted_set :: "'a::linorder list \<Rightarrow> 'a list" where
  "sorted_set xs = sort (remdups xs)"

lemma set_sorted_set [simp]: "set (sorted_set xs) = set xs"
  by (simp add: sorted_set_def)

lemma sorted_sorted_set [simp, intro]: "sorted (sorted_set xs)"
  by (simp add: sorted_set_def)

lemma distinct_sorted_set [simp, intro]: "distinct (sorted_set xs)"
  by (simp add: sorted_set_def)

lemma sorted_set_eq_iff: "sorted_set xs = sorted_set ys \<longleftrightarrow> set xs = set ys"
  by (metis sorted_distinct_set_unique set_sorted_set sorted_sorted_set distinct_sorted_set)

lemma sorted_set_id: "sorted xs \<Longrightarrow> distinct xs \<Longrightarrow> sorted_set xs = xs"
  by (simp add: sorted_distinct_set_unique)

lemma sorted_set_Nil [simp]: "sorted_set [] = []"
  by (simp add: sorted_set_def)

lemma sorted_set_eq_Nil [simp]: "sorted_set xs = [] \<longleftrightarrow> xs = []"
  by (metis set_sorted_set set_empty)

lemma sorted_set_single [simp]: "sorted_set [x] = [x]"
  by (simp add: sorted_set_def)

section \<open>\<open>functools.reduce\<close> without an initial value\<close>

fun reduce :: "('a \<Rightarrow> 'a \<Rightarrow> 'a) \<Rightarrow> 'a list \<Rightarrow> 'a result" where
  "reduce f [] = Inl (TypeError ''reduce() of empty iterable with no initial value'')"
| "reduce f (x # xs) = Inr (foldl f x xs)"

text \<open>A comprehension whose element expression may raise.\<close>

fun map_result :: "('a \<Rightarrow> 'b result) \<Rightarrow> 'a list \<Rightarrow> 'b list result" where
  "map_result f [] = Inr []"
| "map_result f (x # xs) = bind_result (f x) (\<lambda>y. bind_result (map_result f xs) (\<lambda>ys. Inr (y # ys)))"

lemma map_result_Inr: "(\<And>x. x \<in> set xs \<Longrightarrow> f x = Inr (g x)) \<Longrightarrow> map_result f xs = Inr (map g xs)"
  by (induction xs) simp_all

text \<open>A left fold of a fallible operation; it stops at the first exception.\<close>

fun fold_result :: "('a \<Rightarrow> 'b \<Rightarrow> 'a result) \<Rightarrow> 'a \<Rightarrow> 'b list \<Rightarrow> 'a result" where
  "fold_result f x [] = Inr x"
| "fold_result f x (y # ys) = bind_result (f x y) (\<lambda>z. fold_result f z ys)"

text \<open>What every step keeps holds of the result of a fold that did not raise.\<close>

lemma fold_result_invariant:
  assumes "fold_result f x ys = Inr z" "P x" "\<And>x y z. y \<in> set ys \<Longrightarrow> P x \<Longrightarrow> f x y = Inr z \<Longrightarrow> P z"
  shows "P z"
  using assms
proof (induction ys arbitrary: x)
  case (Cons y ys)
  then obtain x' where "f x y = Inr x'" "fold_result f x' ys = Inr z" by (cases "f x y") auto
  with Cons show ?case by (metis list.set_intros)
qed simp

lemma fold_result_Inr [simp]: "fold_result (\<lambda>a b. Inr (f a b)) x ys = Inr (foldl f x ys)"
  by (induction ys arbitrary: x) simp_all

section \<open>First matches\<close>

lemma find_SomeD: "find P xs = Some x \<Longrightarrow> x \<in> set xs \<and> P x"
  by (auto simp: find_Some_iff)

lemma find_None_iff2: "find P xs = None \<longleftrightarrow> (\<forall>x \<in> set xs. \<not> P x)"
  by (auto simp: find_None_iff)

lemma in_map_filter: "y \<in> set (List.map_filter f xs) \<longleftrightarrow> (\<exists>x \<in> set xs. f x = Some y)"
  by (force simp: map_filter_def)

lemma map_filter_head: "List.map_filter f xs = y # ys \<Longrightarrow> \<exists>x \<in> set xs. f x = Some y"
  using in_map_filter [of y f xs] by simp

lemma map_filter_Nil_iff: "List.map_filter f xs = [] \<longleftrightarrow> (\<forall>x \<in> set xs. f x = None)"
  by (induction xs) (auto simp: map_filter_simps split: option.splits)

section \<open>Dictionaries in insertion order\<close>

text \<open>A \<open>dict\<close> whose order is observed is the list of its items; \<open>d[k] = v\<close> keeps the place of a key it
  already has, \<open>d.setdefault(k, v)\<close> keeps its value as well.\<close>

definition set_default :: "'k \<Rightarrow> 'v \<Rightarrow> ('k \<times> 'v) list \<Rightarrow> ('k \<times> 'v) list" where
  "set_default k v d = (if map_of d k = None then d @ [(k, v)] else d)"

lemma map_of_set_default:
  "map_of (set_default k v d) = (if map_of d k = None then (map_of d)(k \<mapsto> v) else map_of d)"
  by (auto simp: set_default_def map_add_def fun_eq_iff split: option.splits)

lemma dom_set_default: "dom (map_of (set_default k v d)) = insert k (dom (map_of d))"
  by (auto simp: map_of_set_default)

lemma keys_set_default: "set (map fst (set_default k v d)) = insert k (set (map fst d))"
  by (auto simp: set_default_def map_of_eq_None_iff image_iff)

lemma distinct_set_default: "distinct (map fst d) \<Longrightarrow> distinct (map fst (set_default k v d))"
  by (auto simp: set_default_def map_of_eq_None_iff)

fun dict_set :: "'k \<Rightarrow> 'v \<Rightarrow> ('k \<times> 'v) list \<Rightarrow> ('k \<times> 'v) list" where
  "dict_set k v [] = [(k, v)]"
| "dict_set k v ((k', v') # d) = (if k = k' then (k, v) # d else (k', v') # dict_set k v d)"

lemma map_of_dict_set [simp]: "map_of (dict_set k v d) = (map_of d)(k \<mapsto> v)"
  by (induction k v d rule: dict_set.induct) auto

lemma keys_dict_set [simp]: "fst ` set (dict_set k v d) = insert k (fst ` set d)"
  by (induction k v d rule: dict_set.induct) auto

lemma distinct_dict_set: "distinct (map fst d) \<Longrightarrow> distinct (map fst (dict_set k v d))"
  by (induction k v d rule: dict_set.induct) auto

lemma length_dict_set: "length (dict_set k v d) = (if k \<in> fst ` set d then length d else Suc (length d))"
  by (induction k v d rule: dict_set.induct) auto

section \<open>The contract of a join of alternatives\<close>

text \<open>
  Evidence, resources and authorities that come from alternative paths or call targets are joined.
  The analysis relies on four laws of each join, on the values its constructor accepts; from them
  follows that a joined result is the least loss of precision and depends only on which
  alternatives there are, not on their order or repetition.
\<close>

locale alternative_join =
  fixes wf :: "'a \<Rightarrow> bool"
    and join :: "'a \<Rightarrow> 'a \<Rightarrow> 'a result"
  assumes join_total: "wf a \<Longrightarrow> wf b \<Longrightarrow> \<exists>c. join a b = Inr c \<and> wf c"
    and join_commute: "wf a \<Longrightarrow> wf b \<Longrightarrow> join a b = join b a"
    and join_idem: "wf a \<Longrightarrow> join a a = Inr a"
    and join_assoc: "wf a \<Longrightarrow> wf b \<Longrightarrow> wf c \<Longrightarrow>
      bind_result (join a b) (\<lambda>x. join x c) = bind_result (join b c) (join a)"
begin

definition absorbed :: "'a \<Rightarrow> 'a \<Rightarrow> bool" where
  "absorbed a b \<longleftrightarrow> join a b = Inr b"

lemma absorbed_refl: "wf a \<Longrightarrow> absorbed a a"
  by (simp add: absorbed_def join_idem)

lemma absorbed_antisym: "wf a \<Longrightarrow> wf b \<Longrightarrow> absorbed a b \<Longrightarrow> absorbed b a \<Longrightarrow> a = b"
  using join_commute by (auto simp: absorbed_def)

lemma absorbed_trans:
  assumes "wf a" "wf b" "wf c" "absorbed a b" "absorbed b c"
  shows "absorbed a c"
  using join_assoc [of a b c] assms by (simp add: absorbed_def)

lemma join_upper1:
  assumes "wf a" "wf b" "join a b = Inr c"
  shows "absorbed a c"
  using join_assoc [of a a b] assms by (simp add: absorbed_def join_idem)

lemma join_upper2:
  assumes "wf a" "wf b" "join a b = Inr c"
  shows "absorbed b c"
  using join_upper1 [of b a c] join_commute [of a b] assms by simp

lemma join_wf: "wf a \<Longrightarrow> wf b \<Longrightarrow> join a b = Inr c \<Longrightarrow> wf c"
  using join_total [of a b] by auto

lemma join_least:
  assumes "wf a" "wf b" "wf u" "join a b = Inr c" "absorbed a u" "absorbed b u"
  shows "absorbed c u"
  using join_assoc [of a b u] assms by (simp add: absorbed_def)

lemma fold_join_lub:
  assumes "wf x" "\<forall>y \<in> set ys. wf y"
  shows "\<exists>r. fold_result join x ys = Inr r \<and> wf r \<and> (\<forall>y \<in> set (x # ys). absorbed y r) \<and>
    (\<forall>u. wf u \<longrightarrow> (\<forall>y \<in> set (x # ys). absorbed y u) \<longrightarrow> absorbed r u)"
  using assms
proof (induction ys arbitrary: x)
  case Nil
  then show ?case by (simp add: absorbed_refl)
next
  case (Cons y ys)
  then obtain z where z: "join x y = Inr z" "wf z" using join_total by force
  from Cons.IH [OF z(2)] Cons.prems(2) obtain r where
    r: "fold_result join z ys = Inr r" "wf r" "\<forall>v \<in> set (z # ys). absorbed v r"
      "\<forall>u. wf u \<longrightarrow> (\<forall>v \<in> set (z # ys). absorbed v u) \<longrightarrow> absorbed r u"
    by auto
  have wf: "wf x" "wf y" using Cons.prems by auto
  have "absorbed x r" "absorbed y r"
    using absorbed_trans [OF wf(1) z(2) r(2) join_upper1 [OF wf z(1)]]
      absorbed_trans [OF wf(2) z(2) r(2) join_upper2 [OF wf z(1)]] r(3) by auto
  moreover have "absorbed r u" if "wf u" "\<forall>v \<in> set (x # y # ys). absorbed v u" for u
    using r(4) that join_least [OF wf that(1) z(1)] by auto
  ultimately show ?case using r z(1) by auto
qed

theorem fold_join_set:
  assumes "\<forall>y \<in> set (x # xs). wf y" "set (x # xs) = set (y # ys)"
  shows "fold_result join x xs = fold_result join y ys"
proof -
  obtain r where r: "fold_result join x xs = Inr r" "wf r" "\<forall>v \<in> set (x # xs). absorbed v r"
      "\<forall>u. wf u \<longrightarrow> (\<forall>v \<in> set (x # xs). absorbed v u) \<longrightarrow> absorbed r u"
    using fold_join_lub [of x xs] assms(1) by auto
  have wf': "\<forall>v \<in> set (y # ys). wf v" using assms(1) by (simp only: assms(2) [symmetric])
  obtain r' where r': "fold_result join y ys = Inr r'" "wf r'" "\<forall>v \<in> set (y # ys). absorbed v r'"
      "\<forall>u. wf u \<longrightarrow> (\<forall>v \<in> set (y # ys). absorbed v u) \<longrightarrow> absorbed r' u"
    using fold_join_lub [of y ys] wf' by auto
  have "absorbed r r'" using r(4) r'(2,3) by (simp only: assms(2))
  moreover have "absorbed r' r" using r'(4) r(2,3) by (simp only: assms(2))
  ultimately have "r = r'" by (rule absorbed_antisym [OF r(2) r'(2)])
  with r(1) r'(1) show ?thesis by simp
qed

end

end
