(* ===== verification/EvidenceDomain.thy ===== *)
theory EvidenceDomain
  imports Prelude
begin

text \<open>
  The abstract evidence domain of the access-control prover
  (\<open>semantic/obligations/abstract_domain.py\<close>): evidence relations with their three combinators,
  completeness values, abstract resources and authorities.
  The join of evidence is a semilattice ordered by the source's own precision order; the joins of
  resources and authorities are semilattices on the values the constructors accept.
\<close>

section \<open>Evidence relations\<close>

datatype evidence_relation = MUST | MAY | NO | UNKNOWN

datatype pair_judgment = UNGUARDED | DISCHARGED | INDETERMINATE

fun join_alternatives :: "evidence_relation \<Rightarrow> evidence_relation \<Rightarrow> evidence_relation" where
  "join_alternatives MUST MUST = MUST"
| "join_alternatives MUST NO = MAY"
| "join_alternatives MUST MAY = MAY"
| "join_alternatives MUST UNKNOWN = UNKNOWN"
| "join_alternatives NO MUST = MAY"
| "join_alternatives NO NO = NO"
| "join_alternatives NO MAY = MAY"
| "join_alternatives NO UNKNOWN = UNKNOWN"
| "join_alternatives MAY MUST = MAY"
| "join_alternatives MAY NO = MAY"
| "join_alternatives MAY MAY = MAY"
| "join_alternatives MAY UNKNOWN = UNKNOWN"
| "join_alternatives UNKNOWN MUST = UNKNOWN"
| "join_alternatives UNKNOWN NO = UNKNOWN"
| "join_alternatives UNKNOWN MAY = UNKNOWN"
| "join_alternatives UNKNOWN UNKNOWN = UNKNOWN"

definition precision_order :: "(evidence_relation \<times> evidence_relation) list" where
  "precision_order =
     [(MUST, MUST), (MUST, MAY), (MUST, UNKNOWN),
      (NO, NO), (NO, MAY), (NO, UNKNOWN),
      (MAY, MAY), (MAY, UNKNOWN),
      (UNKNOWN, UNKNOWN)]"

definition at_least_as_precise :: "evidence_relation \<Rightarrow> evidence_relation \<Rightarrow> bool" where
  "at_least_as_precise relation than \<longleftrightarrow> (relation, than) \<in> set precision_order"

text \<open>The precision order and the alternative join form a semilattice, so the library's facts apply.\<close>

instantiation evidence_relation :: semilattice_sup
begin

definition less_eq_evidence_relation :: "evidence_relation \<Rightarrow> evidence_relation \<Rightarrow> bool" where
  "less_eq_evidence_relation a b \<longleftrightarrow> at_least_as_precise a b"

definition less_evidence_relation :: "evidence_relation \<Rightarrow> evidence_relation \<Rightarrow> bool" where
  "less_evidence_relation a b \<longleftrightarrow> at_least_as_precise a b \<and> \<not> at_least_as_precise b a"

definition sup_evidence_relation :: "evidence_relation \<Rightarrow> evidence_relation \<Rightarrow> evidence_relation" where
  "sup_evidence_relation a b = join_alternatives a b"

instance
proof
  fix x y z :: evidence_relation
  show "(x < y) = (x \<le> y \<and> \<not> y \<le> x)"
    by (simp add: less_evidence_relation_def less_eq_evidence_relation_def)
  show "x \<le> x"
    by (cases x) (simp_all add: less_eq_evidence_relation_def at_least_as_precise_def precision_order_def)
  show "x \<le> y \<Longrightarrow> y \<le> z \<Longrightarrow> x \<le> z"
    by (cases x; cases y; cases z)
      (simp_all add: less_eq_evidence_relation_def at_least_as_precise_def precision_order_def)
  show "x \<le> y \<Longrightarrow> y \<le> x \<Longrightarrow> x = y"
    by (cases x; cases y)
      (simp_all add: less_eq_evidence_relation_def at_least_as_precise_def precision_order_def)
  show "x \<le> sup x y" and "y \<le> sup x y"
    by (cases x; cases y; simp add: less_eq_evidence_relation_def sup_evidence_relation_def
        at_least_as_precise_def precision_order_def)+
  show "y \<le> x \<Longrightarrow> z \<le> x \<Longrightarrow> sup y z \<le> x"
    by (cases x; cases y; cases z)
      (simp_all add: less_eq_evidence_relation_def sup_evidence_relation_def
        at_least_as_precise_def precision_order_def)
qed

end

lemma le_evidence_simps [simp]:
  "MUST \<le> r \<longleftrightarrow> r = MUST \<or> r = MAY \<or> r = UNKNOWN" "NO \<le> r \<longleftrightarrow> r = NO \<or> r = MAY \<or> r = UNKNOWN"
  "MAY \<le> r \<longleftrightarrow> r = MAY \<or> r = UNKNOWN" "UNKNOWN \<le> r \<longleftrightarrow> r = UNKNOWN"
  "r \<le> UNKNOWN" "r \<le> MUST \<longleftrightarrow> r = MUST" "r \<le> NO \<longleftrightarrow> r = NO" "r \<le> MAY \<longleftrightarrow> r = MUST \<or> r = NO \<or> r = MAY"
  by (cases r; simp add: less_eq_evidence_relation_def at_least_as_precise_def precision_order_def)+

definition conjoin_dimensions :: "evidence_relation list \<Rightarrow> evidence_relation" where
  "conjoin_dimensions dimension_relations =
     (let present = set dimension_relations in
      if NO \<in> present then NO
      else if UNKNOWN \<in> present then UNKNOWN
      else if MAY \<in> present then MAY
      else MUST)"

definition aggregate_witnesses :: "evidence_relation list \<Rightarrow> bool \<Rightarrow> evidence_relation" where
  "aggregate_witnesses witness_relations discovery_complete =
     (if witness_relations = [] then (if discovery_complete then NO else UNKNOWN)
      else let present = set witness_relations in
        if MUST \<in> present then MUST
        else if UNKNOWN \<in> present then UNKNOWN
        else if MAY \<in> present then MAY
        else NO)"

lemma only_NO: "MUST \<notin> R \<Longrightarrow> UNKNOWN \<notin> R \<Longrightarrow> MAY \<notin> R \<Longrightarrow> x \<in> R \<Longrightarrow> x = NO"
  by (cases x) auto

lemma only_MUST: "NO \<notin> R \<Longrightarrow> UNKNOWN \<notin> R \<Longrightarrow> MAY \<notin> R \<Longrightarrow> x \<in> R \<Longrightarrow> x = MUST"
  by (cases x) auto

lemma conjoin_eq_MUST: "conjoin_dimensions rs = MUST \<longleftrightarrow> set rs \<subseteq> {MUST}"
  using only_MUST [of "set rs"] by (auto simp: conjoin_dimensions_def Let_def)

lemma conjoin_eq_NO: "conjoin_dimensions rs = NO \<longleftrightarrow> NO \<in> set rs"
  by (simp add: conjoin_dimensions_def Let_def)

lemma aggregate_eq_MUST: "aggregate_witnesses rs d = MUST \<longleftrightarrow> MUST \<in> set rs"
  by (auto simp: aggregate_witnesses_def Let_def)

lemma aggregate_eq_NO:
  "aggregate_witnesses rs d = NO \<longleftrightarrow> set rs \<subseteq> {NO} \<and> (rs = [] \<longrightarrow> d)"
  using only_NO [of "set rs"] by (auto simp: aggregate_witnesses_def Let_def)

text \<open>Losing precision in any input never sharpens an output: both combinators are monotone.\<close>

lemma list_all2_le_cases:
  assumes "list_all2 (\<le>) rs (ss :: evidence_relation list)"
  shows "MUST \<in> set ss \<Longrightarrow> MUST \<in> set rs"
    "UNKNOWN \<in> set rs \<Longrightarrow> UNKNOWN \<in> set ss"
    "MAY \<in> set rs \<Longrightarrow> MAY \<in> set ss \<or> UNKNOWN \<in> set ss"
    "MUST \<in> set rs \<Longrightarrow> MUST \<in> set ss \<or> MAY \<in> set ss \<or> UNKNOWN \<in> set ss"
    "rs = [] \<longleftrightarrow> ss = []"
  using assms by (induction rs ss rule: list_all2_induct) auto

lemma conjoin_dimensions_mono:
  assumes "list_all2 (\<le>) rs ss"
  shows "conjoin_dimensions rs \<le> conjoin_dimensions ss"
  using assms
proof (induction rs ss rule: list_all2_induct)
  case Nil
  show ?case by simp
next
  case (Cons r rs s ss)
  then show ?case
    by (cases r; cases s) (auto simp: conjoin_dimensions_def Let_def split: if_splits)
qed

lemma aggregate_witnesses_mono:
  assumes "list_all2 (\<le>) rs ss" and "d' \<longrightarrow> d"
  shows "aggregate_witnesses rs d \<le> aggregate_witnesses ss d'"
  using list_all2_le_cases [OF assms(1)] assms(2)
  by (auto simp: aggregate_witnesses_def Let_def)

section \<open>Completeness\<close>

record completeness =
  is_complete :: bool
  reasons :: "string list"

text \<open>The constructor drops exact repeats of a reason and keeps the first occurrence.\<close>

definition make_completeness :: "bool \<Rightarrow> string list \<Rightarrow> completeness" where
  "make_completeness complete rs = \<lparr>is_complete = complete, reasons = dedup rs\<rparr>"

definition wf_completeness :: "completeness \<Rightarrow> bool" where
  "wf_completeness c \<longleftrightarrow> distinct (reasons c)"

definition complete_value :: completeness where
  "complete_value = make_completeness True []"

definition join_completeness :: "completeness \<Rightarrow> completeness \<Rightarrow> completeness" where
  "join_completeness left right =
     make_completeness (is_complete left \<and> is_complete right) (reasons left @ reasons right)"

lemma wf_make_completeness [simp, intro]: "wf_completeness (make_completeness c rs)"
  by (simp add: make_completeness_def wf_completeness_def)

lemma make_completeness_sel [simp]:
  "is_complete (make_completeness c rs) = c" "reasons (make_completeness c rs) = dedup rs"
  by (simp_all add: make_completeness_def)

lemma wf_join_completeness [simp, intro]: "wf_completeness (join_completeness a b)"
  by (simp add: join_completeness_def)

lemma join_completeness_sel [simp]:
  "is_complete (join_completeness a b) \<longleftrightarrow> is_complete a \<and> is_complete b"
  "set (reasons (join_completeness a b)) = set (reasons a) \<union> set (reasons b)"
  by (simp_all add: join_completeness_def)

lemma join_completeness_assoc:
  "join_completeness (join_completeness a b) c = join_completeness a (join_completeness b c)"
  by (simp add: join_completeness_def make_completeness_def conj_assoc)

lemma join_complete_value_left [simp]:
  "wf_completeness c \<Longrightarrow> join_completeness complete_value c = c"
  by (cases c) (simp add: join_completeness_def complete_value_def make_completeness_def wf_completeness_def)

lemma join_complete_value_right [simp]:
  "wf_completeness c \<Longrightarrow> join_completeness c complete_value = c"
  by (cases c) (simp add: join_completeness_def complete_value_def make_completeness_def wf_completeness_def)

lemma join_completeness_absorb:
  assumes "wf_completeness a" "is_complete a \<longrightarrow> is_complete b" "set (reasons b) \<subseteq> set (reasons a)"
  shows "join_completeness a b = a"
proof -
  have "dedup (reasons a @ reasons b) = dedup (reasons a)"
    using assms(3) by (rule dedup_append_absorb)
  with assms(1,2) show ?thesis
    by (cases a) (auto simp: join_completeness_def make_completeness_def wf_completeness_def)
qed

section \<open>Resources\<close>

record resource_ref =
  rkind :: string
  rvalues :: "string list"

definition resource_kinds :: "string list" where
  "resource_kinds = [''exact'', ''aliases'', ''request_global'', ''unknown'']"

definition make_resource :: "string \<Rightarrow> string list \<Rightarrow> resource_ref result" where
  "make_resource kind values =
     (if kind \<notin> set resource_kinds then Inl (ValueError ''unknown resource kind'')
      else let tokens = sorted_set values in
        if kind = ''exact'' \<and> length tokens \<noteq> 1
          then Inl (ValueError ''exact resource needs exactly one token'')
        else if kind = ''aliases'' \<and> tokens = []
          then Inl (ValueError ''alias set needs at least one token'')
        else if kind \<in> {''request_global'', ''unknown''} \<and> tokens \<noteq> []
          then Inl (ValueError ''resource binds no tokens'')
        else Inr \<lparr>rkind = kind, rvalues = tokens\<rparr>)"

definition request_global_resource :: resource_ref where
  "request_global_resource = \<lparr>rkind = ''request_global'', rvalues = []\<rparr>"

definition unknown_resource :: resource_ref where
  "unknown_resource = \<lparr>rkind = ''unknown'', rvalues = []\<rparr>"

text \<open>A binding read from a fact or the IR: absent, one token, or a token collection.\<close>

datatype binding = Unresolved | Token string | Tokens "string list"

definition parse_resource :: "binding \<Rightarrow> resource_ref result" where
  "parse_resource b =
     (case b of
        Unresolved \<Rightarrow> Inr unknown_resource
      | Token t \<Rightarrow>
          if t = [] then Inl (ValueError ''misshapen resource binding'')
          else make_resource ''exact'' [t]
      | Tokens ts \<Rightarrow>
          if ts = [] \<or> [] \<in> set ts then Inl (ValueError ''misshapen resource binding'')
          else make_resource ''aliases'' ts)"

definition join_resources :: "resource_ref \<Rightarrow> resource_ref \<Rightarrow> resource_ref result" where
  "join_resources left right =
     (if rkind left = ''unknown'' \<or> rkind right = ''unknown'' then Inr unknown_resource
      else if rkind left = ''request_global'' \<or> rkind right = ''request_global''
        then Inr request_global_resource
      else if rkind left = rkind right \<and> rkind right = ''exact'' \<and> rvalues left = rvalues right
        then Inr left
      else make_resource ''aliases'' (rvalues left @ rvalues right))"

text \<open>The values the constructor returns.\<close>

definition wf_resource :: "resource_ref \<Rightarrow> bool" where
  "wf_resource r \<longleftrightarrow> make_resource (rkind r) (rvalues r) = Inr r"

lemma wf_resource_iff:
  "wf_resource r \<longleftrightarrow>
     rkind r = ''exact'' \<and> (\<exists>t. rvalues r = [t]) \<or>
     rkind r = ''aliases'' \<and> rvalues r \<noteq> [] \<and> sorted (rvalues r) \<and> distinct (rvalues r) \<or>
     rkind r \<in> {''request_global'', ''unknown''} \<and> rvalues r = []"
proof -
  have fix_iff: "sorted_set (rvalues r) = rvalues r \<longleftrightarrow> sorted (rvalues r) \<and> distinct (rvalues r)"
    by (metis sorted_set_id sorted_sorted_set distinct_sorted_set)
  show ?thesis
    by (cases r)
      (use fix_iff in \<open>auto simp: wf_resource_def make_resource_def resource_kinds_def Let_def
        length_Suc_conv sorted_set_id\<close>)
qed

lemma wf_resource_cases [consumes 1, case_names exact aliases request_global unknown]:
  assumes "wf_resource r"
  obtains t where "r = \<lparr>rkind = ''exact'', rvalues = [t]\<rparr>"
  | vs where "r = \<lparr>rkind = ''aliases'', rvalues = vs\<rparr>" "vs \<noteq> []" "sorted vs" "distinct vs"
  | "r = request_global_resource"
  | "r = unknown_resource"
  using assms
  by (cases r) (auto simp: wf_resource_iff request_global_resource_def unknown_resource_def)

lemma make_resource_wf: "make_resource k vs = Inr r \<Longrightarrow> wf_resource r"
  by (auto simp: make_resource_def wf_resource_def Let_def sorted_set_id split: if_splits)

lemma make_aliases: "vs \<noteq> [] \<Longrightarrow>
    make_resource ''aliases'' vs = Inr \<lparr>rkind = ''aliases'', rvalues = sorted_set vs\<rparr>"
  by (simp add: make_resource_def resource_kinds_def)

lemma wf_resource_constants [simp, intro]:
  "wf_resource request_global_resource" "wf_resource unknown_resource"
  by (simp_all add: wf_resource_iff request_global_resource_def unknown_resource_def)

lemma parse_resource_wf: "parse_resource b = Inr r \<Longrightarrow> wf_resource r"
  by (auto simp: parse_resource_def make_resource_wf split: binding.splits if_splits)

text \<open>What a binding may denote: every token (request scope), the listed tokens, or anything.\<close>

definition covers_token :: "resource_ref \<Rightarrow> string \<Rightarrow> bool" where
  "covers_token r t \<longleftrightarrow> rkind r \<in> {''request_global'', ''unknown''} \<or> t \<in> set (rvalues r)"

lemma sorted_set_double: "sorted vs \<Longrightarrow> distinct vs \<Longrightarrow> sorted_set (vs @ vs) = vs"
  by (metis Un_absorb set_append sorted_set_eq_iff sorted_set_id)

lemma join_resources_cases:
  assumes "wf_resource a" "wf_resource b"
  shows "\<exists>c. join_resources a b = Inr c \<and> wf_resource c \<and>
    (\<forall>t. covers_token c t \<longleftrightarrow> covers_token a t \<or> covers_token b t)"
  by (cases rule: wf_resource_cases [OF assms(1)]; cases rule: wf_resource_cases [OF assms(2)])
    (auto simp: join_resources_def make_aliases wf_resource_iff covers_token_def
      request_global_resource_def unknown_resource_def)

lemma join_resources_commute:
  assumes "wf_resource a" "wf_resource b"
  shows "join_resources a b = join_resources b a"
  by (cases rule: wf_resource_cases [OF assms(1)]; cases rule: wf_resource_cases [OF assms(2)])
    (auto simp: join_resources_def make_aliases sorted_set_eq_iff
      request_global_resource_def unknown_resource_def)

lemma join_resources_idem: "wf_resource a \<Longrightarrow> join_resources a a = Inr a"
  by (erule wf_resource_cases)
    (auto simp: join_resources_def make_aliases sorted_set_double
      request_global_resource_def unknown_resource_def)

lemma join_resources_assoc:
  assumes "wf_resource a" "wf_resource b" "wf_resource c"
  shows "bind_result (join_resources a b) (\<lambda>x. join_resources x c) =
    bind_result (join_resources b c) (join_resources a)"
  by (cases rule: wf_resource_cases [OF assms(1)]; cases rule: wf_resource_cases [OF assms(2)];
      cases rule: wf_resource_cases [OF assms(3)])
    (auto simp: join_resources_def make_aliases sorted_set_eq_iff
      request_global_resource_def unknown_resource_def)

interpretation resource_join: alternative_join wf_resource join_resources
proof
  show "\<exists>c. join_resources a b = Inr c \<and> wf_resource c" if "wf_resource a" "wf_resource b" for a b
    using join_resources_cases [OF that] by blast
qed (simp_all add: join_resources_commute join_resources_idem join_resources_assoc)

interpretation evidence_join:
  alternative_join "\<lambda>_. True" "\<lambda>a b. Inr (join_alternatives a b)"
proof
  fix a b c :: evidence_relation
  show "Inr (join_alternatives a b) = (Inr (join_alternatives b a) :: evidence_relation result)"
    by (simp flip: sup_evidence_relation_def add: sup_commute)
  show "Inr (join_alternatives a a) = (Inr a :: evidence_relation result)"
    by (simp flip: sup_evidence_relation_def)
  show "bind_result (Inr (join_alternatives a b)) (\<lambda>x. Inr (join_alternatives x c)) =
      (bind_result (Inr (join_alternatives b c)) (\<lambda>y. Inr (join_alternatives a y)) :: evidence_relation result)"
    by (simp flip: sup_evidence_relation_def add: sup_assoc)
qed simp

section \<open>Authorities\<close>

record authority_ref =
  avalues :: "string list"
  is_unknown :: bool

definition make_authority :: "string list \<Rightarrow> bool \<Rightarrow> authority_ref result" where
  "make_authority values unknown =
     (if [] \<in> set values then Inl (ValueError ''misshapen authority values'')
      else if unknown \<and> values \<noteq> [] then Inl (ValueError ''unknown authority binds no values'')
      else if \<not> unknown \<and> values = [] then Inl (ValueError ''authority needs at least one value'')
      else Inr \<lparr>avalues = sorted_set values, is_unknown = unknown\<rparr>)"

definition unknown_authority :: authority_ref where
  "unknown_authority = \<lparr>avalues = [], is_unknown = True\<rparr>"

definition parse_authority :: "binding \<Rightarrow> authority_ref result" where
  "parse_authority b =
     (case b of
        Unresolved \<Rightarrow> Inr unknown_authority
      | Token t \<Rightarrow>
          if t = [] then Inl (ValueError ''misshapen authority binding'') else make_authority [t] False
      | Tokens ts \<Rightarrow>
          if ts = [] \<or> [] \<in> set ts then Inl (ValueError ''misshapen authority binding'')
          else make_authority ts False)"

definition join_authorities :: "authority_ref \<Rightarrow> authority_ref \<Rightarrow> authority_ref result" where
  "join_authorities left right =
     (if is_unknown left \<or> is_unknown right then Inr unknown_authority
      else if avalues left = avalues right then Inr left
      else make_authority (avalues left @ avalues right) False)"

definition wf_authority :: "authority_ref \<Rightarrow> bool" where
  "wf_authority a \<longleftrightarrow> make_authority (avalues a) (is_unknown a) = Inr a"

lemma wf_authority_iff:
  "wf_authority a \<longleftrightarrow> [] \<notin> set (avalues a) \<and> sorted (avalues a) \<and> distinct (avalues a) \<and>
     (is_unknown a \<longleftrightarrow> avalues a = [])"
proof -
  have "sorted_set (avalues a) = avalues a \<longleftrightarrow> sorted (avalues a) \<and> distinct (avalues a)"
    by (metis sorted_set_id sorted_sorted_set distinct_sorted_set)
  then show ?thesis by (cases a) (auto simp: wf_authority_def make_authority_def)
qed

lemma make_authority_wf: "make_authority vs u = Inr a \<Longrightarrow> wf_authority a"
  by (auto simp: make_authority_def wf_authority_iff split: if_splits)

lemma parse_authority_wf: "parse_authority b = Inr a \<Longrightarrow> wf_authority a"
proof -
  assume "parse_authority b = Inr a"
  moreover have "wf_authority unknown_authority" by (simp add: wf_authority_iff unknown_authority_def)
  ultimately show ?thesis
    by (auto simp: parse_authority_def split: binding.splits if_splits intro: make_authority_wf)
qed

lemma join_authorities_eq:
  assumes "wf_authority a" "wf_authority b"
  shows "join_authorities a b =
    Inr (if is_unknown a \<or> is_unknown b then unknown_authority
         else \<lparr>avalues = sorted_set (avalues a @ avalues b), is_unknown = False\<rparr>)"
proof (cases "avalues a = avalues b")
  case True
  with assms have "sorted_set (avalues a @ avalues b) = avalues a"
    by (metis Un_absorb set_append sorted_set_eq_iff sorted_set_id wf_authority_iff)
  with assms True show ?thesis
    by (cases a) (auto simp: join_authorities_def)
next
  case False
  with assms show ?thesis
    by (auto simp: join_authorities_def make_authority_def wf_authority_iff)
qed

lemma wf_join_authorities:
  "wf_authority a \<Longrightarrow> wf_authority b \<Longrightarrow> join_authorities a b = Inr c \<Longrightarrow> wf_authority c"
  by (auto simp: join_authorities_eq wf_authority_iff unknown_authority_def split: if_splits)

interpretation authority_join: alternative_join wf_authority join_authorities
proof
  fix a b c :: authority_ref
  assume wf: "wf_authority a"
  show "join_authorities a a = Inr a"
    using wf by (auto simp: join_authorities_def unknown_authority_def wf_authority_iff)
  assume wfb: "wf_authority b"
  show "\<exists>c. join_authorities a b = Inr c \<and> wf_authority c"
    using join_authorities_eq [OF wf wfb] wf_join_authorities [OF wf wfb] by auto
  show "join_authorities a b = join_authorities b a"
    using wf wfb by (auto simp: join_authorities_eq sorted_set_eq_iff)
  assume wfc: "wf_authority c"
  have ab: "wf_authority x" if "join_authorities a b = Inr x" for x
    using wf_join_authorities [OF wf wfb that] .
  have bc: "wf_authority x" if "join_authorities b c = Inr x" for x
    using wf_join_authorities [OF wfb wfc that] .
  show "bind_result (join_authorities a b) (\<lambda>x. join_authorities x c) =
      bind_result (join_authorities b c) (join_authorities a)"
    using ab bc wf wfb wfc
    by (auto simp: join_authorities_eq sorted_set_eq_iff unknown_authority_def)
qed

end
