(* ===== verification/Implications.thy ===== *)
theory Implications
  imports EvidenceDomain
begin

text \<open>
  Promoted authority implications and the question whether a held authority satisfies a required
  one (\<open>semantic/obligations/abstract_domain.py\<close>, from \<open>AuthorityImplication\<close> to
  \<open>supporting_implications\<close>): a breadth-first search over the implication facts, proved to find a
  shortest chain exactly when the closure of the facts connects the two names.
\<close>

section \<open>Promoted implications between authorities\<close>

record authority_implication =
  impl_id :: string
  authority :: string
  implies :: string

type_synonym implication_dict = "(string \<times> authority_implication list) list"

text \<open>\<open>grouped.setdefault(authority, []).append(implication)\<close> on an insertion-ordered dict.\<close>

fun group_append :: "implication_dict \<Rightarrow> authority_implication \<Rightarrow> implication_dict" where
  "group_append [] i = [(authority i, [i])]"
| "group_append ((k, es) # grouped) i =
     (if k = authority i then (k, es @ [i]) # grouped else (k, es) # group_append grouped i)"

definition implication_index :: "authority_implication list \<Rightarrow> implication_dict" where
  "implication_index implications = foldl group_append [] implications"

definition index_get :: "implication_dict \<Rightarrow> string \<Rightarrow> authority_implication list" where
  "index_get index current = (case map_of index current of None \<Rightarrow> [] | Some es \<Rightarrow> es)"

type_synonym bfs_parents = "(string \<times> (string \<times> authority_implication) option) list"

text \<open>The inner \<open>for\<close> loop: it stops as soon as the target is reached (first component \<open>True\<close>).\<close>

fun visit_edges :: "string \<Rightarrow> string \<Rightarrow> authority_implication list \<Rightarrow> bfs_parents \<Rightarrow> string list \<Rightarrow>
    bool \<times> bfs_parents \<times> string list" where
  "visit_edges target current [] parents frontier = (False, parents, frontier)"
| "visit_edges target current (i # es) parents frontier =
     (if map_of parents (implies i) \<noteq> None then visit_edges target current es parents frontier
      else let parents' = parents @ [(implies i, Some (current, i))] in
        if implies i = target then (True, parents', frontier)
        else visit_edges target current es parents' (frontier @ [implies i]))"

text \<open>The \<open>while True\<close> walk back over the parents; \<open>chain\<close> collects the edges in reverse.\<close>

fun chain_back :: "nat \<Rightarrow> bfs_parents \<Rightarrow> string \<Rightarrow> authority_implication list \<Rightarrow>
    authority_implication list result" where
  "chain_back 0 parents node chain = Inl Diverges"
| "chain_back (Suc fuel) parents node chain =
     (case map_of parents node of
        None \<Rightarrow> Inl (KeyError node)
      | Some None \<Rightarrow> Inr (rev chain)
      | Some (Some (previous, edge)) \<Rightarrow> chain_back fuel parents previous (chain @ [edge]))"

definition index_targets :: "implication_dict \<Rightarrow> string set" where
  "index_targets index = (\<Union>(k, es) \<in> set index. implies ` set es)"

lemma finite_index_targets [simp]: "finite (index_targets index)"
  by (auto simp: index_targets_def)

lemma index_get_targets: "implies ` set (index_get index x) \<subseteq> index_targets index"
proof (cases "map_of index x")
  case (Some es)
  then have "(x, es) \<in> set index" by (rule map_of_SomeD)
  with Some show ?thesis by (auto simp: index_get_def index_targets_def)
qed (simp add: index_get_def)

lemma visit_edges_progress:
  assumes "visit_edges target cur es par fr = (found, par', fr')" "\<not> found"
  shows "par' = par \<and> fr' = fr \<or> (\<exists>x \<in> implies ` set es. x \<notin> fst ` set par \<and> x \<in> fst ` set par')"
    and "fst ` set par \<subseteq> fst ` set par'"
proof -
  have "(par' = par \<and> fr' = fr \<or> (\<exists>x \<in> implies ` set es. x \<notin> fst ` set par \<and> x \<in> fst ` set par'))
      \<and> fst ` set par \<subseteq> fst ` set par'"
    using assms
  proof (induction target cur es par fr rule: visit_edges.induct)
    case (2 target cur i es par fr)
    then show ?case
      by (auto simp: Let_def map_of_eq_None_iff split: if_splits)
  qed simp
  then show "par' = par \<and> fr' = fr \<or> (\<exists>x \<in> implies ` set es. x \<notin> fst ` set par \<and> x \<in> fst ` set par')"
    and "fst ` set par \<subseteq> fst ` set par'" by blast+
qed

function bfs_loop :: "string \<Rightarrow> implication_dict \<Rightarrow> bfs_parents \<Rightarrow> string list \<Rightarrow>
    authority_implication list option result" where
  "bfs_loop target index parents [] = Inr None"
| "bfs_loop target index parents (current # frontier) =
     (let (found, parents', frontier') =
        visit_edges target current (index_get index current) parents frontier in
      if found then bind_result (chain_back (Suc (length parents')) parents' target []) (\<lambda>c. Inr (Some c))
      else bfs_loop target index parents' frontier')"
  by pat_completeness auto
termination
proof (relation "measures [\<lambda>(t, index, par, fr). card (index_targets index - fst ` set par),
      \<lambda>(t, index, par, fr). length fr]")
  fix target index par current fr found par' fr' and x y :: "bool \<times> bfs_parents \<times> string list"
    and z
  assume *: "x = visit_edges target current (index_get index current) par fr"
    "(found, z) = x" "(par', fr') = z" "\<not> found"
  let ?T = "index_targets index"
  have v: "visit_edges target current (index_get index current) par fr = (found, par', fr')"
    using * by simp
  show "((target, index, par', fr'), target, index, par, current # fr)
      \<in> measures [\<lambda>(t, index, par, fr). card (index_targets index - fst ` set par),
        \<lambda>(t, index, par, fr). length fr]"
  proof (cases "par' = par \<and> fr' = fr")
    case False
    with visit_edges_progress [OF v *(4)] obtain x where
      "x \<in> implies ` set (index_get index current)" "x \<notin> fst ` set par" "x \<in> fst ` set par'"
      "fst ` set par \<subseteq> fst ` set par'" by blast
    moreover from this have "x \<in> ?T" using index_get_targets by blast
    ultimately have "?T - fst ` set par' \<subset> ?T - fst ` set par" by blast
    then have "card (?T - fst ` set par') < card (?T - fst ` set par)"
      by (rule psubset_card_mono [rotated]) simp
    then show ?thesis by simp
  qed simp
qed simp

definition implication_path :: "string \<Rightarrow> string \<Rightarrow> implication_dict \<Rightarrow>
    authority_implication list option result" where
  "implication_path source target index =
     (if source = target then Inr (Some [])
      else bfs_loop target index [(source, None)] [source])"

lemma map_of_group_append:
  "map_of (group_append grouped i) = (map_of grouped)(authority i \<mapsto> index_get grouped (authority i) @ [i])"
  by (induction grouped i rule: group_append.induct) (auto simp: index_get_def fun_eq_iff)

lemma index_get_implication_index:
  "index_get (implication_index implications) x = filter (\<lambda>i. authority i = x) implications"
proof -
  have "index_get (foldl group_append g is) x = index_get g x @ filter (\<lambda>i. authority i = x) is" for g "is"
    by (induction "is" arbitrary: g) (auto simp: index_get_def map_of_group_append)
  from this [of "[]" implications] show ?thesis
    by (simp add: implication_index_def) (simp add: index_get_def)
qed

text \<open>A chain of implications from one name to another, and the closure it stands for.\<close>

fun chain_links :: "string \<Rightarrow> authority_implication list \<Rightarrow> string \<Rightarrow> bool" where
  "chain_links source [] target \<longleftrightarrow> source = target"
| "chain_links source (i # chain) target \<longleftrightarrow> authority i = source \<and> chain_links (implies i) chain target"

definition implication_rel :: "authority_implication list \<Rightarrow> (string \<times> string) set" where
  "implication_rel implications = (\<lambda>i. (authority i, implies i)) ` set implications"

lemma chain_links_append:
  "chain_links s (xs @ ys) t \<longleftrightarrow> (\<exists>u. chain_links s xs u \<and> chain_links u ys t)"
  by (induction xs arbitrary: s) auto

lemma chain_links_rel:
  "chain_links s chain t \<Longrightarrow> set chain \<subseteq> set implications \<Longrightarrow> (s, t) \<in> (implication_rel implications)\<^sup>*"
  by (induction chain arbitrary: s)
    (auto simp: implication_rel_def intro: converse_rtrancl_into_rtrancl)

lemma rel_chain_links:
  "(s, t) \<in> (implication_rel implications)\<^sup>* \<Longrightarrow>
    \<exists>chain. chain_links s chain t \<and> set chain \<subseteq> set implications"
proof (induction rule: converse_rtrancl_induct)
  case base
  show ?case by (rule exI [of _ "[]"]) simp
next
  case (step s u)
  then obtain i chain where "i \<in> set implications" "authority i = s" "implies i = u"
    "chain_links u chain t" "set chain \<subseteq> set implications"
    by (auto simp: implication_rel_def)
  then show ?case by (intro exI [of _ "i # chain"]) auto
qed

text \<open>
  The state of the search: every name found has a parent edge out of the index, one step nearer
  the source (\<open>d\<close> is the distance the search has assigned), and the frontier is ordered by it.
\<close>

definition bfs_tree :: "authority_implication list \<Rightarrow> string \<Rightarrow> bfs_parents \<Rightarrow> (string \<Rightarrow> nat) \<Rightarrow> bool" where
  "bfs_tree imps source par d \<longleftrightarrow>
     map_of par source = Some None \<and> d source = 0 \<and>
     (\<forall>x. map_of par x = Some None \<longrightarrow> x = source) \<and>
     (\<forall>x p i. map_of par x = Some (Some (p, i)) \<longrightarrow>
        i \<in> set imps \<and> authority i = p \<and> implies i = x \<and> map_of par p \<noteq> None \<and> d x = Suc (d p)) \<and>
     (\<forall>x. map_of par x \<noteq> None \<longrightarrow> d x < length par)"

lemma map_of_snoc:
  "map_of (par @ [(k, v)]) x = (case map_of par x of None \<Rightarrow> if x = k then Some v else None | Some w \<Rightarrow> Some w)"
  by (auto simp: map_add_def split: option.splits)

definition found_names :: "bfs_parents \<Rightarrow> string set" where
  "found_names par = fst ` set par"

lemma key_iff: "x \<in> found_names par \<longleftrightarrow> map_of par x \<noteq> None"
  by (simp add: found_names_def map_of_eq_None_iff)

lemma found_names_snoc [simp]: "found_names (par @ [(k, v)]) = insert k (found_names par)"
  by (auto simp: found_names_def)

lemma bfs_treeD:
  assumes "bfs_tree imps source par d"
  shows "map_of par source = Some None" "d source = 0" "map_of par x = Some None \<Longrightarrow> x = source"
    "map_of par x \<noteq> None \<Longrightarrow> d x < length par"
    "map_of par x = Some (Some (p, i)) \<Longrightarrow> i \<in> set imps"
    "map_of par x = Some (Some (p, i)) \<Longrightarrow> authority i = p"
    "map_of par x = Some (Some (p, i)) \<Longrightarrow> implies i = x"
    "map_of par x = Some (Some (p, i)) \<Longrightarrow> map_of par p \<noteq> None"
    "map_of par x = Some (Some (p, i)) \<Longrightarrow> d x = Suc (d p)"
  using assms unfolding bfs_tree_def by blast+

lemma bfs_tree_extend:
  assumes tree: "bfs_tree imps source par d" and new: "map_of par (implies i) = None"
    and cur: "map_of par cur \<noteq> None" and i: "i \<in> set imps" "authority i = cur"
  shows "bfs_tree imps source (par @ [(implies i, Some (cur, i))]) (d(implies i := Suc (d cur)))"
    (is "bfs_tree imps source ?par ?d")
proof -
  note t = bfs_treeD [OF tree]
  have same: "?d x = d x" if "map_of par x \<noteq> None" for x using that new by auto
  have keep: "map_of ?par x = map_of par x" if "map_of par x \<noteq> None" for x
    using that unfolding map_of_snoc by auto
  have origin: "map_of par x = Some v \<or> x = implies i \<and> v = Some (cur, i)" if "map_of ?par x = Some v" for x v
    using that unfolding map_of_snoc by (simp split: option.splits if_splits)
  show ?thesis
    unfolding bfs_tree_def
  proof (intro conjI allI impI)
    show "map_of ?par source = Some None" using keep [of source] t(1) by simp
    show "?d source = 0" using same [of source] t(1,2) by simp
    fix x
    show "x = source" if "map_of ?par x = Some None" using origin [OF that] t(3) by blast
    show "?d x < length ?par" if "map_of ?par x \<noteq> None"
    proof (cases "map_of par x")
      case None
      with that have "x = implies i" unfolding map_of_snoc by (simp split: if_splits)
      with t(4) [OF cur] show ?thesis by simp
    next
      case (Some v)
      then show ?thesis using t(4) [of x] same [of x] by simp
    qed
    fix p j
    assume "map_of ?par x = Some (Some (p, j))"
    then consider "map_of par x = Some (Some (p, j))" | "x = implies i" "p = cur" "j = i"
      using origin by blast
    then have "j \<in> set imps \<and> authority j = p \<and> implies j = x \<and> map_of par p \<noteq> None \<and> ?d x = Suc (d p)"
    proof cases
      case 1
      then show ?thesis using t(5-9) [OF 1] same [of x] by simp
    next
      case 2
      then show ?thesis using cur i by simp
    qed
    then show "j \<in> set imps" "authority j = p" "implies j = x" "map_of ?par p \<noteq> None" "?d x = Suc (?d p)"
      using keep [of p] same [of p] by simp_all
  qed
qed

lemma chain_back_correct:
  assumes "bfs_tree imps source par d" "map_of par node \<noteq> None" "d node < fuel"
  shows "\<exists>chain. chain_back fuel par node acc = Inr (chain @ rev acc) \<and> chain_links source chain node \<and>
    length chain = d node \<and> set chain \<subseteq> set imps"
  using assms(2,3)
proof (induction fuel arbitrary: node acc)
  case 0
  then show ?case by simp
next
  case (Suc fuel)
  show ?case
  proof (cases "map_of par node")
    case None
    with Suc.prems show ?thesis by simp
  next
    case (Some v)
    show ?thesis
    proof (cases v)
      case None
      with Some assms(1) show ?thesis by (auto simp: bfs_tree_def)
    next
      case v: (Some pe)
      obtain p i where pe: "pe = (p, i)" by fastforce
      with Some v assms(1) have p: "i \<in> set imps" "authority i = p" "implies i = node" "map_of par p \<noteq> None"
          "d node = Suc (d p)" by (auto simp: bfs_tree_def)
      with Suc.IH [of p "acc @ [i]"] Suc.prems Some v pe show ?thesis
        by (auto simp: chain_links_append)
    qed
  qed
qed

definition visit_post :: "authority_implication list \<Rightarrow> string \<Rightarrow> bfs_parents \<Rightarrow> (string \<Rightarrow> nat) \<Rightarrow> string \<Rightarrow>
    string \<Rightarrow> authority_implication list \<Rightarrow> string list \<Rightarrow> bool \<Rightarrow> bfs_parents \<Rightarrow> string list \<Rightarrow>
    (string \<Rightarrow> nat) \<Rightarrow> bool" where
  "visit_post imps source par d target cur es fr found par' fr' d' \<longleftrightarrow>
     bfs_tree imps source par' d' \<and> found_names par \<subseteq> found_names par' \<and>
     (\<forall>x \<in> found_names par. d' x = d x) \<and>
     (\<forall>y \<in> found_names par' - found_names par. d' y = Suc (d cur)) \<and>
     (if found then target \<in> found_names par' - found_names par
      else target \<notin> found_names par' \<and> implies ` set es \<subseteq> found_names par' \<and>
        set fr' = set fr \<union> (found_names par' - found_names par) \<and> sorted (map d' fr'))"

lemma visit_edges_correct:
  assumes "bfs_tree imps source par d" "cur \<in> found_names par" "set es \<subseteq> set imps"
    "\<forall>i \<in> set es. authority i = cur" "target \<notin> found_names par"
    "visit_edges target cur es par fr = (found, par', fr')"
    "set fr \<subseteq> found_names par" "\<forall>y \<in> set fr. d y \<le> Suc (d cur)" "sorted (map d fr)"
  shows "\<exists>d'. visit_post imps source par d target cur es fr found par' fr' d'"
  using assms
proof (induction target cur es par fr arbitrary: d rule: visit_edges.induct)
  case (1 target cur par fr)
  then show ?case by (auto simp: visit_post_def intro!: exI [of _ d])
next
  case (2 target cur i es par fr)
  show ?case
  proof (cases "map_of par (implies i) \<noteq> None")
    case True
    with "2.prems"(6) have v: "visit_edges target cur es par fr = (found, par', fr')" by simp
    have es: "set es \<subseteq> set imps" "\<forall>i \<in> set es. authority i = cur" using "2.prems"(3,4) by auto
    from "2.IH"(1) [OF True "2.prems"(1,2) es "2.prems"(5) v "2.prems"(7-9)] obtain d' where
      "visit_post imps source par d target cur es fr found par' fr' d'" by blast
    moreover have "implies i \<in> found_names par" using True unfolding key_iff by simp
    ultimately have "visit_post imps source par d target cur (i # es) fr found par' fr' d'"
      unfolding visit_post_def by auto
    then show ?thesis by blast
  next
    case False
    let ?par = "par @ [(implies i, Some (cur, i))]" and ?d = "d(implies i := Suc (d cur))"
    have new: "implies i \<notin> found_names par" using False unfolding key_iff by simp
    have tree: "bfs_tree imps source ?par ?d"
      using bfs_tree_extend [OF "2.prems"(1)] "2.prems"(2-4) False unfolding key_iff by simp
    have same: "?d x = d x" if "x \<in> found_names par" for x using that new by auto
    have keys: "found_names ?par = insert (implies i) (found_names par)" by simp
    show ?thesis
    proof (cases "implies i = target")
      case True
      with "2.prems"(6) False have f: "found" "par' = ?par" by auto
      have "visit_post imps source par d target cur (i # es) fr found par' fr' ?d"
        unfolding visit_post_def f keys using tree same True new f(1) by (auto simp: f(2))
      then show ?thesis by blast
    next
      case ne: False
      with "2.prems"(6) False
      have v: "visit_edges target cur es ?par (fr @ [implies i]) = (found, par', fr')" by simp
      have cur: "?d cur = d cur" by (rule same [OF "2.prems"(2)])
      have me: "map ?d fr = map d fr" using same "2.prems"(7) by (meson map_cong subsetD)
      have srt: "sorted (map ?d (fr @ [implies i]))"
        unfolding map_append me using "2.prems"(8,9) by (simp add: sorted_append)
      have pre: "cur \<in> found_names ?par" "set es \<subseteq> set imps" "\<forall>i \<in> set es. authority i = cur"
        "target \<notin> found_names ?par" "set (fr @ [implies i]) \<subseteq> found_names ?par"
        "\<forall>y \<in> set (fr @ [implies i]). ?d y \<le> Suc (?d cur)"
        unfolding keys cur using "2.prems"(2-5,7,8) ne by auto
      from "2.IH"(2) [OF False refl ne tree pre(1-4) v pre(5,6) srt] obtain d' where
        d': "visit_post imps source ?par ?d target cur es (fr @ [implies i]) found par' fr' d'" by blast
      have "visit_post imps source par d target cur (i # es) fr found par' fr' d'"
      proof -
        note d' = d' [unfolded visit_post_def keys cur]
        have sub: "insert (implies i) (found_names par) \<subseteq> found_names par'" using d' by blast
        have di: "d' (implies i) = Suc (d cur)" using d' by simp
        have "d' y = Suc (d cur)" if "y \<in> found_names par' - found_names par" for y
          using that d' di by (cases "y = implies i") auto
        moreover have "d' x = d x" if "x \<in> found_names par" for x using d' same [OF that] that by auto
        moreover have "found_names par' - found_names par = insert (implies i) (found_names par' - insert (implies i) (found_names par))"
          using sub new by auto
        ultimately show ?thesis
          unfolding visit_post_def using d' sub by (auto split: if_splits)
      qed
      then show ?thesis by blast
    qed
  qed
qed

definition bfs_inv :: "authority_implication list \<Rightarrow> string \<Rightarrow> string \<Rightarrow> bfs_parents \<Rightarrow> string list \<Rightarrow>
    (string \<Rightarrow> nat) \<Rightarrow> bool" where
  "bfs_inv imps source target par fr d \<longleftrightarrow>
     bfs_tree imps source par d \<and> target \<notin> found_names par \<and> set fr \<subseteq> found_names par \<and>
     sorted (map d fr) \<and> (\<forall>x \<in> set fr. \<forall>y \<in> found_names par. d y \<le> Suc (d x)) \<and>
     (\<forall>i \<in> set imps. authority i \<in> found_names par - set fr \<longrightarrow>
        implies i \<in> found_names par \<and> d (implies i) \<le> Suc (d (authority i))) \<and>
     (\<forall>x \<in> found_names par - set fr. \<forall>y \<in> set fr. d x \<le> d y)"

lemma bfs_inv_step:
  assumes inv: "bfs_inv imps source target par (cur # fr) d"
    and v: "visit_edges target cur (index_get (implication_index imps) cur) par fr = (False, par', fr')"
  shows "\<exists>d'. bfs_inv imps source target par' fr' d'"
proof -
  let ?es = "filter (\<lambda>i. authority i = cur) imps"
  note b = inv [unfolded bfs_inv_def]
  have es: "set ?es \<subseteq> set imps" "\<forall>i \<in> set ?es. authority i = cur" by auto
  from b have "\<exists>d'. visit_post imps source par d target cur ?es fr False par' fr' d'"
    by (intro visit_edges_correct [OF _ _ es]) (use v in \<open>auto simp: index_get_implication_index\<close>)
  then obtain d' where "visit_post imps source par d target cur ?es fr False par' fr' d'" by blast
  note p = this [unfolded visit_post_def, simplified]
  have old: "d' x = d x" if "x \<in> found_names par" for x using p that by blast
  have new: "d' x = Suc (d cur)" if "x \<in> found_names par'" "x \<notin> found_names par" for x using p that by blast
  have sub: "found_names par \<subseteq> found_names par'" using p by blast
  have fr: "set fr' = set fr \<union> (found_names par' - found_names par)" using p by blast
  have cur: "cur \<in> found_names par" "d' cur = d cur" using b old by auto
  have ge: "d cur \<le> d x" if "x \<in> set fr" for x using b that by simp
  have le: "d' y \<le> Suc (d cur)" if "y \<in> found_names par'" for y
    using b old [of y] new [of y] that by (cases "y \<in> found_names par") auto
  have ge': "d cur \<le> d' x" if "x \<in> set fr'" for x
    using that ge old new b unfolding fr by (metis DiffE Un_iff le_Suc_eq order_refl set_subset_Cons subsetD)
  have done_iff: "x \<in> found_names par' - set fr' \<longleftrightarrow> x \<in> found_names par \<and> x \<notin> set fr" for x
    using fr sub by blast
  have "bfs_inv imps source target par' fr' d'"
    unfolding bfs_inv_def
  proof (intro conjI ballI impI)
    show "bfs_tree imps source par' d'" "target \<notin> found_names par'" "sorted (map d' fr')" using p by blast+
    show "set fr' \<subseteq> found_names par'" using fr b sub by auto
    show "d' y \<le> Suc (d' x)" if "x \<in> set fr'" "y \<in> found_names par'" for x y
      using le [OF that(2)] ge' [OF that(1)] by simp
    fix i assume i: "i \<in> set imps" "authority i \<in> found_names par' - set fr'"
    then have a: "authority i \<in> found_names par" "authority i \<notin> set fr" using done_iff by blast+
    show "implies i \<in> found_names par'"
      using i a b p by (cases "authority i = cur") auto
    then show "d' (implies i) \<le> Suc (d' (authority i))"
      using i a b le [of "implies i"] old cur by (cases "authority i = cur") auto
  next
    fix x y assume x: "x \<in> found_names par' - set fr'" and y: "y \<in> set fr'"
    then have "d x \<le> d cur" "x \<in> found_names par" using b done_iff [of x] by auto
    then show "d' x \<le> d' y" using ge' [OF y] old [of x] by simp
  qed
  then show ?thesis by blast
qed

lemma bfs_inv_shortest:
  assumes inv: "bfs_inv imps source target par (cur # fr) d" and "source \<noteq> target"
    and chain: "chain_links source chain target" "set chain \<subseteq> set imps"
  shows "Suc (d cur) \<le> length chain"
proof (rule ccontr)
  note b = inv [unfolded bfs_inv_def]
  assume short: "\<not> Suc (d cur) \<le> length chain"
  have "v \<in> found_names par \<and> d v \<le> length xs" if "chain_links source xs v" "set xs \<subseteq> set imps"
      "length xs \<le> d cur" for xs v
    using that
  proof (induction xs arbitrary: v rule: rev_induct)
    case Nil
    then show ?case using b bfs_treeD(1,2) [of imps source par d] unfolding key_iff by auto
  next
    case (snoc i xs)
    then have u: "authority i \<in> found_names par" "d (authority i) \<le> length xs" "implies i = v" "i \<in> set imps"
      by (auto simp: chain_links_append)
    with snoc.prems have lt: "d (authority i) < d cur" by simp
    have "d cur \<le> d x" if "x \<in> set (cur # fr)" for x using b that by auto
    with lt have "authority i \<notin> set (cur # fr)" by (meson not_le)
    with b u have "v \<in> found_names par" "d v \<le> Suc (d (authority i))" by auto
    with u show ?case by simp
  qed
  from this [OF chain] short have "target \<in> found_names par" by simp
  with b show False by blast
qed

lemma bfs_inv_closed:
  assumes inv: "bfs_inv imps source target par [] d"
  shows "(source, target) \<notin> (implication_rel imps)\<^sup>*"
proof
  note b = inv [unfolded bfs_inv_def]
  assume "(source, target) \<in> (implication_rel imps)\<^sup>*"
  then have "target \<in> found_names par"
  proof (induction rule: rtrancl_induct)
    case base
    show ?case using b bfs_treeD(1) [of imps source par d] unfolding key_iff by auto
  next
    case (step y z)
    then show ?case using b by (auto simp: implication_rel_def)
  qed
  with b show False by blast
qed

text \<open>What a search result means: a shortest chain of facts, or none at all.\<close>

definition search_result :: "authority_implication list \<Rightarrow> string \<Rightarrow> string \<Rightarrow>
    authority_implication list option \<Rightarrow> bool" where
  "search_result imps source target r \<longleftrightarrow>
     (case r of
        None \<Rightarrow> (source, target) \<notin> (implication_rel imps)\<^sup>*
      | Some chain \<Rightarrow> chain_links source chain target \<and> set chain \<subseteq> set imps \<and>
          (\<forall>other. chain_links source other target \<and> set other \<subseteq> set imps \<longrightarrow> length chain \<le> length other))"

lemma bfs_loop_correct:
  assumes "index = implication_index imps" "source \<noteq> target" "bfs_inv imps source target par fr d"
  shows "\<exists>r. bfs_loop target index par fr = Inr r \<and> search_result imps source target r"
  using assms
proof (induction target index par fr arbitrary: d rule: bfs_loop.induct)
  case (1 target index par)
  then show ?case using bfs_inv_closed by (auto simp: search_result_def)
next
  case (2 target index par cur fr)
  obtain found par' fr' where v: "visit_edges target cur (index_get index cur) par fr = (found, par', fr')"
    by (metis prod_cases3)
  show ?case
  proof (cases found)
    case False
    with v have v': "visit_edges target cur (index_get (implication_index imps) cur) par fr = (False, par', fr')"
      using "2.prems"(1) by simp
    obtain d' where "bfs_inv imps source target par' fr' d'"
      using bfs_inv_step [OF "2.prems"(3) v'] by blast
    from "2.IH" [OF refl v [symmetric] refl False "2.prems"(1,2) this] v False show ?thesis by simp
  next
    case True
    let ?es = "filter (\<lambda>i. authority i = cur) imps"
    note b = "2.prems"(3) [unfolded bfs_inv_def]
    have es: "set ?es \<subseteq> set imps" "\<forall>i \<in> set ?es. authority i = cur" by auto
    from b have "\<exists>d'. visit_post imps source par d target cur ?es fr True par' fr' d'"
      by (intro visit_edges_correct [OF _ _ es])
        (use v True "2.prems"(1) in \<open>auto simp: index_get_implication_index\<close>)
    then obtain d' where p: "bfs_tree imps source par' d'" "target \<in> found_names par'" "d' target = Suc (d cur)"
      unfolding visit_post_def by auto
    have "d' target < Suc (length par')" using bfs_treeD(4) [OF p(1)] p(2) unfolding key_iff by (meson less_SucI)
    from chain_back_correct [OF p(1) _ this, of "[]"] p(2) obtain chain where
      c: "chain_back (Suc (length par')) par' target [] = Inr chain" "chain_links source chain target"
        "length chain = d' target" "set chain \<subseteq> set imps"
      unfolding key_iff by auto
    have "search_result imps source target (Some chain)"
      using c p(3) bfs_inv_shortest [OF "2.prems"(3,2)] by (auto simp: search_result_def)
    with v True c(1) show ?thesis by simp
  qed
qed

lemma implication_path_correct:
  "\<exists>r. implication_path source target (implication_index imps) = Inr r \<and> search_result imps source target r"
proof (cases "source = target")
  case True
  then show ?thesis by (simp add: implication_path_def search_result_def)
next
  case False
  have "bfs_inv imps source target [(source, None)] [source] (\<lambda>_. 0)"
    using False by (auto simp: bfs_inv_def bfs_tree_def found_names_def)
  from bfs_loop_correct [OF refl False this] False show ?thesis by (simp add: implication_path_def)
qed

section \<open>Authority satisfaction\<close>

definition authority_satisfies :: "authority_ref \<Rightarrow> authority_ref \<Rightarrow> authority_implication list \<Rightarrow>
    evidence_relation result" where
  "authority_satisfies held required implications =
     (if is_unknown held \<or> is_unknown required then Inr UNKNOWN
      else let index = implication_index implications in
        bind_result
          (map_result (\<lambda>(held_name, required_name).
              bind_result (implication_path held_name required_name index)
                (\<lambda>p. Inr (if p \<noteq> None then MUST else NO)))
            (List.product (avalues held) (avalues required)))
          (reduce join_alternatives))"

definition supporting_implications :: "authority_ref \<Rightarrow> authority_ref \<Rightarrow> authority_implication list \<Rightarrow>
    authority_implication list result" where
  "supporting_implications held required implications =
     (if is_unknown held \<or> is_unknown required then Inr []
      else let index = implication_index implications in
        bind_result
          (map_result (\<lambda>(held_name, required_name).
              bind_result (implication_path held_name required_name index)
                (\<lambda>p. Inr (case p of None \<Rightarrow> [] | Some chain \<Rightarrow> chain)))
            (List.product (avalues held) (avalues required)))
          (\<lambda>used. Inr (dedup (concat used))))"

definition satisfying_pair :: "authority_implication list \<Rightarrow> string \<times> string \<Rightarrow> bool" where
  "satisfying_pair imps p \<longleftrightarrow> p \<in> (implication_rel imps)\<^sup>*"

text \<open>The relation of every pair of names, decided by the search.\<close>

lemma pair_relation_result:
  "bind_result (implication_path h r (implication_index imps)) (\<lambda>p. Inr (if p \<noteq> None then MUST else NO)) =
    Inr (if satisfying_pair imps (h, r) then MUST else NO)"
proof -
  obtain p where "implication_path h r (implication_index imps) = Inr p" "search_result imps h r p"
    using implication_path_correct by blast
  then show ?thesis
    by (auto simp: search_result_def satisfying_pair_def chain_links_rel split: option.splits)
qed

lemma foldl_join_cases:
  "set (x # xs) \<subseteq> {MUST, NO} \<Longrightarrow>
    foldl join_alternatives x xs =
      (if set (x # xs) = {MUST} then MUST else if set (x # xs) = {NO} then NO else MAY)"
proof (induction xs rule: rev_induct)
  case (snoc y ys)
  then have y: "y = MUST \<or> y = NO" and x: "x = MUST \<or> x = NO" and sub: "set ys \<subseteq> {MUST, NO}" by auto
  have IH: "foldl join_alternatives x ys =
      (if set (x # ys) = {MUST} then MUST else if set (x # ys) = {NO} then NO else MAY)"
    using snoc by simp
  show ?case
    using y x sub IH by (auto split: if_splits simp: insert_commute)
qed auto

lemma authority_satisfies_eq:
  assumes "\<not> is_unknown held" "\<not> is_unknown required" "avalues held \<noteq> []" "avalues required \<noteq> []"
  shows "authority_satisfies held required imps =
    (let pairs = List.product (avalues held) (avalues required) in
     Inr (if \<forall>p \<in> set pairs. satisfying_pair imps p then MUST
          else if \<forall>p \<in> set pairs. \<not> satisfying_pair imps p then NO else MAY))"
proof -
  let ?pairs = "List.product (avalues held) (avalues required)"
  let ?rel = "\<lambda>p. if satisfying_pair imps p then MUST else NO"
  have "map_result (\<lambda>(h, r). bind_result (implication_path h r (implication_index imps))
      (\<lambda>p. Inr (if p \<noteq> None then MUST else NO))) ?pairs = Inr (map ?rel ?pairs)"
    by (rule map_result_Inr) (simp only: case_prod_unfold pair_relation_result prod.collapse)
  then have "authority_satisfies held required imps = reduce join_alternatives (map ?rel ?pairs)"
    using assms(1,2) by (simp add: authority_satisfies_def)
  moreover obtain p ps where ps: "?pairs = p # ps"
    using assms(3,4) by (cases "avalues held"; cases "avalues required") auto
  moreover have "set (map ?rel ?pairs) \<subseteq> {MUST, NO}" by auto
  ultimately show ?thesis
    using foldl_join_cases [of "?rel p" "map ?rel ps"] by (auto split: if_splits)
qed

lemma supporting_implications_eq:
  "\<exists>used. supporting_implications held required imps = Inr used \<and> set used \<subseteq> set imps \<and> distinct used"
proof (cases "is_unknown held \<or> is_unknown required")
  case False
  let ?path = "\<lambda>h r. case implication_path h r (implication_index imps) of Inr (Some chain) \<Rightarrow> chain | _ \<Rightarrow> []"
  have path: "bind_result (implication_path h r (implication_index imps))
      (\<lambda>p. Inr (case p of None \<Rightarrow> [] | Some chain \<Rightarrow> chain)) = Inr (?path h r)"
    and sub: "set (?path h r) \<subseteq> set imps" for h r
    using implication_path_correct [of h r imps] by (auto simp: search_result_def split: option.splits)
  have "map_result (\<lambda>(h, r). bind_result (implication_path h r (implication_index imps))
      (\<lambda>p. Inr (case p of None \<Rightarrow> [] | Some chain \<Rightarrow> chain)))
      (List.product (avalues held) (avalues required)) =
    Inr (map (\<lambda>(h, r). ?path h r) (List.product (avalues held) (avalues required)))"
    by (rule map_result_Inr) (simp only: case_prod_unfold path)
  with False sub show ?thesis
    by (auto simp: supporting_implications_def simp del: bind_result_simps(1))
qed (auto simp: supporting_implications_def)

end
