(* ===== verification/CfgGraph.thy ===== *)
theory CfgGraph
  imports Prelude "HOL-Library.While_Combinator"
begin

text \<open>
  The control-flow graph of one function and the questions asked of it (\<open>semantic/cfg.py\<close>: \<open>_Node\<close>,
  \<open>FunctionCfg\<close>, \<open>_dominators\<close>). Nodes are positions of the node list; edge sets are lists of
  positions. \<open>EntryNode\<close> is node 0, \<open>ExitNode\<close> node 1. Dominator sets are bit masks, as in the code.
  The source indexes \<open>normal\<close> and \<open>exceptional\<close> by node; a position outside the lists would raise
  there and has no edge here, and \<open>wf_cfg\<close>, which the builder keeps, excludes it.
\<close>

unbundle bit_operations_syntax

section \<open>Data\<close>

record control_context =
  conditions :: "string list"
  in_loop :: bool
  in_try :: bool
  catches :: "string list"
  on_exception_path :: bool

definition empty_context :: control_context where
  "empty_context = \<lparr>conditions = [], in_loop = False, in_try = False, catches = [], on_exception_path = False\<rparr>"

record cfg_node =
  n_kind :: string
  n_start :: int
  n_end :: int
  n_byte :: int
  n_context :: control_context
  n_condition :: string
  n_located :: bool

record function_cfg =
  c_start :: int
  c_end :: int
  c_available :: bool
  c_reason :: "string option"
  c_nodes :: "cfg_node list"
  c_normal :: "nat list list"
  c_exceptional :: "nat list list"
  c_dominators :: "nat \<rightharpoonup> int"

abbreviation (input) EntryNode :: nat where "EntryNode \<equiv> 0"
abbreviation (input) ExitNode :: nat where "ExitNode \<equiv> 1"

definition edges_at :: "nat list list \<Rightarrow> nat \<Rightarrow> nat list" where
  "edges_at g n = (if n < length g then g ! n else [])"

text \<open>\<open>_successors\<close>: the union of the normal and the exceptional edges.\<close>

definition successors :: "function_cfg \<Rightarrow> nat \<Rightarrow> nat list" where
  "successors cfg n = dedup (edges_at (c_normal cfg) n @ edges_at (c_exceptional cfg) n)"

definition wf_cfg :: "function_cfg \<Rightarrow> bool" where
  "wf_cfg cfg \<longleftrightarrow> 2 \<le> length (c_nodes cfg) \<and>
     length (c_normal cfg) = length (c_nodes cfg) \<and> length (c_exceptional cfg) = length (c_nodes cfg) \<and>
     (\<forall>ts \<in> set (c_normal cfg). \<forall>t \<in> set ts. t < length (c_nodes cfg)) \<and>
     (\<forall>ts \<in> set (c_exceptional cfg). \<forall>t \<in> set ts. t < length (c_nodes cfg))"

section \<open>Lines to nodes\<close>

text \<open>The key \<open>(end_line - start_line, start_byte, index)\<close> of the node a line may name.\<close>

type_synonym node_key = "int \<times> int \<times> nat"

fun nodes_at_from :: "int \<Rightarrow> nat \<Rightarrow> cfg_node list \<Rightarrow> node_key option \<Rightarrow> node_key option" where
  "nodes_at_from line i [] best = best"
| "nodes_at_from line i (n # ns) best =
     (if \<not> n_located n \<or> \<not> (n_start n \<le> line \<and> line \<le> n_end n) then nodes_at_from line (Suc i) ns best
      else let key = (n_end n - n_start n, n_byte n, i)
        in case best of
             None \<Rightarrow> nodes_at_from line (Suc i) ns (Some key)
           | Some b \<Rightarrow> nodes_at_from line (Suc i) ns (if key < b then Some key else Some b))"

definition node_at :: "function_cfg \<Rightarrow> int \<Rightarrow> nat option" where
  "node_at cfg line =
     (if \<not> c_available cfg then None
      else if line > c_end cfg then Some ExitNode
      else map_option (\<lambda>k. snd (snd k)) (nodes_at_from line 0 (c_nodes cfg) None))"

section \<open>Reachability and dominators\<close>

text \<open>\<open>_reaches\<close>: depth-first search with a stack, never entering a node of \<open>avoid\<close>.\<close>

function reaches_loop :: "function_cfg \<Rightarrow> nat \<Rightarrow> nat set \<Rightarrow> nat list \<Rightarrow> nat list \<Rightarrow> bool" where
  "reaches_loop cfg target avoid seen [] = False"
| "reaches_loop cfg target avoid seen (node # stack) =
     (if node = target then True
      else if node \<in> set seen then reaches_loop cfg target avoid seen stack
      else reaches_loop cfg target avoid (node # seen)
        (filter (\<lambda>n. n \<notin> avoid \<and> n \<notin> set (node # seen)) (successors cfg node) @ stack))"
  by pat_completeness auto

definition node_bound :: "function_cfg \<Rightarrow> nat" where
  "node_bound cfg = max (length (c_normal cfg)) (length (c_exceptional cfg))"

lemma successors_bound: "node_bound cfg \<le> n \<Longrightarrow> successors cfg n = []"
  by (simp add: successors_def edges_at_def node_bound_def)

definition unseen :: "nat \<Rightarrow> nat list \<Rightarrow> nat" where
  "unseen k seen = card ({..<k} - set seen)"

lemma unseen_decreases:
  assumes "n \<notin> set seen"
  shows "unseen k (n # seen) < unseen k seen \<or> k \<le> n \<and> unseen k (n # seen) = unseen k seen"
proof (cases "n < k")
  case True
  then have "{..<k} - set (n # seen) \<subset> {..<k} - set seen" using assms by auto
  then show ?thesis by (simp add: psubset_card_mono unseen_def del: list.set)
next
  case False
  then have "{..<k} - set (n # seen) = {..<k} - set seen" by auto
  with False show ?thesis by (simp add: unseen_def del: list.set)
qed

termination reaches_loop
proof (relation "measures [\<lambda>(cfg, t, a, seen, stack). unseen (node_bound cfg) seen,
    \<lambda>(cfg, t, a, seen, stack). length stack]", goal_cases)
  case (3 cfg target avoid seen node stack)
  then have "node \<notin> set seen" by simp
  from unseen_decreases [OF this, of "node_bound cfg"] show ?case
    by (elim disjE conjE) (simp_all add: successors_bound)
qed simp_all

definition reaches :: "function_cfg \<Rightarrow> nat list \<Rightarrow> nat \<Rightarrow> nat set \<Rightarrow> bool" where
  "reaches cfg starts target avoid = reaches_loop cfg target avoid [] (filter (\<lambda>n. n \<notin> avoid) starts)"

text \<open>
  The depth-first order of \<open>_dominators\<close>: an entry \<open>(node, True)\<close> of the stack appends the node, an
  entry \<open>(node, False)\<close> expands it. The result is the post-order; the code reverses it. The code's
  stack grows at its end: its last pushed entry, the least successor, is the head here.
\<close>

function dfs_loop :: "function_cfg \<Rightarrow> nat list \<Rightarrow> (nat \<times> bool) list \<Rightarrow> nat list \<Rightarrow> nat list" where
  "dfs_loop cfg seen [] order = order"
| "dfs_loop cfg seen ((node, True) # stack) order = dfs_loop cfg seen stack (order @ [node])"
| "dfs_loop cfg seen ((node, False) # stack) order =
     (if node \<in> set seen then dfs_loop cfg seen stack order
      else dfs_loop cfg (node # seen)
        (map (\<lambda>s. (s, False)) (filter (\<lambda>s. s \<notin> set (node # seen)) (sort (successors cfg node)))
           @ (node, True) # stack) order)"
  by pat_completeness auto

termination dfs_loop
proof (relation "measures [\<lambda>(cfg, seen, stack, ord). unseen (node_bound cfg) seen,
    \<lambda>(cfg, seen, stack, ord). sum_list (map (\<lambda>(n, d). if d then 1 else 2) stack)]", goal_cases)
  case (4 cfg seen node stack ord)
  then have "node \<notin> set seen" by simp
  from unseen_decreases [OF this, of "node_bound cfg"] show ?case
    by (elim disjE conjE) (simp_all add: successors_bound)
qed simp_all

definition dfs_order :: "function_cfg \<Rightarrow> nat list" where
  "dfs_order cfg = rev (dfs_loop cfg [] [(EntryNode, False)] [])"

definition predecessors :: "function_cfg \<Rightarrow> nat list \<Rightarrow> nat \<Rightarrow> nat list" where
  "predecessors cfg order n = filter (\<lambda>p. n \<in> set (successors cfg p)) order"

definition all_bits :: "nat list \<Rightarrow> int" where
  "all_bits order = foldl (\<lambda>e n. e OR push_bit n 1) 0 order"

definition meet_mask :: "function_cfg \<Rightarrow> nat list \<Rightarrow> (nat \<Rightarrow> int) \<Rightarrow> nat \<Rightarrow> int" where
  "meet_mask cfg order masks n =
     foldl (\<lambda>m p. m AND masks p) (all_bits order) (predecessors cfg order n) OR push_bit n 1"

text \<open>One pass of the inner loop over \<open>order[1:]\<close>; the flag is \<open>changed\<close>.\<close>

fun sweep :: "function_cfg \<Rightarrow> nat list \<Rightarrow> nat list \<Rightarrow> (nat \<Rightarrow> int) \<times> bool \<Rightarrow> (nat \<Rightarrow> int) \<times> bool" where
  "sweep cfg order [] s = s"
| "sweep cfg order (n # ns) (masks, changed) =
     (let m = meet_mask cfg order masks n
      in if m \<noteq> masks n then sweep cfg order ns (masks(n := m), True)
         else sweep cfg order ns (masks, changed))"

definition initial_masks :: "nat list \<Rightarrow> nat \<Rightarrow> int" where
  "initial_masks order = (\<lambda>_. all_bits order)(EntryNode := push_bit EntryNode 1)"

definition dominator_masks :: "function_cfg \<Rightarrow> ((nat \<Rightarrow> int) \<times> bool) option" where
  "dominator_masks cfg =
     (let order = dfs_order cfg
      in while_option snd (\<lambda>(masks, changed). sweep cfg order (tl order) (masks, False))
           (initial_masks order, True))"

text \<open>The dictionary: it has a mask for each node of the order.\<close>

definition compute_dominators :: "function_cfg \<Rightarrow> nat \<rightharpoonup> int" where
  "compute_dominators cfg =
     (case dominator_masks cfg of
        None \<Rightarrow> Map.empty
      | Some (masks, _) \<Rightarrow> (\<lambda>n. if n \<in> set (dfs_order cfg) then Some (masks n) else None))"

definition mask_dominates :: "function_cfg \<Rightarrow> nat \<Rightarrow> nat \<Rightarrow> bool" where
  "mask_dominates cfg a b = (case c_dominators cfg b of None \<Rightarrow> False | Some m \<Rightarrow> bit m a)"

section \<open>Walks and paths\<close>

text \<open>\<open>walk cfg A s t\<close>: some path from \<open>s\<close> to \<open>t\<close> visits no node of \<open>A\<close>.\<close>

inductive walk :: "function_cfg \<Rightarrow> nat set \<Rightarrow> nat \<Rightarrow> nat \<Rightarrow> bool" for cfg A where
  walk_here: "s \<notin> A \<Longrightarrow> walk cfg A s s"
| walk_step: "walk cfg A s t \<Longrightarrow> u \<in> set (successors cfg t) \<Longrightarrow> u \<notin> A \<Longrightarrow> walk cfg A s u"

fun is_path :: "function_cfg \<Rightarrow> nat list \<Rightarrow> bool" where
  "is_path cfg [] = False"
| "is_path cfg [x] = True"
| "is_path cfg (x # y # xs) \<longleftrightarrow> y \<in> set (successors cfg x) \<and> is_path cfg (y # xs)"

lemma walk_avoids: "walk cfg A s t \<Longrightarrow> s \<notin> A \<and> t \<notin> A"
  by (induction rule: walk.induct) auto

lemma walk_antimono: "walk cfg A s t \<Longrightarrow> B \<subseteq> A \<Longrightarrow> walk cfg B s t"
  by (induction rule: walk.induct) (auto intro: walk.intros)

lemma walk_trans: "walk cfg A t u \<Longrightarrow> walk cfg A s t \<Longrightarrow> walk cfg A s u"
  by (induction rule: walk.induct) (auto intro: walk.intros)

lemma walk_first:
  assumes "u \<in> set (successors cfg s)" "s \<notin> A" "walk cfg A u t"
  shows "walk cfg A s t"
proof -
  have "u \<notin> A" using walk_avoids [OF assms(3)] by blast
  then have "walk cfg A s u" using assms(1,2) by (meson walk.intros)
  then show ?thesis by (rule walk_trans [OF assms(3)])
qed

text \<open>Cutting a path at its last visit of \<open>x\<close>.\<close>

lemma walk_cut:
  assumes "walk cfg A s t" "t \<noteq> x"
  shows "walk cfg (insert x A) s t \<or> (\<exists>u \<in> set (successors cfg x). walk cfg (insert x A) u t)"
  using assms
proof (induction rule: walk.induct)
  case (walk_here s)
  then show ?case by (simp add: walk.walk_here)
next
  case (walk_step s t u)
  show ?case
  proof (cases "t = x")
    case True
    with walk_step have "walk cfg (insert x A) u u" by (simp add: walk.walk_here)
    with True walk_step.hyps(2) show ?thesis by blast
  next
    case False
    have "u \<notin> insert x A" using walk_step.prems walk_step.hyps(3) by blast
    with False walk_step.IH walk_step.hyps(2) show ?thesis by (meson walk.walk_step)
  qed
qed

lemma walk_from_first:
  assumes "x \<notin> A" "t \<noteq> x"
  shows "walk cfg A x t \<longleftrightarrow> (\<exists>u \<in> set (successors cfg x). walk cfg (insert x A) u t)"
proof
  assume "walk cfg A x t"
  from walk_cut [OF this assms(2)] show "\<exists>u \<in> set (successors cfg x). walk cfg (insert x A) u t"
    using walk_avoids by blast
next
  assume "\<exists>u \<in> set (successors cfg x). walk cfg (insert x A) u t"
  then show "walk cfg A x t"
    by (meson assms(1) subset_insertI walk_antimono walk_first)
qed

text \<open>One step of a search: expanding \<open>x\<close> keeps the set of nodes still to be found.\<close>

lemma walk_expand:
  assumes "x \<notin> A" "t \<noteq> x"
  shows "(\<exists>s \<in> insert x S. walk cfg A s t) \<longleftrightarrow>
    (\<exists>s \<in> {u \<in> set (successors cfg x). u \<notin> insert x A} \<union> S. walk cfg (insert x A) s t)"
  using walk_from_first [OF assms, of cfg] walk_cut [OF _ assms(2), of cfg A] walk_avoids [of cfg "insert x A"]
    walk_antimono [of cfg "insert x A" _ t A]
  by blast

lemma is_path_append:
  "is_path cfg p \<Longrightarrow> is_path cfg (p @ [u]) \<longleftrightarrow> u \<in> set (successors cfg (last p))"
  by (induction cfg p rule: is_path.induct) auto

lemma is_path_nonempty: "is_path cfg p \<Longrightarrow> p \<noteq> []"
  by (cases p) auto

lemma walk_of_path: "is_path cfg p \<Longrightarrow> set p \<inter> A = {} \<Longrightarrow> walk cfg A (hd p) (last p)"
proof (induction cfg p rule: is_path.induct)
  case (2 cfg x)
  then show ?case by (simp add: walk_here)
next
  case (3 cfg x y xs)
  then show ?case by (auto intro: walk_first)
qed simp

lemma walk_iff_path:
  "walk cfg A s t \<longleftrightarrow> (\<exists>p. is_path cfg p \<and> hd p = s \<and> last p = t \<and> set p \<inter> A = {})"
proof
  assume "walk cfg A s t"
  then show "\<exists>p. is_path cfg p \<and> hd p = s \<and> last p = t \<and> set p \<inter> A = {}"
  proof (induction rule: walk.induct)
    case (walk_here s)
    then show ?case by (intro exI [of _ "[s]"]) simp
  next
    case (walk_step s t u)
    then obtain p where "is_path cfg p" "hd p = s" "last p = t" "set p \<inter> A = {}" by blast
    with walk_step show ?case
      by (intro exI [of _ "p @ [u]"]) (simp add: is_path_append is_path_nonempty)
  qed
qed (auto dest: walk_of_path)

section \<open>Searching\<close>

lemma reaches_loop_correct:
  assumes "target \<notin> set seen" "set stack \<inter> avoid = {}"
  shows "reaches_loop cfg target avoid seen stack \<longleftrightarrow>
    (\<exists>s \<in> set stack. walk cfg (avoid \<union> set seen) s target)"
  using assms
proof (induction cfg target avoid seen stack rule: reaches_loop.induct)
  case (1 cfg target avoid seen)
  then show ?case by simp
next
  case (2 cfg target avoid seen node stack)
  show ?case
  proof (cases "node = target")
    case True
    with 2 show ?thesis by (auto intro: walk_here)
  next
    case new: False
    show ?thesis
    proof (cases "node \<in> set seen")
      case True
      with new 2 show ?thesis by (auto dest: walk_avoids)
    next
      case False
      then have "node \<notin> avoid \<union> set seen" using "2.prems" by auto
      note walk_expand [OF this, of target "set stack" cfg]
      moreover have "reaches_loop cfg target avoid seen (node # stack) \<longleftrightarrow>
        (\<exists>s \<in> {u \<in> set (successors cfg node). u \<notin> insert node (avoid \<union> set seen)} \<union> set stack.
           walk cfg (insert node (avoid \<union> set seen)) s target)"
        using "2.IH"(2) [OF new False] "2.prems" new False by (auto simp: Un_commute)
      ultimately show ?thesis using new by simp
    qed
  qed
qed

lemma reaches_correct: "reaches cfg starts target avoid \<longleftrightarrow> (\<exists>s \<in> set starts. walk cfg avoid s target)"
  using reaches_loop_correct [of target "[]" "filter (\<lambda>n. n \<notin> avoid) starts" avoid cfg]
  by (auto simp: reaches_def dest: walk_avoids)

section \<open>The depth-first order\<close>

definition done_nodes :: "(nat \<times> bool) list \<Rightarrow> nat list" where
  "done_nodes stack = map fst (filter snd stack)"

definition open_nodes :: "(nat \<times> bool) list \<Rightarrow> nat list" where
  "open_nodes stack = map fst (filter (\<lambda>x. \<not> snd x) stack)"

lemma stack_nodes [simp]:
  "done_nodes [] = []" "done_nodes ((n, True) # st) = n # done_nodes st" "done_nodes ((n, False) # st) = done_nodes st"
  "open_nodes [] = []" "open_nodes ((n, True) # st) = open_nodes st" "open_nodes ((n, False) # st) = n # open_nodes st"
  "done_nodes (map (\<lambda>s. (s, False)) xs @ st) = done_nodes st"
  "open_nodes (map (\<lambda>s. (s, False)) xs @ st) = xs @ open_nodes st"
  by (auto simp: done_nodes_def open_nodes_def filter_map comp_def)

lemma dfs_loop_set:
  "set (dfs_loop cfg seen stack order) =
     set order \<union> set (done_nodes stack) \<union> {n. \<exists>s \<in> set (open_nodes stack). walk cfg (set seen) s n}"
proof (induction cfg seen stack order rule: dfs_loop.induct)
  case (3 cfg seen node stack order)
  show ?case
  proof (cases "node \<in> set seen")
    case True
    with 3 show ?thesis by (auto dest: walk_avoids)
  next
    case False
    have "(\<exists>s \<in> insert node (set (open_nodes stack)). walk cfg (set seen) s n) \<longleftrightarrow> n = node \<or>
        (\<exists>s \<in> {u \<in> set (successors cfg node). u \<notin> insert node (set seen)} \<union> set (open_nodes stack).
           walk cfg (insert node (set seen)) s n)" for n
      by (cases "n = node") (use False walk_expand [of node "set seen" n] in \<open>auto intro: walk_here\<close>)
    then show ?thesis using "3.IH"(2) [OF False] False by auto
  qed
qed auto

lemma dfs_loop_distinct:
  assumes "distinct (order @ done_nodes stack)" "set (order @ done_nodes stack) \<subseteq> set seen"
  shows "distinct (dfs_loop cfg seen stack order)"
  using assms
proof (induction cfg seen stack order rule: dfs_loop.induct)
  case (3 cfg seen node stack order)
  then show ?case by (cases "node \<in> set seen") auto
qed auto

lemma dfs_loop_last: "dfs_loop cfg seen (stack @ [(r, True)]) order = dfs_loop cfg seen stack order @ [r]"
  by (induction cfg seen stack order rule: dfs_loop.induct) simp_all

text \<open>The order lists exactly the nodes reachable from the entry, each once, the entry first.\<close>

lemma dfs_order_props:
  "set (dfs_order cfg) = {n. walk cfg {} EntryNode n}"
  "distinct (dfs_order cfg)"
  "dfs_order cfg = EntryNode # tl (dfs_order cfg)"
proof -
  show "set (dfs_order cfg) = {n. walk cfg {} EntryNode n}"
    by (simp add: dfs_order_def dfs_loop_set del: dfs_loop.simps)
  show "distinct (dfs_order cfg)"
    using dfs_loop_distinct [of "[]" "[(EntryNode, False)]" "[]" cfg] by (simp add: dfs_order_def del: dfs_loop.simps)
  obtain xs where "dfs_loop cfg [] [(EntryNode, False)] [] = xs @ [EntryNode]"
    by (simp add: dfs_loop_last)
  then show "dfs_order cfg = EntryNode # tl (dfs_order cfg)" by (simp add: dfs_order_def)
qed

section \<open>The dominator fixpoint\<close>

lemma bit_meet: "bit (foldl (\<lambda>m p. m AND masks p) (e::int) ps) k \<longleftrightarrow> bit e k \<and> (\<forall>p \<in> set ps. bit (masks p) k)"
  by (induction ps arbitrary: e) (auto simp: bit_and_iff)

lemma bit_single: "bit (push_bit n (1::int)) k \<longleftrightarrow> k = n"
  by (auto simp: bit_exp_iff)

lemma bit_all_bits [simp]: "bit (all_bits order) k \<longleftrightarrow> k \<in> set order"
proof -
  have "bit (foldl (\<lambda>e n. e OR push_bit n 1) e order) k \<longleftrightarrow> bit e k \<or> k \<in> set order" for e :: int
    by (induction order arbitrary: e) (auto simp: bit_or_iff bit_single simp del: push_bit_of_1)
  then show ?thesis by (simp add: all_bits_def)
qed

lemma bit_meet_mask:
  "bit (meet_mask cfg order masks n) k \<longleftrightarrow>
     k = n \<or> k \<in> set order \<and> (\<forall>p \<in> set order. n \<in> set (successors cfg p) \<longrightarrow> bit (masks p) k)"
  by (auto simp: meet_mask_def bit_or_iff bit_meet bit_single predecessors_def simp del: push_bit_of_1)

lemma all_bits_nonneg: "0 \<le> all_bits order"
proof -
  have "0 \<le> e \<Longrightarrow> 0 \<le> foldl (\<lambda>e n. e OR push_bit n 1) e order" for e :: int
    by (induction order arbitrary: e) (simp_all add: push_bit_nonnegative_int_iff)
  then show ?thesis by (simp add: all_bits_def)
qed

lemma meet_mask_nonneg: "0 \<le> meet_mask cfg order masks n"
proof -
  have "0 \<le> e \<Longrightarrow> 0 \<le> foldl (\<lambda>m p. m AND masks p) e ps" for e :: int and ps
    by (induction ps arbitrary: e) simp_all
  then show ?thesis by (simp add: meet_mask_def all_bits_nonneg push_bit_nonnegative_int_iff)
qed

definition bits_below :: "int \<Rightarrow> int \<Rightarrow> bool" where
  "bits_below x y \<longleftrightarrow> (\<forall>k. bit x k \<longrightarrow> bit y k)"

lemma bits_below_less:
  assumes "bits_below x y" "x \<noteq> y" "0 \<le> y"
  shows "x < y"
proof -
  have "x AND y = x" using assms(1) by (auto simp: bits_below_def bit_eq_iff bit_and_iff)
  then have "x \<le> y" using AND_upper2 [OF assms(3), of x] by simp
  with assms(2) show ?thesis by simp
qed

text \<open>
  What every pass keeps: masks are not negative, a mask never gains a bit when it is recomputed, the
  entry keeps its own bit only, and no true dominator is lost.
\<close>

definition strictly_dominated :: "function_cfg \<Rightarrow> nat \<Rightarrow> nat \<Rightarrow> bool" where
  "strictly_dominated cfg a b \<longleftrightarrow> walk cfg {} EntryNode b \<and> \<not> walk cfg {a} EntryNode b"

definition masks_inv :: "function_cfg \<Rightarrow> (nat \<Rightarrow> int) \<Rightarrow> bool" where
  "masks_inv cfg masks \<longleftrightarrow>
     (\<forall>n. 0 \<le> masks n) \<and> masks EntryNode = 1 \<and>
     (\<forall>n \<in> set (tl (dfs_order cfg)). bits_below (meet_mask cfg (dfs_order cfg) masks n) (masks n)) \<and>
     (\<forall>a b. strictly_dominated cfg a b \<longrightarrow> bit (masks b) a)"

lemma strictly_dominated_reachable:
  assumes "strictly_dominated cfg a b"
  shows "walk cfg {} EntryNode a"
proof (rule ccontr)
  assume not_reached: "\<not> walk cfg {} EntryNode a"
  have "walk cfg {} s t \<Longrightarrow> s = EntryNode \<Longrightarrow> walk cfg {a} s t" for s t
  proof (induction rule: walk.induct)
    case (walk_here s)
    then show ?case using not_reached walk.walk_here [of s "{}" cfg] by (auto intro: walk.walk_here)
  next
    case (walk_step s t u)
    then have "u \<noteq> a" using not_reached walk.walk_step [OF walk_step.hyps] by blast
    with walk_step show ?case by (auto intro: walk.walk_step)
  qed
  with assms show False by (auto simp: strictly_dominated_def)
qed

lemma strictly_dominated_meet:
  assumes "strictly_dominated cfg a b" "\<forall>a b. strictly_dominated cfg a b \<longrightarrow> bit (masks b) a"
  shows "bit (meet_mask cfg (dfs_order cfg) masks b) a"
proof (cases "a = b")
  case False
  have "strictly_dominated cfg a p" if "walk cfg {} EntryNode p" "b \<in> set (successors cfg p)" for p
    using assms(1) that False walk_step [of cfg "{a}" EntryNode p b] by (auto simp: strictly_dominated_def)
  moreover have "walk cfg {} EntryNode a" by (rule strictly_dominated_reachable [OF assms(1)])
  ultimately show ?thesis using assms(2) by (auto simp: bit_meet_mask dfs_order_props(1))
qed (simp add: bit_meet_mask)

lemma meet_mask_antimono:
  assumes "\<And>p. bits_below (masks' p) (masks p)"
  shows "bits_below (meet_mask cfg order masks' n) (meet_mask cfg order masks n)"
  using assms by (auto simp: bits_below_def bit_meet_mask)

lemma masks_inv_step:
  assumes inv: "masks_inv cfg masks" and n: "n \<in> set (tl (dfs_order cfg))"
  defines "m \<equiv> meet_mask cfg (dfs_order cfg) masks n"
  shows "masks_inv cfg (masks(n := m))"
proof -
  have entry: "n \<noteq> EntryNode"
    using n dfs_order_props(2,3) [of cfg] by (metis distinct.simps(2))
  have below: "bits_below m (masks n)" using inv n by (simp add: masks_inv_def m_def)
  have shrink: "bits_below ((masks(n := m)) p) (masks p)" for p
    using below by (simp add: bits_below_def)
  have meet: "bits_below (meet_mask cfg (dfs_order cfg) (masks(n := m)) b) (meet_mask cfg (dfs_order cfg) masks b)" for b
    by (rule meet_mask_antimono) (rule shrink)
  have "bits_below (meet_mask cfg (dfs_order cfg) (masks(n := m)) b) ((masks(n := m)) b)"
    if b: "b \<in> set (tl (dfs_order cfg))" for b
  proof (cases "b = n")
    case True
    with meet [of n] show ?thesis by (simp add: m_def)
  next
    case False
    have "bits_below (meet_mask cfg (dfs_order cfg) masks b) (masks b)" using inv b by (simp add: masks_inv_def)
    with meet [of b] False show ?thesis by (auto simp: bits_below_def)
  qed
  moreover have "bit ((masks(n := m)) b) a" if "strictly_dominated cfg a b" for a b
    using that inv strictly_dominated_meet [OF that, of masks] by (auto simp: masks_inv_def m_def)
  ultimately show ?thesis
    using inv entry meet_mask_nonneg by (auto simp: masks_inv_def m_def)
qed

definition mask_weight :: "nat list \<Rightarrow> (nat \<Rightarrow> int) \<Rightarrow> nat" where
  "mask_weight order masks = sum_list (map (\<lambda>n. nat (masks n)) order)"

lemma mask_weight_update:
  assumes "n \<in> set order" "0 \<le> m" "m < masks n"
  shows "mask_weight order (masks(n := m)) < mask_weight order masks"
proof -
  have le: "mask_weight xs (masks(n := m)) \<le> mask_weight xs masks" for xs
    using assms by (induction xs) (auto simp: mask_weight_def)
  from assms(1) show ?thesis
  proof (induction order)
    case (Cons x xs)
    then show ?case using le [of xs] assms(2,3) by (cases "x = n") (auto simp: mask_weight_def)
  qed simp
qed

lemma sweep_props:
  assumes "masks_inv cfg masks" "set ns \<subseteq> set (tl (dfs_order cfg))"
    "sweep cfg (dfs_order cfg) ns (masks, c) = (masks', c')"
  shows "masks_inv cfg masks' \<and>
    (masks' = masks \<and> c' = c \<and> (\<forall>n \<in> set ns. meet_mask cfg (dfs_order cfg) masks n = masks n) \<or>
     c' \<and> mask_weight (dfs_order cfg) masks' < mask_weight (dfs_order cfg) masks)"
  using assms
proof (induction ns arbitrary: masks c)
  case (Cons n ns)
  let ?m = "meet_mask cfg (dfs_order cfg) masks n"
  show ?case
  proof (cases "?m = masks n")
    case True
    with Cons show ?thesis by auto
  next
    case False
    have n: "n \<in> set (tl (dfs_order cfg))" using Cons.prems(2) by simp
    then have "bits_below ?m (masks n)" "0 \<le> masks n" using Cons.prems(1) by (simp_all add: masks_inv_def)
    with False have "?m < masks n" by (simp add: bits_below_less)
    moreover have "n \<in> set (dfs_order cfg)" using n dfs_order_props(3) [of cfg] by (metis list.set_intros(2))
    ultimately have "mask_weight (dfs_order cfg) (masks(n := ?m)) < mask_weight (dfs_order cfg) masks"
      using mask_weight_update [OF _ meet_mask_nonneg] by blast
    moreover have "sweep cfg (dfs_order cfg) ns (masks(n := ?m), True) = (masks', c')"
      "set ns \<subseteq> set (tl (dfs_order cfg))"
      using Cons.prems(2,3) False by (simp_all add: Let_def del: fun_upd_apply)
    ultimately show ?thesis
      using Cons.IH [OF masks_inv_step [OF Cons.prems(1) n], of True] by (metis less_trans)
  qed
qed auto

lemma initial_masks_inv: "masks_inv cfg (initial_masks (dfs_order cfg))"
proof -
  have "bit (initial_masks (dfs_order cfg) b) a" if dom: "strictly_dominated cfg a b" for a b
  proof (cases "b = EntryNode \<and> a \<noteq> EntryNode")
    case True
    with dom show ?thesis by (auto simp: strictly_dominated_def intro: walk_here)
  next
    case False
    with strictly_dominated_reachable [OF dom] show ?thesis
      by (auto simp: initial_masks_def dfs_order_props(1))
  qed
  moreover have "n \<noteq> EntryNode \<and> n \<in> set (dfs_order cfg)" if "n \<in> set (tl (dfs_order cfg))" for n
    using that dfs_order_props(2,3) [of cfg] by (metis distinct.simps(2) list.set_intros(2))
  ultimately show ?thesis
    by (auto simp: masks_inv_def initial_masks_def all_bits_nonneg bits_below_def bit_meet_mask)
qed

text \<open>The loop ends, its invariant holds at the end, and every mask is then a fixpoint.\<close>

lemma dominator_masks_total:
  "\<exists>masks. dominator_masks cfg = Some (masks, False) \<and> masks_inv cfg masks \<and>
     (\<forall>n \<in> set (tl (dfs_order cfg)). meet_mask cfg (dfs_order cfg) masks n = masks n)"
proof -
  let ?step = "\<lambda>(masks, changed). sweep cfg (dfs_order cfg) (tl (dfs_order cfg)) (masks, False)"
  let ?P = "\<lambda>(masks, changed). masks_inv cfg masks \<and>
    (\<not> changed \<longrightarrow> (\<forall>n \<in> set (tl (dfs_order cfg)). meet_mask cfg (dfs_order cfg) masks n = masks n))"
  let ?f = "\<lambda>(masks, changed). 2 * mask_weight (dfs_order cfg) masks + (if changed then 1 else 0)"
  let ?s0 = "(initial_masks (dfs_order cfg), True)"
  have step: "?P (?step s) \<and> ?f (?step s) < ?f s" if inv: "?P s" and ch: "snd s" for s
  proof -
    obtain masks where s: "s = (masks, True)" using ch by (cases s) auto
    obtain masks' c' where r: "sweep cfg (dfs_order cfg) (tl (dfs_order cfg)) (masks, False) = (masks', c')"
      by fastforce
    have "masks_inv cfg masks" using inv s by simp
    from sweep_props [OF this subset_refl r] show ?thesis by (auto simp: s r)
  qed
  have P0: "?P ?s0" by (simp add: initial_masks_inv)
  have "\<exists>t. while_option snd ?step ?s0 = Some t"
    by (rule measure_while_option_Some [where P = ?P and f = ?f]) (use step P0 in auto)
  then obtain t where t: "while_option snd ?step ?s0 = Some t" by blast
  have "?P t" by (rule while_option_rule [OF _ t, of ?P]) (use step P0 in auto)
  moreover have "\<not> snd t" by (rule while_option_stop [OF t])
  moreover have "dominator_masks cfg = Some t" using t by (simp add: dominator_masks_def)
  ultimately show ?thesis by (cases t) auto
qed

lemma fixpoint_exact:
  assumes inv: "masks_inv cfg masks"
    and fixed: "\<forall>n \<in> set (tl (dfs_order cfg)). meet_mask cfg (dfs_order cfg) masks n = masks n"
    and b: "walk cfg {} EntryNode b"
  shows "bit (masks b) a \<longleftrightarrow> strictly_dominated cfg a b"
proof
  assume "strictly_dominated cfg a b"
  with inv show "bit (masks b) a" by (simp add: masks_inv_def)
next
  have "\<not> bit (masks t) a" if "walk cfg {a} s t" "s = EntryNode" for s t
    using that
  proof (induction rule: walk.induct)
    case (walk_here s)
    then show ?case using inv by (auto simp: masks_inv_def bit_1_iff)
  next
    case (walk_step s t u)
    have reached: "walk cfg {} EntryNode t" "walk cfg {} EntryNode u"
      using walk_step.hyps walk_step.prems walk_antimono [of cfg "{a}" s t "{}"] walk.walk_step by blast+
    show ?case
    proof (cases "u = EntryNode")
      case True
      with walk_step.hyps(3) inv show ?thesis by (auto simp: masks_inv_def bit_1_iff)
    next
      case False
      with reached(2) have "u \<in> set (tl (dfs_order cfg))"
        using dfs_order_props(1,3) [of cfg] by (metis mem_Collect_eq set_ConsD)
      then have "bit (masks u) a \<longleftrightarrow> bit (meet_mask cfg (dfs_order cfg) masks u) a" using fixed by simp
      with walk_step reached show ?thesis by (auto simp: bit_meet_mask dfs_order_props(1))
    qed
  qed
  moreover assume "bit (masks b) a"
  ultimately show "strictly_dominated cfg a b" using b by (auto simp: strictly_dominated_def)
qed

text \<open>
  C6. The computed masks are exact: a reachable node has a mask, its bits are the nodes that lie on
  every path from the entry to it, and an unreachable node has none.
\<close>

theorem compute_dominators_exact:
  "case compute_dominators cfg b of
     None \<Rightarrow> \<not> (\<exists>p. is_path cfg p \<and> hd p = EntryNode \<and> last p = b)
   | Some m \<Rightarrow> (\<exists>p. is_path cfg p \<and> hd p = EntryNode \<and> last p = b) \<and>
       (\<forall>a. bit m a \<longleftrightarrow> (\<forall>p. is_path cfg p \<and> hd p = EntryNode \<and> last p = b \<longrightarrow> a \<in> set p))"
proof -
  obtain masks where m: "dominator_masks cfg = Some (masks, False)" "masks_inv cfg masks"
    "\<forall>n \<in> set (tl (dfs_order cfg)). meet_mask cfg (dfs_order cfg) masks n = masks n"
    using dominator_masks_total by blast
  have "bit (masks b) a \<longleftrightarrow> strictly_dominated cfg a b" if "walk cfg {} EntryNode b" for a
    by (rule fixpoint_exact [OF m(2,3) that])
  then show ?thesis
    by (auto simp: compute_dominators_def m(1) dfs_order_props(1) strictly_dominated_def walk_iff_path)
qed

end
