(* ===== verification/PyText.thy ===== *)
theory PyText
  imports Prelude
begin

text \<open>
  The string operations and the regular expressions of the source. A Python string is a \<open>string\<close>
  here, its characters the code points up to 255; \<open>\s\<close> and \<open>\w\<close> are the classes of Python's \<open>re\<close> on
  those code points. Matching is backtracking with greedy repetition, as \<open>re\<close> does it: \<open>rmatch\<close> lists
  the matches in the order in which \<open>re\<close> tries them, and the first one is the result.
\<close>

section \<open>Character classes\<close>

definition code :: "char \<Rightarrow> nat" where
  "code c = of_char c"

definition py_space :: "char \<Rightarrow> bool" where
  "py_space c \<longleftrightarrow> (let n = code c in 9 \<le> n \<and> n \<le> 13 \<or> 28 \<le> n \<and> n \<le> 32 \<or> n = 133 \<or> n = 160)"

definition ascii_letter :: "char \<Rightarrow> bool" where
  "ascii_letter c \<longleftrightarrow> (let n = code c in 65 \<le> n \<and> n \<le> 90 \<or> 97 \<le> n \<and> n \<le> 122)"

definition ascii_digit :: "char \<Rightarrow> bool" where
  "ascii_digit c \<longleftrightarrow> (let n = code c in 48 \<le> n \<and> n \<le> 57)"

text \<open>\<open>str.isalnum\<close> of one character, or the underscore.\<close>

definition py_word :: "char \<Rightarrow> bool" where
  "py_word c \<longleftrightarrow> (let n = code c in ascii_letter c \<or> ascii_digit c \<or> n = 95 \<or>
     n \<in> {170, 178, 179, 181, 185, 186, 188, 189, 190} \<or> 192 \<le> n \<and> n \<noteq> 215 \<and> n \<noteq> 247)"

section \<open>Strings\<close>

definition lstrip_by :: "(char \<Rightarrow> bool) \<Rightarrow> string \<Rightarrow> string" where
  "lstrip_by p s = dropWhile p s"

definition rstrip_by :: "(char \<Rightarrow> bool) \<Rightarrow> string \<Rightarrow> string" where
  "rstrip_by p s = rev (dropWhile p (rev s))"

definition strip :: "string \<Rightarrow> string" where
  "strip s = rstrip_by py_space (lstrip_by py_space s)"

definition starts_with :: "string \<Rightarrow> string \<Rightarrow> bool" where
  "starts_with p s \<longleftrightarrow> take (length p) s = p"

text \<open>\<open>s.split()\<close>: the maximal runs of characters that are not white space.\<close>

fun split_runs :: "(char \<Rightarrow> bool) \<Rightarrow> string \<Rightarrow> string \<Rightarrow> string list" where
  "split_runs sep run [] = (if run = [] then [] else [rev run])"
| "split_runs sep run (c # cs) =
     (if sep c then (if run = [] then split_runs sep [] cs else rev run # split_runs sep [] cs)
      else split_runs sep (c # run) cs)"

definition split_ws :: "string \<Rightarrow> string list" where
  "split_ws s = split_runs py_space [] s"

fun join_with :: "string \<Rightarrow> string list \<Rightarrow> string" where
  "join_with sep [] = []"
| "join_with sep [x] = x"
| "join_with sep (x # y # ys) = x @ sep @ join_with sep (y # ys)"

text \<open>\<open>s.split(c, 1)[0]\<close>, and the last part of \<open>re.split("[class]+", s)\<close>.\<close>

definition before_char :: "char \<Rightarrow> string \<Rightarrow> string" where
  "before_char c s = takeWhile (\<lambda>x. x \<noteq> c) s"

definition after_last :: "(char \<Rightarrow> bool) \<Rightarrow> string \<Rightarrow> string" where
  "after_last p s = rev (takeWhile (\<lambda>x. \<not> p x) (rev s))"

text \<open>\<open>_flat\<close>: white space collapsed, at most 160 characters.\<close>

definition flat :: "string \<Rightarrow> string" where
  "flat s = (let f = join_with '' '' (split_ws s) in if length f \<le> 160 then f else take 157 f @ ''...'')"

lemma flat_bounded: "length (flat s) \<le> 160"
  by (simp add: flat_def Let_def)

section \<open>Regular expressions\<close>

datatype regex =
    RChar "char \<Rightarrow> bool"
  | RStar "char \<Rightarrow> bool"
  | REps
  | RSeq regex regex
  | RAlt regex regex
  | ROpt regex
  | RGroup regex
  | RNotAhead regex
  | RNotBehind "char \<Rightarrow> bool"

text \<open>A match state: the characters before the position, last first; those after it; the group.\<close>

type_synonym match_state = "string \<times> string \<times> string option"

fun star_states :: "(char \<Rightarrow> bool) \<Rightarrow> string \<Rightarrow> string \<Rightarrow> string option \<Rightarrow> match_state list" where
  "star_states p behind [] g = [(behind, [], g)]"
| "star_states p behind (c # cs) g =
     (if p c then star_states p (c # behind) cs g else []) @ [(behind, c # cs, g)]"

fun rmatch :: "regex \<Rightarrow> match_state \<Rightarrow> match_state list" where
  "rmatch (RChar p) (behind, rest, g) =
     (case rest of [] \<Rightarrow> [] | c # cs \<Rightarrow> if p c then [(c # behind, cs, g)] else [])"
| "rmatch (RStar p) (behind, rest, g) = star_states p behind rest g"
| "rmatch REps s = [s]"
| "rmatch (RSeq r1 r2) s = concat (map (rmatch r2) (rmatch r1 s))"
| "rmatch (RAlt r1 r2) s = rmatch r1 s @ rmatch r2 s"
| "rmatch (ROpt r) s = rmatch r s @ [s]"
| "rmatch (RGroup r) (behind, rest, g) =
     map (\<lambda>(b', r', g'). (b', r', Some (take (length rest - length r') rest))) (rmatch r (behind, rest, g))"
| "rmatch (RNotAhead r) s = (if rmatch r s = [] then [s] else [])"
| "rmatch (RNotBehind p) (behind, rest, g) =
     (case behind of [] \<Rightarrow> [(behind, rest, g)] | c # cs \<Rightarrow> if p c then [] else [(behind, rest, g)])"

definition RPlus :: "(char \<Rightarrow> bool) \<Rightarrow> regex" where
  "RPlus p = RSeq (RChar p) (RStar p)"

fun RLit :: "string \<Rightarrow> regex" where
  "RLit [] = REps"
| "RLit (c # cs) = RSeq (RChar (\<lambda>x. x = c)) (RLit cs)"

fun RSeqs :: "regex list \<Rightarrow> regex" where
  "RSeqs [] = REps"
| "RSeqs (r # rs) = RSeq r (RSeqs rs)"

fun RAlts :: "regex list \<Rightarrow> regex" where
  "RAlts [] = RChar (\<lambda>_. False)"
| "RAlts [r] = r"
| "RAlts (r # q # rs) = RAlt r (RAlts (q # rs))"

text \<open>\<open>re.match\<close> and \<open>re.search\<close>.\<close>

definition re_match :: "regex \<Rightarrow> string \<Rightarrow> match_state option" where
  "re_match r s = (case rmatch r ([], s, None) of [] \<Rightarrow> None | m # ms \<Rightarrow> Some m)"

fun re_search_from :: "regex \<Rightarrow> string \<Rightarrow> string \<Rightarrow> bool" where
  "re_search_from r behind [] = (rmatch r (behind, [], None) \<noteq> [])"
| "re_search_from r behind (c # cs) =
     (rmatch r (behind, c # cs, None) \<noteq> [] \<or> re_search_from r (c # behind) cs)"

definition re_search :: "regex \<Rightarrow> string \<Rightarrow> bool" where
  "re_search r s = re_search_from r [] s"

text \<open>A match never changes the text: it only moves the position forward.\<close>

lemma star_states_text: "(b, r, g') \<in> set (star_states p behind rest g) \<Longrightarrow>
    rev b @ r = rev behind @ rest \<and> length behind \<le> length b"
  by (induction p behind rest g rule: star_states.induct) (auto split: if_splits)

lemma rmatch_text:
  "(b', r', g') \<in> set (rmatch x (b, r, g)) \<Longrightarrow> rev b' @ r' = rev b @ r \<and> length b \<le> length b'"
proof (induction x arbitrary: b r g b' r' g')
  case (RSeq x y)
  then obtain b1 r1 g1 where "(b1, r1, g1) \<in> set (rmatch x (b, r, g))" "(b', r', g') \<in> set (rmatch y (b1, r1, g1))"
    by auto
  from RSeq.IH(1) [OF this(1)] RSeq.IH(2) [OF this(2)] show ?case by simp
next
  case (RGroup x)
  then show ?case by fastforce
qed (auto dest: star_states_text split: list.splits if_splits)

lemma rmatch_RLit: "rmatch (RLit w) (b, r, g) =
    (if take (length w) r = w then [(rev w @ b, drop (length w) r, g)] else [])"
  by (induction w arbitrary: b r) (auto split: list.splits)

lemma re_search_iff:
  "re_search r s \<longleftrightarrow> (\<exists>u v. s = u @ v \<and> rmatch r (rev u, v, None) \<noteq> [])"
proof -
  have "re_search_from r b s \<longleftrightarrow> (\<exists>u v. s = u @ v \<and> rmatch r (rev u @ b, v, None) \<noteq> [])" for b
  proof (induction s arbitrary: b)
    case (Cons c cs)
    have "(\<exists>u v. c # cs = u @ v \<and> rmatch r (rev u @ b, v, None) \<noteq> []) \<longleftrightarrow>
        rmatch r (b, c # cs, None) \<noteq> [] \<or> (\<exists>u v. cs = u @ v \<and> rmatch r (rev u @ c # b, v, None) \<noteq> [])"
      (is "?l \<longleftrightarrow> ?r")
    proof
      assume ?l
      then obtain u v where "c # cs = u @ v" "rmatch r (rev u @ b, v, None) \<noteq> []" by blast
      then show ?r by (cases u) auto
    next
      assume ?r
      then show ?l
      proof
        assume "rmatch r (b, c # cs, None) \<noteq> []"
        then show ?l by (intro exI [of _ "[]"] exI [of _ "c # cs"]) simp
      next
        assume "\<exists>u v. cs = u @ v \<and> rmatch r (rev u @ c # b, v, None) \<noteq> []"
        then obtain u v where "cs = u @ v" "rmatch r (rev u @ c # b, v, None) \<noteq> []" by blast
        then show ?l by (intro exI [of _ "c # u"] exI [of _ v]) simp
      qed
    qed
    with Cons.IH [of "c # b"] show ?case by simp
  qed simp
  then show ?thesis by (simp add: re_search_def)
qed

section \<open>The two patterns of the control-flow graph\<close>

definition name_char :: "char \<Rightarrow> bool" where
  "name_char c \<longleftrightarrow> py_word c \<or> c = CHR ''$''"

text \<open>\<open>(?<![\w$])name(?![\w$])\<close>\<close>

definition mentions_name :: "string \<Rightarrow> string \<Rightarrow> bool" where
  "mentions_name v s = re_search (RSeqs [RNotBehind name_char, RLit v, RNotAhead (RChar name_char)]) s"

definition assignment_regex :: regex where
  "assignment_regex = RSeqs
     [RStar py_space,
      ROpt (RSeq (RAlts (map RLit [''final'', ''const'', ''let'', ''var'', ''auto''])) (RPlus py_space)),
      ROpt (RSeq (RPlus (\<lambda>c. py_word c \<or> c \<in> set ''<>[],.?'')) (RPlus py_space)),
      RGroup (RSeqs [ROpt (RChar (\<lambda>c. c = CHR ''$'')), RChar (\<lambda>c. ascii_letter c \<or> c = CHR ''_''), RStar py_word]),
      RStar py_space,
      ROpt (RSeq (RChar (\<lambda>c. c = CHR '':'')) (RPlus (\<lambda>c. c \<noteq> CHR ''=''))),
      RChar (\<lambda>c. c = CHR ''=''),
      RNotAhead (RChar (\<lambda>c. c = CHR ''=''))]"

definition assigned_name :: "string \<Rightarrow> string" where
  "assigned_name s =
     (case re_match assignment_regex s of Some (_, _, Some g) \<Rightarrow> g | _ \<Rightarrow> [])"

lemma ex_append_iff: "(\<exists>w. x = v @ w \<and> P w) \<longleftrightarrow> take (length v) x = v \<and> P (drop (length v) x)"
  by (metis append_eq_conv_conj)

lemma mentions_name_iff:
  "mentions_name v s \<longleftrightarrow> (\<exists>u w. s = u @ v @ w \<and> (u = [] \<or> \<not> name_char (last u)) \<and> (w = [] \<or> \<not> name_char (hd w)))"
proof -
  have "rmatch (RSeqs [RNotBehind name_char, RLit v, RNotAhead (RChar name_char)]) (rev u, x, None) \<noteq> [] \<longleftrightarrow>
      (\<exists>w. x = v @ w \<and> (u = [] \<or> \<not> name_char (last u)) \<and> (w = [] \<or> \<not> name_char (hd w)))" for u x
    unfolding conj_assoc [symmetric] ex_append_iff
    by (cases u rule: rev_cases; cases "drop (length v) x") (auto simp: rmatch_RLit ex_append_iff split: if_splits)
  then show ?thesis unfolding mentions_name_def re_search_iff by auto
qed

lemma assigned_name_samples:
  "assigned_name ''$user = find($id);'' = ''$user''"
  "assigned_name ''final String role = ctx.role();'' = ''role''"
  "assigned_name ''ok: bool = check(x)'' = ''ok''"
  "assigned_name ''a == b'' = ''''"
  "assigned_name ''this.user = x'' = ''''"
  by code_simp+

section \<open>Lines, slices and paths\<close>

text \<open>\<open>str.splitlines\<close>: a carriage return and line feed are one boundary; no empty last line.\<close>

definition line_break :: "char \<Rightarrow> bool" where
  "line_break c \<longleftrightarrow> (let n = code c in 10 \<le> n \<and> n \<le> 13 \<or> 28 \<le> n \<and> n \<le> 30 \<or> n = 133)"

fun lines_from :: "string \<Rightarrow> string \<Rightarrow> string list" where
  "lines_from acc [] = (if acc = [] then [] else [rev acc])"
| "lines_from acc [c] = (if line_break c then [rev acc] else [rev (c # acc)])"
| "lines_from acc (c # d # cs) =
     (if code c = 13 \<and> code d = 10 then rev acc # lines_from [] cs
      else if line_break c then rev acc # lines_from [] (d # cs)
      else lines_from (c # acc) (d # cs))"

definition split_lines :: "string \<Rightarrow> string list" where
  "split_lines s = lines_from [] s"

text \<open>\<open>xs[a:b]\<close> with Python's rules for negative and large bounds.\<close>

definition slice_bound :: "nat \<Rightarrow> int \<Rightarrow> nat" where
  "slice_bound len i = (if i < 0 then nat (i + int len) else min (nat i) len)"

definition py_slice :: "int \<Rightarrow> int \<Rightarrow> 'a list \<Rightarrow> 'a list" where
  "py_slice a b xs =
     (let i = slice_bound (length xs) a; j = slice_bound (length xs) b in take (j - i) (drop i xs))"

lemma set_py_slice: "set (py_slice a b xs) \<subseteq> set xs"
  unfolding py_slice_def Let_def by (meson order_trans set_drop_subset set_take_subset)

text \<open>\<open>s.rpartition(sep)\<close> for a separator that is not empty.\<close>

fun rpartition_from :: "string \<Rightarrow> string \<Rightarrow> string \<Rightarrow> (string \<times> string) option" where
  "rpartition_from sep acc [] = None"
| "rpartition_from sep acc (c # cs) =
     (case rpartition_from sep (c # acc) cs of
        Some r \<Rightarrow> Some r
      | None \<Rightarrow> if starts_with sep (c # cs) then Some (rev acc, drop (length sep) (c # cs)) else None)"

definition rpartition :: "string \<Rightarrow> string \<Rightarrow> string \<times> string" where
  "rpartition sep s = (case rpartition_from sep [] s of Some r \<Rightarrow> r | None \<Rightarrow> ('''', s))"

fun split_on :: "char \<Rightarrow> string \<Rightarrow> string \<Rightarrow> string list" where
  "split_on sep acc [] = [rev acc]"
| "split_on sep acc (c # cs) = (if c = sep then rev acc # split_on sep [] cs else split_on sep (c # acc) cs)"

text \<open>\<open>Path(p).name\<close> and \<open>Path(p).stem\<close> on a POSIX system.\<close>

definition path_parts :: "string \<Rightarrow> string list" where
  "path_parts p = filter (\<lambda>x. x \<noteq> '''' \<and> x \<noteq> ''.'') (split_on (CHR ''/'') [] p)"

definition path_name :: "string \<Rightarrow> string" where
  "path_name p = (case rev (path_parts p) of [] \<Rightarrow> '''' | x # _ \<Rightarrow> x)"

definition path_stem :: "string \<Rightarrow> string" where
  "path_stem p =
     (let name = path_name p; suffix = takeWhile (\<lambda>c. c \<noteq> CHR ''.'') (rev name);
          i = length name - length suffix - 1
      in if CHR ''.'' \<in> set name \<and> 0 < i \<and> suffix \<noteq> [] then take i name else name)"

lemma path_samples:
  "path_stem ''src/app/UserController.java'' = ''UserController''"
  "path_stem ''.env'' = ''.env''" "path_stem ''a/b.tar.gz'' = ''b.tar''"
  "rpartition ''::'' ''a::b::c'' = (''a::b'', ''c'')" "rpartition ''::'' ''abc'' = ('''', ''abc'')"
  "split_lines [CHR ''a'', CHR 0x0D, CHR 0x0A, CHR ''b'', CHR 0x0A] = [''a'', ''b'']"
  "py_slice 1 (-1) [0::nat, 1, 2, 3] = [1, 2]"
  by code_simp+

section \<open>Decimal numbers\<close>

definition digit :: "nat \<Rightarrow> char" where
  "digit n = char_of (48 + n)"

fun show_nat :: "nat \<Rightarrow> string" where
  "show_nat n = (if n < 10 then [digit n] else show_nat (n div 10) @ [digit (n mod 10)])"

declare show_nat.simps [simp del]

definition show_int :: "int \<Rightarrow> string" where
  "show_int i = (if i < 0 then CHR ''-'' # show_nat (nat (- i)) else show_nat (nat i))"

fun read_nat :: "nat \<Rightarrow> string \<Rightarrow> nat" where
  "read_nat acc [] = acc"
| "read_nat acc (c # cs) = read_nat (10 * acc + (code c - 48)) cs"

lemma code_digit: "n < 10 \<Longrightarrow> code (digit n) = 48 + n"
  by (simp add: code_def digit_def)

lemma read_nat_append: "read_nat acc (xs @ ys) = read_nat (read_nat acc xs) ys"
  by (induction acc xs rule: read_nat.induct) auto

lemma read_show_nat: "read_nat 0 (show_nat n) = n"
proof (induction n rule: show_nat.induct)
  case (1 n)
  then show ?case
    by (subst show_nat.simps) (simp add: code_digit read_nat_append)
qed

lemma show_nat_inject [simp]: "show_nat m = show_nat n \<longleftrightarrow> m = n"
  by (metis read_show_nat)

lemma show_nat_digits: "c \<in> set (show_nat n) \<Longrightarrow> ascii_digit c"
proof (induction n rule: show_nat.induct)
  case (1 n)
  have "ascii_digit (digit k)" if "k < 10" for k using that by (simp add: ascii_digit_def code_digit)
  with 1 show ?case by (auto simp: show_nat.simps [of n] split: if_splits)
qed

lemma show_int_inject [simp]: "show_int i = show_int j \<longleftrightarrow> i = j"
proof -
  have "CHR ''-'' \<notin> set (show_nat n)" for n
    using show_nat_digits [of "CHR ''-''" n] by (auto simp: ascii_digit_def code_def)
  then have "show_nat n \<noteq> CHR ''-'' # xs" "CHR ''-'' # xs \<noteq> show_nat n" for n xs
    by (metis list.set_intros(1))+
  then show ?thesis by (auto simp: show_int_def)
qed

section \<open>Searches that return the match, and case\<close>

text \<open>Positive lookahead and \<open>$\<close>, which also matches before a final line feed.\<close>

definition RAhead :: "regex \<Rightarrow> regex" where
  "RAhead r = RNotAhead (RNotAhead r)"

definition REnd :: regex where
  "REnd = RAlt (RNotAhead (RChar (\<lambda>_. True)))
     (RAhead (RSeq (RChar (\<lambda>c. code c = 10)) (RNotAhead (RChar (\<lambda>_. True)))))"

text \<open>The text of the leftmost match, and its group.\<close>

fun re_find_from :: "regex \<Rightarrow> string \<Rightarrow> string \<Rightarrow> (string \<times> string option) option" where
  "re_find_from r behind rest =
     (case rmatch r (behind, rest, None) of
        (b, rest', g) # _ \<Rightarrow> Some (take (length rest - length rest') rest, g)
      | [] \<Rightarrow> (case rest of [] \<Rightarrow> None | c # cs \<Rightarrow> re_find_from r (c # behind) cs))"

declare re_find_from.simps [simp del]

definition re_find :: "regex \<Rightarrow> string \<Rightarrow> (string \<times> string option) option" where
  "re_find r s = re_find_from r [] s"

lemma re_find_from_None: "re_find_from r b s = None \<longleftrightarrow> \<not> re_search_from r b s"
  by (induction s arbitrary: b) (subst re_find_from.simps; simp split: list.splits)+

lemma re_find_None: "re_find r s = None \<longleftrightarrow> \<not> re_search r s"
  by (simp add: re_find_def re_search_def re_find_from_None)

text \<open>\<open>str.lower\<close> and \<open>str.upper\<close> on the characters of the model (code points below 256).\<close>

definition lower_char :: "char \<Rightarrow> char" where
  "lower_char c = (let n = code c in
     if 65 \<le> n \<and> n \<le> 90 \<or> 192 \<le> n \<and> n \<le> 222 \<and> n \<noteq> 215 then char_of (n + 32) else c)"

definition py_lower :: "string \<Rightarrow> string" where
  "py_lower = map lower_char"

text \<open>\<open>sub in s\<close> and \<open>s.endswith(suffix)\<close>.\<close>

definition contains_text :: "string \<Rightarrow> string \<Rightarrow> bool" where
  "contains_text sub s = list_ex (\<lambda>i. starts_with sub (drop i s)) [0..<Suc (length s)]"

definition ends_with :: "string \<Rightarrow> string \<Rightarrow> bool" where
  "ends_with suffix s \<longleftrightarrow> length suffix \<le> length s \<and> drop (length s - length suffix) s = suffix"

lemma ends_with_iff: "ends_with suffix s \<longleftrightarrow> (\<exists>u. s = u @ suffix)"
  by (auto simp: ends_with_def) (metis append_take_drop_id)

lemma contains_text_iff: "contains_text sub s \<longleftrightarrow> (\<exists>u v. s = u @ sub @ v)"
proof
  assume "contains_text sub s"
  then obtain i where "starts_with sub (drop i s)"
    by (auto simp: contains_text_def list_ex_iff simp del: upt_Suc)
  then have "drop i s = sub @ drop (length sub) (drop i s)"
    by (metis append_take_drop_id starts_with_def)
  then show "\<exists>u v. s = u @ sub @ v" by (metis append_take_drop_id)
next
  assume "\<exists>u v. s = u @ sub @ v"
  then obtain u v where "s = u @ sub @ v" by blast
  then have "starts_with sub (drop (length u) s)" "length u < Suc (length s)" by (simp_all add: starts_with_def)
  then show "contains_text sub s" by (auto simp: contains_text_def list_ex_iff simp del: upt_Suc)
qed

end
