(* ===== verification/CfgQueries.thy ===== *)
theory CfgQueries
  imports CfgGraph PyText
begin

text \<open>
  The questions \<open>FunctionCfg\<close> answers by line (\<open>semantic/cfg.py\<close>: \<open>dominates\<close>, \<open>relation\<close>, \<open>effect\<close>,
  \<open>context\<close>, \<open>_branch_effect\<close>, \<open>_arm_ends\<close>), and what the answers mean on the paths of the graph.
\<close>

section \<open>Questions\<close>

definition line_dominates :: "function_cfg \<Rightarrow> int \<Rightarrow> int \<Rightarrow> bool" where
  "line_dominates cfg a_line b_line =
     (case (node_at cfg a_line, node_at cfg b_line) of
        (Some a, Some b) \<Rightarrow> mask_dominates cfg a b
      | _ \<Rightarrow> False)"

definition cfg_relation :: "function_cfg \<Rightarrow> int \<Rightarrow> int \<Rightarrow> string option" where
  "cfg_relation cfg guard_line operation_line =
     (case (node_at cfg guard_line, node_at cfg operation_line) of
        (Some guard, Some operation) \<Rightarrow> Some
          (if guard_line > operation_line then ''after''
           else if mask_dominates cfg guard operation then ''all_paths''
           else if c_dominators cfg guard \<noteq> None \<and> reaches cfg [guard] operation {} then ''some_paths''
           else ''none'')
      | _ \<Rightarrow> None)"

definition jump_kinds :: "string set" where
  "jump_kinds = {''return'', ''throw'', ''break'', ''continue'', ''exit''}"

definition node_kind :: "function_cfg \<Rightarrow> nat \<Rightarrow> string" where
  "node_kind cfg n = (if n < length (c_nodes cfg) then n_kind (c_nodes cfg ! n) else '''')"

text \<open>\<open>_arm_ends\<close>: the kinds of jump the arm ends in, and whether it falls through to the exit.\<close>

function arm_loop :: "function_cfg \<Rightarrow> nat set \<Rightarrow> nat list \<Rightarrow> nat list \<Rightarrow> string list \<times> bool \<Rightarrow> string list \<times> bool" where
  "arm_loop cfg avoid seen [] r = r"
| "arm_loop cfg avoid seen (node # stack) (jumps, falls) =
     (if node \<in> set seen \<or> node \<in> avoid then arm_loop cfg avoid seen stack (jumps, falls)
      else if node_kind cfg node \<in> jump_kinds
      then arm_loop cfg avoid (node # seen) stack (node_kind cfg node # jumps, falls)
      else if node = ExitNode then arm_loop cfg avoid (node # seen) stack (jumps, True)
      else arm_loop cfg avoid (node # seen) (rev (edges_at (c_normal cfg) node) @ stack) (jumps, falls))"
  by pat_completeness auto

termination arm_loop
proof (relation "measures [\<lambda>(cfg, avoid, seen, stack, r). unseen (node_bound cfg) seen,
    \<lambda>(cfg, avoid, seen, stack, r). length stack]", goal_cases)
  case (3 cfg avoid seen node stack jumps falls)
  then have "node \<notin> set seen" by simp
  from unseen_decreases [OF this, of "node_bound cfg"] show ?case by (elim disjE conjE) simp_all
next
  case (4 cfg avoid seen node stack jumps falls)
  then have "node \<notin> set seen" by simp
  from unseen_decreases [OF this, of "node_bound cfg"] show ?case by (elim disjE conjE) simp_all
next
  case (5 cfg avoid seen node stack jumps falls)
  then have "node \<notin> set seen" by simp
  from unseen_decreases [OF this, of "node_bound cfg"] show ?case
    by (elim disjE conjE) (simp_all add: edges_at_def node_bound_def)
qed simp_all

definition arm_ends :: "function_cfg \<Rightarrow> nat \<Rightarrow> nat set \<Rightarrow> string list \<times> bool" where
  "arm_ends cfg start avoid = arm_loop cfg avoid [] [start] ([], False)"

text \<open>What the arm that cannot reach the operation does.\<close>

definition arm_effect :: "string list \<times> bool \<Rightarrow> string" where
  "arm_effect r =
     (let (jumps, falls) = r in
      if falls \<or> jumps = [] then ''branches''
      else if set jumps = {''throw''} then ''throws''
      else if set jumps \<inter> {''exit'', ''break'', ''continue''} \<noteq> {} then ''exits''
      else ''returns'')"

definition branch_effect :: "function_cfg \<Rightarrow> nat \<Rightarrow> nat \<Rightarrow> string option" where
  "branch_effect cfg branch operation =
     (let arms = sorted_set (edges_at (c_normal cfg) branch)
      in if node_kind cfg branch \<noteq> ''branch'' \<or> length arms < 2 \<or> branch = operation then None
         else let avoid = {branch};
             failing = filter (\<lambda>arm. \<not> reaches cfg [arm] operation avoid) arms;
             passing = filter (\<lambda>arm. arm \<notin> set failing) arms
           in if failing = [] \<or> passing = [] then None
              else Some (arm_effect (arm_ends cfg (hd failing) avoid)))"

definition node_condition :: "function_cfg \<Rightarrow> nat \<Rightarrow> string" where
  "node_condition cfg n = (if n < length (c_nodes cfg) then n_condition (c_nodes cfg ! n) else '''')"

text \<open>The loop of \<open>effect\<close> over later branches on the assigned variable: it takes the first effect.\<close>

fun variable_effect :: "function_cfg \<Rightarrow> string \<Rightarrow> nat \<Rightarrow> nat \<Rightarrow> nat list \<Rightarrow> string option" where
  "variable_effect cfg v guard operation [] = None"
| "variable_effect cfg v guard operation (i # is) =
     (if node_kind cfg i = ''branch'' \<and> i \<noteq> guard \<and> mentions_name v (node_condition cfg i) \<and>
         mask_dominates cfg guard i \<and> mask_dominates cfg i operation
      then (case branch_effect cfg i operation of
          Some e \<Rightarrow> Some e
        | None \<Rightarrow> variable_effect cfg v guard operation is)
      else variable_effect cfg v guard operation is)"

definition cfg_effect :: "function_cfg \<Rightarrow> int \<Rightarrow> int \<Rightarrow> bool \<Rightarrow> string option" where
  "cfg_effect cfg guard_line operation_line throwing =
     (case (node_at cfg guard_line, node_at cfg operation_line) of
        (Some guard, Some operation) \<Rightarrow>
          let found = (case branch_effect cfg guard operation of
              Some e \<Rightarrow> Some e
            | None \<Rightarrow> let v = assigned_name (node_condition cfg guard)
                in if v = '''' then None
                   else variable_effect cfg v guard operation [0..<length (c_nodes cfg)])
          in Some (case found of Some e \<Rightarrow> e | None \<Rightarrow> if throwing then ''throws'' else ''value_only'')
      | _ \<Rightarrow> None)"

definition cfg_context :: "function_cfg \<Rightarrow> int \<Rightarrow> control_context" where
  "cfg_context cfg line =
     (case node_at cfg line of Some n \<Rightarrow> n_context (c_nodes cfg ! n) | None \<Rightarrow> empty_context)"

section \<open>The node of a line\<close>

definition covers_line :: "int \<Rightarrow> cfg_node \<Rightarrow> bool" where
  "covers_line line n \<longleftrightarrow> n_located n \<and> n_start n \<le> line \<and> line \<le> n_end n"

definition key_of :: "cfg_node list \<Rightarrow> nat \<Rightarrow> node_key" where
  "key_of ns i = (n_end (ns ! i) - n_start (ns ! i), n_byte (ns ! i), i)"

definition take_min :: "'a::linorder option \<Rightarrow> 'a \<Rightarrow> 'a option" where
  "take_min best key = Some (case best of None \<Rightarrow> key | Some b \<Rightarrow> if key < b then key else b)"

lemma fold_take_min:
  "case foldl take_min best ks of
     None \<Rightarrow> best = None \<and> ks = []
   | Some m \<Rightarrow> m \<in> set_option best \<union> set ks \<and> (\<forall>k \<in> set_option best \<union> set ks. m \<le> k)"
proof (induction ks arbitrary: best)
  case Nil
  then show ?case by (cases best) simp_all
next
  case (Cons k ks)
  obtain m where m: "take_min best k = Some m" by (simp add: take_min_def)
  then have "m \<in> set_option best \<union> {k}" "\<forall>x \<in> set_option best \<union> {k}. m \<le> x"
    by (cases best; auto simp: take_min_def split: if_splits)+
  with Cons.IH [of "Some m"] m show ?case
    by (cases "foldl take_min (Some m) ks") auto
qed

fun covering_keys :: "int \<Rightarrow> nat \<Rightarrow> cfg_node list \<Rightarrow> node_key list" where
  "covering_keys line i [] = []"
| "covering_keys line i (n # ns) =
     (if covers_line line n then [(n_end n - n_start n, n_byte n, i)] else []) @ covering_keys line (Suc i) ns"

lemma nodes_at_from_fold: "nodes_at_from line i ns best = foldl take_min best (covering_keys line i ns)"
  by (induction line i ns best rule: nodes_at_from.induct)
    (auto simp: covers_line_def take_min_def Let_def split: option.splits)

lemma covering_keys_eq:
  "covering_keys line i ns =
     map (\<lambda>j. (n_end (ns ! j) - n_start (ns ! j), n_byte (ns ! j), i + j))
       (filter (\<lambda>j. covers_line line (ns ! j)) [0..<length ns])"
proof (induction ns arbitrary: i)
  case (Cons n ns)
  show ?case
    by (simp add: upt_conv_Cons filter_map comp_def map_Suc_upt [symmetric] Cons.IH del: upt_Suc)
qed simp

text \<open>
  A line names the narrowest located node that covers it, the earliest on a tie, and none when
  no node covers it; a line after the function names the exit, and without a graph none is named.
\<close>

theorem node_at_exact:
  "case node_at cfg line of
     None \<Rightarrow> \<not> c_available cfg \<or> line \<le> c_end cfg \<and> (\<forall>n \<in> set (c_nodes cfg). \<not> covers_line line n)
   | Some i \<Rightarrow> c_available cfg \<and>
       (if line > c_end cfg then i = ExitNode
        else i < length (c_nodes cfg) \<and> covers_line line (c_nodes cfg ! i) \<and>
          (\<forall>j < length (c_nodes cfg). covers_line line (c_nodes cfg ! j) \<longrightarrow>
             key_of (c_nodes cfg) i \<le> key_of (c_nodes cfg) j))"
proof (cases "c_available cfg \<and> line \<le> c_end cfg")
  case True
  let ?ks = "covering_keys line 0 (c_nodes cfg)"
  have set_ks: "set ?ks = key_of (c_nodes cfg) ` {j. j < length (c_nodes cfg) \<and> covers_line line (c_nodes cfg ! j)}"
    by (auto simp: covering_keys_eq key_of_def)
  have eq: "node_at cfg line = map_option (\<lambda>k. snd (snd k)) (foldl take_min None ?ks)"
    using True by (simp add: node_at_def nodes_at_from_fold)
  show ?thesis
  proof (cases "foldl take_min None ?ks")
    case None
    with fold_take_min [of None ?ks] have "?ks = []" by simp
    with set_ks have "\<forall>j < length (c_nodes cfg). \<not> covers_line line (c_nodes cfg ! j)" by auto
    with None eq True show ?thesis by (auto simp: in_set_conv_nth)
  next
    case (Some m)
    with fold_take_min [of None ?ks] have m: "m \<in> set ?ks" "\<forall>k \<in> set ?ks. m \<le> k" by auto
    then obtain i where i: "m = key_of (c_nodes cfg) i" "i < length (c_nodes cfg)" "covers_line line (c_nodes cfg ! i)"
      unfolding set_ks by auto
    then have "node_at cfg line = Some i" using eq Some by (simp add: key_of_def)
    with i m(2) True show ?thesis unfolding set_ks by auto
  qed
next
  case False
  then show ?thesis by (auto simp: node_at_def)
qed

section \<open>The relation of a guard to an operation\<close>

text \<open>The last step of \<open>from_cst\<close>: the graph is complete and its dominators are computed.\<close>

definition with_dominators :: "function_cfg \<Rightarrow> function_cfg" where
  "with_dominators cfg = cfg\<lparr>c_dominators := compute_dominators cfg\<rparr>"

lemma successors_with [simp]: "successors (cfg\<lparr>c_dominators := d\<rparr>) = successors cfg"
  by (rule ext) (simp add: successors_def)

lemma dfs_loop_with [simp]: "dfs_loop (cfg\<lparr>c_dominators := d\<rparr>) seen stack order = dfs_loop cfg seen stack order"
  by (induction cfg seen stack order rule: dfs_loop.induct) simp_all

lemma meet_mask_with [simp]: "meet_mask (cfg\<lparr>c_dominators := d\<rparr>) = meet_mask cfg"
  by (simp add: meet_mask_def predecessors_def fun_eq_iff)

lemma dfs_order_with [simp]: "dfs_order (cfg\<lparr>c_dominators := d\<rparr>) = dfs_order cfg"
  by (simp add: dfs_order_def del: dfs_loop.simps)

lemma sweep_with [simp]: "sweep (cfg\<lparr>c_dominators := d\<rparr>) order ns s = sweep cfg order ns s"
  by (induction cfg order ns s rule: sweep.induct) (simp_all add: Let_def)

lemma compute_with [simp]: "compute_dominators (cfg\<lparr>c_dominators := d\<rparr>) = compute_dominators cfg"
  by (simp add: compute_dominators_def dominator_masks_def split: option.split)

lemma with_dominators_ok: "c_dominators (with_dominators cfg) = compute_dominators (with_dominators cfg)"
  by (simp add: with_dominators_def)

definition entry_path :: "function_cfg \<Rightarrow> nat list \<Rightarrow> nat \<Rightarrow> bool" where
  "entry_path cfg p n \<longleftrightarrow> is_path cfg p \<and> hd p = EntryNode \<and> last p = n"

lemma mask_dominates_iff:
  assumes "c_dominators cfg = compute_dominators cfg"
  shows "mask_dominates cfg a b \<longleftrightarrow> (\<exists>p. entry_path cfg p b) \<and> (\<forall>p. entry_path cfg p b \<longrightarrow> a \<in> set p)"
  using compute_dominators_exact [of cfg b]
  by (auto simp: mask_dominates_def assms entry_path_def split: option.splits)

lemma is_path_append_path:
  "is_path cfg (p @ q) \<longleftrightarrow>
     (if p = [] then is_path cfg q else if q = [] then is_path cfg p
      else is_path cfg p \<and> hd q \<in> set (successors cfg (last p)) \<and> is_path cfg q)"
  by (induction cfg p rule: is_path.induct) (cases q; auto)+

lemma entry_path_through:
  "(\<exists>p. entry_path cfg p b \<and> a \<in> set p) \<longleftrightarrow> (\<exists>p. entry_path cfg p a) \<and> reaches cfg [a] b {}"
proof
  assume "\<exists>p. entry_path cfg p b \<and> a \<in> set p"
  then obtain p where p: "entry_path cfg p b" "a \<in> set p" by blast
  then obtain u v where uv: "p = u @ a # v" by (auto dest: split_list)
  then have "entry_path cfg (u @ [a]) a" using p(1)
    by (auto simp: entry_path_def is_path_append_path hd_append split: if_splits)
  moreover have "is_path cfg (a # v)" "last (a # v) = b" using p(1) uv
    by (auto simp: entry_path_def is_path_append_path split: if_splits)
  then have "walk cfg {} a b" using walk_of_path [of cfg "a # v" "{}"] by simp
  ultimately show "(\<exists>p. entry_path cfg p a) \<and> reaches cfg [a] b {}"
    by (auto simp: reaches_correct)
next
  assume "(\<exists>p. entry_path cfg p a) \<and> reaches cfg [a] b {}"
  then obtain p q where pq: "is_path cfg p" "hd p = EntryNode" "last p = a" "is_path cfg q" "hd q = a" "last q = b"
    by (auto simp: reaches_correct walk_iff_path entry_path_def)
  show "\<exists>p. entry_path cfg p b \<and> a \<in> set p"
  proof (cases "tl q")
    case Nil
    with pq have "a = b" by (cases q) auto
    with pq show ?thesis by (intro exI [of _ p]) (auto simp: entry_path_def is_path_nonempty dest: last_in_set)
  next
    case (Cons y ys)
    with pq have q: "q = a # y # ys" by (cases q) auto
    with pq have "is_path cfg (p @ y # ys)" by (simp add: is_path_append_path is_path_nonempty)
    moreover have "a \<in> set p" using pq(1,3) is_path_nonempty last_in_set by blast
    ultimately show ?thesis using pq q
      by (intro exI [of _ "p @ y # ys"]) (auto simp: entry_path_def is_path_nonempty)
  qed
qed

lemma cfg_relation_all_paths:
  assumes "c_dominators cfg = compute_dominators cfg"
    "node_at cfg guard_line = Some g" "node_at cfg operation_line = Some oper" "guard_line \<le> operation_line"
  shows "\<exists>r. cfg_relation cfg guard_line operation_line = Some r \<and>
    (r = ''all_paths'' \<longleftrightarrow> (\<exists>p. entry_path cfg p oper) \<and> (\<forall>p. entry_path cfg p oper \<longrightarrow> g \<in> set p)) \<and>
    (r = ''some_paths'' \<longleftrightarrow> (\<exists>p. entry_path cfg p oper \<and> g \<in> set p) \<and> (\<exists>p. entry_path cfg p oper \<and> g \<notin> set p)) \<and>
    (r = ''none'' \<longleftrightarrow> (\<forall>p. entry_path cfg p oper \<longrightarrow> g \<notin> set p))"
proof -
  have reached: "c_dominators cfg g \<noteq> None \<longleftrightarrow> (\<exists>p. entry_path cfg p g)"
    using compute_dominators_exact [of cfg g] by (auto simp: assms(1) entry_path_def split: option.splits)
  have through: "c_dominators cfg g \<noteq> None \<and> reaches cfg [g] oper {} \<longleftrightarrow> (\<exists>p. entry_path cfg p oper \<and> g \<in> set p)"
    unfolding reached entry_path_through ..
  have "cfg_relation cfg guard_line operation_line = Some
      (if (\<exists>p. entry_path cfg p oper) \<and> (\<forall>p. entry_path cfg p oper \<longrightarrow> g \<in> set p) then ''all_paths''
       else if \<exists>p. entry_path cfg p oper \<and> g \<in> set p then ''some_paths'' else ''none'')"
    unfolding cfg_relation_def mask_dominates_iff [OF assms(1)] through assms(2,3) prod.case option.case
    using assms(4) by (simp only: not_less if_False simp_thms leD)
  then show ?thesis by auto
qed

text \<open>
  C8. The relation of a guard to an operation below it says how the execution paths of the function
  pass the guard: \<open>all_paths\<close> when some path reaches the operation and every one visits the guard
  first, \<open>some_paths\<close> when some do and some do not, \<open>none\<close> when no path to the operation does.
\<close>

theorem cfg_relation_exact:
  assumes "c_dominators cfg = compute_dominators cfg"
    "node_at cfg guard_line = Some g" "node_at cfg operation_line = Some oper" "guard_line \<le> operation_line"
  shows "\<exists>r. cfg_relation cfg guard_line operation_line = Some r \<and>
    (r = ''all_paths'' \<longleftrightarrow> (\<exists>p. entry_path cfg p oper) \<and> (\<forall>p. entry_path cfg p oper \<longrightarrow> g \<in> set p)) \<and>
    (r = ''some_paths'' \<longleftrightarrow> (\<exists>p. entry_path cfg p oper \<and> g \<in> set p) \<and> (\<exists>p. entry_path cfg p oper \<and> g \<notin> set p)) \<and>
    (r = ''none'' \<longleftrightarrow> (\<forall>p. entry_path cfg p oper \<longrightarrow> g \<notin> set p))"
  by (rule cfg_relation_all_paths [OF assms])

section \<open>The effect of a failing guard\<close>

text \<open>The part of the graph an arm walks: normal edges only, and none out of a jump or the exit.\<close>

definition arm_stop :: "function_cfg \<Rightarrow> nat \<Rightarrow> bool" where
  "arm_stop cfg n \<longleftrightarrow> node_kind cfg n \<in> jump_kinds \<or> n = ExitNode"

definition arm_graph :: "function_cfg \<Rightarrow> function_cfg" where
  "arm_graph cfg = cfg\<lparr>c_normal := map (\<lambda>n. if arm_stop cfg n then [] else c_normal cfg ! n)
     [0..<length (c_normal cfg)], c_exceptional := []\<rparr>"

lemma successors_arm_graph:
  "set (successors (arm_graph cfg) n) = (if arm_stop cfg n then {} else set (edges_at (c_normal cfg) n))"
  by (cases "n < length (c_normal cfg)") (simp_all add: successors_def arm_graph_def edges_at_def)

definition arm_reach :: "function_cfg \<Rightarrow> nat set \<Rightarrow> nat set \<Rightarrow> nat \<Rightarrow> bool" where
  "arm_reach cfg A S t \<longleftrightarrow> (\<exists>s \<in> S. walk (arm_graph cfg) A s t)"

lemma arm_reach_empty [simp]: "\<not> arm_reach cfg A {} t"
  by (simp add: arm_reach_def)

lemma arm_reach_skip: "x \<in> A \<Longrightarrow> arm_reach cfg A (insert x S) t \<longleftrightarrow> arm_reach cfg A S t"
  by (auto simp: arm_reach_def dest: walk_avoids)

lemma arm_reach_step:
  assumes "x \<notin> A"
  shows "arm_reach cfg A (insert x S) t \<longleftrightarrow>
    t = x \<or> arm_reach cfg (insert x A) (set (successors (arm_graph cfg) x) \<union> S) t"
proof (cases "t = x")
  case True
  with assms show ?thesis by (auto simp: arm_reach_def intro: walk_here)
next
  case False
  from walk_expand [OF assms this, of S "arm_graph cfg"] show ?thesis
    using False by (auto simp: arm_reach_def dest: walk_avoids)
qed

lemma arm_loop_correct:
  assumes "arm_loop cfg avoid seen stack (jumps, falls) = (jumps', falls')"
  shows "set jumps' = set jumps \<union>
      {node_kind cfg n |n. node_kind cfg n \<in> jump_kinds \<and> arm_reach cfg (avoid \<union> set seen) (set stack) n} \<and>
    (falls' \<longleftrightarrow> falls \<or>
      node_kind cfg ExitNode \<notin> jump_kinds \<and> arm_reach cfg (avoid \<union> set seen) (set stack) ExitNode)"
  using assms
proof (induction cfg avoid seen stack "(jumps, falls)" arbitrary: jumps falls rule: arm_loop.induct)
  case (2 cfg avoid seen node stack jumps falls)
  let ?A = "avoid \<union> set seen"
  consider (skip) "node \<in> ?A" | (jump) "node \<notin> ?A" "node_kind cfg node \<in> jump_kinds"
    | (leave) "node \<notin> ?A" "node_kind cfg node \<notin> jump_kinds" "node = ExitNode"
    | (go) "node \<notin> ?A" "node_kind cfg node \<notin> jump_kinds" "node \<noteq> ExitNode" by blast
  then show ?case
  proof cases
    case skip
    then show ?thesis using "2.hyps"(1) "2.prems" by (auto simp: arm_reach_skip)
  next
    case jump
    then have "arm_loop cfg avoid (node # seen) stack (node_kind cfg node # jumps, falls) = (jumps', falls')"
      using "2.prems" by auto
    from "2.hyps"(2) [OF _ _ this] jump have IH: "set jumps' = insert (node_kind cfg node) (set jumps) \<union>
        {node_kind cfg n |n. node_kind cfg n \<in> jump_kinds \<and> arm_reach cfg (insert node ?A) (set stack) n} \<and>
      (falls' \<longleftrightarrow> falls \<or> node_kind cfg ExitNode \<notin> jump_kinds \<and> arm_reach cfg (insert node ?A) (set stack) ExitNode)"
      by auto
    have "arm_reach cfg ?A (set (node # stack)) t \<longleftrightarrow> t = node \<or> arm_reach cfg (insert node ?A) (set stack) t" for t
      using arm_reach_step [OF jump(1), of cfg "set stack" t] jump(2)
      by (simp add: successors_arm_graph arm_stop_def)
    with IH jump(2) show ?thesis by auto
  next
    case leave
    then have "arm_loop cfg avoid (node # seen) stack (jumps, True) = (jumps', falls')"
      using "2.prems" by auto
    from "2.hyps"(3) [OF _ _ _ this] leave have IH: "set jumps' = set jumps \<union>
        {node_kind cfg n |n. node_kind cfg n \<in> jump_kinds \<and> arm_reach cfg (insert node ?A) (set stack) n} \<and> falls'"
      by auto
    have "arm_reach cfg ?A (set (node # stack)) t \<longleftrightarrow> t = node \<or> arm_reach cfg (insert node ?A) (set stack) t" for t
      using arm_reach_step [OF leave(1), of cfg "set stack" t] leave(3)
      by (simp add: successors_arm_graph arm_stop_def)
    with IH leave show ?thesis by auto
  next
    case go
    then have "arm_loop cfg avoid (node # seen) (rev (edges_at (c_normal cfg) node) @ stack) (jumps, falls) = (jumps', falls')"
      using "2.prems" by auto
    from "2.hyps"(4) [OF _ _ _ this] go have IH: "set jumps' = set jumps \<union>
        {node_kind cfg n |n. node_kind cfg n \<in> jump_kinds \<and>
          arm_reach cfg (insert node ?A) (set (edges_at (c_normal cfg) node) \<union> set stack) n} \<and>
      (falls' \<longleftrightarrow> falls \<or> node_kind cfg ExitNode \<notin> jump_kinds \<and>
          arm_reach cfg (insert node ?A) (set (edges_at (c_normal cfg) node) \<union> set stack) ExitNode)"
      by auto
    have "arm_reach cfg ?A (set (node # stack)) t \<longleftrightarrow>
        t = node \<or> arm_reach cfg (insert node ?A) (set (edges_at (c_normal cfg) node) \<union> set stack) t" for t
      using arm_reach_step [OF go(1), of cfg "set stack" t] go(2,3)
      by (simp add: successors_arm_graph arm_stop_def)
    with IH go show ?thesis by auto
  qed
qed simp

lemma arm_ends_correct:
  "set (fst (arm_ends cfg start avoid)) =
     {node_kind cfg n |n. node_kind cfg n \<in> jump_kinds \<and> walk (arm_graph cfg) avoid start n}"
  "snd (arm_ends cfg start avoid) \<longleftrightarrow>
     node_kind cfg ExitNode \<notin> jump_kinds \<and> walk (arm_graph cfg) avoid start ExitNode"
proof -
  obtain J F where r: "arm_loop cfg avoid [] [start] ([], False) = (J, F)" by fastforce
  from arm_loop_correct [OF r] show
    "set (fst (arm_ends cfg start avoid)) =
       {node_kind cfg n |n. node_kind cfg n \<in> jump_kinds \<and> walk (arm_graph cfg) avoid start n}"
    "snd (arm_ends cfg start avoid) \<longleftrightarrow>
       node_kind cfg ExitNode \<notin> jump_kinds \<and> walk (arm_graph cfg) avoid start ExitNode"
    unfolding arm_ends_def r by (simp_all add: arm_reach_def)
qed

definition only_throws :: "function_cfg \<Rightarrow> nat \<Rightarrow> nat set \<Rightarrow> bool" where
  "only_throws cfg f A \<longleftrightarrow>
     (\<exists>n. node_kind cfg n = ''throw'' \<and> walk (arm_graph cfg) A f n) \<and>
     (\<forall>n. walk (arm_graph cfg) A f n \<and> arm_stop cfg n \<longrightarrow> node_kind cfg n = ''throw'')"

lemma arm_effect_throws:
  assumes "arm_effect (arm_ends cfg f A) = ''throws''"
  shows "only_throws cfg f A"
proof -
  obtain jumps falls where r: "arm_ends cfg f A = (jumps, falls)" by fastforce
  have "\<not> falls \<and> set jumps = {''throw''}"
    using assms unfolding r arm_effect_def by (simp split: if_splits)
  with r arm_ends_correct [of cfg f A]
  have kinds: "{node_kind cfg n |n. node_kind cfg n \<in> jump_kinds \<and> walk (arm_graph cfg) A f n} = {''throw''}"
    and fall: "\<not> (node_kind cfg ExitNode \<notin> jump_kinds \<and> walk (arm_graph cfg) A f ExitNode)"
    by simp_all
  have "node_kind cfg n = ''throw''" if "node_kind cfg n \<in> jump_kinds" "walk (arm_graph cfg) A f n" for n
    using kinds that by blast
  moreover have "''throw'' \<in> {node_kind cfg n |n. node_kind cfg n \<in> jump_kinds \<and> walk (arm_graph cfg) A f n}"
    unfolding kinds by (rule singletonI)
  then have "\<exists>n. node_kind cfg n = ''throw'' \<and> walk (arm_graph cfg) A f n" by force
  ultimately show ?thesis using fall unfolding only_throws_def arm_stop_def by blast
qed

lemma nested_if_Some: "(if P then None else if Q then None else Some x) = Some e \<longleftrightarrow> \<not> P \<and> \<not> Q \<and> e = x"
  by auto

text \<open>
  C9. An effect is reported only for a branch that decides the operation: one arm can reach the
  operation without passing the branch again and another cannot. \<open>throws\<close> is reported only when
  that other arm ends nowhere but in throws: it reaches one, no other jump and not the exit.
\<close>

theorem branch_effect_sound:
  assumes "branch_effect cfg b oper = Some e"
  shows "node_kind cfg b = ''branch'' \<and> b \<noteq> oper \<and>
    e \<in> {''throws'', ''returns'', ''exits'', ''branches''} \<and>
    (\<exists>f \<in> set (edges_at (c_normal cfg) b). \<exists>p \<in> set (edges_at (c_normal cfg) b).
       \<not> walk cfg {b} f oper \<and> walk cfg {b} p oper \<and>
       (e = ''throws'' \<longrightarrow> only_throws cfg f {b}))"
proof -
  let ?arms = "sorted_set (edges_at (c_normal cfg) b)"
  let ?failing = "filter (\<lambda>arm. \<not> reaches cfg [arm] oper {b}) ?arms"
  have c: "node_kind cfg b = ''branch''" "b \<noteq> oper" "?failing \<noteq> []"
      "filter (\<lambda>arm. arm \<notin> set ?failing) ?arms \<noteq> []"
    and e: "e = arm_effect (arm_ends cfg (hd ?failing) {b})"
    using assms unfolding branch_effect_def Let_def nested_if_Some by blast+
  have f: "hd ?failing \<in> set (edges_at (c_normal cfg) b)" "\<not> walk cfg {b} (hd ?failing) oper"
    using hd_in_set [OF c(3)] by (simp_all add: reaches_correct)
  obtain q where "q \<in> set ?arms" "q \<notin> set ?failing" using c(4) by (metis (lifting) filter_False)
  then have q: "q \<in> set (edges_at (c_normal cfg) b)" "walk cfg {b} q oper" by (auto simp: reaches_correct)
  have "e = ''throws'' \<longrightarrow> only_throws cfg (hd ?failing) {b}"
    unfolding e by (rule impI) (rule arm_effect_throws)
  moreover have "e \<in> {''throws'', ''returns'', ''exits'', ''branches''}"
    unfolding e arm_effect_def by (simp split: prod.split)
  ultimately show ?thesis using c(1,2) f q by blast
qed

end
