(* ===== verification/CfgBuilder.thy ===== *)
theory CfgBuilder
  imports CfgQueries
begin

text \<open>
  The construction of the graph from a syntax tree (\<open>semantic/cfg.py\<close>: \<open>_Builder\<close>, \<open>from_cst\<close> and the
  helpers on syntax nodes). A syntax node is what the code reads of a tree-sitter node; two nodes are
  compared by value. The builder's fields are a record that every step returns updated; frames and
  handlers are stacks, innermost first. A construct that is not modelled is \<open>Inl\<close> of the reason, as
  is the depth limit of the interpreter (\<open>RecursionError\<close>), which the recursion takes as a bound.
\<close>

section \<open>Syntax nodes\<close>

datatype cst = Cst (ty: string) (is_named: bool) (field_name: "string option")
  (row: int) (end_row: int) (byte: int) (node_text: string) (kids: "cst list")

definition line_of :: "cst \<Rightarrow> int" where
  "line_of n = row n + 1"

definition end_line_of :: "cst \<Rightarrow> int" where
  "end_line_of n = end_row n + 1"

definition named :: "cst \<Rightarrow> cst list" where
  "named n = filter is_named (kids n)"

definition children_by_field :: "string \<Rightarrow> cst \<Rightarrow> cst list" where
  "children_by_field f n = filter (\<lambda>c. field_name c = Some f) (kids n)"

definition child_by_field :: "string \<Rightarrow> cst \<Rightarrow> cst option" where
  "child_by_field f n = find (\<lambda>c. field_name c = Some f) (kids n)"

text \<open>\<open>a or b\<close> of two optional nodes.\<close>

definition or_else :: "'a option \<Rightarrow> 'a option \<Rightarrow> 'a option" where
  "or_else a b = (case a of None \<Rightarrow> b | Some x \<Rightarrow> Some x)"

definition comment_types :: "string set" where
  "comment_types = {''comment'', ''line_comment'', ''block_comment'', ''text_interpolation'', ''php_tag'', ''empty_statement''}"

definition block_types :: "string set" where
  "block_types = {''block'', ''compound_statement'', ''statement_block'', ''colon_block'', ''constructor_body''}"

definition while_for_types :: "string set" where
  "while_for_types = {''while_statement'', ''for_statement'', ''enhanced_for_statement'', ''for_in_statement'', ''foreach_statement''}"

definition switch_types :: "string set" where
  "switch_types = {''switch_statement'', ''switch_expression'', ''match_statement''}"

definition try_types :: "string set" where
  "try_types = {''try_statement'', ''try_with_resources_statement''}"

definition headed_types :: "string set" where
  "headed_types = {''with_statement'', ''synchronized_statement''}"

definition throw_types :: "string set" where
  "throw_types = {''throw_statement'', ''raise_statement''}"

definition compound_types :: "string set" where
  "compound_types = {''if_statement'', ''do_statement'', ''labeled_statement'', ''switch_statement'', ''match_statement''} \<union>
     while_for_types \<union> try_types \<union> headed_types"

definition hidden_jump_types :: "string set" where
  "hidden_jump_types = {''return_statement'', ''break_statement'', ''continue_statement'', ''exit_statement'',
     ''throw_expression'', ''yield_statement''} \<union> throw_types"

definition nested_types :: "string set" where
  "nested_types = {''function_definition'', ''function_declaration'', ''function_expression'',
     ''generator_function_declaration'', ''generator_function'', ''method_declaration'', ''method_definition'',
     ''constructor_declaration'', ''arrow_function'', ''anonymous_function'', ''lambda_expression'', ''lambda'',
     ''class_definition'', ''class_declaration'', ''class_body'', ''class'', ''interface_declaration'',
     ''enum_declaration'', ''declaration_list'', ''anonymous_class''}"

definition exit_calls :: "string set" where
  "exit_calls = {''exit'', ''die'', ''_exit'', ''abort''}"

definition languages :: "string set" where
  "languages = {''java'', ''php'', ''python'', ''javascript'', ''typescript'', ''tsx''}"

definition non_comments :: "cst \<Rightarrow> cst list" where
  "non_comments n = filter (\<lambda>c. ty c \<notin> comment_types) (named n)"

lemma named_smaller [termination_simp]: "c \<in> set (named n) \<Longrightarrow> size c < size n"
proof -
  assume "c \<in> set (named n)"
  then have "c \<in> set (kids n)" by (simp add: named_def)
  then show ?thesis by (cases n) (auto dest: size_list_estimation' [where f = size] simp: less_Suc_eq_le)
qed

text \<open>\<open>_descendants\<close>: the named nodes below, nested functions and classes left out.\<close>

function descendants :: "cst \<Rightarrow> cst list" where
  "descendants n = concat (map (\<lambda>c. if ty c \<in> nested_types then [] else c # descendants c) (named n))"
  by pat_completeness auto
termination by (relation "measure size") (auto simp: named_smaller)

definition hides_jump :: "cst list \<Rightarrow> bool" where
  "hides_jump cs \<longleftrightarrow> (\<exists>c \<in> set cs. ty c \<in> hidden_jump_types \<or> ty c \<in> compound_types)"

definition only_child :: "cst \<Rightarrow> string" where
  "only_child n = (case non_comments n of [c] \<Rightarrow> ty c | _ \<Rightarrow> '''')"

definition single_level :: "cst \<Rightarrow> bool" where
  "single_level n = (case non_comments n of [c] \<Rightarrow> ty c = ''integer'' \<and> strip (node_text c) = ''1'' | _ \<Rightarrow> False)"

definition is_exit_call :: "cst \<Rightarrow> bool" where
  "is_exit_call n =
     (ty n = ''expression_statement'' \<and>
      (case non_comments n of
         [c] \<Rightarrow> ty c \<in> {''call'', ''call_expression'', ''method_invocation'', ''function_call_expression''} \<and>
           after_last (\<lambda>x. x \<in> {CHR ''.'', CHR 0x5C, CHR '':'', CHR ''>'', CHR ''-''})
             (strip (before_char (CHR ''('') (node_text c))) \<in> exit_calls
       | _ \<Rightarrow> False))"

function unparen :: "cst \<Rightarrow> cst" where
  "unparen n =
     (if ty n = ''parenthesized_expression'' then (case named n of [c] \<Rightarrow> unparen c | _ \<Rightarrow> n) else n)"
  by pat_completeness auto
termination by (relation "measure size") (auto simp: named_smaller)

declare descendants.simps [simp del] unparen.simps [simp del]

definition condition_text :: "cst \<Rightarrow> string" where
  "condition_text node =
     (let n = unparen node in
      if ty n = ''assert_statement'' then (case non_comments n of [] \<Rightarrow> '''' | c # _ \<Rightarrow> flat (node_text c))
      else flat (node_text n))"

definition header_text :: "cst \<Rightarrow> cst \<Rightarrow> string" where
  "header_text n body =
     flat (rstrip_by (\<lambda>c. c \<in> {CHR '' '', CHR '':'', CHR ''{'', CHR 0x0A}) (take (nat (byte body - byte n)) (node_text n)))"

definition case_regex :: regex where
  "case_regex = RSeqs [RStar py_space, RLit ''case'', RPlus py_space]"

definition label_text :: "cst list \<Rightarrow> string" where
  "label_text labels = join_with '', ''
     (map (\<lambda>l. let t = node_text l; t = (case re_match case_regex t of None \<Rightarrow> t | Some (_, rest, _) \<Rightarrow> rest)
        in flat (strip (rstrip_by (\<lambda>c. c = CHR '':'') t))) labels)"

definition type_is :: "string \<Rightarrow> cst \<Rightarrow> bool" where
  "type_is t c \<longleftrightarrow> ty c = t"

definition is_default_label :: "cst \<Rightarrow> bool" where
  "is_default_label l \<longleftrightarrow> starts_with ''default'' (strip (node_text l))"

text \<open>\<open>_arm\<close>: label, statements, whether it is the default arm, whether control falls through.\<close>

definition switch_arm :: "cst \<Rightarrow> string + (string \<times> cst list \<times> bool \<times> bool)" where
  "switch_arm arm =
     (let kind = ty arm; parts = non_comments arm;
          labels = filter (type_is ''switch_label'') parts;
          others = filter (\<lambda>c. \<not> type_is ''switch_label'' c) parts
      in if kind = ''switch_block_statement_group''
         then Inr (label_text labels, others, list_ex is_default_label labels, True)
         else if kind = ''switch_rule''
         then Inr (label_text labels, others, list_ex is_default_label labels, False)
         else if kind = ''case_statement'' \<or> kind = ''switch_case''
         then let v = or_else (child_by_field ''value'' arm) (case parts of [] \<Rightarrow> None | c # _ \<Rightarrow> Some c)
           in Inr (case v of None \<Rightarrow> '''' | Some c \<Rightarrow> node_text c,
                   if kind = ''switch_case'' then children_by_field ''body'' arm else drop 1 parts, False, True)
         else if kind = ''default_statement'' \<or> kind = ''switch_default''
         then Inr (''default'', if kind = ''switch_default'' then children_by_field ''body'' arm else parts, True, True)
         else if kind = ''case_clause''
         then let consequence = child_by_field ''consequence'' arm;
             patterns = filter (\<lambda>c. Some c \<noteq> consequence) parts
           in Inr (join_with '', '' (map (\<lambda>c. flat (node_text c)) patterns),
                   (case consequence of None \<Rightarrow> [] | Some c \<Rightarrow> [c]),
                   (case patterns of [c] \<Rightarrow> strip (node_text c) = ''_'' | _ \<Rightarrow> False), False)
         else Inl ''unmodelled_construct'')"

definition catch_type :: "cst \<Rightarrow> string" where
  "catch_type clause =
     (case child_by_field ''type'' clause of
        Some t \<Rightarrow> flat (node_text t)
      | None \<Rightarrow>
         (case concat (map (\<lambda>child. case find (type_is ''catch_type'') (named child) of None \<Rightarrow> [] | Some c \<Rightarrow> [c])
             (filter (type_is ''catch_formal_parameter'') (named clause))) of
            caught # _ \<Rightarrow> flat (node_text caught)
          | [] \<Rightarrow>
             (if ty clause = ''except_clause'' \<or> ty clause = ''except_group_clause''
              then (case or_else (child_by_field ''value'' clause)
                    (find (\<lambda>c. ty c \<notin> block_types \<and> ty c \<notin> comment_types) (named clause)) of
                  Some v \<Rightarrow> flat (node_text (if ty v = ''as_pattern'' \<and> named v \<noteq> [] then hd (named v) else v))
                | None \<Rightarrow> ''any'')
              else ''any'')))"

section \<open>The builder\<close>

record frame =
  fr_kind :: string
  fr_breaks :: "nat list"
  fr_continues :: "nat list"

record builder =
  b_nodes :: "cfg_node list"
  b_normal :: "nat list list"
  b_exceptional :: "nat list list"
  b_frames :: "frame list"
  b_handlers :: "nat list list"
  b_conditions :: "string list"
  b_loops :: nat
  b_catches :: "string list"
  b_tries :: nat
  b_exception_paths :: nat

text \<open>A step of the builder: an unmodelled construct, or a value and the builder afterwards.\<close>

type_synonym 'a build = "builder \<Rightarrow> string + ('a \<times> builder)"

definition done_with :: "'a \<Rightarrow> 'a build" where
  "done_with x s = Inr (x, s)"

definition unmodelled :: "string \<Rightarrow> 'a build" where
  "unmodelled reason s = Inl reason"

definition and_then :: "'a build \<Rightarrow> ('a \<Rightarrow> 'b build) \<Rightarrow> 'b build" where
  "and_then m f s = (case m s of Inl e \<Rightarrow> Inl e | Inr (x, s') \<Rightarrow> f x s')"

definition reading :: "(builder \<Rightarrow> 'a) \<Rightarrow> 'a build" where
  "reading f s = Inr (f s, s)"

definition doing :: "(builder \<Rightarrow> builder) \<Rightarrow> unit build" where
  "doing f s = Inr ((), f s)"

text \<open>A step inside a context manager or a \<open>try\<close>/\<open>finally\<close> of the source.\<close>

definition within :: "(builder \<Rightarrow> builder) \<Rightarrow> (builder \<Rightarrow> builder) \<Rightarrow> 'a build \<Rightarrow> 'a build" where
  "within enter leave m s = (case m (enter s) of Inl e \<Rightarrow> Inl e | Inr (x, s') \<Rightarrow> Inr (x, leave s'))"

definition set_update :: "nat list \<Rightarrow> nat list \<Rightarrow> nat list" where
  "set_update xs ys = dedup (xs @ ys)"

definition add_normal :: "nat \<Rightarrow> nat list \<Rightarrow> builder \<Rightarrow> builder" where
  "add_normal i ts s = s\<lparr>b_normal := (b_normal s)[i := set_update (b_normal s ! i) ts]\<rparr>"

definition add_exceptional :: "nat \<Rightarrow> nat list \<Rightarrow> builder \<Rightarrow> builder" where
  "add_exceptional i ts s = s\<lparr>b_exceptional := (b_exceptional s)[i := set_update (b_exceptional s ! i) ts]\<rparr>"

definition link :: "nat list \<Rightarrow> nat \<Rightarrow> builder \<Rightarrow> builder" where
  "link preds target s = fold (\<lambda>p. add_normal p [target]) preds s"

definition current_context :: "builder \<Rightarrow> control_context" where
  "current_context s =
     \<lparr>conditions = b_conditions s, in_loop = b_loops s > 0, in_try = b_tries s > 0,
      catches = b_catches s, on_exception_path = b_exception_paths s > 0\<rparr>"

definition new_node :: "string \<Rightarrow> int \<Rightarrow> int \<Rightarrow> int \<Rightarrow> string \<Rightarrow> bool \<Rightarrow> nat build" where
  "new_node kind start stop start_byte cond located s =
     (let index = length (b_nodes s);
          node = \<lparr>n_kind = kind, n_start = start, n_end = stop, n_byte = start_byte,
            n_context = current_context s, n_condition = cond, n_located = located\<rparr>
      in Inr (index, s\<lparr>b_nodes := b_nodes s @ [node], b_normal := b_normal s @ [[]],
           b_exceptional := b_exceptional s @ [if index > ExitNode then dedup (concat (b_handlers s)) else []]\<rparr>))"

definition linked_node :: "string \<Rightarrow> cst \<Rightarrow> nat list \<Rightarrow> string \<Rightarrow> nat build" where
  "linked_node kind syntax preds cond =
     and_then (new_node kind (line_of syntax) (end_line_of syntax) (byte syntax) cond True) (\<lambda>index.
     and_then (doing (link preds index)) (\<lambda>_. done_with index))"

definition empty_builder :: builder where
  "empty_builder = \<lparr>b_nodes = [], b_normal = [], b_exceptional = [], b_frames = [], b_handlers = [],
     b_conditions = [], b_loops = 0, b_catches = [], b_tries = 0, b_exception_paths = 0\<rparr>"

text \<open>\<open>__init__\<close>: the entry and the end node.\<close>

definition initial_builder :: "int \<Rightarrow> int \<Rightarrow> builder" where
  "initial_builder start stop =
     (let node = \<lambda>k l. \<lparr>n_kind = k, n_start = l, n_end = l, n_byte = -1,
          n_context = current_context empty_builder, n_condition = '''', n_located = False\<rparr>
      in empty_builder\<lparr>b_nodes := [node ''entry'' start, node ''end'' stop],
           b_normal := [[], []], b_exceptional := [[], []]\<rparr>)"

definition push_conditions :: "string list \<Rightarrow> builder \<Rightarrow> builder" where
  "push_conditions cs s = s\<lparr>b_conditions := b_conditions s @ cs\<rparr>"

definition drop_conditions :: "nat \<Rightarrow> builder \<Rightarrow> builder" where
  "drop_conditions k s = s\<lparr>b_conditions := take (length (b_conditions s) - k) (b_conditions s)\<rparr>"

definition under_conditions :: "string list \<Rightarrow> 'a build \<Rightarrow> 'a build" where
  "under_conditions cs = within (push_conditions cs) (drop_conditions (length cs))"

text \<open>A body inside a new frame; the result has the frame with the jumps it collected.\<close>

definition enter_frame :: "string \<Rightarrow> builder \<Rightarrow> builder" where
  "enter_frame kind s = s\<lparr>b_frames := \<lparr>fr_kind = kind, fr_breaks = [], fr_continues = []\<rparr> # b_frames s,
     b_loops := b_loops s + (if kind = ''loop'' then 1 else 0)\<rparr>"

definition leave_frame :: "string \<Rightarrow> builder \<Rightarrow> builder" where
  "leave_frame kind s = s\<lparr>b_frames := tl (b_frames s), b_loops := b_loops s - (if kind = ''loop'' then 1 else 0)\<rparr>"

definition in_frame :: "string \<Rightarrow> 'a build \<Rightarrow> ('a \<times> frame) build" where
  "in_frame kind m = within (enter_frame kind) (leave_frame kind)
     (and_then m (\<lambda>x. and_then (reading (\<lambda>s. hd (b_frames s))) (\<lambda>frame. done_with (x, frame))))"

text \<open>The frame a jump belongs to: the innermost one, for \<open>continue\<close> the innermost loop.\<close>

fun add_jump :: "bool \<Rightarrow> nat \<Rightarrow> frame list \<Rightarrow> frame list option" where
  "add_jump is_break i [] = None"
| "add_jump is_break i (f # fs) =
     (if is_break then Some (f\<lparr>fr_breaks := fr_breaks f @ [i]\<rparr> # fs)
      else if fr_kind f = ''loop'' then Some (f\<lparr>fr_continues := fr_continues f @ [i]\<rparr> # fs)
      else map_option ((#) f) (add_jump is_break i fs))"

section \<open>Statements without statements inside\<close>

definition to_exit_unless_handled :: "nat \<Rightarrow> builder \<Rightarrow> builder" where
  "to_exit_unless_handled i s = (if b_handlers s = [] then link [i] ExitNode s else s)"

definition is_thrown_expression :: "cst \<Rightarrow> bool" where
  "is_thrown_expression n \<longleftrightarrow> ty n = ''expression_statement'' \<and> only_child n = ''throw_expression''"

text \<open>A node from which control leaves the statement: no path continues after it.\<close>

definition leaving_node :: "string \<Rightarrow> cst \<Rightarrow> nat list \<Rightarrow> (nat \<Rightarrow> builder \<Rightarrow> builder) \<Rightarrow> nat list build" where
  "leaving_node kind node preds out =
     and_then (linked_node kind node preds '''') (\<lambda>i. and_then (doing (out i)) (\<lambda>_. done_with []))"

text \<open>\<open>break\<close> and \<open>continue\<close>.\<close>

definition jump_statement :: "bool \<Rightarrow> cst \<Rightarrow> nat list \<Rightarrow> nat list build" where
  "jump_statement is_break node preds =
     (if non_comments node \<noteq> [] \<and> \<not> single_level node then unmodelled ''labelled_jump''
      else and_then (reading (\<lambda>s. add_jump is_break 0 (b_frames s) = None)) (\<lambda>no_frame.
        if no_frame then unmodelled ''jump_without_target''
        else leaving_node (if is_break then ''break'' else ''continue'') node preds
          (\<lambda>i s. s\<lparr>b_frames := the (add_jump is_break i (b_frames s))\<rparr>)))"

definition simple_statement :: "cst \<Rightarrow> nat list \<Rightarrow> nat list build" where
  "simple_statement node preds =
     (let kind = ty node; thrown = is_thrown_expression node;
          inner = (if thrown then descendants (hd (named node)) else descendants node)
      in if hides_jump inner then unmodelled ''jump_inside_expression''
         else if kind = ''return_statement''
         then leaving_node ''return'' node preds (\<lambda>i. link [i] ExitNode)
         else if kind \<in> throw_types \<or> thrown
         then leaving_node ''throw'' node preds to_exit_unless_handled
         else if kind = ''break_statement'' \<or> kind = ''continue_statement''
         then jump_statement (kind = ''break_statement'') node preds
         else if kind = ''exit_statement'' \<or> is_exit_call node
         then leaving_node ''exit'' node preds (\<lambda>i. link [i] ExitNode)
         else if kind = ''assert_statement''
         then and_then (linked_node ''branch'' node preds (condition_text node)) (\<lambda>index.
              and_then (new_node ''throw'' (line_of node) (line_of node) (byte node) '''' False) (\<lambda>failed.
              and_then (doing (add_normal index [failed])) (\<lambda>_.
              and_then (doing (to_exit_unless_handled failed)) (\<lambda>_. done_with [index]))))
         else and_then (linked_node ''statement'' node preds (take 240 (node_text node))) (\<lambda>i. done_with [i]))"

text \<open>\<open>_branch\<close>: a node for a condition, with its text.\<close>

definition branch_node :: "cst option \<Rightarrow> cst \<Rightarrow> nat list \<Rightarrow> (nat \<times> string) build" where
  "branch_node cond fallback preds =
     (case cond of
        None \<Rightarrow> and_then (linked_node ''branch'' fallback preds '''') (\<lambda>i. done_with (i, ''''))
      | Some c \<Rightarrow>
          if hides_jump (descendants c) then unmodelled ''jump_inside_expression''
          else and_then (linked_node ''branch'' c preds (condition_text c)) (\<lambda>i. done_with (i, condition_text c)))"

section \<open>Statements that contain statements\<close>

text \<open>
  Each definition takes the builder of the statements inside, \<open>rec\<close>; \<open>statement\<close> ties the knot below.
\<close>

type_synonym statement_builder = "cst \<Rightarrow> nat list \<Rightarrow> nat list build"

fun sequence :: "statement_builder \<Rightarrow> cst list \<Rightarrow> nat list \<Rightarrow> nat list build" where
  "sequence rec [] preds = done_with preds"
| "sequence rec (n # ns) preds = and_then (rec n preds) (sequence rec ns)"

definition optional_body :: "statement_builder \<Rightarrow> cst option \<Rightarrow> nat list \<Rightarrow> nat list build" where
  "optional_body rec body preds = (case body of None \<Rightarrow> done_with preds | Some b \<Rightarrow> rec b preds)"

definition negation :: "string \<Rightarrow> string" where
  "negation t = ''not ('' @ t @ '')''"

text \<open>One alternative of an \<open>if\<close>: its open ends, what is left to link, and the conditions it refutes.\<close>

definition if_alternative :: "statement_builder \<Rightarrow> cst \<Rightarrow> nat list \<Rightarrow> (nat list \<times> nat list \<times> string list) build" where
  "if_alternative rec alt rest =
     (if ty alt = ''elif_clause'' \<or> ty alt = ''else_if_clause''
      then and_then (branch_node (child_by_field ''condition'' alt) alt rest) (\<lambda>(inner, text).
           and_then (under_conditions [text] (optional_body rec
               (or_else (child_by_field ''consequence'' alt) (child_by_field ''body'' alt)) [inner])) (\<lambda>outs.
           done_with (outs, [inner], [negation text])))
      else if ty alt = ''else_clause''
      then and_then (optional_body rec (or_else (child_by_field ''body'' alt)
               (find (\<lambda>c. ty c \<notin> comment_types) (named alt))) rest) (\<lambda>outs. done_with (outs, [], []))
      else and_then (rec alt rest) (\<lambda>outs. done_with (outs, [], [])))"

fun if_alternatives :: "statement_builder \<Rightarrow> cst list \<Rightarrow> nat list \<Rightarrow> nat list \<Rightarrow> string list \<Rightarrow> nat list build" where
  "if_alternatives rec [] outs rest negated = done_with (outs @ rest)"
| "if_alternatives rec (alt # alts) outs rest negated =
     and_then (under_conditions negated (if_alternative rec alt rest)) (\<lambda>(found, rest', neg).
     if_alternatives rec alts (outs @ found) rest' (negated @ neg))"

definition if_statement :: "statement_builder \<Rightarrow> cst \<Rightarrow> nat list \<Rightarrow> nat list build" where
  "if_statement rec node preds =
     and_then (branch_node (child_by_field ''condition'' node) node preds) (\<lambda>(branch, text).
     and_then (under_conditions [text] (optional_body rec
         (or_else (child_by_field ''consequence'' node) (child_by_field ''body'' node)) [branch])) (\<lambda>outs.
     if_alternatives rec (children_by_field ''alternative'' node) outs [branch] [negation text]))"

definition loop_text :: "cst \<Rightarrow> cst \<Rightarrow> string" where
  "loop_text node body =
     (case child_by_field ''condition'' node of
        Some c \<Rightarrow> if ty c \<noteq> ''empty_statement'' then condition_text c else header_text node body
      | None \<Rightarrow> header_text node body)"

definition loop_statement :: "statement_builder \<Rightarrow> cst \<Rightarrow> nat list \<Rightarrow> nat list build" where
  "loop_statement rec node preds =
     (case child_by_field ''body'' node of
        None \<Rightarrow> unmodelled ''unmodelled_construct''
      | Some body \<Rightarrow>
          let text = loop_text node body in
          if (case child_by_field ''condition'' node of None \<Rightarrow> False | Some c \<Rightarrow> hides_jump (descendants c))
          then unmodelled ''jump_inside_expression''
          else and_then (new_node ''branch'' (line_of node) (max (line_of node) (line_of body - 1)) (byte node) text True) (\<lambda>header.
               and_then (doing (link preds header)) (\<lambda>_.
               and_then (in_frame ''loop'' (under_conditions [text] (rec body [header]))) (\<lambda>(out, frame).
               and_then (doing (link (out @ fr_continues frame) header)) (\<lambda>_.
               and_then (case child_by_field ''alternative'' node of
                   None \<Rightarrow> done_with [header]
                 | Some alt \<Rightarrow> optional_body rec (child_by_field ''body'' alt) [header]) (\<lambda>outs.
               done_with (outs @ fr_breaks frame)))))))"

definition do_statement :: "statement_builder \<Rightarrow> cst \<Rightarrow> nat list \<Rightarrow> nat list build" where
  "do_statement rec node preds =
     (case (child_by_field ''body'' node, child_by_field ''condition'' node) of
        (Some body, Some cond) \<Rightarrow>
          and_then (reading (\<lambda>s. length (b_nodes s))) (\<lambda>first.
          and_then (in_frame ''loop'' (rec body preds)) (\<lambda>(out, frame).
          and_then (branch_node (Some cond) node (out @ fr_continues frame)) (\<lambda>(branch, _).
          and_then (doing (add_normal branch [if first < branch then first else branch])) (\<lambda>_.
          done_with (branch # fr_breaks frame)))))
      | _ \<Rightarrow> unmodelled ''unmodelled_construct'')"

fun switch_arms :: "statement_builder \<Rightarrow> nat \<Rightarrow> string \<Rightarrow> cst list \<Rightarrow> nat list \<Rightarrow> nat list \<Rightarrow> bool \<Rightarrow>
    (nat list \<times> nat list \<times> bool) build" where
  "switch_arms rec branch subject [] outs falling has_default = done_with (outs, falling, has_default)"
| "switch_arms rec branch subject (arm # arms) outs falling has_default =
     (if ty arm \<in> comment_types then switch_arms rec branch subject arms outs falling has_default
      else case switch_arm arm of
        Inl e \<Rightarrow> unmodelled e
      | Inr (label, statements, is_default, falls_through) \<Rightarrow>
          and_then (new_node ''case'' (line_of arm) (line_of arm) (byte arm) label True) (\<lambda>case_node.
          and_then (doing (link [branch] case_node)) (\<lambda>_.
          and_then (under_conditions
              [if is_default then ''default'' else ''case '' @ label @ '' of '' @ subject]
              (sequence rec statements (if falls_through then case_node # falling else [case_node]))) (\<lambda>out.
          switch_arms rec branch subject arms
            (if falls_through then outs else outs @ out)
            (if falls_through then out else falling) (has_default \<or> is_default)))))"

definition switch_statement :: "statement_builder \<Rightarrow> cst \<Rightarrow> nat list \<Rightarrow> nat list build" where
  "switch_statement rec node preds =
     (case child_by_field ''body'' node of
        None \<Rightarrow> unmodelled ''unmodelled_construct''
      | Some body \<Rightarrow>
          and_then (branch_node (or_else (child_by_field ''condition'' node)
              (or_else (child_by_field ''value'' node) (child_by_field ''subject'' node))) node preds) (\<lambda>(branch, subject).
          and_then (in_frame ''switch'' (switch_arms rec branch subject (named body) [] [] False)) (\<lambda>((outs, falling, has_default), frame).
          done_with (outs @ falling @ fr_breaks frame @ (if has_default then [] else [branch])))))"

section \<open>Try statements\<close>

definition catch_clauses :: "cst \<Rightarrow> cst list" where
  "catch_clauses node =
     (let clauses = filter (\<lambda>c. ty c \<in> {''catch_clause'', ''except_clause'', ''except_group_clause''}) (named node)
      in case child_by_field ''handler'' node of
           Some h \<Rightarrow> if h \<notin> set clauses then clauses @ [h] else clauses
         | None \<Rightarrow> clauses)"

definition entry_node :: "string \<Rightarrow> cst \<Rightarrow> nat build" where
  "entry_node kind clause = new_node kind (line_of clause) (line_of clause) (byte clause) '''' True"

fun entry_nodes :: "string \<Rightarrow> cst list \<Rightarrow> nat list build" where
  "entry_nodes kind [] = done_with []"
| "entry_nodes kind (c # cs) =
     and_then (entry_node kind c) (\<lambda>i. and_then (entry_nodes kind cs) (\<lambda>is. done_with (i # is)))"

definition enter_try :: "nat list \<Rightarrow> string list \<Rightarrow> builder \<Rightarrow> builder" where
  "enter_try targets types s = s\<lparr>b_handlers := targets # b_handlers s, b_tries := b_tries s + 1,
     b_catches := b_catches s @ types\<rparr>"

definition leave_try :: "nat \<Rightarrow> builder \<Rightarrow> builder" where
  "leave_try k s = s\<lparr>b_catches := take (length (b_catches s) - k) (b_catches s), b_tries := b_tries s - 1,
     b_handlers := tl (b_handlers s)\<rparr>"

definition enter_catches :: "nat option \<Rightarrow> builder \<Rightarrow> builder" where
  "enter_catches final_entry s = s\<lparr>b_handlers := (case final_entry of None \<Rightarrow> b_handlers s | Some f \<Rightarrow> [f] # b_handlers s),
     b_exception_paths := b_exception_paths s + 1\<rparr>"

definition leave_catches :: "nat option \<Rightarrow> builder \<Rightarrow> builder" where
  "leave_catches final_entry s = s\<lparr>b_exception_paths := b_exception_paths s - 1,
     b_handlers := (case final_entry of None \<Rightarrow> b_handlers s | Some f \<Rightarrow> tl (b_handlers s))\<rparr>"

definition clause_body :: "cst \<Rightarrow> cst option" where
  "clause_body c = or_else (child_by_field ''body'' c) (find (\<lambda>k. ty k \<in> block_types) (named c))"

fun catch_bodies :: "statement_builder \<Rightarrow> (cst \<times> nat) list \<Rightarrow> nat list \<Rightarrow> nat list build" where
  "catch_bodies rec [] normal = done_with normal"
| "catch_bodies rec ((clause, entry) # rest) normal =
     and_then (optional_body rec (clause_body clause) [entry]) (\<lambda>out. catch_bodies rec rest (normal @ out))"

definition try_body :: "statement_builder \<Rightarrow> cst \<Rightarrow> cst \<Rightarrow> nat \<Rightarrow> nat list build" where
  "try_body rec node body start =
     and_then (case child_by_field ''resources'' node of
         None \<Rightarrow> done_with start
       | Some r \<Rightarrow> linked_node ''statement'' r [start] (node_text r)) (\<lambda>i. rec body [i])"

text \<open>The open ends of the finally block continue the exception that entered it.\<close>

definition resume_exception :: "nat \<Rightarrow> builder \<Rightarrow> builder" where
  "resume_exception i s =
     (if b_handlers s \<noteq> [] then add_exceptional i (concat (b_handlers s)) s else add_exceptional i [ExitNode] s)"

definition finally_part :: "statement_builder \<Rightarrow> cst \<Rightarrow> nat \<Rightarrow> nat list \<Rightarrow> nat list build" where
  "finally_part rec final final_entry normal =
     and_then (doing (link normal final_entry)) (\<lambda>_.
     and_then (optional_body rec (clause_body final) [final_entry]) (\<lambda>out.
     and_then (doing (fold resume_exception out)) (\<lambda>_. done_with out)))"

definition try_statement :: "statement_builder \<Rightarrow> cst \<Rightarrow> nat list \<Rightarrow> nat list build" where
  "try_statement rec node preds =
     (case child_by_field ''body'' node of
        None \<Rightarrow> unmodelled ''unmodelled_construct''
      | Some body \<Rightarrow>
          let clauses = catch_clauses node;
              final = find (type_is ''finally_clause'') (named node);
              orelse = find (type_is ''else_clause'') (named node);
              types = map catch_type clauses in
          and_then (entry_node ''try'' node) (\<lambda>start.
          and_then (doing (link preds start)) (\<lambda>_.
          and_then (entry_nodes ''catch'' clauses) (\<lambda>entries.
          and_then (case final of None \<Rightarrow> done_with None
              | Some f \<Rightarrow> and_then (entry_node ''finally'' f) (\<lambda>i. done_with (Some i))) (\<lambda>final_entry.
          let targets = (if entries \<noteq> [] then entries else case final_entry of None \<Rightarrow> [] | Some f \<Rightarrow> [f]) in
          and_then (doing (add_exceptional start targets)) (\<lambda>_.
          and_then (within (enter_try targets types) (leave_try (length types)) (try_body rec node body start)) (\<lambda>out.
          and_then (case orelse of None \<Rightarrow> done_with out
              | Some e \<Rightarrow> optional_body rec (child_by_field ''body'' e) out) (\<lambda>out.
          and_then (within (enter_catches final_entry) (leave_catches final_entry)
              (catch_bodies rec (zip clauses entries) out)) (\<lambda>normal.
          case (final_entry, final) of
            (Some fe, Some f) \<Rightarrow> finally_part rec f fe normal
          | _ \<Rightarrow> done_with normal)))))))))"

section \<open>Any statement\<close>

definition headed_statement :: "statement_builder \<Rightarrow> cst \<Rightarrow> nat list \<Rightarrow> nat list build" where
  "headed_statement rec node preds =
     (case child_by_field ''body'' node of
        None \<Rightarrow> unmodelled ''unmodelled_construct''
      | Some body \<Rightarrow>
          and_then (new_node ''statement'' (line_of node) (max (line_of node) (line_of body - 1)) (byte node)
              (header_text node body) True) (\<lambda>header.
          and_then (doing (link preds header)) (\<lambda>_. rec body [header])))"

definition statement_step :: "statement_builder \<Rightarrow> cst \<Rightarrow> nat list \<Rightarrow> nat list build" where
  "statement_step rec node preds =
     (let kind = ty node in
      if kind \<in> comment_types then done_with preds
      else if kind \<in> block_types then sequence rec (non_comments node) preds
      else if kind = ''if_statement'' then if_statement rec node preds
      else if kind \<in> while_for_types then loop_statement rec node preds
      else if kind = ''do_statement'' then do_statement rec node preds
      else if kind \<in> switch_types then switch_statement rec node preds
      else if kind \<in> try_types then try_statement rec node preds
      else if kind \<in> headed_types then headed_statement rec node preds
      else if kind = ''labeled_statement''
      then sequence rec (filter (\<lambda>c. ty c \<noteq> ''identifier'' \<and> ty c \<noteq> ''statement_identifier'') (named node)) preds
      else simple_statement node preds)"

text \<open>The recursion, up to the interpreter's limit on its depth.\<close>

fun statement :: "nat \<Rightarrow> statement_builder" where
  "statement 0 node preds = unmodelled ''nesting_too_deep''"
| "statement (Suc limit) node preds = statement_step (statement limit) node preds"

definition build_function :: "nat \<Rightarrow> cst \<Rightarrow> unit build" where
  "build_function limit function =
     (case child_by_field ''body'' function of
        None \<Rightarrow> doing (link [EntryNode] ExitNode)
      | Some body \<Rightarrow>
          and_then (if ty body \<in> block_types then statement limit body [EntryNode]
                    else simple_statement body [EntryNode]) (\<lambda>out.
          doing (link out ExitNode)))"

definition unavailable :: "int \<Rightarrow> int \<Rightarrow> string \<Rightarrow> function_cfg" where
  "unavailable start stop reason =
     \<lparr>c_start = start, c_end = stop, c_available = False, c_reason = Some reason, c_nodes = [],
      c_normal = [], c_exceptional = [], c_dominators = Map.empty\<rparr>"

definition graph_of :: "int \<Rightarrow> int \<Rightarrow> builder \<Rightarrow> function_cfg" where
  "graph_of start stop b = with_dominators
     \<lparr>c_start = start, c_end = stop, c_available = True, c_reason = None, c_nodes = b_nodes b,
      c_normal = b_normal b, c_exceptional = b_exceptional b, c_dominators = Map.empty\<rparr>"

definition from_cst :: "nat \<Rightarrow> cst \<Rightarrow> string \<Rightarrow> function_cfg" where
  "from_cst limit node language =
     (let start = line_of node; stop = end_line_of node in
      if language \<notin> languages then unavailable start stop ''no_control_flow_builder''
      else case build_function limit node (initial_builder start stop) of
          Inl reason \<Rightarrow> unavailable start stop reason
        | Inr (_, b) \<Rightarrow> graph_of start stop b)"

end
