(* ===== verification/CfgBuilderWf.thy ===== *)
theory CfgBuilderWf
  imports CfgBuilder "HOL-Library.Sublist"
begin

text \<open>
  What the builder guarantees of every graph it returns: edges stay inside the graph, enclosing
  handlers receive an exceptional edge from every node built under them, the recorded context of a
  node extends the context it was built in, and the context stacks are left as they were found. This
  theory has the invariant, the contract of one step and the steps without statements inside;
  \<open>CfgStatements\<close> has the constructs.
\<close>

section \<open>Well-formed and growing builders\<close>

definition node_count :: "builder \<Rightarrow> nat" where
  "node_count s = length (b_nodes s)"

definition in_graph :: "builder \<Rightarrow> nat list \<Rightarrow> bool" where
  "in_graph s ts \<longleftrightarrow> (\<forall>t \<in> set ts. t < node_count s)"

definition wf_builder :: "builder \<Rightarrow> bool" where
  "wf_builder s \<longleftrightarrow> 2 \<le> node_count s \<and>
     length (b_normal s) = node_count s \<and> length (b_exceptional s) = node_count s \<and>
     (\<forall>ts \<in> set (b_normal s). in_graph s ts) \<and> (\<forall>ts \<in> set (b_exceptional s). in_graph s ts) \<and>
     (\<forall>ts \<in> set (b_handlers s). in_graph s ts) \<and>
     (\<forall>f \<in> set (b_frames s). in_graph s (fr_breaks f @ fr_continues f))"

definition ok :: "builder \<Rightarrow> nat list \<Rightarrow> bool" where
  "ok s ts \<longleftrightarrow> wf_builder s \<and> in_graph s ts"

definition context_extends :: "control_context \<Rightarrow> control_context \<Rightarrow> bool" where
  "context_extends c d \<longleftrightarrow> prefix (conditions c) (conditions d) \<and> prefix (catches c) (catches d) \<and>
     (in_loop c \<longrightarrow> in_loop d) \<and> (in_try c \<longrightarrow> in_try d) \<and> (on_exception_path c \<longrightarrow> on_exception_path d)"

definition same_stacks :: "builder \<Rightarrow> builder \<Rightarrow> bool" where
  "same_stacks s s' \<longleftrightarrow> current_context s' = current_context s \<and>
     map fr_kind (b_frames s') = map fr_kind (b_frames s) \<and> b_handlers s' = b_handlers s \<and>
     b_loops s' = b_loops s \<and> b_tries s' = b_tries s \<and> b_exception_paths s' = b_exception_paths s"

definition new_nodes_covered :: "builder \<Rightarrow> builder \<Rightarrow> bool" where
  "new_nodes_covered s s' \<longleftrightarrow> (\<forall>i. node_count s \<le> i \<and> i < node_count s' \<longrightarrow>
     set (concat (b_handlers s)) \<subseteq> set (b_exceptional s' ! i) \<and>
     context_extends (current_context s) (n_context (b_nodes s' ! i)))"

definition old_kept :: "builder \<Rightarrow> builder \<Rightarrow> bool" where
  "old_kept s s' \<longleftrightarrow> prefix (b_nodes s) (b_nodes s') \<and>
     (\<forall>i < node_count s. set (b_normal s ! i) \<subseteq> set (b_normal s' ! i) \<and>
        set (b_exceptional s ! i) \<subseteq> set (b_exceptional s' ! i))"

definition grows :: "builder \<Rightarrow> builder \<Rightarrow> bool" where
  "grows s s' \<longleftrightarrow> same_stacks s s' \<and> old_kept s s' \<and> new_nodes_covered s s'"

lemma grows_count: "grows s s' \<Longrightarrow> node_count s \<le> node_count s'"
  by (auto simp: grows_def old_kept_def node_count_def prefix_length_le)

lemma context_extends_refl [simp]: "context_extends c c"
  by (simp add: context_extends_def)

lemma context_extends_trans: "context_extends c d \<Longrightarrow> context_extends d e \<Longrightarrow> context_extends c e"
  by (auto simp: context_extends_def)

lemma grows_refl [simp]: "grows s s"
  by (auto simp: grows_def same_stacks_def old_kept_def new_nodes_covered_def)

lemma prefix_nth: "prefix xs ys \<Longrightarrow> i < length xs \<Longrightarrow> ys ! i = xs ! i"
  by (auto simp: prefix_def nth_append)

lemma grows_trans:
  assumes a: "grows s s'" and b: "grows s' s''"
  shows "grows s s''"
proof -
  have n: "node_count s \<le> node_count s'" "node_count s' \<le> node_count s''" using a b by (auto dest: grows_count)
  have "same_stacks s s''" using a b by (simp add: grows_def same_stacks_def)
  moreover have "old_kept s s''"
    using a b n unfolding grows_def old_kept_def by (meson order_trans subset_trans less_le_trans prefix_order.order_trans)
  moreover have "new_nodes_covered s s''"
    unfolding new_nodes_covered_def
  proof (intro allI impI)
    fix i assume i: "node_count s \<le> i \<and> i < node_count s''"
    have same: "b_handlers s' = b_handlers s" "current_context s' = current_context s"
      using a by (simp_all add: grows_def same_stacks_def)
    show "set (concat (b_handlers s)) \<subseteq> set (b_exceptional s'' ! i) \<and>
        context_extends (current_context s) (n_context (b_nodes s'' ! i))"
    proof (cases "i < node_count s'")
      case True
      have "set (b_exceptional s' ! i) \<subseteq> set (b_exceptional s'' ! i)" "b_nodes s'' ! i = b_nodes s' ! i"
        using b True by (auto simp: grows_def old_kept_def node_count_def prefix_nth)
      then show ?thesis using a True i by (auto simp: grows_def new_nodes_covered_def)
    next
      case False
      then show ?thesis using b i same by (simp add: grows_def new_nodes_covered_def)
    qed
  qed
  ultimately show ?thesis by (simp add: grows_def)
qed

lemma in_graph_simps [simp]:
  "in_graph s []" "in_graph s (t # ts) \<longleftrightarrow> t < node_count s \<and> in_graph s ts"
  "in_graph s (ts @ us) \<longleftrightarrow> in_graph s ts \<and> in_graph s us"
  by (auto simp: in_graph_def)

lemma in_graph_mono: "in_graph s ts \<Longrightarrow> node_count s \<le> node_count s' \<Longrightarrow> in_graph s' ts"
  by (auto simp: in_graph_def)

lemma ok_simps [simp]:
  "ok s (t # ts) \<longleftrightarrow> t < node_count s \<and> ok s ts" "ok s (ts @ us) \<longleftrightarrow> ok s ts \<and> ok s us"
  by (auto simp: ok_def)

lemma ok_grows: "ok s ts \<Longrightarrow> grows s s' \<Longrightarrow> ok s' [] \<Longrightarrow> ok s' ts"
  using grows_count in_graph_mono by (auto simp: ok_def)

lemma ok_Nil: "ok s ts \<Longrightarrow> ok s []"
  by (simp add: ok_def)

lemma ok_wf: "ok s [] \<longleftrightarrow> wf_builder s"
  by (simp add: ok_def)

section \<open>The contract of a step\<close>

definition build_reasons :: "string set" where
  "build_reasons = {''jump_inside_expression'', ''labelled_jump'', ''jump_without_target'', ''unmodelled_construct''}"

text \<open>\<open>sound deep V m s\<close>: from \<open>s\<close>, step \<open>m\<close> fails with one of the reasons (with the depth limit only if
  \<open>deep\<close>), or returns a grown builder in which the nodes \<open>V x\<close> of its result exist.\<close>

definition sound :: "bool \<Rightarrow> ('a \<Rightarrow> nat list) \<Rightarrow> 'a build \<Rightarrow> builder \<Rightarrow> bool" where
  "sound deep V m s \<longleftrightarrow>
     (case m s of
        Inl e \<Rightarrow> e \<in> build_reasons \<or> deep \<and> e = ''nesting_too_deep''
      | Inr (x, s') \<Rightarrow> grows s s' \<and> ok s' (V x))"

lemma sound_result: "sound deep V m s \<Longrightarrow> m s = Inr (x, s') \<Longrightarrow> grows s s' \<and> ok s' (V x)"
  by (simp add: sound_def)

lemma sound_weaken: "sound deep V m s \<Longrightarrow> deep \<longrightarrow> deep' \<Longrightarrow> sound deep' V m s"
  by (auto simp: sound_def split: sum.splits)

lemma sound_done: "ok s (V x) \<Longrightarrow> sound deep V (done_with x) s"
  by (simp add: sound_def done_with_def)

lemma sound_unmodelled: "e \<in> build_reasons \<Longrightarrow> sound deep V (unmodelled e) s"
  by (simp add: sound_def unmodelled_def)

lemma sound_and_then:
  assumes "sound deep V m s" "\<And>x s'. m s = Inr (x, s') \<Longrightarrow> grows s s' \<Longrightarrow> ok s' (V x) \<Longrightarrow> sound deep W (f x) s'"
  shows "sound deep W (and_then m f) s"
proof (cases "m s")
  case (Inl e)
  with assms(1) show ?thesis by (simp add: sound_def and_then_def)
next
  case (Inr r)
  obtain x s' where r: "r = (x, s')" by (cases r)
  from sound_result [OF assms(1)] Inr r have g: "grows s s'" "ok s' (V x)" by simp_all
  from assms(2) [OF _ this] Inr r have "sound deep W (f x) s'" by simp
  with Inr r g(1) show ?thesis by (auto simp: sound_def and_then_def intro: grows_trans split: sum.splits)
qed

text \<open>\<open>kept s ts f\<close>: a total update keeps the invariant and only grows the builder.\<close>

definition kept :: "(builder \<Rightarrow> builder) \<Rightarrow> builder \<Rightarrow> bool" where
  "kept f s \<longleftrightarrow> grows s (f s) \<and> ok (f s) []"

lemma sound_doing: "kept f s \<Longrightarrow> sound deep (\<lambda>_. []) (doing f) s"
  by (simp add: sound_def doing_def kept_def)

lemma sound_reading: "ok s [] \<Longrightarrow> (\<And>x. V x = []) \<Longrightarrow> sound deep V (reading f) s"
  by (simp add: sound_def reading_def)

section \<open>Updates of the edges\<close>

lemma node_count_simps [simp]:
  "node_count (s\<lparr>b_normal := x\<rparr>) = node_count s" "node_count (s\<lparr>b_exceptional := x\<rparr>) = node_count s"
  "node_count (s\<lparr>b_frames := fs\<rparr>) = node_count s" "node_count (s\<lparr>b_handlers := h\<rparr>) = node_count s"
  "node_count (s\<lparr>b_conditions := c\<rparr>) = node_count s" "node_count (s\<lparr>b_loops := k\<rparr>) = node_count s"
  "node_count (s\<lparr>b_catches := c\<rparr>) = node_count s" "node_count (s\<lparr>b_tries := k\<rparr>) = node_count s"
  "node_count (s\<lparr>b_exception_paths := k\<rparr>) = node_count s"
  by (simp_all add: node_count_def)

lemma in_graph_cong: "node_count s' = node_count s \<Longrightarrow> in_graph s' = in_graph s"
  by (simp add: in_graph_def fun_eq_iff)

lemma set_list_update: "x \<in> set (xs[i := y]) \<Longrightarrow> x = y \<or> x \<in> set xs"
  by (metis insert_iff set_update_subset_insert subset_iff)

lemma kept_add_normal:
  assumes "ok s (i # ts)"
  shows "kept (add_normal i ts) s"
proof -
  have i: "i < length (b_normal s)" and wf: "wf_builder s" and ts: "in_graph s ts"
    using assms by (auto simp: ok_def wf_builder_def)
  let ?s = "add_normal i ts s"
  have n: "node_count ?s = node_count s" by (simp add: add_normal_def)
  note cnt = n in_graph_cong [OF n]
  have "in_graph s (b_normal s ! i)" using wf i by (simp add: wf_builder_def)
  then have "in_graph s (set_update (b_normal s ! i) ts)"
    using ts by (auto simp: set_update_def in_graph_def)
  then have "wf_builder ?s"
    using wf unfolding wf_builder_def cnt by (auto simp: add_normal_def dest: set_list_update)
  moreover have "old_kept s ?s"
    using i by (auto simp: old_kept_def add_normal_def set_update_def nth_list_update)
  ultimately show ?thesis
    by (auto simp: kept_def grows_def ok_def same_stacks_def new_nodes_covered_def cnt)
      (simp_all add: add_normal_def current_context_def)
qed

lemma kept_add_exceptional:
  assumes "ok s (i # ts)"
  shows "kept (add_exceptional i ts) s"
proof -
  have i: "i < length (b_exceptional s)" and wf: "wf_builder s" and ts: "in_graph s ts"
    using assms by (auto simp: ok_def wf_builder_def)
  let ?s = "add_exceptional i ts s"
  have n: "node_count ?s = node_count s" by (simp add: add_exceptional_def)
  note cnt = n in_graph_cong [OF n]
  have "in_graph s (b_exceptional s ! i)" using wf i by (simp add: wf_builder_def)
  then have "in_graph s (set_update (b_exceptional s ! i) ts)"
    using ts by (auto simp: set_update_def in_graph_def)
  then have "wf_builder ?s"
    using wf unfolding wf_builder_def cnt by (auto simp: add_exceptional_def dest: set_list_update)
  moreover have "old_kept s ?s"
    using i by (auto simp: old_kept_def add_exceptional_def set_update_def nth_list_update)
  ultimately show ?thesis
    by (auto simp: kept_def grows_def ok_def same_stacks_def new_nodes_covered_def cnt)
      (simp_all add: add_exceptional_def current_context_def)
qed

lemma kept_id: "ok s [] \<Longrightarrow> kept (\<lambda>s. s) s"
  by (simp add: kept_def)

lemma kept_ok: "kept f s \<Longrightarrow> ok s ts \<Longrightarrow> ok (f s) ts"
  by (auto simp: kept_def intro: ok_grows)

lemma kept_fold:
  assumes "\<And>x s. x \<in> set xs \<Longrightarrow> ok s (g x @ ts) \<Longrightarrow> kept (f x) s" "\<forall>x \<in> set xs. ok s (g x)" "ok s ts"
  shows "kept (fold f xs) s"
  using assms
proof (induction xs arbitrary: s)
  case Nil
  then show ?case by (simp add: kept_def ok_Nil)
next
  case (Cons x xs)
  then have k: "kept (f x) s" by simp
  have "\<forall>y \<in> set xs. ok (f x s) (g y)" "ok (f x s) ts"
    using Cons.prems(2,3) kept_ok [OF k] by simp_all
  with Cons have "kept (fold f xs) (f x s)" by simp
  with k show ?case by (auto simp: kept_def intro: grows_trans)
qed

lemma kept_link:
  assumes "ok s (target # preds)"
  shows "kept (link preds target) s"
proof -
  have "kept (fold (\<lambda>p. add_normal p [target]) preds) s"
    by (rule kept_fold [where g = "\<lambda>p. [p]" and ts = "[target]"])
      (use assms in \<open>auto simp: ok_def in_graph_def intro: kept_add_normal\<close>)
  then show ?thesis by (simp add: link_def kept_def)
qed

lemma exit_in_graph: "ok s ts \<Longrightarrow> Suc 0 < node_count s \<and> 0 < node_count s"
  by (auto simp: ok_def wf_builder_def)

lemma kept_to_exit: "ok s [i] \<Longrightarrow> kept (to_exit_unless_handled i) s"
  using kept_link [of s ExitNode "[i]"] exit_in_graph [of s "[i]"] kept_id [of s]
  by (auto simp: to_exit_unless_handled_def kept_def)

lemma handlers_in_graph: "ok s ts \<Longrightarrow> in_graph s (concat (b_handlers s))"
  by (auto simp: ok_def wf_builder_def in_graph_def)

lemma kept_resume: "ok s [i] \<Longrightarrow> kept (resume_exception i) s"
  using kept_add_exceptional [of s i "concat (b_handlers s)"] kept_add_exceptional [of s i "[ExitNode]"]
    exit_in_graph [of s "[i]"] handlers_in_graph [of s "[i]"]
  by (auto simp: resume_exception_def kept_def ok_def)

lemma kept_resume_all: "ok s out \<Longrightarrow> kept (fold resume_exception out) s"
  by (rule kept_fold [where g = "\<lambda>i. [i]" and ts = "[]"])
    (auto simp: ok_def in_graph_def intro: kept_resume)

section \<open>New nodes\<close>

lemma sound_new_node:
  assumes "ok s []"
  shows "sound deep (\<lambda>i. [i]) (new_node kind a b c d l) s"
proof -
  obtain s' where s': "new_node kind a b c d l s = Inr (node_count s, s')"
    by (simp add: new_node_def node_count_def Let_def)
  have wf: "wf_builder s" and len: "2 \<le> length (b_nodes s)" using assms by (auto simp: ok_def wf_builder_def node_count_def)
  then have eq: "b_nodes s' = b_nodes s @ [\<lparr>n_kind = kind, n_start = a, n_end = b, n_byte = c,
        n_context = current_context s, n_condition = d, n_located = l\<rparr>]"
      "b_normal s' = b_normal s @ [[]]" "b_exceptional s' = b_exceptional s @ [dedup (concat (b_handlers s))]"
      "b_frames s' = b_frames s" "b_handlers s' = b_handlers s" "current_context s' = current_context s"
      "b_loops s' = b_loops s" "b_tries s' = b_tries s" "b_exception_paths s' = b_exception_paths s"
    using s' by (auto simp: new_node_def Let_def current_context_def)
  have cnt: "node_count s' = Suc (node_count s)" by (simp add: node_count_def eq)
  have up: "in_graph s ts \<Longrightarrow> in_graph s' ts" for ts using in_graph_mono [of s ts s'] cnt by simp
  have "in_graph s (dedup (concat (b_handlers s)))" using wf by (auto simp: wf_builder_def in_graph_def)
  then have "wf_builder s'"
    using wf up by (simp add: wf_builder_def cnt eq)
  moreover have "old_kept s s'"
    using wf by (auto simp: old_kept_def eq nth_append wf_builder_def)
  moreover have "new_nodes_covered s s'"
    using wf by (auto simp: new_nodes_covered_def cnt eq nth_append wf_builder_def node_count_def less_Suc_eq)
  ultimately have "grows s s' \<and> ok s' [node_count s]"
    by (simp add: grows_def same_stacks_def eq ok_def cnt)
  then show ?thesis by (simp add: sound_def s')
qed

lemma sound_linked_node:
  assumes "ok s preds"
  shows "sound deep (\<lambda>i. [i]) (linked_node kind syntax preds cond) s"
  unfolding linked_node_def
proof (rule sound_and_then [OF sound_new_node])
  show "ok s []" using assms by (rule ok_Nil)
  fix i s' assume "grows s s'" "ok s' [i]"
  with assms have o: "ok s' (i # preds)" using ok_grows ok_Nil by (metis ok_simps(1))
  show "sound deep (\<lambda>i. [i]) (and_then (doing (link preds i)) (\<lambda>_. done_with i)) s'"
    by (rule sound_and_then [OF sound_doing [OF kept_link [OF o]]])
      (rule sound_done, use o ok_grows ok_Nil in \<open>metis ok_simps(1)\<close>)
qed

section \<open>Scopes\<close>

definition scope :: "(builder \<Rightarrow> builder) \<Rightarrow> (builder \<Rightarrow> builder) \<Rightarrow> builder \<Rightarrow> bool" where
  "scope enter leave s \<longleftrightarrow> ok (enter s) [] \<and> (\<forall>s'. grows (enter s) s' \<and> wf_builder s' \<longrightarrow>
     grows s (leave s') \<and> wf_builder (leave s') \<and> node_count (leave s') = node_count s')"

lemma sound_scope:
  assumes "scope enter leave s" "sound deep V m (enter s)"
  shows "sound deep V (within enter leave m) s"
proof (cases "m (enter s)")
  case (Inl e)
  with assms(2) show ?thesis by (simp add: sound_def within_def)
next
  case (Inr r)
  obtain x s' where r: "r = (x, s')" by (cases r)
  from sound_result [OF assms(2)] Inr r have "grows (enter s) s'" "ok s' (V x)" by simp_all
  with assms(1) have "grows s (leave s') \<and> ok (leave s') (V x)"
    unfolding scope_def ok_def in_graph_def by metis
  then show ?thesis by (simp add: sound_def within_def Inr r)
qed

lemma scope_ok: "scope enter leave s \<Longrightarrow> node_count (enter s) = node_count s \<Longrightarrow> ok s ts \<Longrightarrow> ok (enter s) ts"
  by (auto simp: scope_def ok_def in_graph_def)

text \<open>Leaving a scope only needs the stacks it changed to be restored.\<close>

lemma grows_leave:
  assumes "old_kept s e" "node_count e = node_count s" "grows e s'"
    "b_nodes l = b_nodes s'" "b_normal l = b_normal s'" "b_exceptional l = b_exceptional s'"
    "set (concat (b_handlers s)) \<subseteq> set (concat (b_handlers e))"
    "context_extends (current_context s) (current_context e)" "same_stacks s l"
  shows "grows s l"
proof -
  have "node_count l = node_count s'" using assms(4) by (simp add: node_count_def)
  moreover have "old_kept s l"
    using assms unfolding old_kept_def grows_def by (metis prefix_order.order_trans subset_trans)
  moreover have "new_nodes_covered s l"
    using assms unfolding new_nodes_covered_def grows_def
    by (metis calculation(1) context_extends_trans subset_trans)
  ultimately show ?thesis using assms(9) by (simp add: grows_def)
qed

lemma wf_builder_cong:
  assumes "b_nodes t = b_nodes s" "b_normal t = b_normal s" "b_exceptional t = b_exceptional s"
    "set (b_handlers t) \<subseteq> set (b_handlers s)" "set (b_frames t) \<subseteq> set (b_frames s)" "wf_builder s"
  shows "wf_builder t"
proof -
  have n: "node_count t = node_count s" using assms(1) by (simp add: node_count_def)
  show ?thesis
    using assms unfolding wf_builder_def in_graph_cong [OF n] n by (metis subsetD)
qed

lemma old_kept_same: "b_nodes t = b_nodes s \<Longrightarrow> b_normal t = b_normal s \<Longrightarrow> b_exceptional t = b_exceptional s \<Longrightarrow>
    old_kept s t"
  by (simp add: old_kept_def)

lemma grows_stacks:
  assumes "grows s s'"
  shows "b_conditions s' = b_conditions s" "b_catches s' = b_catches s" "b_loops s' = b_loops s"
    "b_tries s' = b_tries s" "b_exception_paths s' = b_exception_paths s" "b_handlers s' = b_handlers s"
    "map fr_kind (b_frames s') = map fr_kind (b_frames s)"
  using assms by (simp_all add: grows_def same_stacks_def current_context_def)

lemma set_tl_subset [simp]: "set (tl xs) \<subseteq> set xs"
  by (cases xs) auto

lemmas scope_defs = push_conditions_def drop_conditions_def enter_try_def leave_try_def enter_catches_def leave_catches_def

lemma scope_conditions:
  assumes "ok s []"
  shows "scope (push_conditions cs) (drop_conditions (length cs)) s"
  unfolding scope_def
proof (intro conjI allI impI)
  show "ok (push_conditions cs s) []"
    using assms wf_builder_cong [of "push_conditions cs s" s] by (simp add: ok_def push_conditions_def)
  fix s' assume g: "grows (push_conditions cs s) s' \<and> wf_builder s'"
  note st = grows_stacks [OF conjunct1 [OF g]]
  show "grows s (drop_conditions (length cs) s')"
  proof (rule grows_leave [where e = "push_conditions cs s" and s' = s'])
    show "same_stacks s (drop_conditions (length cs) s')"
      using st by (simp add: same_stacks_def current_context_def scope_defs)
  qed (use g in \<open>simp_all add: old_kept_same scope_defs context_extends_def current_context_def\<close>)
  show "wf_builder (drop_conditions (length cs) s')"
    using g wf_builder_cong [of "drop_conditions (length cs) s'" s'] by (simp add: scope_defs)
  show "node_count (drop_conditions (length cs) s') = node_count s'" by (simp add: scope_defs)
qed

lemma scope_try:
  assumes "ok s targets"
  shows "scope (enter_try targets types) (leave_try (length types)) s"
  unfolding scope_def
proof (intro conjI allI impI)
  have n: "node_count (enter_try targets types s) = node_count s" by (simp add: scope_defs)
  show "ok (enter_try targets types s) []"
    using assms unfolding ok_def wf_builder_def in_graph_cong [OF n] n by (simp add: scope_defs)
  fix s' assume g: "grows (enter_try targets types s) s' \<and> wf_builder s'"
  note st = grows_stacks [OF conjunct1 [OF g]]
  show "grows s (leave_try (length types) s')"
  proof (rule grows_leave [where e = "enter_try targets types s" and s' = s'])
    show "same_stacks s (leave_try (length types) s')"
      using st by (simp add: same_stacks_def current_context_def scope_defs)
  qed (use g in \<open>auto simp: old_kept_same scope_defs context_extends_def current_context_def\<close>)
  show "wf_builder (leave_try (length types) s')"
    using g wf_builder_cong [of "leave_try (length types) s'" s'] by (auto simp: scope_defs)
  show "node_count (leave_try (length types) s') = node_count s'" by (simp add: scope_defs)
qed

lemma scope_catches:
  assumes "ok s (case f of None \<Rightarrow> [] | Some i \<Rightarrow> [i])"
  shows "scope (enter_catches f) (leave_catches f) s"
  unfolding scope_def
proof (intro conjI allI impI)
  have n: "node_count (enter_catches f s) = node_count s" by (simp add: scope_defs)
  show "ok (enter_catches f s) []"
    using assms unfolding ok_def wf_builder_def in_graph_cong [OF n] n by (auto simp: scope_defs split: option.splits)
  fix s' assume g: "grows (enter_catches f s) s' \<and> wf_builder s'"
  note st = grows_stacks [OF conjunct1 [OF g]]
  show "grows s (leave_catches f s')"
  proof (rule grows_leave [where e = "enter_catches f s" and s' = s'])
    show "same_stacks s (leave_catches f s')"
      using st by (simp add: same_stacks_def current_context_def scope_defs split: option.splits)
  qed (use g in \<open>auto simp: old_kept_same scope_defs context_extends_def current_context_def split: option.splits\<close>)
  show "wf_builder (leave_catches f s')"
    using g wf_builder_cong [of "leave_catches f s'" s'] by (auto simp: scope_defs split: option.splits)
  show "node_count (leave_catches f s') = node_count s'" by (simp add: scope_defs)
qed

lemma ok_enter_frame: "ok s ts \<Longrightarrow> ok (enter_frame kind s) ts"
proof -
  have n: "node_count (enter_frame kind s) = node_count s" by (simp add: enter_frame_def)
  show "ok s ts \<Longrightarrow> ok (enter_frame kind s) ts"
    unfolding ok_def wf_builder_def in_graph_cong [OF n] n by (simp add: enter_frame_def)
qed

lemma scope_frame:
  assumes "ok s []"
  shows "scope (enter_frame kind) (leave_frame kind) s"
  unfolding scope_def
proof (intro conjI allI impI)
  show "ok (enter_frame kind s) []" using assms by (rule ok_enter_frame)
  fix s' assume g: "grows (enter_frame kind s) s' \<and> wf_builder s'"
  note st = grows_stacks [OF conjunct1 [OF g]]
  show "grows s (leave_frame kind s')"
  proof (rule grows_leave [where e = "enter_frame kind s" and s' = s'])
    have "map fr_kind (tl (b_frames s')) = map fr_kind (b_frames s)"
      unfolding map_tl st(7) by (simp add: enter_frame_def)
    then show "same_stacks s (leave_frame kind s')"
      using st(1-6) by (simp add: same_stacks_def current_context_def leave_frame_def enter_frame_def)
  qed (use g in \<open>auto simp: old_kept_same leave_frame_def enter_frame_def context_extends_def current_context_def\<close>)
  show "wf_builder (leave_frame kind s')"
    using g wf_builder_cong [of "leave_frame kind s'" s'] by (simp add: leave_frame_def)
  show "node_count (leave_frame kind s') = node_count s'" by (simp add: leave_frame_def)
qed

definition frame_nodes :: "frame \<Rightarrow> nat list" where
  "frame_nodes f = fr_breaks f @ fr_continues f"

lemma ok_frames: "ok s ts \<Longrightarrow> b_frames s \<noteq> [] \<Longrightarrow> ok s (frame_nodes (hd (b_frames s)))"
  unfolding ok_def wf_builder_def frame_nodes_def by (auto simp del: in_graph_simps)

lemma sound_in_frame:
  assumes "ok s []" "sound deep V m (enter_frame kind s)"
  shows "sound deep (\<lambda>(x, fr). V x @ frame_nodes fr) (in_frame kind m) s"
  unfolding in_frame_def
proof (rule sound_scope [OF scope_frame [OF assms(1)] sound_and_then [OF assms(2)]])
  fix x s' assume g: "grows (enter_frame kind s) s'" "ok s' (V x)"
  have "map fr_kind (b_frames s') \<noteq> []" using grows_stacks(7) [OF g(1)] by (simp add: enter_frame_def)
  then have "ok s' (frame_nodes (hd (b_frames s')))" using ok_frames [OF g(2)] by simp
  with g(2) show "sound deep (\<lambda>(x, fr). V x @ frame_nodes fr)
      (and_then (reading (\<lambda>s. hd (b_frames s))) (\<lambda>frame. done_with (x, frame))) s'"
    by (simp add: sound_def and_then_def reading_def done_with_def)
qed

section \<open>Simple statements\<close>

lemma add_jump_same: "add_jump b i fs = None \<longleftrightarrow> add_jump b j fs = None"
  by (induction b i fs rule: add_jump.induct) auto

lemma add_jump_props:
  "add_jump b i fs = Some fs' \<Longrightarrow> map fr_kind fs' = map fr_kind fs \<and>
     (\<forall>f' \<in> set fs'. \<exists>f \<in> set fs. set (frame_nodes f') \<subseteq> insert i (set (frame_nodes f)))"
proof (induction b i fs arbitrary: fs' rule: add_jump.induct)
  case (2 b i f fs)
  then show ?case by (force simp: frame_nodes_def split: if_splits)
qed simp

lemma kept_add_jump:
  assumes "ok s [i]" "add_jump b i (b_frames s) \<noteq> None"
  shows "kept (\<lambda>s. s\<lparr>b_frames := the (add_jump b i (b_frames s))\<rparr>) s"
proof -
  obtain fs' where fs': "add_jump b i (b_frames s) = Some fs'" using assms(2) by blast
  let ?s = "s\<lparr>b_frames := fs'\<rparr>"
  have n: "node_count ?s = node_count s" by simp
  have old: "in_graph s (frame_nodes f)" if "f \<in> set (b_frames s)" for f
    using that assms(1) unfolding ok_def wf_builder_def frame_nodes_def by blast
  have "in_graph s (frame_nodes f')" if f': "f' \<in> set fs'" for f'
  proof -
    obtain f where f: "f \<in> set (b_frames s)" "set (frame_nodes f') \<subseteq> insert i (set (frame_nodes f))"
      using add_jump_props [OF fs'] f' by blast
    with old [OF f(1)] assms(1) show ?thesis unfolding in_graph_def by auto
  qed
  then have "wf_builder ?s"
    using assms(1) unfolding ok_def wf_builder_def in_graph_cong [OF n] n by (simp add: frame_nodes_def)
  moreover have "grows s ?s"
    using add_jump_props [OF fs']
    by (auto simp: grows_def same_stacks_def old_kept_same new_nodes_covered_def current_context_def)
  ultimately show ?thesis by (simp add: kept_def ok_def fs')
qed

lemma sound_leaving:
  assumes "ok s preds" "\<And>i s'. grows s s' \<Longrightarrow> ok s' (i # preds) \<Longrightarrow> kept (out i) s'"
  shows "sound deep (\<lambda>x. x) (leaving_node kind node preds out) s"
  unfolding leaving_node_def
proof (rule sound_and_then [OF sound_linked_node [OF assms(1)]])
  fix i s' assume g: "grows s s'" "ok s' [i]"
  then have "ok s' (i # preds)" using assms(1) ok_grows by (metis ok_simps(1) ok_Nil)
  with assms(2) g have k: "kept (out i) s'" by blast
  show "sound deep (\<lambda>x. x) (and_then (doing (out i)) (\<lambda>_. done_with [])) s'"
    by (rule sound_and_then [OF sound_doing [OF k]]) (rule sound_done, use ok_Nil in simp)
qed

lemma sound_assert:
  assumes "ok s preds"
  shows "sound deep (\<lambda>x. x) (and_then (linked_node ''branch'' node preds c) (\<lambda>index.
      and_then (new_node ''throw'' a b d '''' False) (\<lambda>failed.
      and_then (doing (add_normal index [failed])) (\<lambda>_.
      and_then (doing (to_exit_unless_handled failed)) (\<lambda>_. done_with [index]))))) s"
proof (rule sound_and_then [OF sound_linked_node [OF assms]])
  fix i s1 assume i: "ok s1 [i]"
  show "sound deep (\<lambda>x. x) (and_then (new_node ''throw'' a b d '''' False) (\<lambda>failed.
      and_then (doing (add_normal i [failed])) (\<lambda>_.
      and_then (doing (to_exit_unless_handled failed)) (\<lambda>_. done_with [i])))) s1"
  proof (rule sound_and_then [OF sound_new_node [OF ok_Nil [OF i]]])
    fix j s2 assume g: "grows s1 s2" and j: "ok s2 [j]"
    have ij: "ok s2 [i, j]" using ok_grows [OF i g ok_Nil [OF j]] j by simp
    show "sound deep (\<lambda>x. x) (and_then (doing (add_normal i [j])) (\<lambda>_.
        and_then (doing (to_exit_unless_handled j)) (\<lambda>_. done_with [i]))) s2"
    proof (rule sound_and_then [OF sound_doing [OF kept_add_normal [OF ij]]])
      fix x s3 assume g3: "grows s2 s3" and o3: "ok s3 []"
      have ij3: "ok s3 [i, j]" using ok_grows [OF ij g3 o3] .
      show "sound deep (\<lambda>x. x) (and_then (doing (to_exit_unless_handled j)) (\<lambda>_. done_with [i])) s3"
      proof (rule sound_and_then [OF sound_doing [OF kept_to_exit]])
        show "ok s3 [j]" using ij3 by simp
        fix x s4 assume "grows s3 s4" "ok s4 []"
        with ij3 have "ok s4 [i, j]" using ok_grows by blast
        then show "sound deep (\<lambda>x. x) (done_with [i]) s4" by (intro sound_done) simp
      qed
    qed
  qed
qed

lemma kept_link_exit: "ok s [i] \<Longrightarrow> kept (link [i] ExitNode) s"
  by (rule kept_link) (use exit_in_graph [of s "[i]"] in simp)

lemma sound_jump:
  assumes "ok s preds"
  shows "sound deep (\<lambda>x. x) (jump_statement b node preds) s"
proof -
  have "sound deep (\<lambda>x. x) (and_then (reading (\<lambda>s. add_jump b 0 (b_frames s) = None)) (\<lambda>no_frame.
      if no_frame then unmodelled ''jump_without_target''
      else leaving_node k node preds (\<lambda>i s. s\<lparr>b_frames := the (add_jump b i (b_frames s))\<rparr>))) s" for k
  proof (cases "add_jump b 0 (b_frames s) = None")
    case True
    then show ?thesis by (simp add: sound_def and_then_def reading_def unmodelled_def build_reasons_def)
  next
    case False
    have "sound deep (\<lambda>x. x) (leaving_node k node preds (\<lambda>i s. s\<lparr>b_frames := the (add_jump b i (b_frames s))\<rparr>)) s"
    proof (rule sound_leaving [OF assms])
      fix i s' assume g: "grows s s'" and i: "ok s' (i # preds)"
      have "add_jump b i fs = None \<longleftrightarrow> add_jump b i gs = None" if "map fr_kind fs = map fr_kind gs" for fs gs
        using that
      proof (induction b i fs arbitrary: gs rule: add_jump.induct)
        case (2 b i f fs)
        then obtain g gs' where "gs = g # gs'" "fr_kind g = fr_kind f" "map fr_kind fs = map fr_kind gs'"
          by (cases gs) auto
        with 2 show ?case by auto
      qed simp
      from this [OF grows_stacks(7) [OF g]] False have "add_jump b i (b_frames s') \<noteq> None"
        using add_jump_same [of b i "b_frames s" 0] by simp
      with i show "kept (\<lambda>s. s\<lparr>b_frames := the (add_jump b i (b_frames s))\<rparr>) s'"
        by (intro kept_add_jump) (auto dest: ok_Nil)
    qed
    with False show ?thesis by (auto simp: sound_def and_then_def reading_def)
  qed
  then show ?thesis by (simp add: jump_statement_def sound_unmodelled build_reasons_def)
qed

lemma sound_simple:
  assumes "ok s preds"
  shows "sound deep (\<lambda>x. x) (simple_statement node preds) s"
proof -
  have leave: "sound deep (\<lambda>x. x) (leaving_node k node preds (\<lambda>i. link [i] ExitNode)) s"
    "sound deep (\<lambda>x. x) (leaving_node k node preds to_exit_unless_handled) s" for k
    by (rule sound_leaving [OF assms], (intro kept_link_exit kept_to_exit), use ok_Nil in auto)+
  have plain: "sound deep (\<lambda>x. x) (and_then (linked_node k node preds t) (\<lambda>i. done_with [i])) s" for k t
    by (rule sound_and_then [OF sound_linked_node [OF assms]]) (rule sound_done)
  show ?thesis
    unfolding simple_statement_def Let_def
    using sound_jump [OF assms] leave plain sound_assert [OF assms]
    by (simp add: sound_unmodelled build_reasons_def del: One_nat_def)
qed

end
