(* ===== verification/Ir.thy ===== *)
theory Ir
  imports PyText
begin

text \<open>
  The intra-file representation the obligation stages read (\<open>semantic/ir.py\<close>): bindings, call sites,
  functions and files, and the last segment of a callee. Parsing produces these values and is not
  modelled.
\<close>

record bind =
  bd_name :: string
  bd_line :: int
  bd_value_text :: string
  bd_constant :: bool
  bd_names :: "string list"
  bd_call :: "string option"
  bd_order :: int

record call_site =
  cs_name :: string
  cs_line :: int
  cs_arg_texts :: "string list"
  cs_arg_constant :: "bool list"
  cs_arg_names :: "string list list"
  cs_extra_sequence :: bool
  cs_order :: int
  cs_receiver :: "string option"
  cs_arity :: "int option"

record function_ir =
  fn_name :: string
  fn_params :: "string list"
  fn_start :: int
  fn_end :: int
  fn_binds :: "bind list"
  fn_calls :: "call_site list"

record file_ir =
  fi_path :: string
  fi_language :: string
  fi_engine :: string
  fi_functions :: "function_ir list"
  fi_ok :: bool
  fi_reason :: "string option"

text \<open>\<open>s.rsplit(sep, 1)[-1]\<close>: what follows the last separator, the whole text without one.\<close>

definition after_sep :: "string \<Rightarrow> string \<Rightarrow> string" where
  "after_sep sep s = snd (rpartition sep s)"

text \<open>\<open>trailing_name\<close>: the last identifier of the last segment, \<open>[A-Za-z_$][\w$]*\s*$\<close>.\<close>

definition name_tail_regex :: regex where
  "name_tail_regex = RSeqs
     [RChar (\<lambda>c. ascii_letter c \<or> c = CHR ''_'' \<or> c = CHR ''$''), RStar name_char, RStar py_space, REnd]"

definition trailing_name :: "string \<Rightarrow> string" where
  "trailing_name callee =
     (let tail = after_sep ''->'' (after_sep ''::'' (after_sep ''.'' callee))
      in case re_find name_tail_regex tail of Some (m, _) \<Rightarrow> strip m | None \<Rightarrow> tail)"

lemma trailing_name_samples:
  "trailing_name ''os.path.join'' = ''join''"
  "trailing_name ''Runtime.getRuntime().exec'' = ''exec''"
  "trailing_name ''$this->repo->find'' = ''find''"
  "trailing_name ''Foo::bar '' = ''bar''"
  "trailing_name ''call()'' = ''call()''"
  by code_simp+

end
