(* ===== verification/Paths.thy ===== *)
theory Paths
  imports PyText "HOL-Library.Multiset"
begin

text \<open>
  Caller chains from a changed function back to a recognised entry (\<open>semantic/obligations/paths.py\<close>).
  The adapter that looks up callers is the argument \<open>callers\<close>; what it answers for a node is read
  once and remembered, as in the code. The pending chains are a stack whose top is the head.
\<close>

type_synonym hop = "string \<times> int option"
type_synonym callers = "string \<Rightarrow> string \<Rightarrow> (string \<times> int) list"
type_synonym caller_cache = "string \<rightharpoonup> (string \<times> int) list"

record path_record =
  p_hops :: "hop list"
  p_entry :: string
  p_complete :: bool

definition lookup_callers :: "callers \<Rightarrow> nat \<Rightarrow> string \<Rightarrow> (string \<times> int) list" where
  "lookup_callers callers fan_out node =
     (let (path, function) = rpartition ''::'' node in take fan_out (dedup (callers path function)))"

definition callers_of_node :: "callers \<Rightarrow> nat \<Rightarrow> string \<Rightarrow> caller_cache \<Rightarrow> (string \<times> int) list \<times> caller_cache" where
  "callers_of_node callers fan_out node known =
     (case known node of
        Some cs \<Rightarrow> (cs, known)
      | None \<Rightarrow> let cs = lookup_callers callers fan_out node in (cs, known(node \<mapsto> cs)))"

text \<open>The chains one caller edge longer, in the order they are pushed.\<close>

definition longer_chains :: "(string \<times> int) list \<Rightarrow> hop list \<Rightarrow> hop list list" where
  "longer_chains cs hops =
     map (\<lambda>(caller, line). (caller, Some line) # hops) (filter (\<lambda>(caller, line). caller \<notin> fst ` set hops) cs)"

type_synonym found_paths = "(hop list \<times> path_record) list"

function walk_chains :: "callers \<Rightarrow> string set \<Rightarrow> nat \<Rightarrow> nat \<Rightarrow> hop list list \<Rightarrow> found_paths \<times> bool \<times> caller_cache \<Rightarrow>
    found_paths \<times> bool \<times> caller_cache" where
  "walk_chains callers entries max_depth fan_out [] s = s"
| "walk_chains callers entries max_depth fan_out (hops # pending) (found, reached, known) =
     (let node = fst (hd hops) in
      if node \<in> entries
      then walk_chains callers entries max_depth fan_out pending
        (set_default hops \<lparr>p_hops = hops, p_entry = node, p_complete = True\<rparr> found, True, known)
      else if length hops - 1 \<ge> max_depth
      then walk_chains callers entries max_depth fan_out pending (found, reached, known)
      else let (cs, known') = callers_of_node callers fan_out node known
           in walk_chains callers entries max_depth fan_out (rev (longer_chains cs hops) @ pending)
                (found, reached, known'))"
  by pat_completeness auto

lemma mult_drop: "(M, add_mset x M) \<in> mult r"
  using one_step_implies_mult [of "{#x#}" "{#}" r M] by simp

text \<open>A step replaces a chain by any number of chains closer to the depth bound, or by none.\<close>

definition chain_order :: "nat \<Rightarrow> hop list list \<Rightarrow> nat multiset" where
  "chain_order max_depth pending = image_mset (\<lambda>h. Suc max_depth - length h) (mset pending)"

termination walk_chains
proof (relation "inv_image (mult less_than) (\<lambda>(callers, entries, max_depth, fan_out, pending, s). chain_order max_depth pending)")
  show "wf (inv_image (mult less_than) (\<lambda>(callers :: callers, entries :: string set, max_depth, fan_out :: nat, pending, s :: found_paths \<times> bool \<times> caller_cache).
      chain_order max_depth pending))"
    by (intro wf_inv_image wf_mult wf_less_than)
next
  fix callers :: callers and entries max_depth fan_out and hops :: "hop list" and pending found reached known node x cs known'
  assume "node = fst (hd hops)" and short: "\<not> length hops - 1 \<ge> (max_depth :: nat)"
    and x: "x = callers_of_node callers fan_out node known" and c: "(cs, known') = x"
  let ?m = "\<lambda>h :: hop list. Suc max_depth - length h"
  have "(image_mset ?m (mset pending) + image_mset ?m (mset (longer_chains cs hops)), image_mset ?m (mset pending) + {#?m hops#}) \<in> mult less_than"
  proof (rule one_step_implies_mult)
    show "{#?m hops#} \<noteq> {#}" by simp
    show "\<forall>k \<in> set_mset (image_mset ?m (mset (longer_chains cs hops))). \<exists>j \<in> set_mset {#?m hops#}. (k, j) \<in> less_than"
      using short by (auto simp: longer_chains_def)
  qed
  then show "((callers, entries, max_depth, fan_out, rev (longer_chains cs hops) @ pending, found, reached, known'),
      callers, entries, max_depth, fan_out, hops # pending, found, reached, known) \<in>
      inv_image (mult less_than) (\<lambda>(callers, entries, max_depth, fan_out, pending, s). chain_order max_depth pending)"
    by (simp add: chain_order_def add.commute)
qed (simp_all add: chain_order_def mult_drop)

declare walk_chains.simps(2) [simp del]

definition target_node :: "string \<times> string \<Rightarrow> string" where
  "target_node t = fst t @ ''::'' @ snd t"

fun walk_targets :: "callers \<Rightarrow> string set \<Rightarrow> nat \<Rightarrow> nat \<Rightarrow> (string \<times> string) list \<Rightarrow>
    found_paths \<times> string list \<times> caller_cache \<Rightarrow> found_paths \<times> string list \<times> caller_cache" where
  "walk_targets callers entries max_depth fan_out [] s = s"
| "walk_targets callers entries max_depth fan_out (t # ts) (found, unreached, known) =
     (let (found', reached, known') =
            walk_chains callers entries max_depth fan_out [[(target_node t, None)]] (found, False, known)
      in walk_targets callers entries max_depth fan_out ts
           (found', (if reached then unreached else unreached @ [target_node t]), known'))"

definition compose_paths :: "callers \<Rightarrow> string set \<Rightarrow> (string \<times> string) list \<Rightarrow> int \<Rightarrow> int \<Rightarrow>
    (path_record list \<times> string list) result" where
  "compose_paths callers entries targets max_depth fan_out =
     (if max_depth < 0 \<or> fan_out < 1 then Inl (ValueError ''invalid path bounds'')
      else if entries = {} then Inr ([], map target_node (dedup targets))
      else let (found, unreached, known) =
             walk_targets callers entries (nat max_depth) (nat fan_out) (dedup targets) ([], [], Map.empty)
           in Inr (map snd found, unreached))"

section \<open>What a chain is\<close>

fun linked :: "callers \<Rightarrow> nat \<Rightarrow> hop list \<Rightarrow> bool" where
  "linked callers fan_out [] \<longleftrightarrow> False"
| "linked callers fan_out [(n, l)] \<longleftrightarrow> l = None"
| "linked callers fan_out ((c, l) # (n, m) # hops) \<longleftrightarrow>
     (\<exists>line. l = Some line \<and> (c, line) \<in> set (lookup_callers callers fan_out n)) \<and> linked callers fan_out ((n, m) # hops)"

text \<open>
  Within the depth bound, through caller edges that survive the fan-out bound, without a repeated
  node, and past no entry on the way.
\<close>

definition wf_chain :: "callers \<Rightarrow> string set \<Rightarrow> nat \<Rightarrow> nat \<Rightarrow> hop list \<Rightarrow> bool" where
  "wf_chain callers entries max_depth fan_out h \<longleftrightarrow>
     length h \<le> Suc max_depth \<and> distinct (map fst h) \<and> linked callers fan_out h \<and> fst ` set (tl h) \<inter> entries = {}"

definition entry_chain :: "callers \<Rightarrow> string set \<Rightarrow> nat \<Rightarrow> nat \<Rightarrow> string \<Rightarrow> hop list \<Rightarrow> bool" where
  "entry_chain callers entries max_depth fan_out target h \<longleftrightarrow>
     wf_chain callers entries max_depth fan_out h \<and> last h = (target, None) \<and> fst (hd h) \<in> entries"

text \<open>The chains one step longer than \<open>h\<close>, and the chains the walk can make of it.\<close>

definition chain_children :: "callers \<Rightarrow> string set \<Rightarrow> nat \<Rightarrow> nat \<Rightarrow> hop list \<Rightarrow> hop list list" where
  "chain_children callers entries max_depth fan_out h =
     (if fst (hd h) \<in> entries \<or> length h - 1 \<ge> max_depth then []
      else longer_chains (lookup_callers callers fan_out (fst (hd h))) h)"

inductive extends :: "callers \<Rightarrow> string set \<Rightarrow> nat \<Rightarrow> nat \<Rightarrow> hop list \<Rightarrow> hop list \<Rightarrow> bool"
  for callers entries max_depth fan_out where
  same: "extends callers entries max_depth fan_out h h"
| longer: "c \<in> set (chain_children callers entries max_depth fan_out h) \<Longrightarrow>
    extends callers entries max_depth fan_out c h' \<Longrightarrow> extends callers entries max_depth fan_out h h'"

lemma extends_iff: "extends callers entries d k h h' \<longleftrightarrow>
    h' = h \<or> (\<exists>c \<in> set (chain_children callers entries d k h). extends callers entries d k c h')"
  by (subst extends.simps) auto

lemma linked_Cons: "h \<noteq> [] \<Longrightarrow> linked callers k (x # h) \<longleftrightarrow>
    (\<exists>line. snd x = Some line \<and> (fst x, line) \<in> set (lookup_callers callers k (fst (hd h)))) \<and> linked callers k h"
  by (cases x; cases h) auto

lemma wf_chain_Cons:
  assumes "wf_chain callers entries d k h" "h \<noteq> []"
  shows "wf_chain callers entries d k (x # h) \<longleftrightarrow> fst (hd h) \<notin> entries \<and> length h - 1 < d \<and> fst x \<notin> fst ` set h \<and>
    (\<exists>line. snd x = Some line \<and> (fst x, line) \<in> set (lookup_callers callers k (fst (hd h))))"
proof -
  have "fst ` set h \<inter> entries = {} \<longleftrightarrow> fst (hd h) \<notin> entries"
    using assms by (cases h) (simp_all add: wf_chain_def)
  moreover have "Suc (length h) \<le> Suc d \<longleftrightarrow> length h - 1 < d" using assms(2) by (cases h) auto
  ultimately show ?thesis
    using assms(1) unfolding wf_chain_def linked_Cons [OF assms(2)]
    by (simp del: not_less) metis
qed

lemma longer_chains_iff: "c \<in> set (longer_chains cs h) \<longleftrightarrow>
    (\<exists>x. c = x # h \<and> fst x \<notin> fst ` set h \<and> (\<exists>line. snd x = Some line \<and> (fst x, line) \<in> set cs))"
  unfolding longer_chains_def by force

lemma wf_chain_children:
  assumes "wf_chain callers entries d k h" "h \<noteq> []"
  shows "c \<in> set (chain_children callers entries d k h) \<longleftrightarrow> (\<exists>x. c = x # h \<and> wf_chain callers entries d k (x # h))"
  unfolding wf_chain_Cons [OF assms] chain_children_def
  by (simp add: longer_chains_iff not_le)

lemma wf_chain_suffix: "wf_chain callers entries d k (pre @ h) \<Longrightarrow> h \<noteq> [] \<Longrightarrow> wf_chain callers entries d k h"
proof (induction pre)
  case (Cons x pre)
  have "wf_chain callers entries d k (pre @ h)"
    using Cons.prems by (cases "pre @ h") (auto simp: wf_chain_def linked_Cons)
  then show ?case by (rule Cons.IH [OF _ Cons.prems(2)])
qed simp

lemma extends_wf:
  "extends callers entries d k h h' \<Longrightarrow> wf_chain callers entries d k h \<Longrightarrow> h \<noteq> [] \<Longrightarrow>
     (\<exists>pre. h' = pre @ h) \<and> wf_chain callers entries d k h'"
proof (induction rule: extends.induct)
  case (longer c h h')
  from longer.hyps(1) wf_chain_children [OF longer.prems]
  obtain x where x: "c = x # h" "wf_chain callers entries d k (x # h)" by auto
  with longer.IH obtain pre where "h' = pre @ x # h" "wf_chain callers entries d k h'" by auto
  then show ?case by (intro conjI exI [of _ "pre @ [x]"]) simp_all
qed auto

lemma wf_extends:
  "wf_chain callers entries d k (pre @ h) \<Longrightarrow> h \<noteq> [] \<Longrightarrow> extends callers entries d k h (pre @ h)"
proof (induction pre arbitrary: h rule: rev_induct)
  case (snoc x pre)
  then have w: "wf_chain callers entries d k (pre @ x # h)" by simp
  have "wf_chain callers entries d k (x # h)" by (rule wf_chain_suffix [OF w]) simp
  moreover from wf_chain_suffix [of callers entries d k "[x]" h] this snoc.prems(2)
  have "wf_chain callers entries d k h" by simp
  ultimately have "x # h \<in> set (chain_children callers entries d k h)"
    using wf_chain_children [OF _ snoc.prems(2), of callers entries d k "x # h"] by simp
  from extends.longer [OF this, of "pre @ x # h"] snoc.IH [OF w] show ?case by simp
qed (simp add: extends.same)

lemma extends_target:
  "extends callers entries d k [(t, None)] h \<longleftrightarrow> wf_chain callers entries d k h \<and> last h = (t, None)"
proof
  have w: "wf_chain callers entries d k [(t, None)]" by (simp add: wf_chain_def)
  assume "extends callers entries d k [(t, None)] h"
  from extends_wf [OF this w] show "wf_chain callers entries d k h \<and> last h = (t, None)" by auto
next
  assume h: "wf_chain callers entries d k h \<and> last h = (t, None)"
  then have "h \<noteq> []" by (auto simp: wf_chain_def)
  then have "h = butlast h @ [(t, None)]" using h by (metis append_butlast_last_id)
  with h show "extends callers entries d k [(t, None)] h" by (metis wf_extends not_Cons_self2)
qed

section \<open>The walk finds exactly the entry chains\<close>

definition chain_ends :: "callers \<Rightarrow> string set \<Rightarrow> nat \<Rightarrow> nat \<Rightarrow> hop list \<Rightarrow> hop list set" where
  "chain_ends callers entries d k p = {h. extends callers entries d k p h \<and> fst (hd h) \<in> entries}"

lemma chain_ends_unfold: "chain_ends callers entries d k p =
    (if fst (hd p) \<in> entries then {p} else (\<Union>c \<in> set (chain_children callers entries d k p). chain_ends callers entries d k c))"
  unfolding chain_ends_def by (subst extends_iff) (auto simp: chain_children_def)

definition cache_ok :: "callers \<Rightarrow> nat \<Rightarrow> caller_cache \<Rightarrow> bool" where
  "cache_ok callers k known \<longleftrightarrow> (\<forall>n cs. known n = Some cs \<longrightarrow> cs = lookup_callers callers k n)"

lemma callers_of_node_ok:
  "cache_ok callers k known \<Longrightarrow> fst (callers_of_node callers k n known) = lookup_callers callers k n"
  "cache_ok callers k known \<Longrightarrow> cache_ok callers k (snd (callers_of_node callers k n known))"
  by (auto simp: cache_ok_def callers_of_node_def Let_def split: option.splits)

definition wf_found :: "found_paths \<Rightarrow> bool" where
  "wf_found f \<longleftrightarrow> distinct (map fst f) \<and> (\<forall>(h, r) \<in> set f. r = \<lparr>p_hops = h, p_entry = fst (hd h), p_complete = True\<rparr>)"

lemma wf_found_set_default:
  "wf_found f \<Longrightarrow> wf_found (set_default h \<lparr>p_hops = h, p_entry = fst (hd h), p_complete = True\<rparr> f)"
  by (auto simp: wf_found_def distinct_set_default) (auto simp: set_default_def split: if_splits)

lemma walk_chains_exact:
  assumes "cache_ok callers k known" "wf_found found"
  shows "case walk_chains callers entries d k pending (found, reached, known) of (found', reached', known') \<Rightarrow>
    wf_found found' \<and> cache_ok callers k known' \<and>
    set (map fst found') = set (map fst found) \<union> (\<Union>p \<in> set pending. chain_ends callers entries d k p) \<and>
    (reached' \<longleftrightarrow> reached \<or> (\<exists>p \<in> set pending. chain_ends callers entries d k p \<noteq> {}))"
  using assms
proof (induction callers entries d k pending "(found, reached, known)" arbitrary: found reached known rule: walk_chains.induct)
  case (2 callers entries d k hops pending found reached known)
  show ?case
  proof (cases "fst (hd hops) \<in> entries")
    case True
    with 2(1) [OF refl True] 2(4,5) show ?thesis
      by (simp add: walk_chains.simps(2) Let_def wf_found_set_default keys_set_default [simplified] chain_ends_unfold [of _ _ _ _ hops]
          split: prod.splits)
  next
    case entry: False
    show ?thesis
    proof (cases "length hops - 1 \<ge> d")
      case True
      then have "chain_ends callers entries d k hops = {}"
        using entry by (simp add: chain_ends_unfold [of _ _ _ _ hops] chain_children_def)
      with 2(2) [OF refl entry True] 2(4,5) entry True show ?thesis
        by (simp add: walk_chains.simps(2) Let_def split: prod.splits)
    next
      case False
      obtain cs known' where c: "callers_of_node callers k (fst (hd hops)) known = (cs, known')" by fastforce
      have cs: "cs = lookup_callers callers k (fst (hd hops))" "cache_ok callers k known'"
        using callers_of_node_ok [OF 2(4), of "fst (hd hops)"] c by simp_all
      have e: "chain_ends callers entries d k hops = (\<Union>c \<in> set (longer_chains cs hops). chain_ends callers entries d k c)"
        using entry False by (simp add: chain_ends_unfold [of _ _ _ _ hops] chain_children_def cs(1))
      have "walk_chains callers entries d k (hops # pending) (found, reached, known) =
          walk_chains callers entries d k (rev (longer_chains cs hops) @ pending) (found, reached, known')"
        using entry False c by (simp add: walk_chains.simps(2) Let_def)
      with 2(3) [OF refl entry False c [symmetric] refl cs(2) 2(5)] show ?thesis
        by (simp add: e Un_assoc ball_Un bex_Un split: prod.splits)
    qed
  qed
qed simp

lemma chain_ends_target: "chain_ends callers entries d k [(t, None)] = {h. entry_chain callers entries d k t h}"
  by (auto simp: chain_ends_def extends_target entry_chain_def)

lemma walk_targets_exact:
  assumes "cache_ok callers k known" "wf_found found"
  shows "case walk_targets callers entries d k ts (found, unreached, known) of (found', unreached', known') \<Rightarrow>
    wf_found found' \<and>
    set (map fst found') = set (map fst found) \<union> {h. \<exists>t \<in> set ts. entry_chain callers entries d k (target_node t) h} \<and>
    unreached' = unreached @ map target_node (filter (\<lambda>t. \<nexists>h. entry_chain callers entries d k (target_node t) h) ts)"
  using assms
proof (induction callers entries d k ts "(found, unreached, known)" arbitrary: found unreached known rule: walk_targets.induct)
  case (2 callers entries d k t ts found unreached known)
  obtain found' reached' known' where w:
    "walk_chains callers entries d k [[(target_node t, None)]] (found, False, known) = (found', reached', known')"
    by (metis prod_cases3)
  have r: "wf_found found'" "cache_ok callers k known'"
    "set (map fst found') = set (map fst found) \<union> {h. entry_chain callers entries d k (target_node t) h}"
    "reached' \<longleftrightarrow> (\<exists>h. entry_chain callers entries d k (target_node t) h)"
    using walk_chains_exact [OF 2(2,3), of entries d "[[(target_node t, None)]]" False] w by (simp_all add: chain_ends_target)
  have "walk_targets callers entries d k (t # ts) (found, unreached, known) =
      walk_targets callers entries d k ts (found', (if reached' then unreached else unreached @ [target_node t]), known')"
    using w by simp
  moreover obtain f u m where m:
    "walk_targets callers entries d k ts (found', (if reached' then unreached else unreached @ [target_node t]), known') = (f, u, m)"
    by (metis prod_cases3)
  moreover have "{h. \<exists>s \<in> set (t # ts). entry_chain callers entries d k (target_node s) h} =
      {h. entry_chain callers entries d k (target_node t) h} \<union> {h. \<exists>s \<in> set ts. entry_chain callers entries d k (target_node s) h}"
    by auto
  ultimately show ?case
    using 2(1) [OF w [symmetric] refl refl r(2,1)] r(3,4) by (simp add: Un_assoc)
qed simp

lemma no_entry_chain [simp]: "\<not> entry_chain callers {} d k t h"
  by (auto simp: entry_chain_def)

lemma compose_paths_spec:
  "case compose_paths callers entries targets max_depth fan_out of
     Inl e \<Rightarrow> (max_depth < 0 \<or> fan_out < 1) \<and> e = ValueError ''invalid path bounds''
   | Inr (records, unreached) \<Rightarrow> max_depth \<ge> 0 \<and> fan_out \<ge> 1 \<and>
       set (map p_hops records) =
         {h. \<exists>t \<in> set targets. entry_chain callers entries (nat max_depth) (nat fan_out) (target_node t) h} \<and>
       distinct (map p_hops records) \<and>
       (\<forall>r \<in> set records. p_complete r \<and> p_entry r = fst (hd (p_hops r))) \<and>
       unreached = map target_node
         (filter (\<lambda>t. \<nexists>h. entry_chain callers entries (nat max_depth) (nat fan_out) (target_node t) h) (dedup targets))"
proof (cases "max_depth < 0 \<or> fan_out < 1 \<or> entries = {}")
  case True
  then show ?thesis by (auto simp: compose_paths_def)
next
  case False
  obtain found unreached known where w:
    "walk_targets callers entries (nat max_depth) (nat fan_out) (dedup targets) ([], [], Map.empty) = (found, unreached, known)"
    by (metis prod_cases3)
  have c: "compose_paths callers entries targets max_depth fan_out = Inr (map snd found, unreached)"
    using False w by (simp add: compose_paths_def)
  have r: "wf_found found"
    "set (map fst found) = {h. \<exists>t \<in> set targets. entry_chain callers entries (nat max_depth) (nat fan_out) (target_node t) h}"
    "unreached = map target_node
       (filter (\<lambda>t. \<nexists>h. entry_chain callers entries (nat max_depth) (nat fan_out) (target_node t) h) (dedup targets))"
    using walk_targets_exact [where known = Map.empty and found = "[]" and unreached = "[]" and callers = callers
        and entries = entries and d = "nat max_depth" and k = "nat fan_out" and ts = "dedup targets"] w
    by (simp_all add: cache_ok_def wf_found_def)
  have m: "map p_hops (map snd found) = map fst found"
    using r(1) by (auto simp: wf_found_def)
  have "distinct (map fst found)" using r(1) by (simp add: wf_found_def)
  moreover have "\<forall>p \<in> set (map snd found). p_complete p \<and> p_entry p = fst (hd (p_hops p))"
    using r(1) by (auto simp: wf_found_def)
  ultimately show ?thesis using False r(2,3) unfolding c sum.case case_prod_conv m by linarith
qed

text \<open>
  C25. The caller chains are exactly those of the specification, each once: from a recognised entry
  down to the changed function, through caller edges within the fan-out bound, within the depth bound,
  with no node twice and no entry on the way; each record is complete and names its entry. A target is
  unreached exactly when it has no such chain. Bounds that make no sense are an error.
\<close>

theorem compose_paths_exact:
  "case compose_paths callers entries targets max_depth fan_out of
     Inl e \<Rightarrow> (max_depth < 0 \<or> fan_out < 1) \<and> e = ValueError ''invalid path bounds''
   | Inr (records, unreached) \<Rightarrow> max_depth \<ge> 0 \<and> fan_out \<ge> 1 \<and>
       set (map p_hops records) =
         {h. \<exists>t \<in> set targets. entry_chain callers entries (nat max_depth) (nat fan_out) (target_node t) h} \<and>
       distinct (map p_hops records) \<and>
       (\<forall>r \<in> set records. p_complete r \<and> p_entry r = fst (hd (p_hops r))) \<and>
       unreached = map target_node
         (filter (\<lambda>t. \<nexists>h. entry_chain callers entries (nat max_depth) (nat fan_out) (target_node t) h) (dedup targets))"
  by (rule compose_paths_spec)

definition sample_callers :: callers where
  "sample_callers path function =
     (if function = ''save'' then [(''a.py::route'', 4), (''a.py::helper'', 9)]
      else if function = ''helper'' then [(''a.py::save'', 2), (''b.py::route'', 7)] else [])"

theorem compose_paths_witness:
  "{h. entry_chain sample_callers {''a.py::route'', ''b.py::route''} 2 5 ''a.py::save'' h} =
     {[(''a.py::route'', Some 4), (''a.py::save'', None)],
      [(''b.py::route'', Some 7), (''a.py::helper'', Some 9), (''a.py::save'', None)]}"
proof -
  have "map_sum (\<lambda>e. e) (\<lambda>(records, unreached). map p_hops records)
      (compose_paths sample_callers {''a.py::route'', ''b.py::route''} [(''a.py'', ''save'')] 2 5) =
    Inr [[(''b.py::route'', Some 7), (''a.py::helper'', Some 9), (''a.py::save'', None)],
         [(''a.py::route'', Some 4), (''a.py::save'', None)]]"
    by code_simp
  then show ?thesis
    using compose_paths_exact [where callers = sample_callers and entries = "{''a.py::route'', ''b.py::route''}"
        and targets = "[(''a.py'', ''save'')]" and max_depth = 2 and fan_out = 5]
    by (auto simp: target_node_def insert_commute split: sum.splits prod.splits)
qed

end
