(* ===== verification/Operations.thy ===== *)
theory Operations
  imports EvidenceDomain
begin

text \<open>
  Obligated operations, discharge witnesses and the facts they come from
  (\<open>semantic/obligations/operations.py\<close>, the fact rows of \<open>semantic/obligations/facts.py\<close>), with
  the checks that decide whether a witness can discharge an operation at all. Lines are Python
  integers.
\<close>

definition discharger_kinds :: "string list" where
  "discharger_kinds =
     [''path_guard'', ''identity_constraint'', ''ownership_check'', ''non_permissive_value'', ''validated_input'']"

record operation_fact =
  f_id :: string
  f_kind :: string
  f_language :: string
  f_calls :: "string list"
  f_resource_arg :: "int option"
  f_requires :: "string list"
  f_sensitivity :: string
  f_query_document_arg :: "int option"
  f_handlers :: "string list"
  f_framework :: "string option"
  f_request_global_kinds :: "string list"

record operation =
  o_path :: string
  o_line :: int
  o_function :: string
  o_kind :: string
  o_fact_id :: string
  o_resource :: "string option"
  o_requires :: "string list"

record discharge =
  w_path :: string
  w_line :: "int option"
  w_function :: string
  w_kind :: string
  w_fact_id :: string
  w_provenance :: string
  w_scope :: string
  w_detail :: string
  w_resource :: "resource_ref option"
  w_authority :: "authority_ref option"

text \<open>\<open>(witness.path, witness.function) == (operation.path, operation.function)\<close>\<close>

definition same_function :: "discharge \<Rightarrow> operation \<Rightarrow> bool" where
  "same_function witness op \<longleftrightarrow> w_path witness = o_path op \<and> w_function witness = o_function op"

definition valid_witness :: "discharge \<Rightarrow> bool" where
  "valid_witness witness \<longleftrightarrow>
     w_kind witness \<noteq> ''identity_constraint'' \<or> w_provenance witness = ''authenticated_context''"

definition covers :: "discharge \<Rightarrow> operation \<Rightarrow> bool" where
  "covers witness op =
     (if w_path witness \<noteq> o_path op \<or> w_function witness \<noteq> o_function op then False
      else if w_kind witness \<notin> set (o_requires op) then False
      else if \<not> valid_witness witness then False
      else \<not> (w_kind witness = ''non_permissive_value'' \<and> w_line witness \<noteq> Some (o_line op)))"

lemma covers_iff:
  "covers w op \<longleftrightarrow> same_function w op \<and> w_kind w \<in> set (o_requires op) \<and> valid_witness w \<and>
     (w_kind w = ''non_permissive_value'' \<longrightarrow> w_line w = Some (o_line op))"
  by (auto simp: covers_def same_function_def)

text \<open>\<open>_dedupe\<close>: the first witness of each key is kept, in order.\<close>

definition witness_key :: "discharge \<Rightarrow> string \<times> int option \<times> string \<times> string \<times> string \<times> string \<times> string" where
  "witness_key w =
     (w_path w, w_line w, w_function w, w_kind w, w_provenance w, w_scope w, w_detail w)"

fun dedupe_by :: "('a \<Rightarrow> 'k) \<Rightarrow> 'k list \<Rightarrow> 'a list \<Rightarrow> 'a list" where
  "dedupe_by key seen [] = []"
| "dedupe_by key seen (x # xs) =
     (if key x \<in> set seen then dedupe_by key seen xs else x # dedupe_by key (key x # seen) xs)"

definition dedupe_witnesses :: "discharge list \<Rightarrow> discharge list" where
  "dedupe_witnesses ws = dedupe_by witness_key [] ws"

lemma dedupe_by_map: "map key (dedupe_by key seen xs) = dedup_from seen (map key xs)"
  by (induction key seen xs rule: dedupe_by.induct) auto

lemma dedupe_by_subset: "set (dedupe_by key seen xs) \<subseteq> set xs"
  by (induction key seen xs rule: dedupe_by.induct) auto

lemma dedupe_by_keys [simp]: "key ` set (dedupe_by key seen xs) = key ` set xs - set seen"
  by (metis dedupe_by_map image_set set_dedup_from)

lemma dedupe_by_distinct: "distinct (map key (dedupe_by key seen xs))"
  by (simp add: dedupe_by_map distinct_dedup_from)

text \<open>The strict dominance answer (\<open>cfg_dominance.py\<close>): relation, failure effect, reason when unknown.\<close>

record dominance_evidence =
  d_relation :: evidence_relation
  d_effect :: "string option"
  d_reason :: "string option"

definition dom_evidence :: "evidence_relation \<Rightarrow> string option \<Rightarrow> string option \<Rightarrow> dominance_evidence" where
  "dom_evidence r e why = \<lparr>d_relation = r, d_effect = e, d_reason = why\<rparr>"

lemma dom_evidence_sel [simp]:
  "d_relation (dom_evidence r e why) = r" "d_effect (dom_evidence r e why) = e"
  "d_reason (dom_evidence r e why) = why"
  by (simp_all add: dom_evidence_def)

record witness_match =
  m_relation :: evidence_relation
  m_resource :: evidence_relation
  m_authority :: evidence_relation
  m_evidence :: "string list"

record path_judgment =
  j_judgment :: pair_judgment
  j_missing :: "string list"
  j_completeness :: completeness
  j_matches :: "witness_match list"

end
