(* ===== verification/WitnessMatch.thy ===== *)
theory WitnessMatch
  imports Operations Implications
begin

text \<open>
  Matching one witness against one operation on kind, scope, resource and authority
  (\<open>semantic/obligations/witness.py\<close>).
\<close>

definition whole_handler_scopes :: "string list" where
  "whole_handler_scopes = [''decorator'', ''router'']"

definition scope_relation :: "discharge \<Rightarrow> operation \<Rightarrow> evidence_relation" where
  "scope_relation witness op =
     (if same_function witness op \<or> w_scope witness = ''hop'' then MUST
      else if w_scope witness \<in> set whole_handler_scopes then NO
      else UNKNOWN)"

definition alias_relation :: "resource_ref \<Rightarrow> resource_ref \<Rightarrow> evidence_relation" where
  "alias_relation witness_resource operation_resource =
     (if set (rvalues witness_resource) \<inter> set (rvalues operation_resource) \<noteq> {} then MAY
      else if rkind witness_resource = ''exact'' \<and> rkind operation_resource = ''exact'' then NO
      else UNKNOWN)"

definition exact_relation :: "resource_ref \<Rightarrow> resource_ref \<Rightarrow> evidence_relation" where
  "exact_relation witness_resource operation_resource =
     (if rkind operation_resource = ''exact''
      then (if rvalues witness_resource = rvalues operation_resource then MUST else NO)
      else alias_relation witness_resource operation_resource)"

definition resource_binding :: "string option \<Rightarrow> binding" where
  "resource_binding r = (case r of None \<Rightarrow> Unresolved | Some t \<Rightarrow> Token t)"

definition resource_relation :: "discharge \<Rightarrow> operation \<Rightarrow> operation_fact option \<Rightarrow> evidence_relation result" where
  "resource_relation witness op op_fact =
     (case w_resource witness of
        None \<Rightarrow> Inr UNKNOWN
      | Some wr \<Rightarrow>
          if rkind wr = ''request_global'' then
            (case op_fact of
               Some f \<Rightarrow> if w_kind witness \<in> set (f_request_global_kinds f) then Inr MUST else Inr UNKNOWN
             | None \<Rightarrow> Inr UNKNOWN)
          else bind_result (parse_resource (resource_binding (o_resource op))) (\<lambda>opr.
            if rkind opr = ''unknown'' then Inr UNKNOWN
            else if rkind wr = ''unknown'' then Inr UNKNOWN
            else if rkind wr = ''exact'' then Inr (exact_relation wr opr)
            else Inr (alias_relation wr opr)))"

definition authority_relation :: "discharge \<Rightarrow> authority_ref option \<Rightarrow> authority_implication list \<Rightarrow>
    (evidence_relation \<times> string list) result" where
  "authority_relation witness required implications =
     (case required of
        None \<Rightarrow> Inr (MUST, [])
      | Some req \<Rightarrow>
          (case w_authority witness of
             None \<Rightarrow> Inr (UNKNOWN, [])
           | Some held \<Rightarrow>
               if is_unknown held \<or> is_unknown req then Inr (UNKNOWN, [])
               else bind_result (authority_satisfies held req implications) (\<lambda>relation.
                 bind_result (supporting_implications held req implications) (\<lambda>used.
                   Inr (relation, map (\<lambda>i. ''implication:'' @ impl_id i) used)))))"

definition make_match :: "evidence_relation \<Rightarrow> evidence_relation \<Rightarrow> evidence_relation \<Rightarrow> discharge \<Rightarrow>
    operation \<Rightarrow> string list \<Rightarrow> witness_match" where
  "make_match relation res auth witness op implication_ids =
     \<lparr>m_relation = relation, m_resource = res, m_authority = auth,
      m_evidence =
        [''witness:'' @ w_fact_id witness, ''operation:'' @ o_fact_id op,
         ''resource:'' @ (case o_resource op of None \<Rightarrow> ''unknown'' | Some r \<Rightarrow> if r = [] then ''unknown'' else r)]
        @ implication_ids\<rparr>"

definition match_witness :: "discharge \<Rightarrow> operation \<Rightarrow> operation_fact option \<Rightarrow> authority_ref option \<Rightarrow>
    authority_implication list \<Rightarrow> witness_match result" where
  "match_witness witness op op_fact required implications =
     (if w_kind witness \<notin> set (o_requires op) then Inr (make_match NO NO UNKNOWN witness op [])
      else let sr = scope_relation witness op in
        if sr \<noteq> MUST then Inr (make_match sr NO UNKNOWN witness op [])
        else bind_result (resource_relation witness op op_fact) (\<lambda>rr.
          bind_result (authority_relation witness required implications) (\<lambda>(ar, implication_ids).
            Inr (make_match (conjoin_dimensions [MUST, rr, ar]) rr ar witness op implication_ids))))"

lemma make_match_sel [simp]:
  "m_relation (make_match r res auth w op ids) = r" "m_resource (make_match r res auth w op ids) = res"
  "m_authority (make_match r res auth w op ids) = auth"
  by (simp_all add: make_match_def)

text \<open>When an operation names its resource at all, the name is not empty.\<close>

definition wf_operation :: "operation \<Rightarrow> bool" where
  "wf_operation op \<longleftrightarrow> o_resource op \<noteq> Some []"

definition wf_discharge :: "discharge \<Rightarrow> bool" where
  "wf_discharge w \<longleftrightarrow>
     (case w_resource w of None \<Rightarrow> True | Some r \<Rightarrow> wf_resource r) \<and>
     (case w_authority w of None \<Rightarrow> True | Some a \<Rightarrow> wf_authority a)"

definition resource_token :: "string \<Rightarrow> resource_ref" where
  "resource_token t = \<lparr>rkind = ''exact'', rvalues = [t]\<rparr>"

lemma parse_resource_token: "t \<noteq> [] \<Longrightarrow> parse_resource (Token t) = Inr (resource_token t)"
  by (simp add: parse_resource_def make_resource_def resource_kinds_def resource_token_def)

lemma parse_operation_resource:
  "wf_operation op \<Longrightarrow> parse_resource (resource_binding (o_resource op)) =
    Inr (case o_resource op of None \<Rightarrow> unknown_resource | Some t \<Rightarrow> resource_token t)"
  by (auto simp: wf_operation_def resource_binding_def parse_resource_token split: option.splits)
    (simp add: parse_resource_def)

lemma resource_relation_total:
  "wf_operation op \<Longrightarrow> \<exists>r. resource_relation w op op_fact = Inr r"
  by (auto simp: resource_relation_def parse_operation_resource split: option.splits)

lemma resource_relation_MUST:
  assumes "wf_operation op" "wf_discharge w" "resource_relation w op op_fact = Inr MUST"
  shows "w_resource w = Some request_global_resource \<and> (\<exists>f. op_fact = Some f \<and> w_kind w \<in> set (f_request_global_kinds f)) \<or>
    (\<exists>t. o_resource op = Some t \<and> w_resource w = Some (resource_token t))"
proof -
  obtain wr where wr: "w_resource w = Some wr" "wf_resource wr"
    using assms(2,3) by (auto simp: resource_relation_def wf_discharge_def split: option.splits)
  from wr(2) show ?thesis
  proof (cases rule: wf_resource_cases)
    case (exact t)
    with assms wr show ?thesis
      by (auto simp: resource_relation_def parse_operation_resource exact_relation_def resource_token_def
          unknown_resource_def split: option.splits if_splits)
  next
    case (aliases vs)
    with assms wr show ?thesis
      by (auto simp: resource_relation_def parse_operation_resource alias_relation_def resource_token_def
          unknown_resource_def split: option.splits if_splits)
  next
    case request_global
    with assms wr show ?thesis
      by (auto simp: resource_relation_def request_global_resource_def split: option.splits if_splits)
  next
    case unknown
    with assms wr show ?thesis
      by (auto simp: resource_relation_def parse_operation_resource resource_token_def
          unknown_resource_def split: option.splits if_splits)
  qed
qed

lemma authority_relation_total:
  assumes "wf_discharge w" "\<forall>a. required = Some a \<longrightarrow> wf_authority a"
  shows "\<exists>r ids. authority_relation w required imps = Inr (r, ids)"
proof (cases required)
  case None
  then show ?thesis by (simp add: authority_relation_def)
next
  case req: (Some req)
  show ?thesis
  proof (cases "w_authority w")
    case None
    with req show ?thesis by (simp add: authority_relation_def)
  next
    case (Some held)
    obtain used where "supporting_implications held req imps = Inr used"
      using supporting_implications_eq by blast
    moreover have "wf_authority held" "wf_authority req"
      using assms req Some by (auto simp: wf_discharge_def)
    ultimately show ?thesis
      using req Some by (auto simp: authority_relation_def authority_satisfies_eq wf_authority_iff Let_def)
  qed
qed

lemma match_witness_total:
  assumes "wf_operation op" "wf_discharge w" "\<forall>a. required = Some a \<longrightarrow> wf_authority a"
  shows "\<exists>m. match_witness w op op_fact required imps = Inr m"
  using resource_relation_total [OF assms(1), of w op_fact] authority_relation_total [OF assms(2,3), of imps]
  by (auto simp: match_witness_def Let_def)

lemma conjoin_three: "conjoin_dimensions [MUST, a, b] = MUST \<longleftrightarrow> a = MUST \<and> b = MUST"
  by (auto simp: conjoin_eq_MUST)

end
