(* ===== verification/Judgment.thy ===== *)
theory Judgment
  imports WitnessMatch
begin

text \<open>
  Per-path judgment and multi-path aggregation (\<open>semantic/obligations/judgment.py\<close>), the counts of
  \<open>abstract_domain.py\<close>, and the prover's composition of them (\<open>hunt/prover.py\<close>,
  \<open>_path_judgment\<close>, \<open>_joined_relation\<close>).
\<close>

type_synonym kind_pairs = "(string \<times> (witness_match \<times> dominance_evidence) list) list"

definition conjoined :: "witness_match \<times> dominance_evidence \<Rightarrow> evidence_relation" where
  "conjoined pair =
     (let m = m_relation (fst pair); d = d_relation (snd pair) in
      if m = NO \<or> d = NO then NO
      else if m = MUST \<and> d = MUST then MUST
      else UNKNOWN)"

definition kind_relation :: "(witness_match \<times> dominance_evidence) list \<Rightarrow> bool \<Rightarrow> evidence_relation" where
  "kind_relation pairs discovery_complete =
     (if pairs = [] then (if discovery_complete then NO else UNKNOWN)
      else aggregate_witnesses (map conjoined pairs) True)"

definition mixed_obligation :: "(string \<times> evidence_relation) list \<Rightarrow> pair_judgment \<times> string list" where
  "mixed_obligation relations_by_kind =
     (let absent_kinds = sort (map fst (filter (\<lambda>(k, r). r = NO) relations_by_kind));
          undecidable = (\<exists>(k, r) \<in> set relations_by_kind. r \<noteq> MUST \<and> r \<noteq> NO)
      in if undecidable then (INDETERMINATE, [])
         else if absent_kinds \<noteq> [] then (UNGUARDED, absent_kinds)
         else (DISCHARGED, []))"

definition judgment_for_path :: "kind_pairs \<Rightarrow> completeness \<Rightarrow> bool \<Rightarrow> path_judgment" where
  "judgment_for_path matches_by_kind compl discovery_complete =
     (let matches = dedup (map fst (concat (map snd matches_by_kind))) in
      if \<not> is_complete compl
      then \<lparr>j_judgment = INDETERMINATE, j_missing = [], j_completeness = compl, j_matches = matches\<rparr>
      else let relations_by_kind =
             map (\<lambda>(kind, pairs). (kind, kind_relation pairs discovery_complete)) matches_by_kind;
           (judgment, missing) = mixed_obligation relations_by_kind
        in \<lparr>j_judgment = judgment, j_missing = missing, j_completeness = compl, j_matches = matches\<rparr>)"

definition joined_completeness :: "path_judgment list \<Rightarrow> completeness" where
  "joined_completeness judgments =
     foldl (\<lambda>joined j. join_completeness joined (j_completeness j)) complete_value judgments"

definition complete_unguarded :: "path_judgment \<Rightarrow> bool" where
  "complete_unguarded j \<longleftrightarrow> j_judgment j = UNGUARDED \<and> is_complete (j_completeness j)"

definition aggregate_judgments :: "path_judgment list \<Rightarrow> path_judgment" where
  "aggregate_judgments judgments =
     (let compl = joined_completeness judgments;
          matches = dedup (concat (map j_matches judgments))
      in if \<exists>j \<in> set judgments. complete_unguarded j
         then \<lparr>j_judgment = UNGUARDED,
               j_missing = sorted_set (concat (map j_missing (filter complete_unguarded judgments))),
               j_completeness = compl, j_matches = matches\<rparr>
         else if judgments \<noteq> [] \<and>
             (\<forall>j \<in> set judgments. j_judgment j = DISCHARGED \<and> is_complete (j_completeness j))
         then \<lparr>j_judgment = DISCHARGED, j_missing = [], j_completeness = compl, j_matches = matches\<rparr>
         else \<lparr>j_judgment = INDETERMINATE, j_missing = [], j_completeness = compl, j_matches = matches\<rparr>)"

section \<open>Counts\<close>

record pair_judgment_counts =
  n_unguarded :: nat
  n_discharged :: nat
  n_indeterminate :: nat

definition examined :: "pair_judgment_counts \<Rightarrow> nat" where
  "examined c = n_unguarded c + n_discharged c + n_indeterminate c"

definition count_pair_judgments :: "pair_judgment list \<Rightarrow> pair_judgment_counts" where
  "count_pair_judgments js =
     \<lparr>n_unguarded = count_list js UNGUARDED, n_discharged = count_list js DISCHARGED,
      n_indeterminate = count_list js INDETERMINATE\<rparr>"

text \<open>\<open>dict(sorted(Counter.items()))\<close>: reasons in ascending order with their counts.\<close>

definition reason_counts :: "completeness list \<Rightarrow> (string \<times> nat) list" where
  "reason_counts vals =
     (let all_reasons = concat (map reasons vals)
      in map (\<lambda>r. (r, count_list all_reasons r)) (sorted_set all_reasons))"

section \<open>The prover's use\<close>

definition joined_relation :: "evidence_relation list \<Rightarrow> evidence_relation" where
  "joined_relation relations =
     (case relations of [] \<Rightarrow> NO | r # rs \<Rightarrow> foldl join_alternatives r rs)"

text \<open>
  One operation on one path: for every kind the operation requires, every witness of that kind with
  its match and its strict dominance (\<open>evidence\<close>, the \<open>CfgDominance.evidence\<close> of the run).
\<close>

definition matches_for_kind :: "(discharge \<Rightarrow> operation \<Rightarrow> dominance_evidence) \<Rightarrow> discharge list \<Rightarrow> operation \<Rightarrow>
    operation_fact option \<Rightarrow> string \<Rightarrow> (witness_match \<times> dominance_evidence) list result" where
  "matches_for_kind evidence discharges op op_fact kind =
     map_result (\<lambda>witness. bind_result (match_witness witness op op_fact None []) (\<lambda>m.
        Inr (m, evidence witness op))) (filter (\<lambda>w. w_kind w = kind) discharges)"

definition prover_path_judgment :: "(discharge \<Rightarrow> operation \<Rightarrow> dominance_evidence) \<Rightarrow> discharge list \<Rightarrow> operation \<Rightarrow>
    operation_fact list \<Rightarrow> path_judgment result" where
  "prover_path_judgment evidence discharges op facts =
     (let op_fact = find (\<lambda>f. f_id f = o_fact_id op) facts in
      bind_result (map_result (\<lambda>kind.
          bind_result (matches_for_kind evidence discharges op op_fact kind) (\<lambda>ps. Inr (kind, ps)))
          (dedup (o_requires op)))
        (\<lambda>pairs_by_kind. Inr (judgment_for_path pairs_by_kind complete_value True)))"

section \<open>Facts about single paths\<close>

lemma conjoined_iff [simp]:
  "conjoined p = MUST \<longleftrightarrow> m_relation (fst p) = MUST \<and> d_relation (snd p) = MUST"
  "conjoined p = NO \<longleftrightarrow> m_relation (fst p) = NO \<or> d_relation (snd p) = NO"
  by (auto simp: conjoined_def Let_def)

lemma kind_relation_MUST: "kind_relation pairs d = MUST \<longleftrightarrow> (\<exists>p \<in> set pairs. conjoined p = MUST)"
  unfolding kind_relation_def by (force simp: aggregate_eq_MUST simp del: conjoined_iff)

lemma kind_relation_NO:
  "kind_relation pairs d = NO \<longleftrightarrow> (\<forall>p \<in> set pairs. conjoined p = NO) \<and> (pairs = [] \<longrightarrow> d)"
  unfolding kind_relation_def by (auto simp: aggregate_eq_NO simp del: conjoined_iff)

lemma absent_kinds_set: "set (sort (map fst (filter (\<lambda>(k, r). r = NO) rs))) = {k. (k, NO) \<in> set rs}"
  by force

lemma mixed_obligation_eq:
  "mixed_obligation rs =
    (if \<exists>r \<in> snd ` set rs. r \<noteq> MUST \<and> r \<noteq> NO then (INDETERMINATE, [])
     else if NO \<in> snd ` set rs then (UNGUARDED, sort (map fst (filter (\<lambda>(k, r). r = NO) rs)))
     else (DISCHARGED, []))"
proof -
  have "sort (map fst (filter (\<lambda>(k, r). r = NO) rs)) = [] \<longleftrightarrow> NO \<notin> snd ` set rs"
    unfolding set_empty [symmetric] absent_kinds_set by force
  moreover have "(\<exists>(k, r) \<in> set rs. r \<noteq> MUST \<and> r \<noteq> NO) \<longleftrightarrow> (\<exists>r \<in> snd ` set rs. r \<noteq> MUST \<and> r \<noteq> NO)"
    by force
  ultimately show ?thesis by (simp add: mixed_obligation_def Let_def)
qed

lemma mixed_obligation_cases:
  "fst (mixed_obligation rs) = DISCHARGED \<longleftrightarrow> (\<forall>r \<in> snd ` set rs. r = MUST)"
  "fst (mixed_obligation rs) = UNGUARDED \<longleftrightarrow>
     (\<forall>r \<in> snd ` set rs. r = MUST \<or> r = NO) \<and> NO \<in> snd ` set rs"
  "fst (mixed_obligation rs) = INDETERMINATE \<longleftrightarrow> (\<exists>r \<in> snd ` set rs. r \<noteq> MUST \<and> r \<noteq> NO)"
  unfolding mixed_obligation_eq by force+

lemma mixed_obligation_missing:
  "set (snd (mixed_obligation rs)) =
    (if fst (mixed_obligation rs) = UNGUARDED then {k. (k, NO) \<in> set rs} else {})"
  by (simp add: mixed_obligation_eq absent_kinds_set del: set_sort)

lemma judgment_for_path_complete:
  "is_complete c \<Longrightarrow> judgment_for_path kps c d =
    (let (j, missing) = mixed_obligation (map (\<lambda>(k, ps). (k, kind_relation ps d)) kps)
     in \<lparr>j_judgment = j, j_missing = missing, j_completeness = c,
         j_matches = dedup (map fst (concat (map snd kps)))\<rparr>)"
  by (simp add: judgment_for_path_def Let_def)

lemma judgment_for_path_incomplete:
  "\<not> is_complete c \<Longrightarrow> j_judgment (judgment_for_path kps c d) = INDETERMINATE \<and>
     j_missing (judgment_for_path kps c d) = []"
  by (simp add: judgment_for_path_def Let_def)

lemma judgment_completeness [simp]: "j_completeness (judgment_for_path kps c d) = c"
  by (simp add: judgment_for_path_def Let_def split: prod.splits)

section \<open>Properties of the judgment of one path\<close>

definition governed :: "(witness_match \<times> dominance_evidence) list \<Rightarrow> bool" where
  "governed pairs \<longleftrightarrow> (\<exists>p \<in> set pairs. m_relation (fst p) = MUST \<and> d_relation (snd p) = MUST)"

definition refuted :: "(witness_match \<times> dominance_evidence) list \<Rightarrow> bool" where
  "refuted pairs \<longleftrightarrow> (\<forall>p \<in> set pairs. m_relation (fst p) = NO \<or> d_relation (snd p) = NO)"

lemma kind_relation_governed: "kind_relation pairs d = MUST \<longleftrightarrow> governed pairs"
  by (auto simp: kind_relation_MUST governed_def)

lemma kind_relation_refuted: "kind_relation pairs True = NO \<longleftrightarrow> refuted pairs"
  by (auto simp: kind_relation_NO refuted_def)

lemma NO_kind_relation: "NO = kind_relation pairs True \<longleftrightarrow> refuted pairs"
  using kind_relation_refuted by metis

lemma kind_relations_image:
  "snd ` set (map (\<lambda>(k, ps). (k, kind_relation ps d)) kps) = (\<lambda>(k, ps). kind_relation ps d) ` set kps"
  by force

lemma judgment_for_path_sel:
  assumes "is_complete c"
  shows "j_judgment (judgment_for_path kps c d) =
      fst (mixed_obligation (map (\<lambda>(k, ps). (k, kind_relation ps d)) kps))"
    "j_missing (judgment_for_path kps c d) =
      snd (mixed_obligation (map (\<lambda>(k, ps). (k, kind_relation ps d)) kps))"
  using assms by (simp_all add: judgment_for_path_complete Let_def split: prod.splits)

lemma path_discharged_iff:
  "j_judgment (judgment_for_path kps complete_value True) = DISCHARGED \<longleftrightarrow> (\<forall>(k, ps) \<in> set kps. governed ps)"
proof -
  have c: "is_complete complete_value" by (simp add: complete_value_def)
  show ?thesis
    unfolding judgment_for_path_sel [OF c] mixed_obligation_cases kind_relations_image
    by (auto simp: kind_relation_governed split: prod.splits)
qed

lemma path_unguarded_iff:
  "j_judgment (judgment_for_path kps complete_value True) = UNGUARDED \<longleftrightarrow>
     (\<forall>(k, ps) \<in> set kps. governed ps \<or> refuted ps) \<and> (\<exists>(k, ps) \<in> set kps. refuted ps)"
proof -
  have c: "is_complete complete_value" by (simp add: complete_value_def)
  show ?thesis
    unfolding judgment_for_path_sel [OF c] mixed_obligation_cases kind_relations_image
    by (simp add: image_iff case_prod_unfold kind_relation_governed kind_relation_refuted NO_kind_relation)
qed

lemma path_missing_iff:
  assumes "j_judgment (judgment_for_path kps complete_value True) = UNGUARDED"
  shows "set (j_missing (judgment_for_path kps complete_value True)) = {k. \<exists>ps. (k, ps) \<in> set kps \<and> refuted ps}"
proof -
  have c: "is_complete complete_value" by (simp add: complete_value_def)
  have "{k. (k, NO) \<in> set (map (\<lambda>(k, ps). (k, kind_relation ps True)) kps)} = {k. \<exists>ps. (k, ps) \<in> set kps \<and> refuted ps}"
    using kind_relation_refuted by force
  with assms show ?thesis unfolding judgment_for_path_sel [OF c] mixed_obligation_missing by simp
qed

text \<open>
  C19. The judgment of a path is exactly what the design promises. It is discharged when the path is
  complete and every required kind has a witness whose match and dominance are both definite; it is
  unguarded when the path is complete, every required kind is either so governed or definitely
  refuted, and at least one is refuted; and the missing kinds are the refuted ones. Everything else
  is indeterminate. Discovery is complete here.
\<close>

theorem judgment_for_path_exact:
  "let j = judgment_for_path kps c True in
    (j_judgment j = DISCHARGED \<longleftrightarrow> is_complete c \<and> (\<forall>(k, ps) \<in> set kps. governed ps)) \<and>
    (j_judgment j = UNGUARDED \<longleftrightarrow>
       is_complete c \<and> (\<forall>(k, ps) \<in> set kps. governed ps \<or> refuted ps) \<and> (\<exists>(k, ps) \<in> set kps. refuted ps)) \<and>
    set (j_missing j) = (if j_judgment j = UNGUARDED then {k. \<exists>ps. (k, ps) \<in> set kps \<and> refuted ps} else {}) \<and>
    sorted (j_missing j)"
proof (cases "is_complete c")
  case False
  with judgment_for_path_incomplete [OF False, of kps True] show ?thesis by simp
next
  case True
  let ?j = "judgment_for_path kps c True"
  let ?rs = "map (\<lambda>(k, ps). (k, kind_relation ps True)) kps"
  have D: "j_judgment ?j = DISCHARGED \<longleftrightarrow> (\<forall>(k, ps) \<in> set kps. governed ps)"
    unfolding judgment_for_path_sel [OF True] mixed_obligation_cases kind_relations_image
    by (auto simp: kind_relation_governed split: prod.splits)
  have U: "j_judgment ?j = UNGUARDED \<longleftrightarrow>
      (\<forall>(k, ps) \<in> set kps. governed ps \<or> refuted ps) \<and> (\<exists>(k, ps) \<in> set kps. refuted ps)"
    unfolding judgment_for_path_sel [OF True] mixed_obligation_cases kind_relations_image
    by (simp add: image_iff case_prod_unfold kind_relation_governed kind_relation_refuted NO_kind_relation)
  have "{k. (k, NO) \<in> set ?rs} = {k. \<exists>ps. (k, ps) \<in> set kps \<and> refuted ps}"
    using kind_relation_refuted by force
  then have M: "set (j_missing ?j) = (if j_judgment ?j = UNGUARDED then {k. \<exists>ps. (k, ps) \<in> set kps \<and> refuted ps} else {})"
    unfolding judgment_for_path_sel [OF True] mixed_obligation_missing by simp
  have "sorted (snd (mixed_obligation ?rs))" by (simp add: mixed_obligation_eq)
  then have "sorted (j_missing ?j)" unfolding judgment_for_path_sel [OF True] .
  with True D U M show ?thesis by (simp add: Let_def)
qed

text \<open>How a piece of evidence may degrade: each relation only loses precision.\<close>

definition degraded_pair :: "witness_match \<times> dominance_evidence \<Rightarrow> witness_match \<times> dominance_evidence \<Rightarrow> bool" where
  "degraded_pair p q \<longleftrightarrow>
     m_relation (fst p) \<le> m_relation (fst q) \<and> d_relation (snd p) \<le> d_relation (snd q)"

definition degraded_kinds :: "kind_pairs \<Rightarrow> kind_pairs \<Rightarrow> bool" where
  "degraded_kinds = list_all2 (\<lambda>(k, ps) (k', qs). k = k' \<and> list_all2 degraded_pair ps qs)"

lemma conjoined_mono: "degraded_pair p q \<Longrightarrow> conjoined p \<le> conjoined q"
  by (cases "m_relation (fst p)"; cases "d_relation (snd p)"; cases "m_relation (fst q)"; cases "d_relation (snd q)")
    (simp_all add: degraded_pair_def conjoined_def Let_def)

lemma kind_relation_mono:
  assumes "list_all2 degraded_pair ps qs" "d' \<longrightarrow> d"
  shows "kind_relation ps d \<le> kind_relation qs d'"
proof (cases "ps = []")
  case True
  with assms show ?thesis by (auto simp: kind_relation_def)
next
  case False
  with assms have "qs \<noteq> []" by auto
  moreover have "list_all2 (\<le>) (map conjoined ps) (map conjoined qs)"
    using assms(1) by (simp add: list_all2_map1 list_all2_map2 list_all2_mono [OF _ conjoined_mono])
  ultimately show ?thesis
    using False aggregate_witnesses_mono [of _ _ True True] by (simp add: kind_relation_def)
qed

lemma mixed_obligation_mono:
  assumes "list_all2 (\<lambda>(k, r) (k', s). k = k' \<and> r \<le> s) rs ss"
  shows "fst (mixed_obligation ss) = INDETERMINATE \<or> ss = rs"
proof (cases "fst (mixed_obligation ss) = INDETERMINATE")
  case False
  then have "\<forall>s \<in> snd ` set ss. s = MUST \<or> s = NO" by (auto simp: mixed_obligation_cases)
  with assms have "ss = rs"
    by (induction rs ss rule: list_all2_induct) auto
  then show ?thesis ..
qed simp

text \<open>
  Degraded evidence never manufactures a verdict: when match relations, dominance relations,
  the completeness of the path or the completeness of discovery lose precision, the judgment either
  stays what it was, with the same missing kinds, or becomes indeterminate.
\<close>

theorem judgment_degrades_to_indeterminate:
  assumes "degraded_kinds kps kps'" "is_complete c' \<longrightarrow> is_complete c" "d' \<longrightarrow> d"
  shows "j_judgment (judgment_for_path kps' c' d') = INDETERMINATE \<or>
    j_judgment (judgment_for_path kps' c' d') = j_judgment (judgment_for_path kps c d) \<and>
    j_missing (judgment_for_path kps' c' d') = j_missing (judgment_for_path kps c d)"
proof (cases "is_complete c'")
  case False
  then show ?thesis using judgment_for_path_incomplete by blast
next
  case True
  let ?rs = "map (\<lambda>(k, ps). (k, kind_relation ps d)) kps"
  let ?ss = "map (\<lambda>(k, ps). (k, kind_relation ps d')) kps'"
  have "list_all2 (\<lambda>(k, r) (k', s). k = k' \<and> r \<le> s) ?rs ?ss"
    using assms(1) unfolding degraded_kinds_def
    by (auto simp: list_all2_map1 list_all2_map2 kind_relation_mono [OF _ assms(3)]
        elim!: list_all2_mono split: prod.splits)
  with mixed_obligation_mono consider "fst (mixed_obligation ?ss) = INDETERMINATE" | "?ss = ?rs" by blast
  then show ?thesis
    using True assms(2) by cases (simp_all add: judgment_for_path_sel)
qed

text \<open>Witnesses of the two theorems above: one required kind with a definite witness, then degraded.\<close>

definition sample_match :: "evidence_relation \<Rightarrow> witness_match" where
  "sample_match r = \<lparr>m_relation = r, m_resource = r, m_authority = MUST, m_evidence = [''witness:w1'']\<rparr>"

definition sample_kinds :: "evidence_relation \<Rightarrow> evidence_relation \<Rightarrow> kind_pairs" where
  "sample_kinds r s = [(''path_guard'', [(sample_match r, dom_evidence s None None)])]"

theorem judgment_degrades_witness:
  "degraded_kinds (sample_kinds MUST MUST) (sample_kinds MUST UNKNOWN) \<and>
   j_judgment (judgment_for_path (sample_kinds MUST MUST) complete_value True) = DISCHARGED \<and>
   j_judgment (judgment_for_path (sample_kinds MUST UNKNOWN) complete_value True) = INDETERMINATE \<and>
   (j_judgment (judgment_for_path (sample_kinds MUST UNKNOWN) complete_value True) = INDETERMINATE \<or>
    j_judgment (judgment_for_path (sample_kinds MUST UNKNOWN) complete_value True) =
      j_judgment (judgment_for_path (sample_kinds MUST MUST) complete_value True) \<and>
    j_missing (judgment_for_path (sample_kinds MUST UNKNOWN) complete_value True) =
      j_missing (judgment_for_path (sample_kinds MUST MUST) complete_value True))"
proof -
  have h: "degraded_kinds (sample_kinds MUST MUST) (sample_kinds MUST UNKNOWN)"
    by (simp add: degraded_kinds_def sample_kinds_def degraded_pair_def)
  have j: "j_judgment (judgment_for_path (sample_kinds MUST MUST) complete_value True) = DISCHARGED"
      "j_judgment (judgment_for_path (sample_kinds MUST UNKNOWN) complete_value True) = INDETERMINATE"
    by code_simp+
  show ?thesis
    using h j judgment_degrades_to_indeterminate [OF h, of complete_value complete_value True True] by simp
qed

theorem judgment_for_path_witness:
  "j_judgment (judgment_for_path (sample_kinds NO MUST) complete_value True) = UNGUARDED \<and>
   set (j_missing (judgment_for_path (sample_kinds NO MUST) complete_value True)) = {''path_guard''}"
  using judgment_for_path_exact [of "sample_kinds NO MUST" complete_value]
  by (simp add: Let_def sample_kinds_def sample_match_def governed_def refuted_def complete_value_def)

text \<open>
  Discovery completeness is read only for a kind without any witness: one definite non-match makes
  the path unguarded even when discovery is declared incomplete.
\<close>

lemma incomplete_discovery_unguarded:
  "j_judgment (judgment_for_path (sample_kinds NO MUST) complete_value False) = UNGUARDED"
  "j_judgment (judgment_for_path [(''path_guard'', [])] complete_value False) = INDETERMINATE"
  by code_simp+

section \<open>Aggregation over paths\<close>

lemma joined_completeness_props:
  "wf_completeness (joined_completeness js)"
  "is_complete (joined_completeness js) \<longleftrightarrow> (\<forall>j \<in> set js. is_complete (j_completeness j))"
  "set (reasons (joined_completeness js)) = (\<Union>j \<in> set js. set (reasons (j_completeness j)))"
proof -
  have "wf_completeness c \<Longrightarrow>
      (let r = foldl (\<lambda>joined j. join_completeness joined (j_completeness j)) c js in
       wf_completeness r \<and> (is_complete r \<longleftrightarrow> is_complete c \<and> (\<forall>j \<in> set js. is_complete (j_completeness j))) \<and>
       set (reasons r) = set (reasons c) \<union> (\<Union>j \<in> set js. set (reasons (j_completeness j))))" for c
    by (induction js arbitrary: c) (auto simp: Let_def)
  from this [of complete_value] show "wf_completeness (joined_completeness js)"
    "is_complete (joined_completeness js) \<longleftrightarrow> (\<forall>j \<in> set js. is_complete (j_completeness j))"
    "set (reasons (joined_completeness js)) = (\<Union>j \<in> set js. set (reasons (j_completeness j)))"
    by (simp_all add: joined_completeness_def complete_value_def Let_def)
qed

lemma aggregate_sel [simp]:
  "j_completeness (aggregate_judgments js) = joined_completeness js"
  "j_matches (aggregate_judgments js) = dedup (concat (map j_matches js))"
  by (simp_all add: aggregate_judgments_def Let_def)

text \<open>
  C20. Aggregation over the paths of one operation: one complete unguarded path decides unguarded
  and the missing kinds are those of the complete unguarded paths, in ascending order; discharged
  needs at least one path and every path discharged and complete; otherwise, and in particular
  without any path, the operation stays indeterminate. No completeness reason is lost.
\<close>

theorem aggregate_judgments_exact:
  "let a = aggregate_judgments js in
    (j_judgment a = UNGUARDED \<longleftrightarrow> (\<exists>j \<in> set js. j_judgment j = UNGUARDED \<and> is_complete (j_completeness j))) \<and>
    (j_judgment a = DISCHARGED \<longleftrightarrow>
       js \<noteq> [] \<and> (\<forall>j \<in> set js. j_judgment j = DISCHARGED \<and> is_complete (j_completeness j))) \<and>
    j_missing a = (if j_judgment a = UNGUARDED
      then sorted_set (concat (map j_missing (filter complete_unguarded js))) else []) \<and>
    is_complete (j_completeness a) = (\<forall>j \<in> set js. is_complete (j_completeness j)) \<and>
    set (reasons (j_completeness a)) = (\<Union>j \<in> set js. set (reasons (j_completeness j)))"
proof -
  have "\<not> (\<exists>j \<in> set js. complete_unguarded j)" if "\<forall>j \<in> set js. j_judgment j = DISCHARGED"
    using that by (auto simp: complete_unguarded_def)
  then show ?thesis
    by (auto simp: Let_def joined_completeness_props aggregate_judgments_def complete_unguarded_def)
qed

text \<open>
  The aggregate does not depend on the order or the repetition of the examined paths, apart
  from the order in which matches and reasons are listed.
\<close>

theorem aggregate_judgments_order_irrelevant:
  assumes "set js = set js'"
  shows "j_judgment (aggregate_judgments js) = j_judgment (aggregate_judgments js') \<and>
    j_missing (aggregate_judgments js) = j_missing (aggregate_judgments js') \<and>
    is_complete (j_completeness (aggregate_judgments js)) = is_complete (j_completeness (aggregate_judgments js')) \<and>
    set (reasons (j_completeness (aggregate_judgments js))) = set (reasons (j_completeness (aggregate_judgments js'))) \<and>
    set (j_matches (aggregate_judgments js)) = set (j_matches (aggregate_judgments js'))"
proof -
  have "js = [] \<longleftrightarrow> js' = []" using assms by (metis set_empty)
  moreover have "sorted_set (concat (map j_missing (filter complete_unguarded js))) =
      sorted_set (concat (map j_missing (filter complete_unguarded js')))"
    using assms by (simp add: sorted_set_eq_iff)
  ultimately show ?thesis
    using assms by (simp add: joined_completeness_props) (simp add: aggregate_judgments_def Let_def assms)
qed

theorem aggregate_judgments_order_witness:
  "set [judgment_for_path (sample_kinds MUST MUST) complete_value True,
        judgment_for_path (sample_kinds NO MUST) complete_value True] =
   set [judgment_for_path (sample_kinds NO MUST) complete_value True,
        judgment_for_path (sample_kinds MUST MUST) complete_value True] \<and>
   j_judgment (aggregate_judgments
      [judgment_for_path (sample_kinds MUST MUST) complete_value True,
       judgment_for_path (sample_kinds NO MUST) complete_value True]) =
   j_judgment (aggregate_judgments
      [judgment_for_path (sample_kinds NO MUST) complete_value True,
       judgment_for_path (sample_kinds MUST MUST) complete_value True])"
proof -
  have h: "set [a, b] = set [b, a]" for a b :: path_judgment by auto
  show ?thesis using h aggregate_judgments_order_irrelevant [OF h] by blast
qed

section \<open>Counts\<close>

theorem aggregate_judgments_witness:
  "j_judgment (aggregate_judgments
      [judgment_for_path (sample_kinds MUST MUST) complete_value True,
       judgment_for_path (sample_kinds NO MUST) complete_value True]) = UNGUARDED"
proof -
  have "j_judgment (judgment_for_path (sample_kinds NO MUST) complete_value True) = UNGUARDED"
    "is_complete (j_completeness (judgment_for_path (sample_kinds NO MUST) complete_value True))"
    by code_simp+
  then show ?thesis
    using aggregate_judgments_exact [of "[judgment_for_path (sample_kinds MUST MUST) complete_value True,
       judgment_for_path (sample_kinds NO MUST) complete_value True]"]
    by (simp add: Let_def del: judgment_completeness)
qed

lemma pair_counts_partition:
  "examined (count_pair_judgments js) = length js \<and>
   n_unguarded (count_pair_judgments js) = length (filter (\<lambda>j. j = UNGUARDED) js) \<and>
   n_discharged (count_pair_judgments js) = length (filter (\<lambda>j. j = DISCHARGED) js) \<and>
   n_indeterminate (count_pair_judgments js) = length (filter (\<lambda>j. j = INDETERMINATE) js)"
proof -
  have count: "count_list js x = length (filter (\<lambda>j. j = x) js)" for x
    by (induction js) auto
  have "count_list js UNGUARDED + count_list js DISCHARGED + count_list js INDETERMINATE = length js"
  proof (induction js)
    case (Cons j js)
    then show ?case by (cases j) auto
  qed simp
  then show ?thesis by (simp add: examined_def count_pair_judgments_def count)
qed

text \<open>
  Every examined pair is counted in exactly one of the three buckets, so an indeterminate pair
  is in neither of the definite counts; and each reason is counted once per completeness value that
  carries it.
\<close>

theorem judgment_counts_partition:
  "examined (count_pair_judgments js) = length js \<and>
   n_unguarded (count_pair_judgments js) = length (filter (\<lambda>j. j = UNGUARDED) js) \<and>
   n_discharged (count_pair_judgments js) = length (filter (\<lambda>j. j = DISCHARGED) js) \<and>
   n_indeterminate (count_pair_judgments js) = length (filter (\<lambda>j. j = INDETERMINATE) js)"
  by (rule pair_counts_partition)

lemma count_list_distinct: "distinct xs \<Longrightarrow> count_list xs x = (if x \<in> set xs then 1 else 0)"
  by (induction xs) auto

lemma reason_counts_exact:
  assumes "\<forall>v \<in> set vals. wf_completeness v"
  shows "map_of (reason_counts vals) r =
      (let n = length (filter (\<lambda>v. r \<in> set (reasons v)) vals) in if n = 0 then None else Some n)"
    "sorted (map fst (reason_counts vals))" "distinct (map fst (reason_counts vals))"
proof -
  have count: "count_list (concat (map reasons vals)) r = length (filter (\<lambda>v. r \<in> set (reasons v)) vals)" for r
    using assms by (induction vals) (simp_all add: count_list_distinct wf_completeness_def)
  have mem: "r \<in> set (concat (map reasons vals)) \<longleftrightarrow> length (filter (\<lambda>v. r \<in> set (reasons v)) vals) \<noteq> 0"
    by (auto simp: filter_empty_conv)
  show "map_of (reason_counts vals) r =
      (let n = length (filter (\<lambda>v. r \<in> set (reasons v)) vals) in if n = 0 then None else Some n)"
    using mem by (auto simp: reason_counts_def Let_def map_of_map_restrict count restrict_map_def)
  show "sorted (map fst (reason_counts vals))" "distinct (map fst (reason_counts vals))"
    by (simp_all add: reason_counts_def Let_def comp_def)
qed

end
