(* ===== verification/CfgStatements.thy ===== *)
theory CfgStatements
  imports CfgBuilderWf
begin

text \<open>
  The contract of a statement builder is the locale \<open>statement_contract\<close>; each construct of
  \<open>semantic/cfg.py\<close> is proved once inside it, and the recursion \<open>statement\<close> interprets it. At the end
  are the properties of the graphs \<open>from_cst\<close> returns.
\<close>

section \<open>The contract of a statement builder\<close>

lemma ok_carry: "ok s ts \<Longrightarrow> grows s s' \<Longrightarrow> ok s' us \<Longrightarrow> ok s' ts"
  using ok_grows ok_Nil by blast

lemma sound_under:
  assumes "ok s ts" "\<And>s'. ok s' ts \<Longrightarrow> sound d V m s'"
  shows "sound d V (under_conditions cs m) s"
  unfolding under_conditions_def
proof (rule sound_scope [OF scope_conditions [OF ok_Nil [OF assms(1)]] assms(2)])
  show "ok (push_conditions cs s) ts"
    by (rule scope_ok [OF scope_conditions [OF ok_Nil [OF assms(1)]] _ assms(1)]) (simp add: push_conditions_def)
qed

lemma sound_branch:
  assumes "ok s preds"
  shows "sound d (\<lambda>(i, t). [i]) (branch_node cond node preds) s"
proof -
  have "sound d (\<lambda>(i, t). [i]) (and_then (linked_node ''branch'' c preds t) (\<lambda>i. done_with (i, t))) s" for c t
    by (rule sound_and_then [OF sound_linked_node [OF assms]]) (simp add: sound_done)
  then show ?thesis
    by (simp add: branch_node_def sound_unmodelled build_reasons_def split: option.split)
qed

lemma sound_pair:
  assumes "sound d (\<lambda>(x, y). V x y) m s" "\<And>x y s'. grows s s' \<Longrightarrow> ok s' (V x y) \<Longrightarrow> sound d W (f x y) s'"
  shows "sound d W (and_then m (\<lambda>(x, y). f x y)) s"
  by (rule sound_and_then [OF assms(1)]) (use assms(2) in auto)

lemma sound_triple:
  assumes "sound d (\<lambda>(x, y, z). V x y z) m s" "\<And>x y z s'. grows s s' \<Longrightarrow> ok s' (V x y z) \<Longrightarrow> sound d W (f x y z) s'"
  shows "sound d W (and_then m (\<lambda>(x, y, z). f x y z)) s"
  by (rule sound_and_then [OF assms(1)]) (use assms(2) in auto)

text \<open>The same with a list \<open>ts\<close> of nodes known to exist, carried along.\<close>

lemma step:
  assumes "ok s ts" "sound d V m s" "\<And>x s'. ok s' (V x @ ts) \<Longrightarrow> sound d W (f x) s'"
  shows "sound d W (and_then m f) s"
  by (rule sound_and_then [OF assms(2)]) (use ok_carry [OF assms(1)] assms(3) in auto)

lemma step_pair:
  assumes "ok s ts" "sound d (\<lambda>(x, y). V x y) m s" "\<And>x y s'. ok s' (V x y @ ts) \<Longrightarrow> sound d W (f x y) s'"
  shows "sound d W (and_then m (\<lambda>(x, y). f x y)) s"
  by (rule step [OF assms(1,2)]) (use assms(3) in auto)

lemma step_doing:
  assumes "ok s ts" "kept g s" "\<And>s'. ok s' ts \<Longrightarrow> sound d W (f ()) s'"
  shows "sound d W (and_then (doing g) f) s"
  by (rule step [OF assms(1) sound_doing [OF assms(2)]]) (use assms(3) in auto)

lemma ok_subset: "ok s ts \<Longrightarrow> set us \<subseteq> set ts \<Longrightarrow> ok s us"
  by (auto simp: ok_def in_graph_def)

lemma step_link:
  assumes "ok s ts" "set (target # preds) \<subseteq> set ts" "\<And>s'. ok s' ts \<Longrightarrow> sound d W (f ()) s'"
  shows "sound d W (and_then (doing (link preds target)) f) s"
  by (rule step_doing [OF assms(1) kept_link [OF ok_subset [OF assms(1,2)]]]) (rule assms(3))

lemma child_smaller: "c \<in> set (kids n) \<Longrightarrow> size c < size n"
  by (cases n) (auto dest: size_list_estimation' [where f = size] simp: less_Suc_eq_le)

lemma find_in: "find P xs = Some x \<Longrightarrow> x \<in> set xs"
  by (auto simp: find_Some_iff)

lemma child_by_field_smaller [dest]: "child_by_field f n = Some c \<Longrightarrow> size c < size n"
  unfolding child_by_field_def by (intro child_smaller find_in)

lemma children_by_field_smaller: "c \<in> set (children_by_field f n) \<Longrightarrow> size c < size n"
  by (auto simp: children_by_field_def child_smaller)

lemma non_comments_smaller: "c \<in> set (non_comments n) \<Longrightarrow> size c < size n"
  by (auto simp: non_comments_def named_smaller)

lemma or_else_Some: "or_else a b = Some c \<Longrightarrow> a = Some c \<or> b = Some c"
  by (auto simp: or_else_def split: option.splits)

lemma switch_arm_smaller:
  assumes "switch_arm arm = Inr (label, stmts, dflt, falls)" "c \<in> set stmts"
  shows "size c < size arm"
proof -
  have "c \<in> set (non_comments arm) \<or> c \<in> set (children_by_field ''body'' arm) \<or>
      child_by_field ''consequence'' arm = Some c"
    using assms unfolding switch_arm_def Let_def
    by (auto split: if_splits option.splits list.splits dest: in_set_dropD)
  then show ?thesis by (auto dest: non_comments_smaller children_by_field_smaller)
qed

lemma switch_arm_reason: "switch_arm arm = Inl e \<Longrightarrow> e \<in> build_reasons"
  unfolding switch_arm_def Let_def by (simp add: build_reasons_def split: if_splits)

locale statement_contract =
  fixes rec :: statement_builder and limit :: nat
  assumes rec_sound: "ok s preds \<Longrightarrow> sound (limit \<le> size n) (\<lambda>x. x) (rec n preds) s"
begin

lemma below: "ok s preds \<Longrightarrow> size n < k \<Longrightarrow> sound (limit < k) (\<lambda>x. x) (rec n preds) s"
  by (rule sound_weaken [OF rec_sound]) auto

lemma sequence_sound:
  "ok s preds \<Longrightarrow> \<forall>n \<in> set ns. size n < k \<Longrightarrow> sound (limit < k) (\<lambda>x. x) (sequence rec ns preds) s"
proof (induction ns arbitrary: preds s)
  case Nil
  then show ?case by (simp add: sound_done)
next
  case (Cons n ns)
  show ?case
    unfolding sequence.simps
    by (rule sound_and_then [OF below]) (use Cons in auto)
qed

lemma optional_sound:
  "ok s preds \<Longrightarrow> (\<And>b. body = Some b \<Longrightarrow> size b < k) \<Longrightarrow>
     sound (limit < k) (\<lambda>x. x) (optional_body rec body preds) s"
  by (cases body) (auto simp: optional_body_def sound_done below)

lemma if_alternative_sound:
  assumes "ok s rest" "size alt < k"
  shows "sound (limit < k) (\<lambda>(outs, rest, neg). outs @ rest) (if_alternative rec alt rest) s"
proof -
  have body: "size b < k" if "or_else (child_by_field f alt) (child_by_field g alt) = Some b \<or>
      or_else (child_by_field f alt) (find P (named alt)) = Some b" for f g P b
    using that assms(2) by (auto dest!: or_else_Some child_by_field_smaller find_in named_smaller)
  have elif: "sound (limit < k) (\<lambda>(outs, rest, neg). outs @ rest)
      (and_then (under_conditions [t] (optional_body rec
         (or_else (child_by_field ''consequence'' alt) (child_by_field ''body'' alt)) [i])) (\<lambda>outs.
         done_with (outs, [i], [negation t]))) s'" if i: "ok s' [i]" for s' i and t :: string
  proof (rule sound_and_then [OF sound_under [OF i optional_sound]])
    fix outs s'' assume "grows s' s''" "ok s'' outs"
    with ok_carry [OF i this] show "sound (limit < k) (\<lambda>(outs, rest, neg). outs @ rest) (done_with (outs, [i], [negation t])) s''"
      by (intro sound_done) simp
  qed (use body in auto)
  have plain: "sound (limit < k) (\<lambda>(outs, rest, neg). outs @ rest) (and_then m (\<lambda>outs. done_with (outs, [], [] :: string list))) s"
    if "sound (limit < k) (\<lambda>x. x) m s" for m
    by (rule sound_and_then [OF that]) (intro sound_done, simp)
  have elif_all: "sound (limit < k) (\<lambda>(outs, rest, neg). outs @ rest)
      (and_then (branch_node c alt rest) (\<lambda>(i, t).
       and_then (under_conditions [t] (optional_body rec
         (or_else (child_by_field ''consequence'' alt) (child_by_field ''body'' alt)) [i])) (\<lambda>outs.
         done_with (outs, [i], [negation t])))) s" for c
    by (rule sound_pair [OF sound_branch [OF assms(1)]]) (rule elif)
  have else_all: "sound (limit < k) (\<lambda>x. x) (optional_body rec
      (or_else (child_by_field ''body'' alt) (find P (named alt))) rest) s" for P
    by (rule optional_sound [OF assms(1)]) (use body in blast)
  show ?thesis
    unfolding if_alternative_def using elif_all plain [OF else_all] plain [OF below [OF assms]] by simp
qed

lemma if_alternatives_sound:
  "ok s (outs @ rest) \<Longrightarrow> \<forall>a \<in> set alts. size a < k \<Longrightarrow>
     sound (limit < k) (\<lambda>x. x) (if_alternatives rec alts outs rest negated) s"
proof (induction alts arbitrary: s outs rest negated)
  case Nil
  then show ?case by (simp add: sound_done)
next
  case (Cons a alts)
  have m: "sound (limit < k) (\<lambda>(outs, rest, neg). outs @ rest) (under_conditions negated (if_alternative rec a rest)) s"
    by (rule sound_under [where ts = rest]) (use Cons.prems if_alternative_sound in auto)
  show ?case
    unfolding if_alternatives.simps
  proof (rule sound_triple [OF m])
    fix found rest' neg s' assume g: "grows s s'" "ok s' (found @ rest')"
    with ok_carry [OF _ this] Cons.prems(1) have "ok s' outs" by simp
    with g(2) Cons show "sound (limit < k) (\<lambda>x. x) (if_alternatives rec alts (outs @ found) rest' (negated @ neg)) s'"
      by simp
  qed
qed

lemma if_sound:
  assumes "ok s preds"
  shows "sound (limit < size n) (\<lambda>x. x) (if_statement rec n preds) s"
  unfolding if_statement_def
proof (rule sound_pair [OF sound_branch [OF assms]])
  fix i t s' assume i: "ok s' [i]"
  show "sound (limit < size n) (\<lambda>x. x) (and_then (under_conditions [t] (optional_body rec
      (or_else (child_by_field ''consequence'' n) (child_by_field ''body'' n)) [i])) (\<lambda>outs.
      if_alternatives rec (children_by_field ''alternative'' n) outs [i] [negation t])) s'"
  proof (rule sound_and_then [OF sound_under [OF i optional_sound]])
    fix outs s'' assume "grows s' s''" "ok s'' outs"
    with ok_carry [OF i this]
    show "sound (limit < size n) (\<lambda>x. x) (if_alternatives rec (children_by_field ''alternative'' n) outs [i] [negation t]) s''"
      by (intro if_alternatives_sound) (auto simp: children_by_field_smaller)
  qed (auto dest!: or_else_Some)
qed

lemma loop_sound:
  assumes "ok s preds"
  shows "sound (limit < size n) (\<lambda>x. x) (loop_statement rec n preds) s"
proof (cases "child_by_field ''body'' n")
  case None
  then show ?thesis by (simp add: loop_statement_def sound_unmodelled build_reasons_def)
next
  case (Some body)
  have orelse: "sound (limit < size n) (\<lambda>x. x) (case child_by_field ''alternative'' n of
      None \<Rightarrow> done_with [h] | Some alt \<Rightarrow> optional_body rec (child_by_field ''body'' alt) [h]) s'" if "ok s' [h]" for h s'
  proof (cases "child_by_field ''alternative'' n")
    case None
    then show ?thesis using that by (simp add: sound_done)
  next
    case (Some alt)
    have "size b < size n" if "child_by_field ''body'' alt = Some b" for b
      using child_by_field_smaller [OF that] child_by_field_smaller [OF Some] by simp
    with Some that show ?thesis by (simp add: optional_sound)
  qed
  let ?text = "loop_text n body"
  have main: "sound (limit < size n) (\<lambda>x. x)
      (and_then (new_node ''branch'' a b c ?text True) (\<lambda>header.
       and_then (doing (link preds header)) (\<lambda>_.
       and_then (in_frame ''loop'' (under_conditions [?text] (rec body [header]))) (\<lambda>(out, frame).
       and_then (doing (link (out @ fr_continues frame) header)) (\<lambda>_.
       and_then (case child_by_field ''alternative'' n of
           None \<Rightarrow> done_with [header]
         | Some alt \<Rightarrow> optional_body rec (child_by_field ''body'' alt) [header]) (\<lambda>outs.
       done_with (outs @ fr_breaks frame))))))) s" for a b c
  proof (rule step [OF assms sound_new_node [OF ok_Nil [OF assms]]], rule step_link, assumption, simp, goal_cases)
    case (1 h s1 s2)
    have h: "ok s2 [h]" by (rule ok_subset [OF 1(2)]) simp
    have "sound (limit < size n) (\<lambda>x. x) (under_conditions [?text] (rec body [h])) (enter_frame ''loop'' s2)"
      by (rule sound_under [OF ok_enter_frame [OF h] below]) (use Some in auto)
    from sound_in_frame [OF ok_Nil [OF h] this] show ?case
    proof (rule step_pair [OF h], goal_cases)
      case (1 out fr s3)
      then have o: "ok s3 (h # fr_breaks fr @ out @ fr_continues fr)" by (auto simp: frame_nodes_def)
      show ?case
      proof (rule step_link [OF o], force, goal_cases)
        case (1 s4)
        have "ok s4 [h]" by (rule ok_subset [OF 1]) simp
        from orelse [OF this] show ?case
          by (rule step [OF 1]) (rule sound_done, simp)
      qed
    qed
  qed
  show ?thesis
    unfolding loop_statement_def Some option.case Let_def
    by (simp add: sound_unmodelled build_reasons_def main del: One_nat_def split: option.split)
qed

lemma do_sound:
  assumes "ok s preds"
  shows "sound (limit < size n) (\<lambda>x. x) (do_statement rec n preds) s"
proof (cases "child_by_field ''body'' n")
  case None
  then show ?thesis by (simp add: do_statement_def sound_unmodelled build_reasons_def)
next
  case body: (Some body)
  show ?thesis
  proof (cases "child_by_field ''condition'' n")
    case None
    with body show ?thesis by (simp add: do_statement_def sound_unmodelled build_reasons_def)
  next
    case (Some cond)
    have "sound (limit < size n) (\<lambda>x. x)
        (and_then (reading (\<lambda>s. length (b_nodes s))) (\<lambda>first.
         and_then (in_frame ''loop'' (rec body preds)) (\<lambda>(out, frame).
         and_then (branch_node (Some cond) n (out @ fr_continues frame)) (\<lambda>(branch, _).
         and_then (doing (add_normal branch [if first < branch then first else branch])) (\<lambda>_.
         done_with (branch # fr_breaks frame)))))) s"
    proof (rule step [OF assms sound_reading [where V = "\<lambda>_. []", OF ok_Nil [OF assms]]], simp, goal_cases)
      case (1 first s1)
      then have preds: "ok s1 preds" by simp
      have "sound (limit < size n) (\<lambda>x. x) (rec body preds) (enter_frame ''loop'' s1)"
        by (rule below [OF ok_enter_frame [OF preds]]) (use body in auto)
      from sound_in_frame [OF ok_Nil [OF preds] this] show ?case
      proof (rule step_pair [OF preds], goal_cases)
        case (1 out fr s2)
        then have o: "ok s2 (out @ fr_continues fr)" "ok s2 (fr_breaks fr)" by (auto simp: frame_nodes_def)
        show ?case
        proof (rule step_pair [OF o(2) sound_branch [OF o(1)]], goal_cases)
          case (1 i t s3)
          have "ok s3 [i]" by (rule ok_subset [OF 1]) simp
          then have i: "ok s3 [i, if first < i then first else i]" by simp
          show ?case
            by (rule step_doing [OF 1 kept_add_normal [OF i]]) (rule sound_done, simp)
        qed
      qed
    qed
    with body Some show ?thesis by (simp add: do_statement_def)
  qed
qed

lemma switch_arms_sound:
  assumes "ok s (b # outs @ falling)" "\<forall>a \<in> set arms. size a < k"
  shows "sound (limit < k) (\<lambda>(outs, falling, dflt). outs @ falling) (switch_arms rec b subject arms outs falling dflt) s"
  using assms
proof (induction arms arbitrary: s outs falling dflt)
  case Nil
  then show ?case by (simp add: sound_done)
next
  case (Cons arm arms)
  show ?case
  proof (cases "ty arm \<in> comment_types")
    case True
    with Cons show ?thesis by simp
  next
    case False
    show ?thesis
    proof (cases "switch_arm arm")
      case (Inl e)
      with False show ?thesis by (simp add: sound_unmodelled switch_arm_reason)
    next
      case (Inr r)
      obtain label stmts df ft where r: "switch_arm arm = Inr (label, stmts, df, ft)" using Inr by (cases r) auto
      have small: "\<forall>n \<in> set stmts. size n < k"
        using switch_arm_smaller [OF r] Cons.prems(2) by (meson less_trans list.set_intros(1))
      have "sound (limit < k) (\<lambda>(outs, falling, dflt). outs @ falling)
        (and_then (new_node ''case'' x y z label True) (\<lambda>c.
         and_then (doing (link [b] c)) (\<lambda>_.
         and_then (under_conditions [t] (sequence rec stmts (if ft then c # falling else [c]))) (\<lambda>out.
         switch_arms rec b subject arms (if ft then outs else outs @ out) (if ft then out else falling) (dflt \<or> df))))) s"
        for x y z t
      proof (rule step [OF Cons.prems(1) sound_new_node [OF ok_Nil [OF Cons.prems(1)]]], rule step_link, assumption, force, goal_cases)
        case (1 c s1 s2)
        have c: "ok s2 (if ft then c # falling else [c])" by (rule ok_subset [OF 1(2)]) auto
        show ?case
        proof (rule step [OF 1(2) sound_under [OF c sequence_sound]], assumption, rule small, goal_cases)
          case (1 out s3)
          show ?case
            by (rule Cons.IH, rule ok_subset [OF 1]) (use Cons.prems(2) in auto)
        qed
      qed
      with False r show ?thesis by simp
    qed
  qed
qed

lemma switch_sound:
  assumes "ok s preds"
  shows "sound (limit < size n) (\<lambda>x. x) (switch_statement rec n preds) s"
proof (cases "child_by_field ''body'' n")
  case None
  then show ?thesis by (simp add: switch_statement_def sound_unmodelled build_reasons_def)
next
  case (Some body)
  have small: "\<forall>a \<in> set (named body). size a < size n"
    using Some by (auto dest!: child_by_field_smaller named_smaller)
  show ?thesis
    unfolding switch_statement_def Some option.case
  proof (rule step_pair [OF assms sound_branch [OF assms]], goal_cases)
    case (1 b subject s1)
    have b: "ok s1 [b]" by (rule ok_subset [OF 1]) simp
    then have "ok (enter_frame ''switch'' s1) (b # [] @ [])" by (simp only: append_Nil ok_enter_frame)
    from sound_in_frame [OF ok_Nil [OF b] switch_arms_sound [OF this small]] show ?case
    proof (rule step [OF b], goal_cases)
      case (1 x s2)
      obtain outs falling dflt fr where x: "x = ((outs, falling, dflt), fr)" by (metis prod.exhaust)
      show ?case unfolding x prod.case
        by (rule sound_done, rule ok_subset [OF 1]) (auto simp: x frame_nodes_def)
    qed
  qed
qed

lemma headed_sound:
  assumes "ok s preds"
  shows "sound (limit < size n) (\<lambda>x. x) (headed_statement rec n preds) s"
proof (cases "child_by_field ''body'' n")
  case None
  then show ?thesis by (simp add: headed_statement_def sound_unmodelled build_reasons_def)
next
  case (Some body)
  show ?thesis
    unfolding headed_statement_def Some option.case
  proof (rule step [OF assms sound_new_node [OF ok_Nil [OF assms]]], rule step_link, assumption, force, goal_cases)
    case (1 h s1 s2)
    show ?case by (rule below, rule ok_subset [OF 1(2)]) (use Some in auto)
  qed
qed

lemma entry_nodes_sound:
  assumes "ok s []"
  shows "sound d (\<lambda>is. is) (entry_nodes kind cs) s"
  using assms
proof (induction cs arbitrary: s)
  case Nil
  then show ?case by (simp add: sound_done)
next
  case (Cons c cs)
  show ?case
    unfolding entry_nodes.simps entry_node_def
  proof (rule step [OF Cons.prems sound_new_node [OF Cons.prems]], goal_cases)
    case (1 i s1)
    show ?case
    proof (rule step [OF 1 Cons.IH [OF ok_Nil [OF 1]]], goal_cases)
      case (1 xs s2)
      then show ?case by (intro sound_done) simp
    qed
  qed
qed

lemma clause_body_smaller: "clause_body c = Some b \<Longrightarrow> size b < size c"
  unfolding clause_body_def by (auto dest!: or_else_Some find_in named_smaller)

lemma catch_clauses_smaller: "c \<in> set (catch_clauses n) \<Longrightarrow> size c < size n"
  by (auto simp: catch_clauses_def Let_def named_smaller child_by_field_smaller split: option.splits if_splits)

lemma catch_bodies_sound:
  assumes "ok s (normal @ map snd cs)" "\<forall>c \<in> set cs. size (fst c) < k"
  shows "sound (limit < k) (\<lambda>x. x) (catch_bodies rec cs normal) s"
  using assms
proof (induction cs arbitrary: s normal)
  case Nil
  then show ?case by (simp add: sound_done)
next
  case (Cons c cs)
  obtain clause entry where c: "c = (clause, entry)" by (cases c)
  have e: "ok s [entry]" by (rule ok_subset [OF Cons.prems(1)]) (simp add: c)
  have b: "sound (limit < k) (\<lambda>x. x) (optional_body rec (clause_body clause) [entry]) s"
    by (rule optional_sound [OF e]) (use Cons.prems(2) c in \<open>auto dest: clause_body_smaller\<close>)
  show ?case
    unfolding c catch_bodies.simps
  proof (rule step [OF Cons.prems(1) b], goal_cases)
    case (1 out s1)
    show ?case
      by (rule Cons.IH, rule ok_subset [OF 1]) (use Cons.prems(2) in auto)
  qed
qed

lemma try_body_sound:
  assumes "ok s [start]" "size body < k"
  shows "sound (limit < k) (\<lambda>x. x) (try_body rec n body start) s"
proof -
  have "sound (limit < k) (\<lambda>i. [i]) (case child_by_field ''resources'' n of
      None \<Rightarrow> done_with start | Some r \<Rightarrow> linked_node ''statement'' r [start] (node_text r)) s"
    using assms(1) by (simp add: sound_done sound_linked_node split: option.split)
  then show ?thesis
    unfolding try_body_def
  proof (rule step [OF assms(1)], goal_cases)
    case (1 i s1)
    show ?case by (rule below [OF _ assms(2)], rule ok_subset [OF 1]) simp
  qed
qed

lemma finally_sound:
  assumes "ok s (fe # normal)" "size final < k"
  shows "sound (limit < k) (\<lambda>x. x) (finally_part rec final fe normal) s"
  unfolding finally_part_def
proof (rule step_link [OF assms(1)], simp, goal_cases)
  case (1 s1)
  have fe: "ok s1 [fe]" by (rule ok_subset [OF 1]) simp
  have b: "sound (limit < k) (\<lambda>x. x) (optional_body rec (clause_body final) [fe]) s1"
    by (rule optional_sound [OF fe]) (use assms(2) in \<open>auto dest: clause_body_smaller\<close>)
  show ?case
  proof (rule step [OF 1 b], goal_cases)
    case (1 out s2)
    have out: "ok s2 out" by (rule ok_subset [OF 1]) auto
    show ?case by (rule step_doing [OF out kept_resume_all [OF out]]) (rule sound_done)
  qed
qed

lemma try_sound:
  assumes "ok s preds"
  shows "sound (limit < size n) (\<lambda>x. x) (try_statement rec n preds) s"
proof (cases "child_by_field ''body'' n")
  case None
  then show ?thesis by (simp add: try_statement_def sound_unmodelled build_reasons_def)
next
  case (Some body)
  let ?clauses = "catch_clauses n" and ?final = "find (type_is ''finally_clause'') (named n)"
    and ?orelse = "find (type_is ''else_clause'') (named n)"
  have body: "size body < size n" using Some by auto
  have clauses: "size (fst p) < size n" if "p \<in> set (zip ?clauses es)" for p and es :: "nat list"
  proof -
    from that have "(fst p, snd p) \<in> set (zip ?clauses es)" by simp
    then show ?thesis by (rule catch_clauses_smaller [OF set_zip_leftD])
  qed
  have final: "size f < size n" if "?final = Some f" for f using that by (auto dest!: find_in named_smaller)
  show ?thesis
    unfolding try_statement_def Some option.case Let_def
  proof (unfold entry_node_def, rule step [OF assms sound_new_node [OF ok_Nil [OF assms]]],
      rule step_link, assumption, force, goal_cases)
    case (1 start s1 s2)
    show ?case
    proof (rule step [OF 1(2) entry_nodes_sound [OF ok_Nil [OF 1(2)]]], goal_cases)
      case (1 entries s3)
      let ?V = "\<lambda>fe. case fe of None \<Rightarrow> [] | Some i \<Rightarrow> [i]"
      have f: "sound (limit < size n) ?V (case ?final of None \<Rightarrow> done_with None | Some f \<Rightarrow>
          and_then (new_node ''finally'' (line_of f) (line_of f) (byte f) '''' True) (\<lambda>i. done_with (Some i))) s3"
        by (auto split: option.split intro!: sound_done step [OF ok_Nil [OF 1] sound_new_node] ok_Nil [OF 1])
      show ?case
      proof (rule step [OF 1 f], goal_cases)
        case (1 fe s4)
        let ?targets = "if entries \<noteq> [] then entries else ?V fe"
        have t: "ok s4 (start # ?targets)" by (rule ok_subset [OF 1]) (auto split: option.split)
        show ?case
        proof (rule step_doing [OF 1 kept_add_exceptional [OF t]], goal_cases)
          case (1 s5)
          have targets: "ok s5 ?targets" by (rule ok_subset [OF 1]) (auto split: option.split)
          have start: "ok s5 [start]" by (rule ok_subset [OF 1]) simp
          have "ok (enter_try ?targets (map catch_type ?clauses) s5) [start]"
            by (rule scope_ok [OF scope_try [OF targets] _ start]) (simp add: enter_try_def)
          from sound_scope [OF scope_try [OF targets, of "map catch_type ?clauses"] try_body_sound [OF this body]]
          show ?case unfolding length_map
          proof (rule step [OF 1], goal_cases)
            case (1 out s6)
            have out: "ok s6 out" by (rule ok_subset [OF 1]) auto
            have "sound (limit < size n) (\<lambda>x. x) (case ?orelse of None \<Rightarrow> done_with out
                | Some e \<Rightarrow> optional_body rec (child_by_field ''body'' e) out) s6"
              using out by (auto split: option.split intro!: sound_done optional_sound
                  dest!: find_in named_smaller child_by_field_smaller)
            then show ?case
            proof (rule step [OF 1], goal_cases)
              case (1 out2 s7)
              have fe: "ok s7 (?V fe)" by (rule ok_subset [OF 1]) auto
              have "set (map snd (zip ?clauses entries)) \<subseteq> set entries" by (auto dest: set_zip_rightD)
              then have o: "ok s7 (out2 @ map snd (zip ?clauses entries))"
                by (intro ok_subset [OF 1]) auto
              have "ok (enter_catches fe s7) (out2 @ map snd (zip ?clauses entries))"
                by (rule scope_ok [OF scope_catches [OF fe] _ o]) (simp add: enter_catches_def)
              from sound_scope [OF scope_catches [OF fe] catch_bodies_sound [OF this]]
              have "sound (limit < size n) (\<lambda>x. x) (within (enter_catches fe) (leave_catches fe)
                  (catch_bodies rec (zip ?clauses entries) out2)) s7"
                using clauses by blast
              then show ?case
              proof (rule step [OF 1], goal_cases)
                case (1 normal s8)
                have n8: "ok s8 normal" by (rule ok_subset [OF 1]) auto
                have f8: "ok s8 (?V fe @ normal)" by (rule ok_subset [OF 1]) auto
                show ?case
                  using n8 f8 final by (auto split: option.split intro!: sound_done finally_sound)
              qed
            qed
          qed
        qed
      qed
    qed
  qed
qed

lemma step_sound:
  assumes "ok s preds"
  shows "sound (Suc limit \<le> size n) (\<lambda>x. x) (statement_step rec n preds) s"
proof -
  have "sound (limit < size n) (\<lambda>x. x) (statement_step rec n preds) s"
    unfolding statement_step_def Let_def
    using assms by (auto intro!: sound_done sequence_sound if_sound loop_sound do_sound switch_sound try_sound
        headed_sound sound_simple simp: non_comments_smaller named_smaller)
  then show ?thesis by (simp add: Suc_le_eq)
qed

end

section \<open>The recursion\<close>

lemma statement_contract: "statement_contract (statement limit) limit"
proof (induction limit)
  case 0
  show ?case by unfold_locales (simp add: sound_def unmodelled_def)
next
  case (Suc limit)
  show ?case by unfold_locales (simp add: statement_contract.step_sound [OF Suc])
qed

interpretation statements: statement_contract "statement limit" limit for limit
  by (rule statement_contract)

section \<open>Properties of the graphs\<close>

lemma initial_ok: "ok (initial_builder start stop) [EntryNode, ExitNode]"
  by (simp add: ok_def wf_builder_def initial_builder_def empty_builder_def node_count_def)

lemma build_function_sound:
  "sound (limit < size n) (\<lambda>_. []) (build_function limit n) (initial_builder start stop)"
proof (cases "child_by_field ''body'' n")
  case None
  have "kept (link [EntryNode] ExitNode) (initial_builder start stop)"
    by (rule kept_link) (use initial_ok in auto)
  from sound_doing [OF this] None show ?thesis by (simp add: build_function_def)
next
  case (Some body)
  have e: "ok (initial_builder start stop) [EntryNode]" using initial_ok [of start stop] by simp
  have "sound (limit < size n) (\<lambda>x. x) (if ty body \<in> block_types then statement limit body [EntryNode]
      else simple_statement body [EntryNode]) (initial_builder start stop)"
    using statements.below [OF e child_by_field_smaller [OF Some]] sound_simple [OF e] by simp
  then show ?thesis
    unfolding build_function_def Some option.case
  proof (rule step [OF e], goal_cases)
    case (1 out s)
    then have "ok s (ExitNode # out)" using exit_in_graph [OF 1] ok_subset [OF 1, of out] by auto
    from sound_doing [OF kept_link [OF this]] show ?case .
  qed
qed

text \<open>
  C5. The builder is total and keeps the graph closed: for every syntax tree, language and depth
  limit, the result is either unavailable with a reason, or a graph whose every edge ends in it, with
  an entry and an exit, and with exact dominators. The depth limit is a reason only for a tree larger
  than the limit.
\<close>

theorem from_cst_total:
  "let g = from_cst limit node language in
    if c_available g then wf_cfg g \<and> c_dominators g = compute_dominators g \<and> language \<in> languages
    else (language \<notin> languages \<and> c_reason g = Some ''no_control_flow_builder'') \<or>
      (\<exists>r \<in> build_reasons. c_reason g = Some r) \<or>
      limit < size node \<and> c_reason g = Some ''nesting_too_deep''"
proof (cases "language \<in> languages")
  case False
  then show ?thesis by (simp add: from_cst_def unavailable_def Let_def)
next
  case True
  let ?s = "initial_builder (line_of node) (end_line_of node)"
  show ?thesis
  proof (cases "build_function limit node ?s")
    case (Inl e)
    with build_function_sound [of limit node "line_of node" "end_line_of node"] True show ?thesis
      by (auto simp: from_cst_def unavailable_def Let_def sound_def)
  next
    case (Inr r)
    obtain b where b: "r = ((), b)" by (cases r) auto
    with Inr build_function_sound [of limit node "line_of node" "end_line_of node"]
    have "wf_builder b" by (auto simp: sound_def ok_def)
    moreover have "from_cst limit node language = graph_of (line_of node) (end_line_of node) b"
      using True Inr b by (simp add: from_cst_def Let_def)
    moreover have "c_dominators (graph_of a c b) = compute_dominators (graph_of a c b)" for a c
      by (simp add: graph_of_def Let_def with_dominators_ok)
    ultimately show ?thesis using True
      by (auto simp: graph_of_def with_dominators_def Let_def wf_cfg_def wf_builder_def in_graph_def node_count_def)
  qed
qed

text \<open>
  C7. Building a statement inside handlers is conservative: the builder only adds nodes and edges,
  restores every stack it pushed, gives every node it adds an exceptional edge to each target of
  each enclosing handler, and records a context that extends the context of the statement; the open
  ends it returns are nodes of the graph.
\<close>

theorem statement_conservative:
  assumes "wf_builder s" "in_graph s preds" "statement limit node preds s = Inr (outs, s')"
  shows "wf_builder s' \<and> in_graph s' outs \<and> prefix (b_nodes s) (b_nodes s') \<and>
    (\<forall>i < node_count s. set (b_normal s ! i) \<subseteq> set (b_normal s' ! i) \<and>
       set (b_exceptional s ! i) \<subseteq> set (b_exceptional s' ! i)) \<and>
    current_context s' = current_context s \<and> b_handlers s' = b_handlers s \<and>
    map fr_kind (b_frames s') = map fr_kind (b_frames s) \<and>
    (\<forall>i. node_count s \<le> i \<and> i < node_count s' \<longrightarrow>
       set (concat (b_handlers s)) \<subseteq> set (b_exceptional s' ! i) \<and>
       context_extends (current_context s) (n_context (b_nodes s' ! i)))"
proof -
  have "ok s preds" using assms(1,2) by (simp add: ok_def)
  from sound_result [OF statements.rec_sound [OF this] assms(3)] show ?thesis
    by (simp add: ok_def grows_def same_stacks_def old_kept_def new_nodes_covered_def)
qed

section \<open>Sample functions\<close>

definition leaf_at :: "string \<Rightarrow> string \<Rightarrow> int \<Rightarrow> cst" where
  "leaf_at kind text line = Cst kind True None line line (10 * line) text []"

definition as_field :: "string \<Rightarrow> cst \<Rightarrow> cst" where
  "as_field f c = Cst (ty c) (is_named c) (Some f) (row c) (end_row c) (byte c) (node_text c) (kids c)"

definition block_at :: "int \<Rightarrow> int \<Rightarrow> cst list \<Rightarrow> cst" where
  "block_at a b cs = Cst ''block'' True (Some ''body'') a b (10 * a + 5) '''' cs"

text \<open>\<open>void m() { if (!ok) { throw e; } delete(id); }\<close>, one construct per line.\<close>

definition guarded_method :: cst where
  "guarded_method = Cst ''method_declaration'' True None 0 6 0 '''' [block_at 0 6
     [Cst ''if_statement'' True None 1 3 10 ''''
        [as_field ''condition'' (leaf_at ''identifier'' ''!ok'' 1),
         as_field ''consequence'' (block_at 1 3 [leaf_at ''throw_statement'' ''throw e;'' 2])],
      leaf_at ''expression_statement'' ''delete(id);'' 4]]"

abbreviation guarded_graph :: function_cfg where
  "guarded_graph \<equiv> from_cst 10 guarded_method ''java''"

lemma guarded_graph_shape:
  "map n_kind (c_nodes guarded_graph) = [''entry'', ''end'', ''branch'', ''throw'', ''statement'']"
  "c_normal guarded_graph = [[2], [], [3, 4], [1], [1]]"
  "node_at guarded_graph 2 = Some 2" "node_at guarded_graph 5 = Some 4"
  "cfg_relation guarded_graph 2 5 = Some ''all_paths''"
  "branch_effect guarded_graph 2 4 = Some ''throws''"
  "cfg_effect guarded_graph 2 5 False = Some ''throws''"
  "c_dominators guarded_graph 4 = Some 21"
  by code_simp+

lemma guarded_graph_dominators: "c_dominators guarded_graph = compute_dominators guarded_graph"
proof -
  have "c_available guarded_graph" by code_simp
  then obtain b where "guarded_graph = graph_of 1 7 b"
    by (auto simp: from_cst_def unavailable_def Let_def guarded_method_def line_of_def end_line_of_def
        split: if_splits sum.splits)
  then show ?thesis by (simp add: graph_of_def with_dominators_ok)
qed

text \<open>Every path of this method to the call on line 5 passes the check on line 2.\<close>

theorem cfg_relation_witness:
  "(\<exists>p. entry_path guarded_graph p 4) \<and> {p. entry_path guarded_graph p 4 \<and> 2 \<notin> set p} = {}"
  using cfg_relation_exact [OF guarded_graph_dominators guarded_graph_shape(3,4)] guarded_graph_shape(5) by auto

theorem compute_dominators_witness:
  "(\<exists>p. is_path guarded_graph p \<and> hd p = EntryNode \<and> last p = 4) \<and>
   {p. is_path guarded_graph p \<and> hd p = EntryNode \<and> last p = 4 \<and> 2 \<notin> set p} = {}"
proof -
  have "compute_dominators guarded_graph 4 = Some 21"
    using guarded_graph_shape(8) guarded_graph_dominators by simp
  moreover have "bit (21 :: int) 2" by code_simp
  ultimately show ?thesis using compute_dominators_exact [of guarded_graph 4] by auto
qed

theorem node_at_witness:
  "c_available guarded_graph \<and> covers_line 5 (c_nodes guarded_graph ! 4)"
proof -
  have "c_end guarded_graph = 7" by code_simp
  then show ?thesis using node_at_exact [of guarded_graph 5] guarded_graph_shape(4) by simp
qed

theorem from_cst_witness: "wf_cfg guarded_graph"
proof -
  have "c_available guarded_graph" by code_simp
  then show ?thesis using from_cst_total [of 10 guarded_method "''java''"] by (simp add: Let_def)
qed

theorem branch_effect_witness:
  "node_kind guarded_graph 2 = ''branch'' \<and> (\<exists>f. only_throws guarded_graph f {2})"
  using branch_effect_sound [OF guarded_graph_shape(6)] by auto

theorem statement_conservative_witness:
  "case statement 3 (leaf_at ''expression_statement'' ''f();'' 1) [0]
      ((initial_builder 1 9)\<lparr>b_handlers := [[1]], b_tries := 1\<rparr>) of
     Inl e \<Rightarrow> False
   | Inr (outs, s') \<Rightarrow> outs = [2] \<and> b_exceptional s' = [[], [], [1]] \<and>
       wf_builder s' \<and> in_try (n_context (b_nodes s' ! 2))"
proof -
  let ?s = "(initial_builder 1 9)\<lparr>b_handlers := [[1]], b_tries := 1\<rparr>"
  have wf: "wf_builder ?s" "in_graph ?s [0]"
    by (simp_all add: wf_builder_def initial_builder_def empty_builder_def node_count_def in_graph_def)
  obtain outs s' where r: "statement 3 (leaf_at ''expression_statement'' ''f();'' 1) [0] ?s = Inr (outs, s')"
    and v: "outs = [2]" "b_exceptional s' = [[], [], [1]]" "in_try (n_context (b_nodes s' ! 2))"
  proof -
    have "case statement 3 (leaf_at ''expression_statement'' ''f();'' 1) [0] ?s of Inl e \<Rightarrow> False
        | Inr (outs, s') \<Rightarrow> outs = [2] \<and> b_exceptional s' = [[], [], [1]] \<and> in_try (n_context (b_nodes s' ! 2))"
      by code_simp
    then show thesis by (auto split: sum.splits prod.splits intro: that)
  qed
  have "wf_builder s'" using statement_conservative [OF wf r] by blast
  with v show ?thesis unfolding r by simp
qed

text \<open>
  A \<open>throw\<close> in a \<open>try\<close> with resources, and no catch or finally, gets no edge at all: the handler
  stack is not empty, but its only entry has no target. The exit of this method is unreachable.
\<close>

definition bare_try_method :: cst where
  "bare_try_method = Cst ''method_declaration'' True None 0 5 0 '''' [block_at 0 5
     [Cst ''try_with_resources_statement'' True None 1 4 10 ''''
        [block_at 2 4 [leaf_at ''throw_statement'' ''throw e;'' 3]]]]"

lemma bare_try_throw_has_no_edge:
  "let g = from_cst 10 bare_try_method ''java'' in
     map n_kind (c_nodes g) = [''entry'', ''end'', ''try'', ''throw''] \<and>
     successors g 3 = [] \<and> c_dominators g ExitNode = None"
  by code_simp

end
