(* ===== verification/Dominance.thy ===== *)
theory Dominance
  imports Operations CfgQueries
begin

text \<open>
  Does a discharge witness dominate an operation? The order-based answer
  (\<open>semantic/obligations/dominance.py\<close>) and the one over control-flow graphs
  (\<open>semantic/obligations/cfg_dominance.py\<close>), both behind one protocol, which is the locale
  \<open>dominance_protocol\<close>. \<open>CfgDominance\<close> records the functions it has to judge without a graph; that
  dictionary is passed along and returned. A path record is the list of its hops' node names.
\<close>

section \<open>Order over source text\<close>

definition exit_words :: "regex list" where
  "exit_words =
     (let word = \<lambda>w. RSeq (RLit w) (RNotAhead (RChar py_word)) in
      [word ''return'', word ''raise'', RLit ''abort('', RLit ''sys.exit('', RLit ''exit('', word ''throw'',
       RLit ''res.status('', RLit ''response.status('']) "

definition exit_regex :: regex where
  "exit_regex = RSeq (RStar py_space) (RGroup (RAlts exit_words))"

definition is_exit_line :: "string \<Rightarrow> bool" where
  "is_exit_line line \<longleftrightarrow> re_match exit_regex line \<noteq> None"

type_synonym texts = "string \<rightharpoonup> string"

definition lines_between :: "texts \<Rightarrow> string \<Rightarrow> int \<Rightarrow> int \<Rightarrow> string list" where
  "lines_between texts path guard_line operation_line =
     py_slice guard_line (operation_line - 1)
       (split_lines (case texts path of None \<Rightarrow> '''' | Some t \<Rightarrow> t))"

fun hop_index_from :: "nat \<Rightarrow> string list \<Rightarrow> string \<Rightarrow> string \<Rightarrow> nat option" where
  "hop_index_from i [] path function = None"
| "hop_index_from i (node # hops) path function =
     (let (node_path, node_function) = rpartition ''::'' node
      in if node_function = function \<and> (node_path = '''' \<or> path_stem node_path = path_stem path) then Some i
         else hop_index_from (Suc i) hops path function)"

definition hop_index :: "string list \<Rightarrow> string \<Rightarrow> string \<Rightarrow> nat option" where
  "hop_index hops path function = hop_index_from 0 hops path function"

definition dominates_along :: "discharge \<Rightarrow> operation \<Rightarrow> string list option \<Rightarrow> bool" where
  "dominates_along w op path =
     (case path of
        None \<Rightarrow> False
      | Some hops \<Rightarrow>
          (case (hop_index hops (w_path w) (w_function w), hop_index hops (o_path op) (o_function op)) of
             (Some i, Some j) \<Rightarrow> i < j
           | _ \<Rightarrow> False))"

definition along_path :: "discharge \<Rightarrow> operation \<Rightarrow> string list option \<Rightarrow> bool" where
  "along_path w op path \<longleftrightarrow> w_scope w = ''hop'' \<or> path \<noteq> None \<and> \<not> same_function w op"

definition scoped :: "string set" where
  "scoped = {''decorator'', ''router''}"

definition in_operation :: "string set" where
  "in_operation = {''identity_constraint'', ''non_permissive_value''}"

definition throwing :: "string set" where
  "throwing = {''path_guard''}"

definition order_dominates :: "texts \<Rightarrow> discharge \<Rightarrow> operation \<Rightarrow> string list option \<Rightarrow> bool" where
  "order_dominates texts w op path =
     (if along_path w op path then dominates_along w op path
      else if \<not> same_function w op then False
      else if w_scope w \<in> scoped then True
      else case w_line w of
        None \<Rightarrow> False
      | Some l \<Rightarrow>
          if w_kind w \<in> in_operation then l = o_line op
          else if l \<ge> o_line op then False
          else if w_kind w = ''path_guard'' then True
          else list_ex is_exit_line (lines_between texts (w_path w) l (o_line op)))"

section \<open>Control-flow graphs, and order where there is none\<close>

type_synonym unavailable = "((string \<times> string) \<times> string) list"

record graphs =
  g_texts :: texts
  g_cfgs :: "string \<times> string \<Rightarrow> function_cfg list"

definition cfg_span :: "function_cfg \<Rightarrow> int" where
  "cfg_span cfg = c_end cfg - c_start cfg"

text \<open>\<open>min(xs, key=f)\<close>: the first of the least elements.\<close>

fun first_min :: "('a \<Rightarrow> 'k::linorder) \<Rightarrow> 'a \<Rightarrow> 'a list \<Rightarrow> 'a" where
  "first_min f best [] = best"
| "first_min f best (x # xs) = first_min f (if f x < f best then x else best) xs"

definition find_graph :: "graphs \<Rightarrow> string \<Rightarrow> string \<Rightarrow> int \<Rightarrow> function_cfg option" where
  "find_graph ctx path function line =
     (case filter (\<lambda>cfg. c_start cfg \<le> line \<and> line \<le> c_end cfg + 1) (g_cfgs ctx (path, function)) of
        [] \<Rightarrow> None
      | c # cs \<Rightarrow> Some (first_min cfg_span c cs))"

definition graph :: "graphs \<Rightarrow> string \<Rightarrow> string \<Rightarrow> int \<Rightarrow> unavailable \<Rightarrow> function_cfg option \<times> unavailable" where
  "graph ctx path function line st =
     (case find_graph ctx path function line of
        None \<Rightarrow> (None, set_default (path, function) ''no_graph'' st)
      | Some cfg \<Rightarrow>
          if c_available cfg then (Some cfg, st)
          else (None, set_default (path, function)
            (case c_reason cfg of None \<Rightarrow> ''unmodelled_construct'' | Some r \<Rightarrow> if r = '''' then ''unmodelled_construct'' else r) st))"

definition cfg_dominates :: "graphs \<Rightarrow> discharge \<Rightarrow> operation \<Rightarrow> string list option \<Rightarrow> unavailable \<Rightarrow>
    bool \<times> unavailable" where
  "cfg_dominates ctx w op path st =
     (if along_path w op path then (order_dominates (g_texts ctx) w op path, st)
      else if \<not> same_function w op then (False, st)
      else if w_scope w \<in> scoped then (True, st)
      else case w_line w of
        None \<Rightarrow> (False, st)
      | Some l \<Rightarrow>
          if w_kind w \<in> in_operation then (l = o_line op, st)
          else if l \<ge> o_line op then (False, st)
          else (case graph ctx (o_path op) (o_function op) (o_line op) st of
              (None, st') \<Rightarrow> (order_dominates (g_texts ctx) w op path, st')
            | (Some cfg, st') \<Rightarrow>
                (case cfg_relation cfg l (o_line op) of
                   None \<Rightarrow> (order_dominates (g_texts ctx) w op path,
                     set_default (o_path op, o_function op) ''line_without_node'' st')
                 | Some r \<Rightarrow>
                     (r = ''all_paths'' \<and>
                      cfg_effect cfg l (o_line op) (w_kind w \<in> throwing) \<noteq> Some ''value_only'', st'))))"

section \<open>Strict evidence\<close>

definition pre_graph_evidence :: "discharge \<Rightarrow> operation \<Rightarrow> dominance_evidence option" where
  "pre_graph_evidence w op =
     (if w_scope w \<in> scoped then Some (dom_evidence MUST (Some ''handler'') None)
      else if w_scope w = ''hop'' \<or> \<not> same_function w op
      then Some (dom_evidence UNKNOWN None (Some ''dominance:cross_function''))
      else if w_kind w \<in> in_operation
      then Some (dom_evidence (if w_line w = Some (o_line op) then MUST else NO) (Some ''constrains'') None)
      else case w_line w of
        None \<Rightarrow> Some (dom_evidence UNKNOWN None (Some ''dominance:no_line''))
      | Some l \<Rightarrow> if l \<ge> o_line op then Some (dom_evidence NO None None) else None)"

definition graph_evidence :: "function_cfg \<Rightarrow> int \<Rightarrow> int \<Rightarrow> bool \<Rightarrow> dominance_evidence" where
  "graph_evidence cfg guard_line operation_line throws =
     (case cfg_relation cfg guard_line operation_line of
        None \<Rightarrow> dom_evidence UNKNOWN None (Some ''line_without_node'')
      | Some found \<Rightarrow>
          (let effect = cfg_effect cfg guard_line operation_line throws in
           if found = ''all_paths''
           then dom_evidence (if effect = Some ''value_only'' then NO else MUST) effect None
           else if found = ''some_paths'' then dom_evidence MAY effect None
           else if found = ''none'' \<or> found = ''after'' then dom_evidence NO None None
           else dom_evidence UNKNOWN None (Some ''dominance:unmapped_relation'')))"

definition evidence :: "graphs \<Rightarrow> discharge \<Rightarrow> operation \<Rightarrow> unavailable \<Rightarrow> dominance_evidence \<times> unavailable" where
  "evidence ctx w op st =
     (case pre_graph_evidence w op of
        Some e \<Rightarrow> (e, st)
      | None \<Rightarrow>
          (case w_line w of
             None \<Rightarrow> (dom_evidence UNKNOWN None (Some ''dominance:no_line''), st)
           | Some l \<Rightarrow>
               (case graph ctx (o_path op) (o_function op) (o_line op) st of
                  (None, st') \<Rightarrow> (dom_evidence UNKNOWN None (Some ''cfg_unavailable''), st')
                | (Some cfg, st') \<Rightarrow> (graph_evidence cfg l (o_line op) (w_kind w \<in> throwing), st'))))"

section \<open>Descriptions for the trace\<close>

definition order_relation :: "texts \<Rightarrow> discharge \<Rightarrow> operation \<Rightarrow> string" where
  "order_relation texts w op =
     (if order_dominates texts w op None then ''all_paths''
      else case w_line w of
        None \<Rightarrow> ''none''
      | Some l \<Rightarrow> if l > o_line op then ''after'' else ''none'')"

definition exit_line_effect :: "string \<Rightarrow> string option" where
  "exit_line_effect line =
     (case re_match exit_regex line of
        Some (_, _, Some word) \<Rightarrow> Some
          (if starts_with ''return'' word then ''returns''
           else if starts_with ''raise'' word \<or> starts_with ''throw'' word then ''throws'' else ''exits'')
      | _ \<Rightarrow> None)"

fun first_exit_effect :: "string list \<Rightarrow> string" where
  "first_exit_effect [] = ''value_only''"
| "first_exit_effect (l # ls) = (case exit_line_effect l of Some e \<Rightarrow> e | None \<Rightarrow> first_exit_effect ls)"

definition order_effect :: "texts \<Rightarrow> discharge \<Rightarrow> operation \<Rightarrow> string" where
  "order_effect texts w op =
     (if w_scope w \<in> scoped then ''exits''
      else if w_kind w \<in> in_operation then ''constrains''
      else if w_kind w \<in> throwing then ''throws''
      else case w_line w of
        None \<Rightarrow> ''value_only''
      | Some l \<Rightarrow> if l \<ge> o_line op then ''value_only''
          else first_exit_effect (lines_between texts (w_path w) l (o_line op)))"

definition local_graph :: "graphs \<Rightarrow> discharge \<Rightarrow> operation \<Rightarrow> unavailable \<Rightarrow> function_cfg option \<times> unavailable" where
  "local_graph ctx w op st =
     (if w_scope w \<in> scoped \<or> w_line w = None \<or> w_kind w \<in> in_operation \<or> \<not> same_function w op then (None, st)
      else graph ctx (o_path op) (o_function op) (o_line op) st)"

definition cfg_describe_relation :: "graphs \<Rightarrow> discharge \<Rightarrow> operation \<Rightarrow> unavailable \<Rightarrow> string \<times> unavailable" where
  "cfg_describe_relation ctx w op st =
     (let (cfg, st') = local_graph ctx w op st;
          found = (case (cfg, w_line w) of (Some c, Some l) \<Rightarrow> cfg_relation c l (o_line op) | _ \<Rightarrow> None)
      in (case found of Some r \<Rightarrow> r | None \<Rightarrow> order_relation (g_texts ctx) w op, st'))"

definition cfg_describe_effect :: "graphs \<Rightarrow> discharge \<Rightarrow> operation \<Rightarrow> unavailable \<Rightarrow> string \<times> unavailable" where
  "cfg_describe_effect ctx w op st =
     (let (cfg, st') = local_graph ctx w op st;
          found = (case (cfg, w_line w) of
              (Some c, Some l) \<Rightarrow> cfg_effect c l (o_line op) (w_kind w \<in> throwing) | _ \<Rightarrow> None)
      in (case found of Some e \<Rightarrow> e | None \<Rightarrow> order_effect (g_texts ctx) w op, st'))"

definition cfg_describe_context :: "graphs \<Rightarrow> operation \<Rightarrow> unavailable \<Rightarrow> control_context \<times> unavailable" where
  "cfg_describe_context ctx op st =
     (let (cfg, st') = graph ctx (o_path op) (o_function op) (o_line op) st
      in (case cfg of Some c \<Rightarrow> cfg_context c (o_line op) | None \<Rightarrow> empty_context, st'))"

text \<open>\<open>describe\<close> and \<open>operation_context\<close> for either implementation.\<close>

datatype dominance = ByOrder texts | ByGraphs graphs

definition describe :: "dominance \<Rightarrow> discharge \<Rightarrow> operation \<Rightarrow> texts \<Rightarrow> unavailable \<Rightarrow> (string \<times> string) \<times> unavailable" where
  "describe d w op texts st =
     (case d of
        ByGraphs ctx \<Rightarrow>
          let (r, st1) = cfg_describe_relation ctx w op st; (e, st2) = cfg_describe_effect ctx w op st1 in ((r, e), st2)
      | ByOrder own \<Rightarrow> ((order_relation own w op, order_effect texts w op), st))"

definition operation_context :: "dominance \<Rightarrow> operation \<Rightarrow> unavailable \<Rightarrow> control_context \<times> unavailable" where
  "operation_context d op st =
     (case d of ByGraphs ctx \<Rightarrow> cfg_describe_context ctx op st | ByOrder own \<Rightarrow> (empty_context, st))"

definition degradations :: "unavailable \<Rightarrow> (string \<times> string \<times> string) list" where
  "degradations st = map (\<lambda>((path, function), detail). (path, function, detail)) (sort_key fst st)"

section \<open>The contract of a dominance\<close>

text \<open>
  What the checker and the prover rely on, whichever implementation judges: a witness elsewhere
  dominates only along a path, one that applies to the handler as a whole always dominates, a
  constraint on the operation dominates on its line, and any other witness stands above the operation.
\<close>

locale dominance_protocol =
  fixes dominates :: "discharge \<Rightarrow> operation \<Rightarrow> string list option \<Rightarrow> bool"
  assumes hops: "along_path w op path \<Longrightarrow> dominates w op path \<longleftrightarrow> dominates_along w op path"
    and elsewhere: "\<not> along_path w op path \<Longrightarrow> dominates w op path \<Longrightarrow> same_function w op"
    and handler: "\<not> along_path w op path \<Longrightarrow> same_function w op \<Longrightarrow> w_scope w \<in> scoped \<Longrightarrow> dominates w op path"
    and in_place: "\<not> along_path w op path \<Longrightarrow> same_function w op \<Longrightarrow> w_scope w \<notin> scoped \<Longrightarrow>
      w_kind w \<in> in_operation \<Longrightarrow> dominates w op path \<longleftrightarrow> w_line w = Some (o_line op)"
    and above: "\<not> along_path w op path \<Longrightarrow> w_scope w \<notin> scoped \<Longrightarrow> w_kind w \<notin> in_operation \<Longrightarrow>
      dominates w op path \<Longrightarrow> \<exists>l. w_line w = Some l \<and> l < o_line op"
begin

lemma without_path: "dominates w op None \<Longrightarrow> same_function w op \<and> w_scope w \<noteq> ''hop''"
  using hops [of w op None] elsewhere [of w op None] by (auto simp: along_path_def dominates_along_def)

lemma never_below:
  assumes "dominates w op None" "w_line w = Some l" "w_scope w \<notin> scoped"
  shows "l \<le> o_line op"
proof -
  have n: "\<not> along_path w op None" "same_function w op"
    using without_path [OF assms(1)] by (simp_all add: along_path_def)
  show ?thesis
    using in_place [OF n assms(3)] above [OF n(1) assms(3) _ assms(1)] assms(1,2)
    by (cases "w_kind w \<in> in_operation") auto
qed

lemma earlier_hop:
  assumes "dominates w op (Some hops)" "w_scope w = ''hop''"
  shows "\<exists>i j. hop_index hops (w_path w) (w_function w) = Some i \<and>
    hop_index hops (o_path op) (o_function op) = Some j \<and> i < j"
  using assms hops [of w op "Some hops"]
  by (auto simp: along_path_def dominates_along_def split: option.splits)

end

interpretation order: dominance_protocol "order_dominates texts" for texts
  by unfold_locales (auto simp: order_dominates_def in_operation_def split: option.splits if_splits)

interpretation graphs: dominance_protocol "\<lambda>w op path. fst (cfg_dominates ctx w op path st)" for ctx st
proof unfold_locales
  fix w op path
  show "\<not> along_path w op path \<Longrightarrow> w_scope w \<notin> scoped \<Longrightarrow> w_kind w \<notin> in_operation \<Longrightarrow>
      fst (cfg_dominates ctx w op path st) \<Longrightarrow> \<exists>l. w_line w = Some l \<and> l < o_line op"
    by (auto simp: cfg_dominates_def split: option.splits if_splits)
qed (auto simp: cfg_dominates_def order_dominates_def split: option.splits if_splits)

section \<open>The record of degradations\<close>

lemma set_default_props:
  "\<exists>y. map_of (set_default k v d) k = Some y"
  "map_of d k' = Some v' \<Longrightarrow> map_of (set_default k v d) k' = Some v'"
  "distinct (map fst d) \<Longrightarrow> distinct (map fst (set_default k v d))"
  by (auto simp: set_default_def map_add_def map_of_eq_None_iff split: option.splits)

text \<open>A record of the functions judged without a graph: kept, without repetition, first reason kept.\<close>

definition records_more :: "unavailable \<Rightarrow> unavailable \<Rightarrow> bool" where
  "records_more st st' \<longleftrightarrow> (\<forall>k v. map_of st k = Some v \<longrightarrow> map_of st' k = Some v) \<and>
     (distinct (map fst st) \<longrightarrow> distinct (map fst st'))"

lemma records_more_refl [simp]: "records_more st st"
  by (simp add: records_more_def)

lemma records_more_set_default: "records_more st st' \<Longrightarrow> records_more st (set_default k v st')"
  by (auto simp: records_more_def intro: set_default_props)

lemma graph_records: "records_more st (snd (graph ctx p f l st))"
  by (auto simp: graph_def records_more_set_default split: option.splits)

lemma graph_None_recorded: "graph ctx p f l st = (None, st') \<Longrightarrow> map_of st' (p, f) \<noteq> None"
  by (auto simp: graph_def set_default_props(1) split: option.splits if_splits)

lemma cfg_dominates_records: "records_more st (snd (cfg_dominates ctx w op path st))"
  using graph_records [of st ctx "o_path op" "o_function op" "o_line op"]
  by (auto simp: cfg_dominates_def records_more_set_default split: option.splits prod.splits)

text \<open>
  The fallback is never silent: when the graph-based dominance answers differently from the graph
  alone, that is, when it judges a statement of the same function by order, the function is recorded
  as degraded; and what was recorded before stays recorded.
\<close>

theorem cfg_dominates_degradation:
  assumes "\<not> along_path w op path" "same_function w op" "w_scope w \<notin> scoped" "w_kind w \<notin> in_operation"
    "w_line w = Some l" "l < o_line op"
  shows "((case find_graph ctx (o_path op) (o_function op) (o_line op) of
      Some cfg \<Rightarrow> c_available cfg \<and> cfg_relation cfg l (o_line op) \<noteq> None | None \<Rightarrow> False) \<or>
    map_of (snd (cfg_dominates ctx w op path st)) (o_path op, o_function op) \<noteq> None)
    \<and> records_more st (snd (cfg_dominates ctx w op path st))"
  using assms set_default_props(1) cfg_dominates_records [of st ctx w op path]
  by (auto simp: cfg_dominates_def graph_def split: option.splits)

section \<open>What strict evidence means\<close>

lemma first_min_in: "first_min f x xs \<in> set (x # xs)"
  by (induction f x xs rule: first_min.induct) auto

lemma first_min_least: "y \<in> set (x # xs) \<Longrightarrow> f (first_min f x xs) \<le> f y"
proof (induction f x xs arbitrary: y rule: first_min.induct)
  case (2 f best x xs)
  have "f (first_min f (if f x < f best then x else best) xs) \<le> f (if f x < f best then x else best)"
    by (rule "2.IH") simp
  then have "f (first_min f best (x # xs)) \<le> f (if f x < f best then x else best)" by simp
  moreover have "y \<in> set xs \<Longrightarrow> f (first_min f best (x # xs)) \<le> f y" using "2.IH" [of y] by simp
  ultimately show ?case using "2.prems" by (auto split: if_splits)
qed simp

lemma find_graph_Some: "find_graph ctx p f line = Some cfg \<Longrightarrow>
    cfg \<in> set (g_cfgs ctx (p, f)) \<and> c_start cfg \<le> line \<and> line \<le> c_end cfg + 1"
proof (unfold find_graph_def, split list.split_asm, goal_cases)
  case (2 c cs)
  then have "cfg \<in> set (c # cs)" using first_min_in [of cfg_span c cs] by simp
  then have "cfg \<in> set (filter (\<lambda>cfg. c_start cfg \<le> line \<and> line \<le> c_end cfg + 1) (g_cfgs ctx (p, f)))"
    using 2 by simp
  then show ?case by simp
qed simp

lemma graph_Some: "graph ctx p f line st = (Some cfg, st') \<Longrightarrow>
    cfg \<in> set (g_cfgs ctx (p, f)) \<and> c_available cfg \<and> st' = st"
  by (auto simp: graph_def dest: find_graph_Some split: option.splits if_splits)

text \<open>The statement on line \<open>l\<close> is passed on every path to the operation, and failing it matters.\<close>

definition guarded_on_all_paths :: "function_cfg \<Rightarrow> int \<Rightarrow> int \<Rightarrow> bool \<Rightarrow> bool" where
  "guarded_on_all_paths cfg l line throws \<longleftrightarrow>
     (\<exists>g oper. node_at cfg l = Some g \<and> node_at cfg line = Some oper \<and>
        (\<exists>p. entry_path cfg p oper) \<and> (\<forall>p. entry_path cfg p oper \<longrightarrow> g \<in> set p)) \<and>
     cfg_effect cfg l line throws \<noteq> Some ''value_only''"

definition graphs_built :: "graphs \<Rightarrow> bool" where
  "graphs_built ctx \<longleftrightarrow>
     (\<forall>k. \<forall>cfg \<in> set (g_cfgs ctx k). c_available cfg \<longrightarrow> c_dominators cfg = compute_dominators cfg)"

definition holds_before :: "graphs \<Rightarrow> discharge \<Rightarrow> operation \<Rightarrow> bool" where
  "holds_before ctx w op \<longleftrightarrow> same_function w op \<and>
     (\<exists>l cfg. w_line w = Some l \<and> l < o_line op \<and> cfg \<in> set (g_cfgs ctx (o_path op, o_function op)) \<and>
        c_available cfg \<and> guarded_on_all_paths cfg l (o_line op) (w_kind w \<in> throwing))"

lemma cfg_relation_nodes: "cfg_relation cfg a b = Some r \<Longrightarrow> \<exists>g oper. node_at cfg a = Some g \<and> node_at cfg b = Some oper"
  by (auto simp: cfg_relation_def split: option.splits)

lemma graph_evidence_MUST:
  assumes "c_dominators cfg = compute_dominators cfg" "l < line"
    "d_relation (graph_evidence cfg l line throws) = MUST"
  shows "guarded_on_all_paths cfg l line throws"
proof -
  obtain r where r: "cfg_relation cfg l line = Some r" using assms(3) by (auto simp: graph_evidence_def split: option.splits)
  with assms(3) have all: "r = ''all_paths''" "cfg_effect cfg l line throws \<noteq> Some ''value_only''"
    by (auto simp: graph_evidence_def Let_def split: if_splits)
  obtain g oper where n: "node_at cfg l = Some g" "node_at cfg line = Some oper" using cfg_relation_nodes [OF r] by blast
  have "r = ''all_paths'' \<longleftrightarrow> (\<exists>p. entry_path cfg p oper) \<and> (\<forall>p. entry_path cfg p oper \<longrightarrow> g \<in> set p)"
    using cfg_relation_all_paths [OF assms(1) n] assms(2) r by auto
  with all n show ?thesis by (auto simp: guarded_on_all_paths_def)
qed

lemma strict_dominance_sound:
  assumes "graphs_built ctx" "d_relation (fst (evidence ctx w op st)) = MUST"
  shows "w_scope w \<in> scoped \<or>
    same_function w op \<and> w_kind w \<in> in_operation \<and> w_line w = Some (o_line op) \<or> holds_before ctx w op"
proof (cases "pre_graph_evidence w op")
  case (Some e)
  with assms(2) show ?thesis
    by (auto simp: evidence_def pre_graph_evidence_def split: if_splits option.splits)
next
  case None
  then obtain l where l: "w_line w = Some l" "l < o_line op" "same_function w op"
    by (auto simp: pre_graph_evidence_def split: if_splits option.splits)
  obtain c st' where c: "graph ctx (o_path op) (o_function op) (o_line op) st = (c, st')" by fastforce
  with None l(1) assms(2) obtain cfg where cfg: "c = Some cfg"
    "d_relation (graph_evidence cfg l (o_line op) (w_kind w \<in> throwing)) = MUST"
    by (auto simp: evidence_def split: option.splits)
  note g = graph_Some [OF c [unfolded cfg(1)]]
  then have "c_dominators cfg = compute_dominators cfg" using assms(1) by (auto simp: graphs_built_def)
  from graph_evidence_MUST [OF this l(2) cfg(2)] g l show ?thesis by (auto simp: holds_before_def)
qed

text \<open>
  C18. Definite dominance is never a guess: it is reported only for a decorator or router of the
  handler, for a constraint on the operation's own line, or for a statement of the same function
  that, in an available graph of it, lies on every path to the operation and whose failure the
  operation does not survive. Order over lines never contributes.
\<close>

theorem evidence_MUST_sound:
  assumes "graphs_built ctx" "d_relation (fst (evidence ctx w op st)) = MUST"
  shows "w_scope w \<in> scoped \<or>
    same_function w op \<and> w_kind w \<in> in_operation \<and> w_line w = Some (o_line op) \<or> holds_before ctx w op"
  by (rule strict_dominance_sound [OF assms])

end
