(* ===== verification/Prover.thy ===== *)
theory Prover
  imports Ir Paths Judgment CfgStatements Dominance
begin

text \<open>
  The strict judgment of the access-control prover (\<open>hunt/prover.py\<close>: \<open>_path_judgment\<close>,
  \<open>_abstract_state\<close>, \<open>_emit_unguarded\<close>, \<open>_judgment_findings\<close>, \<open>_HandlerDominance\<close>, \<open>Coverage.to_core\<close>):
  matches, strict dominance and aggregation put together, and what a discharged or an unguarded
  operation then means in terms of the function's execution paths.
\<close>

section \<open>One operation on one path\<close>

definition strict_evidence :: "graphs \<Rightarrow> discharge \<Rightarrow> operation \<Rightarrow> dominance_evidence" where
  "strict_evidence ctx w op = fst (evidence ctx w op [])"

text \<open>The record of degradations does not influence an answer.\<close>

lemma graph_answer: "fst (graph ctx p f l st) = fst (graph ctx p f l st')"
  by (auto simp: graph_def split: option.splits)

lemma evidence_answer: "fst (evidence ctx w op st) = strict_evidence ctx w op"
  using graph_answer [of ctx "o_path op" "o_function op" "o_line op" st "[]"]
  by (auto simp: strict_evidence_def evidence_def split: option.splits prod.splits)

definition path_judgment :: "graphs \<Rightarrow> discharge list \<Rightarrow> operation \<Rightarrow> operation_fact list \<Rightarrow> path_judgment result" where
  "path_judgment ctx discharges op facts = prover_path_judgment (strict_evidence ctx) discharges op facts"

record abstract_trace_state =
  a_judgment :: path_judgment
  a_resource :: resource_ref
  a_authority :: authority_ref
  a_resource_relation :: evidence_relation
  a_authority_relation :: evidence_relation

definition abstract_state :: "path_judgment \<Rightarrow> operation \<Rightarrow> abstract_trace_state result" where
  "abstract_state j op =
     bind_result (parse_resource (resource_binding (o_resource op))) (\<lambda>r.
     bind_result (parse_authority Unresolved) (\<lambda>a.
     Inr \<lparr>a_judgment = j, a_resource = r, a_authority = a,
          a_resource_relation = joined_relation (map m_resource (j_matches j)),
          a_authority_relation = joined_relation (map m_authority (j_matches j))\<rparr>))"

section \<open>Findings of the strict mode\<close>

text \<open>A finding; entries and traces are records of the caller that are copied, not interpreted.\<close>

record ('e, 't) strict_finding =
  sf_id :: string
  sf_path :: string
  sf_line :: int
  sf_family :: string
  sf_function :: string
  sf_evidence :: "string list"
  sf_entry :: 'e
  sf_hops :: "hop list"
  sf_operation :: "string \<times> string \<times> string list \<times> int"
  sf_missing :: string
  sf_label :: string
  sf_trace :: 't

text \<open>What the caller looks the parts of a finding up in.\<close>

record ('e, 't) finding_context =
  fc_entries :: "string \<rightharpoonup> 'e"
  fc_facts :: "operation_fact list"
  fc_functions :: "string \<times> string \<rightharpoonup> function_ir"
  fc_traces :: "operation \<rightharpoonup> 't"

definition finding_identity :: "operation \<Rightarrow> string \<Rightarrow> string" where
  "finding_identity op missing =
     ''obligation:'' @ o_kind op @ '':'' @ o_path op @ '':'' @ show_int (o_line op) @ '':'' @ missing"

text \<open>The called names of the operation's line that the fact recognises.\<close>

definition operation_calls :: "function_ir \<Rightarrow> operation \<Rightarrow> operation_fact \<Rightarrow> string list" where
  "operation_calls fn op known_fact =
     sorted_set (map (trailing_name \<circ> cs_name)
       (filter (\<lambda>call. cs_line call = o_line op \<and>
           (\<exists>name \<in> set (f_calls known_fact). cs_name call = name \<or> ends_with (''.'' @ name) (cs_name call)))
         (fn_calls fn)))"

definition make_strict_finding :: "operation \<Rightarrow> path_record \<Rightarrow> string list \<Rightarrow> 'e \<Rightarrow> 't \<Rightarrow> string \<Rightarrow>
    ('e, 't) strict_finding" where
  "make_strict_finding op record calls entry trace missing =
     \<lparr>sf_id = finding_identity op missing, sf_path = o_path op, sf_line = o_line op, sf_family = ''access_control'',
      sf_function = o_function op,
      sf_evidence =
        [''hops: '' @ join_with '' -> '' (map fst (p_hops record)),
         ''operation '' @ o_fact_id op @ '' ('' @ o_kind op @ '') at '' @ o_path op @ '':'' @ show_int (o_line op)
           @ ''; missing '' @ missing,
         ''judgment: unguarded (strict three-way mode)''],
      sf_entry = entry, sf_hops = p_hops record,
      sf_operation = (o_fact_id op, o_kind op, calls, o_line op),
      sf_missing = missing, sf_label = ''unguarded_path'', sf_trace = trace\<rparr>"

type_synonym ('e, 't) findings = "(string \<times> ('e, 't) strict_finding) list"

definition emit_unguarded :: "('e, 't) finding_context \<Rightarrow> operation \<Rightarrow> path_judgment \<Rightarrow> path_record \<Rightarrow> 't \<Rightarrow>
    ('e, 't) findings \<Rightarrow> ('e, 't) findings result" where
  "emit_unguarded ctx op aggregate record trace findings =
     (if j_judgment aggregate \<noteq> UNGUARDED then Inr findings
      else case find (\<lambda>f. f_id f = o_fact_id op) (fc_facts ctx) of
        None \<Rightarrow> Inl StopIteration
      | Some known_fact \<Rightarrow> (case fc_functions ctx (o_path op, o_function op) of
          None \<Rightarrow> Inl (KeyError ''functions'')
        | Some fn \<Rightarrow> (case fc_entries ctx (p_entry record) of
            None \<Rightarrow> Inl (KeyError ''entry_index'')
          | Some entry \<Rightarrow> Inr (foldl (\<lambda>fs k. set_default (finding_identity op k)
                (make_strict_finding op record (operation_calls fn op known_fact) entry trace k) fs)
              findings (j_missing aggregate)))))"

text \<open>An operation with the paths that reach it, each with its judgment.\<close>

type_synonym judged = "operation \<times> (path_record \<times> path_judgment) list"

definition aggregate_of :: "judged \<Rightarrow> path_judgment" where
  "aggregate_of x = aggregate_judgments (map snd (snd x))"

definition emit_judged :: "('e, 't) finding_context \<Rightarrow> ('e, 't) findings \<Rightarrow> judged \<Rightarrow> ('e, 't) findings result" where
  "emit_judged ctx findings x =
     (case snd x of
        [] \<Rightarrow> Inl (IndexError ''pairs[0]'')
      | (record, _) # _ \<Rightarrow> (case fc_traces ctx (fst x) of
          None \<Rightarrow> Inl (KeyError ''trace_by_op'')
        | Some trace \<Rightarrow> emit_unguarded ctx (fst x) (aggregate_of x) record trace findings))"

definition judgment_findings :: "('e, 't) finding_context \<Rightarrow> judged list \<Rightarrow>
    (('e, 't) findings \<times> pair_judgment_counts) result" where
  "judgment_findings ctx judged =
     bind_result (fold_result (emit_judged ctx) [] judged) (\<lambda>findings.
     Inr (findings, count_pair_judgments (map (j_judgment \<circ> aggregate_of) judged)))"

section \<open>Handlers measured at their end\<close>

definition measured :: "(operation \<Rightarrow> int option) \<Rightarrow> operation \<Rightarrow> operation" where
  "measured ends op = (case ends op of None \<Rightarrow> op | Some e \<Rightarrow> op\<lparr>o_line := e\<rparr>)"

definition handler_dominates :: "graphs \<Rightarrow> (operation \<Rightarrow> int option) \<Rightarrow> discharge \<Rightarrow> operation \<Rightarrow> string list option \<Rightarrow>
    unavailable \<Rightarrow> bool \<times> unavailable" where
  "handler_dominates ctx ends w op path st = cfg_dominates ctx w (measured ends op) path st"

definition handler_relation :: "graphs \<Rightarrow> (operation \<Rightarrow> int option) \<Rightarrow> discharge \<Rightarrow> operation \<Rightarrow> unavailable \<Rightarrow> string \<times> unavailable" where
  "handler_relation ctx ends w op st = cfg_describe_relation ctx w (measured ends op) st"

definition handler_effect :: "graphs \<Rightarrow> (operation \<Rightarrow> int option) \<Rightarrow> discharge \<Rightarrow> operation \<Rightarrow> unavailable \<Rightarrow> string \<times> unavailable" where
  "handler_effect ctx ends w op st = cfg_describe_effect ctx w (measured ends op) st"

definition handler_context :: "graphs \<Rightarrow> (operation \<Rightarrow> int option) \<Rightarrow> operation \<Rightarrow> unavailable \<Rightarrow> control_context \<times> unavailable" where
  "handler_context ctx ends op st = cfg_describe_context ctx (measured ends op) st"

section \<open>Coverage\<close>

definition core_resolution_keys :: "(string \<times> string) list" where
  "core_resolution_keys = [(''complete_calls'', ''complete''), (''incomplete_calls'', ''incomplete''),
     (''unresolved_calls'', ''unresolved'')]"

record core_buckets =
  cb_calls :: int
  cb_complete :: int
  cb_incomplete :: int
  cb_unresolved :: int

definition bucket_sum :: "string \<Rightarrow> (string \<times> int) list \<Rightarrow> int" where
  "bucket_sum name counts =
     sum_list (map snd (filter (\<lambda>(k, v). map_of core_resolution_keys k = Some name) counts))"

text \<open>The resolution part of \<open>to_core\<close>: an unknown key raises, every known count lands in its bucket.\<close>

definition to_core_buckets :: "(string \<times> int) list \<Rightarrow> core_buckets result" where
  "to_core_buckets counts =
     (if \<exists>(k, v) \<in> set counts. map_of core_resolution_keys k = None
      then Inl (ValueError ''unknown resolution bucket keys, refusing to under-count calls'')
      else let c = bucket_sum ''complete'' counts; i = bucket_sum ''incomplete'' counts; u = bucket_sum ''unresolved'' counts
        in Inr \<lparr>cb_calls = c + i + u, cb_complete = c, cb_incomplete = i, cb_unresolved = u\<rparr>)"

section \<open>What a strict judgment means\<close>

text \<open>The resource dimension, decided: the same token, or a guard the fact allows for the whole request.\<close>

definition same_resource :: "operation_fact option \<Rightarrow> discharge \<Rightarrow> operation \<Rightarrow> bool" where
  "same_resource op_fact w op \<longleftrightarrow>
     w_resource w = Some request_global_resource \<and> (\<exists>f. op_fact = Some f \<and> w_kind w \<in> set (f_request_global_kinds f)) \<or>
     (\<exists>t. o_resource op = Some t \<and> w_resource w = Some (resource_token t))"

lemma scope_relation_MUST: "scope_relation w op = MUST \<longleftrightarrow> same_function w op \<or> w_scope w = ''hop''"
  by (simp add: scope_relation_def)

lemma match_MUST:
  assumes "wf_operation op" "wf_discharge w" "match_witness w op op_fact None [] = Inr m" "m_relation m = MUST"
  shows "w_kind w \<in> set (o_requires op) \<and> (same_function w op \<or> w_scope w = ''hop'') \<and> same_resource op_fact w op"
proof -
  have k: "w_kind w \<in> set (o_requires op)" "scope_relation w op = MUST"
    using assms(3,4) by (auto simp: match_witness_def Let_def split: if_splits)
  obtain r where r: "resource_relation w op op_fact = Inr r" using resource_relation_total [OF assms(1)] by blast
  with assms(3,4) k have "r = MUST"
    by (auto simp: match_witness_def Let_def authority_relation_def conjoin_three)
  with r have "same_resource op_fact w op"
    unfolding same_resource_def using resource_relation_MUST [OF assms(1,2)] by simp
  with k show ?thesis by (simp add: scope_relation_MUST)
qed

definition the_match :: "operation \<Rightarrow> operation_fact option \<Rightarrow> discharge \<Rightarrow> witness_match" where
  "the_match op op_fact w = projr (match_witness w op op_fact None [])"

lemma the_match:
  assumes "wf_operation op" "wf_discharge w"
  shows "match_witness w op op_fact None [] = Inr (the_match op op_fact w)"
  using match_witness_total [OF assms, of None op_fact "[]"] by (auto simp: the_match_def)

definition fact_of :: "operation_fact list \<Rightarrow> operation \<Rightarrow> operation_fact option" where
  "fact_of facts op = find (\<lambda>f. f_id f = o_fact_id op) facts"

definition pairs_of_kind :: "graphs \<Rightarrow> discharge list \<Rightarrow> operation \<Rightarrow> operation_fact list \<Rightarrow> string \<Rightarrow>
    (witness_match \<times> dominance_evidence) list" where
  "pairs_of_kind ctx discharges op facts kind =
     map (\<lambda>w. (the_match op (fact_of facts op) w, strict_evidence ctx w op)) (filter (\<lambda>w. w_kind w = kind) discharges)"

lemma path_judgment_eq:
  assumes "wf_operation op" "\<forall>w \<in> set discharges. wf_discharge w"
  shows "path_judgment ctx discharges op facts =
    Inr (judgment_for_path (map (\<lambda>k. (k, pairs_of_kind ctx discharges op facts k)) (dedup (o_requires op)))
      complete_value True)"
proof -
  have m: "matches_for_kind (strict_evidence ctx) discharges op (fact_of facts op) kind =
      Inr (pairs_of_kind ctx discharges op facts kind)" for kind
    unfolding matches_for_kind_def pairs_of_kind_def
    by (rule map_result_Inr) (use assms in \<open>simp add: the_match\<close>)
  have "map_result (\<lambda>kind. bind_result (matches_for_kind (strict_evidence ctx) discharges op (fact_of facts op) kind)
      (\<lambda>ps. Inr (kind, ps))) (dedup (o_requires op)) =
    Inr (map (\<lambda>k. (k, pairs_of_kind ctx discharges op facts k)) (dedup (o_requires op)))"
    by (rule map_result_Inr) (simp add: m)
  then show ?thesis by (simp add: path_judgment_def prover_path_judgment_def fact_of_def)
qed

lemma governed_pairs: "governed (pairs_of_kind ctx discharges op facts k) \<longleftrightarrow>
    (\<exists>w \<in> set discharges. w_kind w = k \<and> m_relation (the_match op (fact_of facts op) w) = MUST \<and>
       d_relation (strict_evidence ctx w op) = MUST)"
  by (auto simp: governed_def pairs_of_kind_def)

lemma refuted_pairs: "refuted (pairs_of_kind ctx discharges op facts k) \<longleftrightarrow>
    (\<forall>w \<in> set discharges. w_kind w = k \<longrightarrow> m_relation (the_match op (fact_of facts op) w) = NO \<or>
       d_relation (strict_evidence ctx w op) = NO)"
  by (auto simp: refuted_def pairs_of_kind_def)

text \<open>A witness that really governs an operation.\<close>

definition governs :: "graphs \<Rightarrow> operation_fact list \<Rightarrow> discharge \<Rightarrow> operation \<Rightarrow> bool" where
  "governs ctx facts w op \<longleftrightarrow> same_function w op \<and> same_resource (fact_of facts op) w op \<and>
     (w_scope w \<in> scoped \<or> w_kind w \<in> in_operation \<and> w_line w = Some (o_line op) \<or> holds_before ctx w op)"

lemma strict_evidence_MUST:
  assumes "graphs_built ctx" "d_relation (strict_evidence ctx w op) = MUST"
  shows "w_scope w \<noteq> ''hop'' \<and> (w_scope w \<in> scoped \<or>
    same_function w op \<and> w_kind w \<in> in_operation \<and> w_line w = Some (o_line op) \<or> holds_before ctx w op)"
proof -
  have "w_scope w \<noteq> ''hop''"
    using assms(2) by (auto simp: strict_evidence_def evidence_def pre_graph_evidence_def scoped_def)
  with strict_dominance_sound [OF assms(1), of w op "[]"] assms(2) show ?thesis by (simp add: strict_evidence_def)
qed

text \<open>
  C1. Soundness of a strict discharge, from the witness to the paths of the program: the judgment is
  defined, and an operation it calls discharged has, for every kind it requires, a witness of that
  kind in its own function, on the same resource, that applies to the handler as a whole, constrains
  the operation itself, or stands on every path of the function's graph to the operation, with a
  failure the operation does not survive.
\<close>

theorem strict_discharge_sound:
  assumes "wf_operation op" "\<forall>w \<in> set discharges. wf_discharge w" "graphs_built ctx"
  shows "\<exists>j. path_judgment ctx discharges op facts = Inr j \<and>
    (j_judgment j = DISCHARGED \<longrightarrow> (\<forall>k \<in> set (o_requires op). \<exists>w \<in> set discharges. w_kind w = k \<and> governs ctx facts w op))"
proof -
  let ?kps = "map (\<lambda>k. (k, pairs_of_kind ctx discharges op facts k)) (dedup (o_requires op))"
  let ?j = "judgment_for_path ?kps complete_value True"
  have "\<exists>w \<in> set discharges. w_kind w = k \<and> governs ctx facts w op"
    if d: "j_judgment ?j = DISCHARGED" and k: "k \<in> set (o_requires op)" for k
  proof -
    have "governed (pairs_of_kind ctx discharges op facts k)"
      using d k by (auto simp: path_discharged_iff)
    then obtain w where w: "w \<in> set discharges" "w_kind w = k"
      "m_relation (the_match op (fact_of facts op) w) = MUST" "d_relation (strict_evidence ctx w op) = MUST"
      by (auto simp: governed_pairs)
    have wf: "wf_discharge w" using assms(2) w(1) by blast
    note m = match_MUST [OF assms(1) wf the_match [OF assms(1) wf] w(3)]
    from strict_evidence_MUST [OF assms(3) w(4)] m have "governs ctx facts w op" by (auto simp: governs_def)
    with w show ?thesis by blast
  qed
  with path_judgment_eq [OF assms(1,2), of ctx facts] show ?thesis by blast
qed

text \<open>
  C2. An unguarded verdict is definite: every required kind is either governed, or all its witnesses
  are refuted by a definite mismatch or a definite non-dominance; the missing kinds are the refuted
  ones, and there is one.
\<close>

theorem strict_unguarded_definite:
  assumes "wf_operation op" "\<forall>w \<in> set discharges. wf_discharge w"
    "path_judgment ctx discharges op facts = Inr j" "j_judgment j = UNGUARDED"
  shows "j_missing j \<noteq> [] \<and> set (j_missing j) \<subseteq> set (o_requires op) \<and>
    (\<forall>k \<in> set (j_missing j). \<forall>w \<in> set discharges. w_kind w = k \<longrightarrow>
       m_relation (the_match op (fact_of facts op) w) = NO \<or> d_relation (strict_evidence ctx w op) = NO) \<and>
    (\<forall>k \<in> set (o_requires op) - set (j_missing j). \<exists>w \<in> set discharges. w_kind w = k \<and>
       m_relation (the_match op (fact_of facts op) w) = MUST \<and> d_relation (strict_evidence ctx w op) = MUST)"
proof -
  let ?kps = "map (\<lambda>k. (k, pairs_of_kind ctx discharges op facts k)) (dedup (o_requires op))"
  have j: "j = judgment_for_path ?kps complete_value True"
    using path_judgment_eq [OF assms(1,2), of ctx facts] assms(3) by simp
  have u: "j_judgment (judgment_for_path ?kps complete_value True) = UNGUARDED" using assms(4) j by simp
  have all: "\<forall>k \<in> set (o_requires op). governed (pairs_of_kind ctx discharges op facts k) \<or> refuted (pairs_of_kind ctx discharges op facts k)"
    and ex: "\<exists>k \<in> set (o_requires op). refuted (pairs_of_kind ctx discharges op facts k)"
    using u by (auto simp: path_unguarded_iff)
  have missing: "set (j_missing j) = {k \<in> set (o_requires op). refuted (pairs_of_kind ctx discharges op facts k)}"
    unfolding j path_missing_iff [OF u] by auto
  have "j_missing j \<noteq> []" using ex missing by auto
  with all missing show ?thesis by (auto simp: governed_pairs [symmetric] refuted_pairs [symmetric])
qed

section \<open>Findings and counts\<close>

lemma dom_fold_default:
  "dom (map_of (foldl (\<lambda>fs k. set_default (f k) (g k) fs) d ks)) = f ` set ks \<union> dom (map_of d)"
proof (induction ks arbitrary: d)
  case (Cons k ks)
  then show ?case by (simp add: dom_set_default)
qed simp

text \<open>The identities reported for one judged operation, and what reporting it looks up.\<close>

definition reported :: "judged \<Rightarrow> string set" where
  "reported x =
     (if j_judgment (aggregate_of x) = UNGUARDED then finding_identity (fst x) ` set (j_missing (aggregate_of x)) else {})"

definition reportable :: "('e, 't) finding_context \<Rightarrow> judged \<Rightarrow> bool" where
  "reportable ctx x \<longleftrightarrow> snd x \<noteq> [] \<and> fc_traces ctx (fst x) \<noteq> None \<and>
     (j_judgment (aggregate_of x) = UNGUARDED \<longrightarrow>
        (\<exists>f \<in> set (fc_facts ctx). f_id f = o_fact_id (fst x)) \<and>
        fc_functions ctx (o_path (fst x), o_function (fst x)) \<noteq> None \<and>
        fc_entries ctx (p_entry (fst (hd (snd x)))) \<noteq> None)"

lemma emit_judged_cases:
  "case emit_judged ctx fs x of
     Inl e \<Rightarrow> \<not> reportable ctx x
   | Inr fs' \<Rightarrow> reportable ctx x \<and> dom (map_of fs') = reported x \<union> dom (map_of fs)"
  by (auto simp: emit_judged_def emit_unguarded_def reportable_def reported_def dom_fold_default
      find_None_iff find_Some_iff split: list.splits option.splits)

lemma emit_all_cases:
  "case fold_result (emit_judged ctx) fs judged of
     Inl e \<Rightarrow> \<exists>x \<in> set judged. \<not> reportable ctx x
   | Inr fs' \<Rightarrow> (\<forall>x \<in> set judged. reportable ctx x) \<and> dom (map_of fs') = (\<Union>x \<in> set judged. reported x) \<union> dom (map_of fs)"
proof (induction judged arbitrary: fs)
  case (Cons x judged)
  show ?case
  proof (cases "emit_judged ctx fs x")
    case (Inl e)
    then show ?thesis using emit_judged_cases [where ctx = ctx and fs = fs and x = x] by simp
  next
    case (Inr fs')
    then show ?thesis using emit_judged_cases [where ctx = ctx and fs = fs and x = x] Cons.IH [of fs'] by (auto split: sum.splits)
  qed
qed simp

text \<open>
  C21. Only unguarded operations are reported: the findings are exactly one per operation whose
  aggregate over its paths is unguarded and per kind it misses, so an indeterminate or a discharged
  operation is never reported; and the counts account for every judged operation once. The step
  fails only when something a report must name is not known.
\<close>

theorem judgment_findings_exact:
  "case judgment_findings ctx judged of
     Inl e \<Rightarrow> \<not> (\<forall>x \<in> set judged. reportable ctx x)
   | Inr (findings, counts) \<Rightarrow> (\<forall>x \<in> set judged. reportable ctx x) \<and>
       dom (map_of findings) = (\<Union>x \<in> set judged. reported x) \<and>
       examined counts = length judged \<and>
       n_unguarded counts = length (filter (\<lambda>x. j_judgment (aggregate_of x) = UNGUARDED) judged)"
proof -
  have "filter (\<lambda>j. j = UNGUARDED) (map (j_judgment \<circ> aggregate_of) judged) =
      map (j_judgment \<circ> aggregate_of) (filter (\<lambda>x. j_judgment (aggregate_of x) = UNGUARDED) judged)"
    by (simp add: filter_map comp_def)
  then show ?thesis
    using emit_all_cases [where ctx = ctx and fs = "[]" and judged = judged]
      pair_counts_partition [of "map (j_judgment \<circ> aggregate_of) judged"]
    by (simp add: judgment_findings_def split: sum.splits)
qed

lemma resolution_key:
  "map_of core_resolution_keys k =
      (if k = ''complete_calls'' then Some ''complete'' else if k = ''incomplete_calls'' then Some ''incomplete''
       else if k = ''unresolved_calls'' then Some ''unresolved'' else None)"
  by (simp add: core_resolution_keys_def)

lemma bucket_sum_Cons:
  "bucket_sum name ((k, v) # cs) = (if map_of core_resolution_keys k = Some name then v else 0) + bucket_sum name cs"
  by (simp add: bucket_sum_def)

lemma bucket_sums:
  "\<forall>(k, v) \<in> set counts. map_of core_resolution_keys k \<noteq> None \<Longrightarrow>
     bucket_sum ''complete'' counts + bucket_sum ''incomplete'' counts + bucket_sum ''unresolved'' counts = sum_list (map snd counts)"
proof (induction counts)
  case (Cons c cs)
  obtain k v where c: "c = (k, v)" by (cases c)
  with Cons.prems have "k = ''complete_calls'' \<or> k = ''incomplete_calls'' \<or> k = ''unresolved_calls''"
    by (simp add: resolution_key split: if_splits)
  then show ?case
    using Cons by (elim disjE) (simp_all add: c bucket_sum_Cons resolution_key)
qed (simp add: bucket_sum_def)

text \<open>
  The coverage conversion never under-counts: it raises exactly when some bucket is unknown, and
  otherwise every call of every bucket is in the total.
\<close>

theorem to_core_buckets_exact:
  "case to_core_buckets counts of
     Inl e \<Rightarrow> \<exists>(k, v) \<in> set counts. map_of core_resolution_keys k = None
   | Inr b \<Rightarrow> \<not> (\<exists>(k, v) \<in> set counts. map_of core_resolution_keys k = None) \<and>
       cb_calls b = sum_list (map snd counts) \<and> cb_calls b = cb_complete b + cb_incomplete b + cb_unresolved b"
proof (cases "\<exists>(k, v) \<in> set counts. map_of core_resolution_keys k = None")
  case True
  then show ?thesis by (simp add: to_core_buckets_def)
next
  case False
  then have "\<forall>(k, v) \<in> set counts. map_of core_resolution_keys k \<noteq> None" by auto
  from bucket_sums [OF this] False show ?thesis by (simp add: to_core_buckets_def Let_def)
qed

section \<open>A sample change\<close>

definition sample_operation :: operation where
  "sample_operation = \<lparr>o_path = ''A.java'', o_line = 5, o_function = ''m'', o_kind = ''object_write'',
     o_fact_id = ''delete'', o_resource = Some ''item'', o_requires = [''path_guard'']\<rparr>"

definition sample_witness :: "int \<Rightarrow> string \<Rightarrow> string \<Rightarrow> discharge" where
  "sample_witness line kind provenance = \<lparr>w_path = ''A.java'', w_line = Some line, w_function = ''m'', w_kind = kind,
     w_fact_id = ''check'', w_provenance = provenance, w_scope = ''statement'', w_detail = ''check'',
     w_resource = Some (resource_token ''item''), w_authority = None\<rparr>"

definition sample_graphs :: graphs where
  "sample_graphs = \<lparr>g_texts = Map.empty, g_cfgs = (\<lambda>k. if k = (''A.java'', ''m'') then [guarded_graph] else [])\<rparr>"

lemma sample_wf:
  "wf_operation sample_operation" "graphs_built sample_graphs" "wf_discharge (sample_witness l k p)"
  using guarded_graph_dominators
  by (simp_all add: wf_operation_def sample_operation_def graphs_built_def sample_graphs_def wf_discharge_def
      sample_witness_def wf_resource_iff resource_token_def)

abbreviation sample_judgment :: "int \<Rightarrow> path_judgment result" where
  "sample_judgment line \<equiv>
     path_judgment sample_graphs [sample_witness line ''path_guard'' ''authenticated_context''] sample_operation []"

lemma sample_judgments:
  "map_sum (\<lambda>e. e) j_judgment (sample_judgment 2) = Inr DISCHARGED"
  "map_sum (\<lambda>e. e) (\<lambda>j. (j_judgment j, j_missing j)) (sample_judgment 6) = Inr (UNGUARDED, [''path_guard''])"
  by code_simp+

text \<open>Without a graph the check is judged by order over lines, and the function is recorded.\<close>

theorem cfg_dominates_witness:
  "map_of (snd (cfg_dominates \<lparr>g_texts = Map.empty, g_cfgs = (\<lambda>k. [])\<rparr>
      (sample_witness 2 ''path_guard'' ''authenticated_context'') sample_operation None []))
     (o_path sample_operation, o_function sample_operation) \<noteq> None"
proof -
  let ?w = "sample_witness 2 ''path_guard'' ''authenticated_context''"
  have h: "\<not> along_path ?w sample_operation None" "same_function ?w sample_operation" "w_scope ?w \<notin> scoped"
      "w_kind ?w \<notin> in_operation" "w_line ?w = Some 2" "2 < o_line sample_operation"
    by code_simp+
  show ?thesis
    using cfg_dominates_degradation [OF h, of "\<lparr>g_texts = Map.empty, g_cfgs = (\<lambda>k. [])\<rparr>" "[]"]
    by (simp add: find_graph_def)
qed

theorem evidence_MUST_witness:
  "holds_before sample_graphs (sample_witness 2 ''path_guard'' ''authenticated_context'') sample_operation"
proof -
  let ?w = "sample_witness 2 ''path_guard'' ''authenticated_context''"
  have m: "d_relation (fst (evidence sample_graphs ?w sample_operation [])) = MUST" by code_simp
  have "w_scope ?w \<notin> scoped" "w_kind ?w \<notin> in_operation" by code_simp+
  then show ?thesis using evidence_MUST_sound [OF sample_wf(2) m] by blast
qed

theorem strict_discharge_witness:
  "\<exists>j. sample_judgment 2 = Inr j \<and> j_judgment j = DISCHARGED \<and>
     governs sample_graphs [] (sample_witness 2 ''path_guard'' ''authenticated_context'') sample_operation"
proof -
  obtain j where j: "sample_judgment 2 = Inr j" "j_judgment j = DISCHARGED"
    using sample_judgments(1) by (cases "sample_judgment 2") auto
  have wf: "\<forall>w \<in> set [sample_witness 2 ''path_guard'' ''authenticated_context'']. wf_discharge w"
    by (simp add: sample_wf)
  from strict_discharge_sound [OF sample_wf(1) wf sample_wf(2), of "[]"] j
  have "\<forall>k \<in> set (o_requires sample_operation).
      \<exists>w \<in> set [sample_witness 2 ''path_guard'' ''authenticated_context'']. w_kind w = k \<and> governs sample_graphs [] w sample_operation"
    by auto
  then have "governs sample_graphs [] (sample_witness 2 ''path_guard'' ''authenticated_context'') sample_operation"
    by (simp add: sample_operation_def)
  with j show ?thesis by blast
qed

theorem strict_unguarded_witness:
  "\<exists>j. sample_judgment 6 = Inr j \<and> j_missing j = [''path_guard''] \<and>
     d_relation (strict_evidence sample_graphs (sample_witness 6 ''path_guard'' ''authenticated_context'') sample_operation) = NO"
proof -
  obtain j where j: "sample_judgment 6 = Inr j" "j_judgment j = UNGUARDED" "j_missing j = [''path_guard'']"
    using sample_judgments(2) by (cases "sample_judgment 6") auto
  have wf: "\<forall>w \<in> set [sample_witness 6 ''path_guard'' ''authenticated_context'']. wf_discharge w"
    by (simp add: sample_wf)
  from strict_unguarded_definite [OF sample_wf(1) wf j(1,2)]
  have "m_relation (the_match sample_operation (fact_of [] sample_operation) (sample_witness 6 ''path_guard'' ''authenticated_context'')) = NO \<or>
      d_relation (strict_evidence sample_graphs (sample_witness 6 ''path_guard'' ''authenticated_context'') sample_operation) = NO"
    by (simp add: j(3)) (simp add: sample_witness_def)
  moreover have "m_relation (the_match sample_operation (fact_of [] sample_operation) (sample_witness 6 ''path_guard'' ''authenticated_context'')) = MUST"
    by code_simp
  ultimately show ?thesis using j by auto
qed

definition sample_context :: "(string, string) finding_context" where
  "sample_context = \<lparr>fc_entries = [''A.java::m'' \<mapsto> ''entry''],
     fc_facts = [\<lparr>f_id = ''delete'', f_kind = ''object_write'', f_language = ''java'', f_calls = [''delete''],
       f_resource_arg = None, f_requires = [''path_guard''], f_sensitivity = ''high'', f_query_document_arg = None,
       f_handlers = [], f_framework = None, f_request_global_kinds = []\<rparr>],
     fc_functions = [(''A.java'', ''m'') \<mapsto> \<lparr>fn_name = ''m'', fn_params = [], fn_start = 1, fn_end = 7, fn_binds = [],
       fn_calls = []\<rparr>],
     fc_traces = [sample_operation \<mapsto> ''trace'']\<rparr>"

definition sample_judged :: "judged" where
  "sample_judged = (sample_operation,
     [(\<lparr>p_hops = [(''A.java::m'', None)], p_entry = ''A.java::m'', p_complete = True\<rparr>,
       projr (sample_judgment 6))])"

theorem judgment_findings_witness:
  "map_sum (\<lambda>e. e) (dom \<circ> map_of \<circ> fst) (judgment_findings sample_context [sample_judged]) =
     Inr {''obligation:object_write:A.java:5:path_guard''}"
proof -
  have r: "reported sample_judged = {''obligation:object_write:A.java:5:path_guard''}" by code_simp
  have "\<not> isl (judgment_findings sample_context [sample_judged])" by code_simp
  then obtain fs c where "judgment_findings sample_context [sample_judged] = Inr (fs, c)"
    by (cases "judgment_findings sample_context [sample_judged]") auto
  with judgment_findings_exact [where ctx = sample_context and judged = "[sample_judged]"] r show ?thesis by simp
qed

text \<open>
  The strict mode does not check where an identity constraint takes its value from: a constraint bound
  from the request, which \<open>valid_witness\<close> rejects, discharges the operation.
\<close>

definition identity_operation :: operation where
  "identity_operation = sample_operation\<lparr>o_requires := [''identity_constraint'']\<rparr>"

lemma request_bound_identity_discharges:
  "\<not> valid_witness (sample_witness 5 ''identity_constraint'' ''request_input'')"
  "map_sum (\<lambda>e. e) j_judgment
     (path_judgment sample_graphs [sample_witness 5 ''identity_constraint'' ''request_input''] identity_operation []) = Inr DISCHARGED"
  by code_simp+

text \<open>
  Nor does it measure a handler at its end: an obligation of the handler as a whole, located at its
  first line, is refuted by the very check that dominates its end.
\<close>

definition handler_operation :: operation where
  "handler_operation = sample_operation\<lparr>o_line := 1\<rparr>"

lemma handler_end_ignored:
  "fst (handler_dominates sample_graphs (\<lambda>op. if op = handler_operation then Some 5 else None)
     (sample_witness 2 ''path_guard'' ''authenticated_context'') handler_operation None [])"
  "map_sum (\<lambda>e. e) j_judgment
     (path_judgment sample_graphs [sample_witness 2 ''path_guard'' ''authenticated_context''] handler_operation []) = Inr UNGUARDED"
  by code_simp+

end
