(* ===== verification/Resolution.thy ===== *)
theory Resolution
  imports EvidenceDomain Ir
begin

text \<open>
  The symbol index of a repository and the resolution of calls against it
  (\<open>semantic/obligations/resolution.py\<close>). Declaration scopes and class bases come from the syntax tree
  of each file (\<open>semantic/cst.py\<close>); here they are the contents of the files the index is built from.
  Dictionaries are association lists in the order the code gives them; sets of declarations are lists
  without repetition.
\<close>

section \<open>Symbols and the index\<close>

record symbol_id =
  sy_module :: string
  sy_type :: "string option"
  sy_name :: string
  sy_signature :: "string list option"

text \<open>\<open>x or default\<close> for an optional value.\<close>

definition or_default :: "'a \<Rightarrow> 'a option \<Rightarrow> 'a" where
  "or_default d x = (case x of None \<Rightarrow> d | Some v \<Rightarrow> v)"

definition symbol_key :: "symbol_id \<Rightarrow> string \<times> string \<times> string \<times> string list" where
  "symbol_key s = (sy_module s, or_default '''' (sy_type s), sy_name s, or_default [] (sy_signature s))"

definition sorted_symbols :: "symbol_id list \<Rightarrow> symbol_id list" where
  "sorted_symbols = sort_key symbol_key"

record declaration_scope =
  ds_name :: string
  ds_params :: "string list"
  ds_start :: int
  ds_type :: "string option"
  ds_bases :: "string list"

record source_file =
  sf_module :: string
  sf_scopes :: "declaration_scope list"
  sf_class_bases :: "(string \<times> string list) list"

type_synonym base_edges = "((string \<times> string) \<times> string list) list"

record symbol_index =
  si_declarations :: "symbol_id list"
  si_base_types :: base_edges
  si_by_name :: "(string \<times> symbol_id list) list"

definition symbol_of :: "string \<Rightarrow> declaration_scope \<Rightarrow> symbol_id" where
  "symbol_of path sc = \<lparr>sy_module = path, sy_type = ds_type sc, sy_name = ds_name sc,
     sy_signature = (if ds_params sc = [] then None else Some (ds_params sc))\<rparr>"

definition inheritance_edges :: "string \<Rightarrow> declaration_scope list \<Rightarrow> base_edges" where
  "inheritance_edges path scopes =
     foldl (\<lambda>d sc. case ds_type sc of None \<Rightarrow> d | Some t \<Rightarrow> dict_set (path, t) (ds_bases sc) d) [] scopes"

definition dict_update :: "('k \<times> 'v) list \<Rightarrow> ('k \<times> 'v) list \<Rightarrow> ('k \<times> 'v) list" where
  "dict_update d items = foldl (\<lambda>d (k, v). dict_set k v d) d items"

definition index_file :: "symbol_id list \<times> base_edges \<Rightarrow> source_file \<Rightarrow> symbol_id list \<times> base_edges" where
  "index_file acc file =
     (let (declarations, bases) = acc; path = sf_module file; scopes = sf_scopes file in
      (dedup (declarations @ map (symbol_of path) scopes),
       dict_update (dict_update bases (inheritance_edges path scopes))
         (map (\<lambda>(t, bs). ((path, t), bs)) (sf_class_bases file))))"

text \<open>\<open>d.setdefault(k, []).append(v)\<close>\<close>

definition group_add :: "'k \<Rightarrow> 'v \<Rightarrow> ('k \<times> 'v list) list \<Rightarrow> ('k \<times> 'v list) list" where
  "group_add k v d = dict_set k (or_default [] (map_of d k) @ [v]) d"

definition build_index :: "source_file list \<Rightarrow> symbol_index" where
  "build_index files =
     (let (declarations, bases) = foldl index_file ([], []) files;
          ordered = sorted_symbols declarations;
          by_name = foldl (\<lambda>d s. group_add (sy_name s) s d) [] ordered
      in \<lparr>si_declarations = ordered, si_base_types = sort_key fst bases, si_by_name = sort_key fst by_name\<rparr>)"

definition named_symbols :: "symbol_index \<Rightarrow> string \<Rightarrow> symbol_id list" where
  "named_symbols index name = or_default [] (map_of (si_by_name index) name)"

section \<open>Inheritance\<close>

definition declared_bases :: "symbol_index \<Rightarrow> string \<Rightarrow> string \<Rightarrow> string list" where
  "declared_bases index path t = or_default [] (map_of (si_base_types index) (path, t))"

fun visit_bases :: "string \<Rightarrow> string list \<Rightarrow> string list \<times> string list \<Rightarrow> string list \<times> string list" where
  "visit_bases type_name [] acc = acc"
| "visit_bases type_name (b # bs) (bases, queue) =
     (if b \<in> set bases \<or> b = type_name then visit_bases type_name bs (bases, queue)
      else visit_bases type_name bs (bases @ [b], queue @ [b]))"

definition unseen_bases :: "symbol_index \<Rightarrow> string list \<Rightarrow> nat" where
  "unseen_bases index bases = card (set (concat (map snd (si_base_types index))) - set bases)"

lemma visit_bases_measure:
  assumes "set bs \<subseteq> set (concat (map snd (si_base_types index)))"
  shows "unseen_bases index (fst (visit_bases t bs (bases, queue))) + length (snd (visit_bases t bs (bases, queue)))
    \<le> unseen_bases index bases + length queue"
  using assms
proof (induction t bs "(bases, queue)" arbitrary: bases queue rule: visit_bases.induct)
  case (2 t b bs bases queue)
  show ?case
  proof (cases "b \<in> set bases \<or> b = t")
    case True
    then show ?thesis using 2 by simp
  next
    case False
    let ?all = "set (concat (map snd (si_base_types index)))"
    have "?all - set (bases @ [b]) = (?all - set bases) - {b}" by auto
    moreover have "b \<in> ?all - set bases" using False 2(3) by auto
    ultimately have "Suc (unseen_bases index (bases @ [b])) = unseen_bases index bases"
      unfolding unseen_bases_def by (metis card_Suc_Diff1 finite_Diff List.finite_set)
    then show ?thesis using False 2(2) [OF False] 2(3) by simp
  qed
qed simp

lemma declared_bases_known: "set (declared_bases index path t) \<subseteq> set (concat (map snd (si_base_types index)))"
proof (cases "map_of (si_base_types index) (path, t)")
  case (Some bs)
  from map_of_SomeD [OF this] have "set bs \<subseteq> set (concat (map snd (si_base_types index)))"
    by (force simp: image_iff)
  with Some show ?thesis by (simp add: declared_bases_def or_default_def)
qed (simp add: declared_bases_def or_default_def)

function ancestor_loop :: "symbol_index \<Rightarrow> string \<Rightarrow> string \<Rightarrow> string list \<Rightarrow> string list \<Rightarrow> string list" where
  "ancestor_loop index path t bases [] = bases"
| "ancestor_loop index path t bases (current # queue) =
     (let (bases', queue') = visit_bases t (declared_bases index path current) (bases, queue)
      in ancestor_loop index path t bases' queue')"
  by pat_completeness auto
termination
proof (relation "measure (\<lambda>(index, path, t, bases, queue). unseen_bases index bases + length queue)")
  fix index path t bases current queue x bases' queue'
  assume "x = visit_bases t (declared_bases index path current) (bases, queue)" "(bases', queue') = x"
  with visit_bases_measure [OF declared_bases_known, of index t path current bases queue]
  show "((index, path, t, bases', queue'), index, path, t, bases, current # queue)
      \<in> measure (\<lambda>(index, path, t, bases, queue). unseen_bases index bases + length queue)"
    by (simp add: split: prod.splits) (metis fst_conv less_Suc_eq_le snd_conv)
qed simp

definition ancestors_of :: "symbol_index \<Rightarrow> string \<Rightarrow> string \<Rightarrow> string list" where
  "ancestors_of index path t = ancestor_loop index path t [] [t]"

definition descendants_of :: "symbol_index \<Rightarrow> string \<Rightarrow> (string \<times> string) list" where
  "descendants_of index base =
     sort (filter (\<lambda>(path, t). base \<in> set (ancestors_of index path t)) (map fst (si_base_types index)))"

section \<open>Call resolution\<close>

record call_target_set =
  ct_targets :: "symbol_id list"
  ct_completeness :: completeness

definition resolved :: "symbol_id list \<Rightarrow> call_target_set" where
  "resolved targets = \<lparr>ct_targets = targets, ct_completeness = make_completeness True []\<rparr>"

definition candidates :: "symbol_id list \<Rightarrow> string \<Rightarrow> call_target_set" where
  "candidates targets reason = \<lparr>ct_targets = targets, ct_completeness = make_completeness False [reason]\<rparr>"

definition arity_narrow :: "symbol_id list \<Rightarrow> int option \<Rightarrow> symbol_id list" where
  "arity_narrow symbols arity =
     (case arity of
        None \<Rightarrow> symbols
      | Some n \<Rightarrow>
          let narrowed = filter (\<lambda>s. int (length (or_default [] (sy_signature s))) = n) symbols
          in if narrowed \<noteq> [] then narrowed else symbols)"

definition finish_targets :: "symbol_id list \<Rightarrow> string \<Rightarrow> call_target_set" where
  "finish_targets targets shared_reason =
     (if targets = [] then candidates [] ''resolution:no_candidate''
      else if length targets = 1 then resolved targets
      else candidates targets (''resolution:'' @ shared_reason))"

definition narrowed_or_unresolved :: "symbol_id list \<Rightarrow> int option \<Rightarrow> string \<Rightarrow> call_target_set" where
  "narrowed_or_unresolved methods arity shared_reason =
     (let narrowed = arity_narrow methods arity in
      if methods \<noteq> [] \<and> narrowed = [] then candidates [] ''resolution:arity_mismatch''
      else finish_targets narrowed shared_reason)"

definition module_scope_targets :: "symbol_id list \<Rightarrow> string \<Rightarrow> int option \<Rightarrow> call_target_set" where
  "module_scope_targets same_name path arity =
     (let module_scope = filter (\<lambda>s. sy_module s = path) same_name; narrowed = arity_narrow module_scope arity in
      if module_scope \<noteq> [] \<and> narrowed = [] then candidates [] ''resolution:arity_mismatch''
      else finish_targets narrowed ''name_shared_across_module_scopes'')"

definition method_targets :: "symbol_id list \<Rightarrow> string \<Rightarrow> int option \<Rightarrow> string \<Rightarrow> call_target_set" where
  "method_targets same_name path arity shared_reason =
     narrowed_or_unresolved (filter (\<lambda>s. sy_type s \<noteq> None \<and> sy_module s = path) same_name) arity shared_reason"

definition type_receiver_targets :: "symbol_id list \<Rightarrow> string \<Rightarrow> int option \<Rightarrow> call_target_set" where
  "type_receiver_targets same_name t arity =
     (let methods = filter (\<lambda>s. sy_type s = Some t) same_name in
      narrowed_or_unresolved methods arity
        (if length (remdups (map sy_module methods)) > 1 then ''class_shared_across_modules'' else ''''))"

definition variable_receiver_targets :: "symbol_id list \<Rightarrow> int option \<Rightarrow> call_target_set" where
  "variable_receiver_targets same_name arity =
     (let methods = filter (\<lambda>s. sy_type s \<noteq> None) same_name; narrowed = arity_narrow methods arity in
      if length methods = 1 then resolved methods
      else if narrowed = [] then candidates [] ''resolution:no_candidate''
      else candidates narrowed ''resolution:receiver_type_unknown'')"

definition self_receivers :: "string set" where
  "self_receivers = {''self'', ''$this'', ''this'', ''cls'', ''static''}"

definition is_declared_type :: "symbol_id list \<Rightarrow> string \<Rightarrow> bool" where
  "is_declared_type same_name receiver = list_ex (\<lambda>s. sy_type s = Some receiver) same_name"

definition resolve_call :: "call_site \<Rightarrow> string \<Rightarrow> symbol_index \<Rightarrow> call_target_set" where
  "resolve_call call path index =
     (let same_name = named_symbols index (cs_name call);
          receiver = strip (or_default '''' (cs_receiver call)) in
      if receiver = '''' then module_scope_targets same_name path (cs_arity call)
      else if receiver \<in> self_receivers
      then method_targets same_name path (cs_arity call) ''receiver_self_shared_across_classes''
      else if is_declared_type same_name receiver then type_receiver_targets same_name receiver (cs_arity call)
      else variable_receiver_targets same_name (cs_arity call))"

definition inherited_method :: "symbol_index \<Rightarrow> string \<Rightarrow> string \<Rightarrow> int option \<Rightarrow> call_target_set" where
  "inherited_method index base_type method_name arity =
     (let declared = filter (\<lambda>s. sy_type s = Some base_type) (named_symbols index method_name);
          narrowed = (if declared \<noteq> [] then arity_narrow declared arity else []) in
      if narrowed = [] then candidates [] ''resolution:no_candidate''
      else if length narrowed = 1 then resolved narrowed
      else candidates narrowed ''resolution:inheritance_ambiguous_across_modules'')"

section \<open>The bindings of a change\<close>

record caller_binding =
  cb_module :: string
  cb_function :: string
  cb_line :: int
  cb_exact :: bool

record call_counts =
  cc_complete :: int
  cc_incomplete :: int
  cc_unresolved :: int

record call_bindings =
  cl_targets :: "call_target_set list"
  cl_callers :: "(symbol_id \<times> caller_binding list) list"
  cl_counts :: call_counts
  cl_resolutions :: "((string \<times> string \<times> int) \<times> call_target_set list) list"

definition count_target_set :: "call_target_set \<Rightarrow> call_counts \<Rightarrow> call_counts" where
  "count_target_set ts n =
     (if ct_targets ts = [] then n\<lparr>cc_unresolved := cc_unresolved n + 1\<rparr>
      else if reasons (ct_completeness ts) \<noteq> [] then n\<lparr>cc_incomplete := cc_incomplete n + 1\<rparr>
      else n\<lparr>cc_complete := cc_complete n + 1\<rparr>)"

definition no_bindings :: call_bindings where
  "no_bindings = \<lparr>cl_targets = [], cl_callers = [],
     cl_counts = \<lparr>cc_complete = 0, cc_incomplete = 0, cc_unresolved = 0\<rparr>, cl_resolutions = []\<rparr>"

text \<open>A caller edge is recorded once per call site.\<close>

definition add_caller :: "symbol_id \<Rightarrow> caller_binding \<Rightarrow> (symbol_id \<times> caller_binding list) list \<Rightarrow>
    (symbol_id \<times> caller_binding list) list" where
  "add_caller target binding callers =
     (let known = or_default [] (map_of callers target) in
      dict_set target (if binding \<in> set known then known else known @ [binding]) callers)"

definition bind_call :: "symbol_index \<Rightarrow> call_bindings \<Rightarrow> string \<times> string \<times> call_site \<Rightarrow> call_bindings" where
  "bind_call index b site =
     (let (path, function, call) = site; ts = resolve_call call path index in
      \<lparr>cl_targets = cl_targets b @ [ts],
       cl_callers =
         (if reasons (ct_completeness ts) = [] \<and> length (ct_targets ts) = 1
          then add_caller (hd (ct_targets ts))
            \<lparr>cb_module = path, cb_function = function, cb_line = cs_line call, cb_exact = True\<rparr> (cl_callers b)
          else cl_callers b),
       cl_counts = count_target_set ts (cl_counts b),
       cl_resolutions = group_add (path, function, cs_line call) ts (cl_resolutions b)\<rparr>)"

definition call_sites :: "(string \<times> function_ir list) list \<Rightarrow> (string \<times> string \<times> call_site) list" where
  "call_sites functions_by_module =
     concat (map (\<lambda>(path, fns). concat (map (\<lambda>fn. map (\<lambda>call. (path, fn_name fn, call)) (fn_calls fn)) fns))
       functions_by_module)"

definition bind_calls :: "(string \<times> function_ir list) list \<Rightarrow> symbol_index \<Rightarrow> call_bindings" where
  "bind_calls functions_by_module index =
     (let b = foldl (bind_call index) no_bindings (call_sites functions_by_module) in
      b\<lparr>cl_callers := sort_key (symbol_key \<circ> fst) (cl_callers b), cl_resolutions := sort_key fst (cl_resolutions b)\<rparr>)"

definition exact_callers :: "call_bindings \<Rightarrow> symbol_id \<Rightarrow> caller_binding list" where
  "exact_callers b target = or_default [] (map_of (cl_callers b) target)"

section \<open>The lookups of the index\<close>

lemma or_default_simps [simp]: "or_default d None = d" "or_default d (Some x) = x"
  by (simp_all add: or_default_def)

lemma map_of_sort_key:
  assumes "distinct (map fst d)"
  shows "map_of (sort_key fst d) = map_of d"
proof (rule map_of_inject_set [THEN iffD2])
  show "distinct (map fst (sort_key fst d))"
    using assms by (metis distinct_map distinct_sort inj_on_def set_sort)
qed (use assms in simp_all)

lemma lookup_group_add: "or_default [] (map_of (group_add k v d) j) = or_default [] (map_of d j) @ (if j = k then [v] else [])"
  by (simp add: group_add_def)

lemma distinct_group_add: "distinct (map fst d) \<Longrightarrow> distinct (map fst (group_add k v d))"
  by (simp add: group_add_def distinct_dict_set)

lemma group_by_name:
  "distinct (map fst d) \<Longrightarrow>
   distinct (map fst (foldl (\<lambda>d s. group_add (f s) s d) d xs)) \<and>
   or_default [] (map_of (foldl (\<lambda>d s. group_add (f s) s d) d xs) k) = or_default [] (map_of d k) @ filter (\<lambda>s. f s = k) xs"
  by (induction xs arbitrary: d) (simp_all add: distinct_group_add lookup_group_add)

text \<open>Looking a name up gives its declarations in order: the table is the index of the list.\<close>

lemma named_symbols_build:
  "named_symbols (build_index files) name =
     filter (\<lambda>s. sy_name s = name) (si_declarations (build_index files))"
proof -
  obtain decls bases where b: "foldl index_file ([], []) files = (decls, bases)" by fastforce
  let ?t = "foldl (\<lambda>d s. group_add (sy_name s) s d) [] (sorted_symbols decls)"
  have "distinct (map fst ?t)" "or_default [] (map_of ?t name) = filter (\<lambda>s. sy_name s = name) (sorted_symbols decls)"
    using group_by_name [of "[]" sy_name "sorted_symbols decls" name] by simp_all
  then show ?thesis
    by (simp add: named_symbols_def build_index_def b map_of_sort_key Let_def)
qed

section \<open>Ancestors\<close>

definition base_edge :: "symbol_index \<Rightarrow> string \<Rightarrow> (string \<times> string) set" where
  "base_edge index path = {(t, b). b \<in> set (declared_bases index path t)}"

lemma visit_bases_props:
  "\<exists>new. visit_bases t bs (bases, queue) = (bases @ new, queue @ new) \<and> distinct new \<and>
     set new = set bs - set bases - {t}"
proof (induction t bs "(bases, queue)" arbitrary: bases queue rule: visit_bases.induct)
  case (2 t b bs bases queue)
  show ?case
  proof (cases "b \<in> set bases \<or> b = t")
    case True
    with 2(1) [OF True] show ?thesis by auto
  next
    case False
    from 2(2) [OF False] obtain new where
      n: "visit_bases t bs (bases @ [b], queue @ [b]) = ((bases @ [b]) @ new, (queue @ [b]) @ new)"
         "distinct new" "set new = set bs - set (bases @ [b]) - {t}" by blast
    then have "visit_bases t (b # bs) (bases, queue) = (bases @ b # new, queue @ b # new)" using False by simp
    moreover have "distinct (b # new)" "set (b # new) = set (b # bs) - set bases - {t}" using n False by auto
    ultimately show ?thesis by blast
  qed
qed simp

lemma ancestor_loop_exact:
  assumes "distinct bases" "t \<notin> set bases" "set bases \<subseteq> (base_edge index path)\<^sup>+ `` {t}" "set queue \<subseteq> insert t (set bases)"
    "\<forall>x \<in> insert t (set bases) - set queue. base_edge index path `` {x} \<subseteq> insert t (set bases)"
  shows "distinct (ancestor_loop index path t bases queue) \<and>
    set (ancestor_loop index path t bases queue) = (base_edge index path)\<^sup>+ `` {t} - {t}"
  using assms
proof (induction index path t bases queue rule: ancestor_loop.induct)
  case (1 index path t bases)
  let ?R = "base_edge index path"
  have "x \<in> insert t (set bases)" if "(t, x) \<in> ?R\<^sup>*" for x
    using that by (induction rule: rtrancl_induct) (use 1(5) in auto)
  then have "?R\<^sup>+ `` {t} - {t} \<subseteq> set bases" by (auto dest: trancl_into_rtrancl)
  with 1 show ?case by auto
next
  case (2 index path t bases current queue)
  let ?R = "base_edge index path"
  obtain new where n: "visit_bases t (declared_bases index path current) (bases, queue) = (bases @ new, queue @ new)"
      "distinct new" "set new = set (declared_bases index path current) - set bases - {t}"
    using visit_bases_props by blast
  have cur: "current = t \<or> (t, current) \<in> ?R\<^sup>+" using 2(4,5) by auto
  have e: "?R `` {current} = set (declared_bases index path current)" by (auto simp: base_edge_def)
  have "distinct (bases @ new)" "t \<notin> set (bases @ new)" using n 2(2,3) by auto
  moreover have "set (bases @ new) \<subseteq> ?R\<^sup>+ `` {t}"
  proof -
    have "(t, x) \<in> ?R\<^sup>+" if "x \<in> set new" for x
    proof -
      have "(current, x) \<in> ?R" using that n(3) e by auto
      with cur show ?thesis by (auto intro: trancl_into_trancl)
    qed
    with 2(4) show ?thesis by auto
  qed
  moreover have "set (queue @ new) \<subseteq> insert t (set (bases @ new))" using 2(5) by auto
  moreover have "\<forall>x \<in> insert t (set (bases @ new)) - set (queue @ new). ?R `` {x} \<subseteq> insert t (set (bases @ new))"
  proof
    fix x assume x: "x \<in> insert t (set (bases @ new)) - set (queue @ new)"
    show "?R `` {x} \<subseteq> insert t (set (bases @ new))"
    proof (cases "x = current")
      case True
      with n(3) e show ?thesis by auto
    next
      case False
      with x have "x \<in> insert t (set bases) - set (current # queue)" by auto
      with 2(6) show ?thesis by auto
    qed
  qed
  ultimately show ?case using 2(1) [OF n(1) [symmetric] refl] n(1) by (simp add: Let_def)
qed

text \<open>
  C27. The ancestors of a type are exactly the types its base edges lead to in one or more steps,
  apart from itself, each once; inheritance cycles do no harm.
\<close>

theorem ancestors_of_exact:
  "distinct (ancestors_of index path t) \<and>
   set (ancestors_of index path t) = (base_edge index path)\<^sup>+ `` {t} - {t}"
  unfolding ancestors_of_def by (rule ancestor_loop_exact) simp_all

section \<open>What a complete resolution means\<close>

definition receiver_of :: "call_site \<Rightarrow> string" where
  "receiver_of call = strip (or_default '''' (cs_receiver call))"

definition param_count :: "symbol_id \<Rightarrow> int" where
  "param_count s = int (length (or_default [] (sy_signature s)))"

text \<open>The declarations of the called name the receiver allows.\<close>

definition callable :: "call_site \<Rightarrow> string \<Rightarrow> symbol_index \<Rightarrow> symbol_id \<Rightarrow> bool" where
  "callable call path index s \<longleftrightarrow>
     (let receiver = receiver_of call in
      if receiver = '''' then sy_module s = path
      else if receiver \<in> self_receivers then sy_type s \<noteq> None \<and> sy_module s = path
      else if is_declared_type (named_symbols index (cs_name call)) receiver then sy_type s = Some receiver
      else sy_type s \<noteq> None)"

definition callable_symbols :: "call_site \<Rightarrow> string \<Rightarrow> symbol_index \<Rightarrow> symbol_id list" where
  "callable_symbols call path index = filter (callable call path index) (named_symbols index (cs_name call))"

lemma resolved_sel [simp]:
  "ct_targets (resolved ts) = ts" "ct_targets (candidates ts r) = ts"
  "is_complete (ct_completeness (resolved ts))" "\<not> is_complete (ct_completeness (candidates ts r))"
  "reasons (ct_completeness (resolved ts)) = []" "reasons (ct_completeness (candidates ts r)) = [r]"
  by (simp_all add: resolved_def candidates_def dedup_def)

lemma arity_narrow_props:
  "set (arity_narrow ss a) \<subseteq> set ss" "arity_narrow ss a = [] \<longleftrightarrow> ss = []" "arity_narrow [s] a = [s]"
  by (auto simp: arity_narrow_def Let_def filter_empty_conv split: option.splits)

lemma arity_narrow_Nil [simp]: "arity_narrow [] a = []"
  by (simp add: arity_narrow_props(2))

lemma finish_targets_props:
  "ct_targets (finish_targets ts r) = ts"
  "is_complete (ct_completeness (finish_targets ts r)) \<longleftrightarrow> length ts = 1"
  "reasons (ct_completeness (finish_targets ts r)) = [] \<longleftrightarrow> length ts = 1"
  by (simp_all add: finish_targets_def)

lemma narrowed_or_unresolved_eq: "narrowed_or_unresolved ms a r = finish_targets (arity_narrow ms a) r"
  by (simp add: narrowed_or_unresolved_def Let_def arity_narrow_props(2))

lemma resolve_call_cases:
  fixes call path index
  defines "ms \<equiv> callable_symbols call path index" and "ts \<equiv> resolve_call call path index"
  shows "ct_targets ts = arity_narrow ms (cs_arity call)"
    "is_complete (ct_completeness ts) \<Longrightarrow> length (arity_narrow ms (cs_arity call)) = 1"
    "is_complete (ct_completeness ts) \<longleftrightarrow> reasons (ct_completeness ts) = []"
proof -
  let ?names = "named_symbols index (cs_name call)"
  have one: "length xs = 1 \<Longrightarrow> arity_narrow xs a = xs" for xs a
    by (cases xs) (auto simp: arity_narrow_props(3))
  consider (plain) "receiver_of call = ''''"
    | (self) "receiver_of call \<noteq> ''''" "receiver_of call \<in> self_receivers"
    | (declared) "receiver_of call \<noteq> ''''" "receiver_of call \<notin> self_receivers" "is_declared_type ?names (receiver_of call)"
    | (variable) "receiver_of call \<noteq> ''''" "receiver_of call \<notin> self_receivers" "\<not> is_declared_type ?names (receiver_of call)"
    by blast
  then have "ct_targets ts = arity_narrow ms (cs_arity call) \<and>
      (is_complete (ct_completeness ts) \<longrightarrow> length (arity_narrow ms (cs_arity call)) = 1) \<and>
      (is_complete (ct_completeness ts) \<longleftrightarrow> reasons (ct_completeness ts) = [])"
  proof cases
    case plain
    then show ?thesis
      unfolding ms_def ts_def resolve_call_def callable_symbols_def callable_def
      by (simp add: receiver_of_def [symmetric] module_scope_targets_def Let_def arity_narrow_props(2) finish_targets_props)
  next
    case self
    then show ?thesis
      unfolding ms_def ts_def resolve_call_def callable_symbols_def callable_def
      by (simp add: receiver_of_def [symmetric] method_targets_def narrowed_or_unresolved_eq Let_def finish_targets_props)
  next
    case declared
    then show ?thesis
      unfolding ms_def ts_def resolve_call_def callable_symbols_def callable_def
      by (simp add: receiver_of_def [symmetric] type_receiver_targets_def narrowed_or_unresolved_eq Let_def finish_targets_props)
  next
    case variable
    then have m: "ms = filter (\<lambda>s. sy_type s \<noteq> None) ?names" and t: "ts = variable_receiver_targets ?names (cs_arity call)"
      unfolding ms_def ts_def resolve_call_def callable_symbols_def callable_def
      by (simp_all add: receiver_of_def [symmetric] Let_def)
    show ?thesis
      unfolding t variable_receiver_targets_def Let_def m [symmetric]
      using one [of ms "cs_arity call"] by (simp add: arity_narrow_props(2))
  qed
  then show "ct_targets ts = arity_narrow ms (cs_arity call)"
    "is_complete (ct_completeness ts) \<Longrightarrow> length (arity_narrow ms (cs_arity call)) = 1"
    "is_complete (ct_completeness ts) \<longleftrightarrow> reasons (ct_completeness ts) = []"
    by simp_all
qed

lemma arity_narrow_single:
  assumes "arity_narrow ss a = [s]"
  shows "s \<in> set ss \<and> (\<forall>s' \<in> set ss. s' \<noteq> s \<longrightarrow> (\<exists>n. a = Some n \<and> param_count s = n \<and> param_count s' \<noteq> n))"
proof (cases a)
  case None
  then show ?thesis using assms by (simp add: arity_narrow_def)
next
  case (Some n)
  show ?thesis
  proof (cases "filter (\<lambda>s. param_count s = n) ss = []")
    case True
    then show ?thesis using assms Some by (simp add: arity_narrow_def param_count_def)
  next
    case False
    then have "filter (\<lambda>s. param_count s = n) ss = [s]"
      using assms Some by (simp add: arity_narrow_def param_count_def)
    then have "{x \<in> set ss. param_count x = n} = {s}" by (metis set_filter list.simps(15) list.set(1))
    then show ?thesis using Some by auto
  qed
qed

text \<open>
  C26. A complete resolution is the only possible target: it names one declaration of the called name
  that the receiver allows, and every other such declaration takes a number of parameters the call
  does not pass. An incomplete one always says why.
\<close>

theorem resolve_call_sound:
  "let ts = resolve_call call path index; ms = callable_symbols call path index in
    set (ct_targets ts) \<subseteq> set ms \<and>
    (if is_complete (ct_completeness ts) then
       (\<exists>s. ct_targets ts = [s] \<and> s \<in> set ms \<and>
          (\<forall>s' \<in> set ms - {s}. \<exists>n. cs_arity call = Some n \<and> param_count s = n \<and> param_count s' \<noteq> n))
     else reasons (ct_completeness ts) \<noteq> [])"
proof (cases "is_complete (ct_completeness (resolve_call call path index))")
  case True
  then obtain s where s: "arity_narrow (callable_symbols call path index) (cs_arity call) = [s]"
    using resolve_call_cases(2) [OF True] by (metis One_nat_def Suc_length_conv length_0_conv)
  then show ?thesis
    using True arity_narrow_single [OF s] by (auto simp: Let_def resolve_call_cases(1))
next
  case False
  then show ?thesis
    using resolve_call_cases(1,3) [of call path index] arity_narrow_props(1) by (simp add: Let_def)
qed

section \<open>What the bindings hold\<close>

lemma dedup_snoc: "dedup (xs @ [x]) = (if x \<in> set xs then dedup xs else dedup xs @ [x])"
  by (simp add: dedup_def dedup_from_append)

text \<open>A call site lands on a target when its resolution is complete and names it.\<close>

definition lands_on :: "symbol_index \<Rightarrow> symbol_id \<Rightarrow> string \<times> string \<times> call_site \<Rightarrow> bool" where
  "lands_on index target site = (case site of (path, function, call) \<Rightarrow>
     is_complete (ct_completeness (resolve_call call path index)) \<and> ct_targets (resolve_call call path index) = [target])"

definition binding_of :: "string \<times> string \<times> call_site \<Rightarrow> caller_binding" where
  "binding_of site = (case site of (path, function, call) \<Rightarrow>
     \<lparr>cb_module = path, cb_function = function, cb_line = cs_line call, cb_exact = True\<rparr>)"

definition site_targets :: "symbol_index \<Rightarrow> string \<times> string \<times> call_site \<Rightarrow> call_target_set" where
  "site_targets index site = (case site of (path, function, call) \<Rightarrow> resolve_call call path index)"

definition site_key :: "string \<times> string \<times> call_site \<Rightarrow> string \<times> string \<times> int" where
  "site_key site = (case site of (path, function, call) \<Rightarrow> (path, function, cs_line call))"

lemma length_one: "length xs = Suc 0 \<Longrightarrow> xs = [x] \<longleftrightarrow> hd xs = x"
  by (cases xs) auto

lemma bind_call_callers:
  "or_default [] (map_of (cl_callers (bind_call index b site)) target) =
     (let known = or_default [] (map_of (cl_callers b) target) in
      if lands_on index target site \<and> binding_of site \<notin> set known then known @ [binding_of site] else known)"
  using resolve_call_cases(3) [of "snd (snd site)" "fst site" index]
  by (auto simp: bind_call_def Let_def add_caller_def lands_on_def binding_of_def length_one split: prod.splits)

lemma bind_call_sel [simp]:
  "cl_targets (bind_call index b site) = cl_targets b @ [site_targets index site]"
  "cl_counts (bind_call index b site) = count_target_set (site_targets index site) (cl_counts b)"
  "or_default [] (map_of (cl_resolutions (bind_call index b site)) k) =
     or_default [] (map_of (cl_resolutions b) k) @ (if site_key site = k then [site_targets index site] else [])"
  by (auto simp: bind_call_def Let_def site_targets_def site_key_def lookup_group_add split: prod.splits)

lemma bind_call_distinct:
  "distinct (map fst (cl_callers b)) \<Longrightarrow> distinct (map fst (cl_callers (bind_call index b site)))"
  "distinct (map fst (cl_resolutions b)) \<Longrightarrow> distinct (map fst (cl_resolutions (bind_call index b site)))"
  by (auto simp: bind_call_def Let_def add_caller_def distinct_dict_set distinct_group_add split: prod.splits)

definition resolves_to :: "symbol_index \<Rightarrow> (call_target_set \<Rightarrow> bool) \<Rightarrow> (string \<times> string \<times> call_site) list \<Rightarrow> int" where
  "resolves_to index P sites = int (length (filter (P \<circ> site_targets index) sites))"

lemma fold_bind_call:
  fixes index sites
  defines "b \<equiv> foldl (bind_call index) no_bindings sites"
  shows "or_default [] (map_of (cl_callers b) target) = dedup (map binding_of (filter (lands_on index target) sites))"
    "cl_targets b = map (site_targets index) sites"
    "or_default [] (map_of (cl_resolutions b) k) = map (site_targets index) (filter (\<lambda>s. site_key s = k) sites)"
    "distinct (map fst (cl_callers b))" "distinct (map fst (cl_resolutions b))"
    "cc_complete (cl_counts b) + cc_incomplete (cl_counts b) + cc_unresolved (cl_counts b) = int (length sites)"
    "cc_unresolved (cl_counts b) = resolves_to index (\<lambda>ts. ct_targets ts = []) sites"
    "cc_complete (cl_counts b) = resolves_to index (\<lambda>ts. ct_targets ts \<noteq> [] \<and> reasons (ct_completeness ts) = []) sites"
  unfolding b_def
proof (induction sites rule: rev_induct)
  case Nil
  {
    case 1 then show ?case by (simp add: no_bindings_def dedup_def)
  next case 2 then show ?case by (simp add: no_bindings_def)
  next case 3 then show ?case by (simp add: no_bindings_def)
  next case 4 then show ?case by (simp add: no_bindings_def)
  next case 5 then show ?case by (simp add: no_bindings_def)
  next case 6 then show ?case by (simp add: no_bindings_def)
  next case 7 then show ?case by (simp add: no_bindings_def resolves_to_def)
  next case 8 then show ?case by (simp add: no_bindings_def resolves_to_def)
  }
next
  case (snoc site sites)
  {
    case 1
    show ?case using snoc(1) by (simp add: bind_call_callers Let_def dedup_snoc)
  next
    case 2
    show ?case using snoc(2) by simp
  next
    case 3
    show ?case using snoc(3) by simp
  next
    case 4
    show ?case using snoc(4) by (simp add: bind_call_distinct)
  next
    case 5
    show ?case using snoc(5) by (simp add: bind_call_distinct)
  next
    case 6
    show ?case using snoc(6) by (simp add: count_target_set_def)
  next
    case 7
    show ?case using snoc(7) by (simp add: count_target_set_def resolves_to_def)
  next
    case 8
    show ?case using snoc(8) by (simp add: count_target_set_def resolves_to_def)
  }
qed

lemma map_of_sort_key_by: "distinct (map fst d) \<Longrightarrow> map_of (sort_key f d) = map_of d"
  by (metis distinct_map distinct_sort inj_on_def map_of_inject_set set_sort)

text \<open>
  The reverse index is exact: the callers of a declaration are the call sites whose resolution is
  complete and lands on it, each once, in the order of the code; an ambiguous or unresolved call is in
  no caller list. Every call site is in exactly one of the three counts, and looking a line up gives
  the resolutions of its calls.
\<close>

theorem bind_calls_exact:
  "let b = bind_calls functions index; sites = call_sites functions in
    exact_callers b target = dedup (map binding_of (filter (lands_on index target) sites)) \<and>
    cl_targets b = map (site_targets index) sites \<and>
    or_default [] (map_of (cl_resolutions b) k) = map (site_targets index) (filter (\<lambda>s. site_key s = k) sites) \<and>
    cc_unresolved (cl_counts b) = resolves_to index (\<lambda>ts. ct_targets ts = []) sites \<and>
    cc_complete (cl_counts b) =
      resolves_to index (\<lambda>ts. ct_targets ts \<noteq> [] \<and> reasons (ct_completeness ts) = []) sites \<and>
    cc_complete (cl_counts b) + cc_incomplete (cl_counts b) + cc_unresolved (cl_counts b) = int (length sites)"
  using fold_bind_call [where index = index and sites = "call_sites functions"]
  by (simp add: bind_calls_def Let_def exact_callers_def map_of_sort_key_by)

section \<open>A sample repository\<close>

definition scope_at :: "string \<Rightarrow> string list \<Rightarrow> string option \<Rightarrow> string list \<Rightarrow> declaration_scope" where
  "scope_at name params t bases = \<lparr>ds_name = name, ds_params = params, ds_start = 1, ds_type = t, ds_bases = bases\<rparr>"

definition sample_index :: symbol_index where
  "sample_index = build_index
     [\<lparr>sf_module = ''a.py'',
       sf_scopes = [scope_at ''save'' [''self'', ''x''] (Some ''Repo'') [''Base''], scope_at ''save'' [''x''] None [],
                    scope_at ''load'' [''x''] None []],
       sf_class_bases = [(''Repo'', [''Base'']), (''Base'', [''Root'', ''Repo''])]\<rparr>]"

definition sample_call :: "string \<Rightarrow> string option \<Rightarrow> int \<Rightarrow> call_site" where
  "sample_call name receiver arity = \<lparr>cs_name = name, cs_line = 3, cs_arg_texts = [], cs_arg_constant = [], cs_arg_names = [],
     cs_extra_sequence = False, cs_order = 0, cs_receiver = receiver, cs_arity = Some arity\<rparr>"

theorem resolve_call_witness:
  "\<exists>s. ct_targets (resolve_call (sample_call ''save'' None 1) ''a.py'' sample_index) = [s] \<and> sy_type s = None \<and>
     s \<in> set (callable_symbols (sample_call ''save'' None 1) ''a.py'' sample_index)"
proof -
  have "is_complete (ct_completeness (resolve_call (sample_call ''save'' None 1) ''a.py'' sample_index))"
    "sy_type (hd (ct_targets (resolve_call (sample_call ''save'' None 1) ''a.py'' sample_index))) = None"
    by code_simp+
  then show ?thesis
    using resolve_call_sound [of "sample_call ''save'' None 1" "''a.py''" sample_index] by (auto simp: Let_def)
qed

lemma sample_ancestors: "ancestors_of sample_index ''a.py'' ''Repo'' = [''Base'', ''Root'']"
  by code_simp

text \<open>
  Narrowing by the number of arguments falls back to all candidates when none has it: a call that no
  declaration can take still binds completely to the only declaration of that name, and the reason
  \<open>resolution:arity_mismatch\<close> is never given.
\<close>

lemma wrong_arity_binds:
  "ct_targets (resolve_call (sample_call ''load'' None 7) ''a.py'' sample_index) =
     [\<lparr>sy_module = ''a.py'', sy_type = None, sy_name = ''load'', sy_signature = Some [''x'']\<rparr>]"
  "is_complete (ct_completeness (resolve_call (sample_call ''load'' None 7) ''a.py'' sample_index))"
  by code_simp+

lemma arity_mismatch_unreachable:
  "reasons (ct_completeness (resolve_call call path index)) \<noteq> [''resolution:arity_mismatch'']"
  by (auto simp: resolve_call_def module_scope_targets_def method_targets_def type_receiver_targets_def
      variable_receiver_targets_def narrowed_or_unresolved_eq finish_targets_def arity_narrow_props(2) Let_def)

text \<open>The sort key is not injective: a missing signature and an empty one have the same key.\<close>

lemma symbol_key_collision:
  "symbol_key \<lparr>sy_module = m, sy_type = None, sy_name = n, sy_signature = None\<rparr> =
   symbol_key \<lparr>sy_module = m, sy_type = Some '''', sy_name = n, sy_signature = Some []\<rparr>"
  by (simp add: symbol_key_def)

end
