(* ===== verification/PyValue.thy ===== *)
theory PyValue
  imports PyText
begin

text \<open>
  The values a parsed TOML or JSON document consists of, and what the code does with a value it does
  not trust: truth, \<open>str\<close>, \<open>repr\<close> and the type tests. A float keeps the text Python prints for it.
\<close>

datatype pyval =
    VNone
  | VBool bool
  | VInt int
  | VFloat string
  | VStr string
  | VList "pyval list"
  | VDict "(string \<times> pyval) list"

type_synonym table = "(string \<times> pyval) list"

text \<open>\<open>d.get(k)\<close> and \<open>d.get(k, v)\<close>.\<close>

definition value_of :: "table \<Rightarrow> string \<Rightarrow> pyval" where
  "value_of d k = (case map_of d k of None \<Rightarrow> VNone | Some v \<Rightarrow> v)"

definition value_or :: "table \<Rightarrow> string \<Rightarrow> pyval \<Rightarrow> pyval" where
  "value_or d k v = (case map_of d k of None \<Rightarrow> v | Some w \<Rightarrow> w)"

text \<open>Truth. A float is false when it is a zero.\<close>

definition float_zero :: "string \<Rightarrow> bool" where
  "float_zero s \<longleftrightarrow> s \<in> {''0.0'', ''-0.0''}"

fun truthy :: "pyval \<Rightarrow> bool" where
  "truthy VNone = False"
| "truthy (VBool b) = b"
| "truthy (VInt i) = (i \<noteq> 0)"
| "truthy (VFloat s) = (\<not> float_zero s)"
| "truthy (VStr s) = (s \<noteq> [])"
| "truthy (VList xs) = (xs \<noteq> [])"
| "truthy (VDict d) = (d \<noteq> [])"

fun is_str :: "pyval \<Rightarrow> bool" where
  "is_str (VStr s) = True" | "is_str _ = False"

text \<open>\<open>isinstance(v, int)\<close>: a \<open>bool\<close> is an \<open>int\<close>.\<close>

fun as_int :: "pyval \<Rightarrow> int option" where
  "as_int (VInt i) = Some i"
| "as_int (VBool b) = Some (if b then 1 else 0)"
| "as_int _ = None"

fun as_table :: "pyval \<Rightarrow> table option" where
  "as_table (VDict d) = Some d" | "as_table _ = None"

section \<open>\<open>repr\<close> and \<open>str\<close>\<close>

definition hex_digit :: "nat \<Rightarrow> char" where
  "hex_digit n = ''0123456789abcdef'' ! n"

text \<open>A character inside the quotes \<open>q\<close> of a \<open>repr\<close>; those that do not print are escaped.\<close>

definition repr_char :: "char \<Rightarrow> char \<Rightarrow> string" where
  "repr_char q c = (let n = code c in
     if c = q \<or> n = 92 then [CHR 0x5C, c]
     else if n = 9 then [CHR 0x5C, CHR ''t''] else if n = 10 then [CHR 0x5C, CHR ''n'']
     else if n = 13 then [CHR 0x5C, CHR ''r'']
     else if n < 32 \<or> 127 \<le> n \<and> n \<le> 160 \<or> n = 173
     then [CHR 0x5C, CHR ''x'', hex_digit (n div 16), hex_digit (n mod 16)]
     else [c])"

definition repr_str :: "string \<Rightarrow> string" where
  "repr_str s =
     (let q = (if CHR 0x27 \<in> set s \<and> CHR 0x22 \<notin> set s then CHR 0x22 else CHR 0x27)
      in q # concat (map (repr_char q) s) @ [q])"

fun py_repr :: "pyval \<Rightarrow> string" where
  "py_repr VNone = ''None''"
| "py_repr (VBool b) = (if b then ''True'' else ''False'')"
| "py_repr (VInt i) = show_int i"
| "py_repr (VFloat s) = s"
| "py_repr (VStr s) = repr_str s"
| "py_repr (VList xs) = ''['' @ join_with '', '' (map py_repr xs) @ '']''"
| "py_repr (VDict d) = ''{'' @ join_with '', '' (map (\<lambda>(k, v). repr_str k @ '': '' @ py_repr v) d) @ ''}''"

fun py_str :: "pyval \<Rightarrow> string" where
  "py_str (VStr s) = s"
| "py_str v = py_repr v"

lemma py_str_samples:
  "py_str (VList [VInt 3, VStr ''a'', VDict [(''k'', VNone)]]) = ''[3, '' @ [CHR 0x27] @ ''a'' @ [CHR 0x27] @ '', {'' @ [CHR 0x27] @ ''k'' @ [CHR 0x27] @ '': None}]''"
  "py_str (VBool True) = ''True''"
  by code_simp+

section \<open>Lists of strings\<close>

fun strings_of :: "pyval list \<Rightarrow> string list option" where
  "strings_of [] = Some []"
| "strings_of (VStr s # vs) = map_option ((#) s) (strings_of vs)"
| "strings_of (_ # vs) = None"

fun tables_of :: "pyval list \<Rightarrow> table list option" where
  "tables_of [] = Some []"
| "tables_of (VDict d # vs) = map_option ((#) d) (tables_of vs)"
| "tables_of (_ # vs) = None"

lemma strings_of_map [simp]: "strings_of (map VStr ss) = Some ss"
  by (induction ss) simp_all

lemma strings_of_iff: "strings_of vs = Some ss \<longleftrightarrow> vs = map VStr ss"
  by (induction vs arbitrary: ss rule: strings_of.induct) (auto split: option.splits)

lemma tables_of_iff: "tables_of vs = Some ts \<longleftrightarrow> vs = map VDict ts"
  by (induction vs arbitrary: ts rule: tables_of.induct) (auto split: option.splits)

text \<open>\<open>{f!r}\<close> of a field in a message is not kept: an error has the constant part of its text.\<close>

definition unknown_fields :: "string list \<Rightarrow> table \<Rightarrow> string list" where
  "unknown_fields allowed row = sorted_set (filter (\<lambda>k. k \<notin> set allowed) (map fst row))"

lemma unknown_fields_Nil: "unknown_fields allowed row = [] \<longleftrightarrow> fst ` set row \<subseteq> set allowed"
  by (auto simp: unknown_fields_def filter_empty_conv)

end
