(* ===== verification/Facts.thy ===== *)
theory Facts
  imports PyValue Operations Implications Ir
begin

text \<open>
  The obligation facts and their loader (\<open>semantic/obligations/facts.py\<close>), with the source facts of
  \<open>semantic/facts.py\<close> the obligation stages read. Reading the directory and parsing TOML happen outside:
  the loader is given, per file of the directory, its name and the document, or nothing when the file
  could not be read or parsed. \<open>re.compile\<close> is the argument \<open>compiles\<close>.
\<close>

section \<open>Facts\<close>

definition operation_kinds :: "string list" where
  "operation_kinds = [''protected_read'', ''protected_write'', ''privileged_action'', ''security_setting'']"

definition provenance_kinds :: "string list" where
  "provenance_kinds = [''authenticated_context'', ''request_input'', ''constant'', ''unknown'']"

definition sensitivities :: "string list" where
  "sensitivities = [''low'', ''medium'', ''high'']"

record discharger_fact =
  df_id :: string
  df_kind :: string
  df_language :: string
  df_calls :: "string list"
  df_decorators :: "string list"
  df_identity_sources :: "string list"
  df_constraint_params :: "string list"
  df_request_sources :: "string list"
  df_permissive_values :: "string list"

text \<open>\<open>ImplicationFact\<close> extends \<open>AuthorityImplication\<close> with its language.\<close>

record implication_fact = authority_implication +
  if_language :: string

record obligation_facts =
  of_version :: string
  of_operations :: "operation_fact list"
  of_dischargers :: "discharger_fact list"
  of_implications :: "implication_fact list"

text \<open>\<open>canonical_language\<close> (\<open>source.py\<close>).\<close>

definition language_aliases :: "(string \<times> string) list" where
  "language_aliases = [(''c_cpp'', ''cpp''), (''c++'', ''cpp''), (''python_web'', ''python''), (''py'', ''python''),
     (''node'', ''javascript''), (''js'', ''javascript''), (''ts'', ''typescript'')]"

definition canonical_language :: "string \<Rightarrow> string" where
  "canonical_language name =
     (let n = py_lower (strip name) in case map_of language_aliases n of None \<Rightarrow> n | Some a \<Rightarrow> a)"

definition facts_for_language :: "obligation_facts \<Rightarrow> string \<Rightarrow> obligation_facts" where
  "facts_for_language facts language =
     (let key = canonical_language language; key = (if key = ''cpp'' then ''c'' else key) in
      \<lparr>of_version = of_version facts,
       of_operations = filter (\<lambda>f. f_language f = key) (of_operations facts),
       of_dischargers = filter (\<lambda>f. df_language f = key) (of_dischargers facts),
       of_implications = filter (\<lambda>f. if_language f = key) (of_implications facts)\<rparr>)"

record source_fact =
  sc_id :: string
  sc_patterns :: "string list"
  sc_language :: string

record semantic_facts =
  sm_version :: string
  sm_sources :: "source_fact list"

definition semantic_for_language :: "semantic_facts \<Rightarrow> string \<Rightarrow> semantic_facts" where
  "semantic_for_language facts language =
     (let key = canonical_language language;
          key = (if key = ''cpp'' then ''c'' else if key = ''typescript'' then ''javascript'' else key) in
      \<lparr>sm_version = sm_version facts, sm_sources = filter (\<lambda>f. sc_language f = key) (sm_sources facts)\<rparr>)"

section \<open>The loader\<close>

definition operation_fields :: "string list" where
  "operation_fields = [''id'', ''kind'', ''calls'', ''resource_arg'', ''requires'', ''sensitivity'',
     ''query_document_arg'', ''handlers'', ''framework'', ''request_global_kinds'']"

definition discharger_fields :: "string list" where
  "discharger_fields = [''id'', ''kind'', ''calls'', ''decorators'', ''identity_sources'', ''constraint_params'',
     ''request_sources'', ''permissive_values'']"

definition implication_fields :: "string list" where
  "implication_fields = [''id'', ''authority'', ''implies'']"

definition require :: "bool \<Rightarrow> string \<Rightarrow> unit result" where
  "require ok message = (if ok then Inr () else Inl (ValueError message))"

definition fact_rows :: "pyval \<Rightarrow> table list result" where
  "fact_rows v = (case v of
     VNone \<Rightarrow> Inr []
   | VList vs \<Rightarrow> (case tables_of vs of Some ts \<Rightarrow> Inr ts | None \<Rightarrow> Inl (ValueError ''fact tables must be arrays of tables''))
   | _ \<Rightarrow> Inl (ValueError ''fact tables must be arrays of tables''))"

definition only_fields :: "table \<Rightarrow> string list \<Rightarrow> unit result" where
  "only_fields row allowed =
     (if unknown_fields allowed row \<noteq> [] then Inl (ValueError ''unknown field'')
      else require (map_of row ''id'' \<noteq> None) ''every fact row needs an id'')"

definition fact_strings :: "pyval \<Rightarrow> string list result" where
  "fact_strings v = (case v of
     VNone \<Rightarrow> Inr []
   | VList vs \<Rightarrow> (case strings_of vs of
        Some ss \<Rightarrow> if '''' \<in> set ss then Inl (ValueError ''invalid list'') else Inr ss
      | None \<Rightarrow> Inl (ValueError ''invalid list''))
   | _ \<Rightarrow> Inl (ValueError ''invalid list''))"

definition optional_int :: "table \<Rightarrow> string \<Rightarrow> bool \<Rightarrow> int option result" where
  "optional_int row field positive =
     (case value_of row field of
        VNone \<Rightarrow> Inr None
      | v \<Rightarrow> (case as_int v of
            None \<Rightarrow> Inl (ValueError ''must be an integer'')
          | Some i \<Rightarrow> if positive \<and> i < 1 then Inl (ValueError ''must be a positive integer'') else Inr (Some i)))"

definition implication_name :: "table \<Rightarrow> string \<Rightarrow> string result" where
  "implication_name row field =
     (case value_of row field of
        VStr s \<Rightarrow> if s = '''' then Inl (ValueError ''needs a non-empty name'') else Inr s
      | _ \<Rightarrow> Inl (ValueError ''needs a non-empty name''))"

definition handler_shape :: "(string \<Rightarrow> bool) \<Rightarrow> table \<Rightarrow> (string list \<times> string option) result" where
  "handler_shape compiles row =
     bind_result (fact_strings (value_of row ''handlers'')) (\<lambda>patterns.
     bind_result (case value_of row ''framework'' of
         VNone \<Rightarrow> Inr None
       | VStr s \<Rightarrow> if s = '''' then Inl (ValueError ''invalid operation framework'') else Inr (Some s)
       | _ \<Rightarrow> Inl (ValueError ''invalid operation framework'')) (\<lambda>framework.
     bind_result (require (\<not> (patterns \<noteq> [] \<and> framework = None)) ''handler operation needs a framework'') (\<lambda>_.
     bind_result (require (list_all compiles patterns) ''error'') (\<lambda>_.
     Inr (patterns, framework)))))"

definition load_operation :: "(string \<Rightarrow> bool) \<Rightarrow> string \<Rightarrow> table \<Rightarrow> operation_fact result" where
  "load_operation compiles language row =
     bind_result (only_fields row operation_fields) (\<lambda>_.
     let kind = py_str (value_or row ''kind'' (VStr '''')) in
     bind_result (require (kind \<in> set operation_kinds) ''unknown kind'') (\<lambda>_.
     bind_result (fact_strings (value_of row ''requires'')) (\<lambda>requires.
     bind_result (require (set requires \<subseteq> set discharger_kinds) ''requires unknown discharger kind'') (\<lambda>_.
     let sensitivity = py_str (value_or row ''sensitivity'' (VStr ''medium'')) in
     bind_result (require (sensitivity \<in> set sensitivities) ''unknown sensitivity'') (\<lambda>_.
     bind_result (fact_strings (value_of row ''request_global_kinds'')) (\<lambda>request_global.
     bind_result (require (set request_global \<subseteq> set discharger_kinds) ''request_global_kinds names unknown discharger kind'') (\<lambda>_.
     bind_result (handler_shape compiles row) (\<lambda>(patterns, framework).
     bind_result (fact_strings (value_of row ''calls'')) (\<lambda>calls.
     bind_result (optional_int row ''resource_arg'' False) (\<lambda>resource_arg.
     bind_result (optional_int row ''query_document_arg'' True) (\<lambda>query_arg.
     Inr \<lparr>f_id = py_str (value_of row ''id''), f_kind = kind, f_language = language, f_calls = calls,
       f_resource_arg = resource_arg, f_requires = requires, f_sensitivity = sensitivity,
       f_query_document_arg = query_arg, f_handlers = patterns, f_framework = framework,
       f_request_global_kinds = request_global\<rparr>)))))))))))"

definition load_implication :: "string \<Rightarrow> table \<Rightarrow> implication_fact result" where
  "load_implication language row =
     bind_result (only_fields row implication_fields) (\<lambda>_.
     bind_result (implication_name row ''authority'') (\<lambda>held.
     bind_result (implication_name row ''implies'') (\<lambda>implied.
     Inr \<lparr>impl_id = py_str (value_of row ''id''), authority = held, implies = implied, if_language = language\<rparr>)))"

definition load_discharger :: "string \<Rightarrow> table \<Rightarrow> discharger_fact result" where
  "load_discharger language row =
     bind_result (only_fields row discharger_fields) (\<lambda>_.
     let kind = py_str (value_or row ''kind'' (VStr '''')) in
     bind_result (require (kind \<in> set discharger_kinds) ''unknown kind'') (\<lambda>_.
     bind_result (fact_strings (value_of row ''calls'')) (\<lambda>calls.
     bind_result (fact_strings (value_of row ''decorators'')) (\<lambda>decorators.
     bind_result (fact_strings (value_of row ''identity_sources'')) (\<lambda>identity.
     bind_result (fact_strings (value_of row ''constraint_params'')) (\<lambda>params.
     bind_result (fact_strings (value_of row ''request_sources'')) (\<lambda>request.
     bind_result (fact_strings (value_of row ''permissive_values'')) (\<lambda>permissive.
     Inr \<lparr>df_id = py_str (value_of row ''id''), df_kind = kind, df_language = language, df_calls = calls,
       df_decorators = decorators, df_identity_sources = identity, df_constraint_params = params,
       df_request_sources = request, df_permissive_values = permissive\<rparr>))))))))"

type_synonym fact_file = "string \<times> table option"

record loaded_file =
  lf_version :: string
  lf_operations :: "operation_fact list"
  lf_implications :: "implication_fact list"
  lf_dischargers :: "discharger_fact list"

definition load_file :: "(string \<Rightarrow> bool) \<Rightarrow> fact_file \<Rightarrow> loaded_file result" where
  "load_file compiles file =
     (case snd file of
        None \<Rightarrow> Inl (ValueError ''invalid obligation facts file'')
      | Some payload \<Rightarrow>
          (let named = value_of payload ''language'';
               language = (if truthy named then py_str named else path_stem (fst file)) in
           bind_result (fact_rows (value_of payload ''operation'')) (\<lambda>rows.
           bind_result (map_result (load_operation compiles language) rows) (\<lambda>operations.
           bind_result (fact_rows (value_of payload ''implication'')) (\<lambda>rows.
           bind_result (map_result (load_implication language) rows) (\<lambda>implications.
           bind_result (fact_rows (value_of payload ''discharger'')) (\<lambda>rows.
           bind_result (map_result (load_discharger language) rows) (\<lambda>dischargers.
           Inr \<lparr>lf_version = py_str (value_or payload ''version'' (VStr ''1'')), lf_operations = operations,
             lf_implications = implications, lf_dischargers = dischargers\<rparr>))))))))"

text \<open>The directory, or nothing when it is missing; its files are read in the order of their names.\<close>

definition load_facts_uncached :: "(string \<Rightarrow> bool) \<Rightarrow> fact_file list option \<Rightarrow> obligation_facts result" where
  "load_facts_uncached compiles directory =
     (case directory of
        None \<Rightarrow> Inl (ValueError ''obligation facts directory missing'')
      | Some files \<Rightarrow>
          bind_result (map_result (load_file compiles) (sort_key fst files)) (\<lambda>loaded.
          Inr \<lparr>of_version = (case loaded of [] \<Rightarrow> ''1'' | f # _ \<Rightarrow> lf_version f),
            of_operations = concat (map lf_operations loaded),
            of_dischargers = concat (map lf_dischargers loaded),
            of_implications = concat (map lf_implications loaded)\<rparr>))"

text \<open>The memo: its key is the state of the directory, as \<open>_ruleset_state\<close> reads it.\<close>

definition load_obligation_facts :: "(string \<Rightarrow> bool) \<Rightarrow> 'k \<Rightarrow> fact_file list option \<Rightarrow> ('k \<rightharpoonup> obligation_facts) \<Rightarrow>
    obligation_facts result \<times> ('k \<rightharpoonup> obligation_facts)" where
  "load_obligation_facts compiles key directory memo =
     (if directory = None then (load_facts_uncached compiles directory, memo)
      else case memo key of
        Some facts \<Rightarrow> (Inr facts, memo)
      | None \<Rightarrow> (case load_facts_uncached compiles directory of
            Inl e \<Rightarrow> (Inl e, memo)
          | Inr facts \<Rightarrow> (Inr facts, memo(key \<mapsto> facts))))"

section \<open>What a loaded fact satisfies\<close>

definition valid_operation_fact :: "(string \<Rightarrow> bool) \<Rightarrow> operation_fact \<Rightarrow> bool" where
  "valid_operation_fact compiles f \<longleftrightarrow>
     f_kind f \<in> set operation_kinds \<and> set (f_requires f) \<subseteq> set discharger_kinds \<and>
     f_sensitivity f \<in> set sensitivities \<and> set (f_request_global_kinds f) \<subseteq> set discharger_kinds \<and>
     '''' \<notin> set (f_calls f) \<and> (case f_query_document_arg f of None \<Rightarrow> True | Some i \<Rightarrow> 1 \<le> i) \<and>
     (f_handlers f \<noteq> [] \<longrightarrow> f_framework f \<noteq> None) \<and> f_framework f \<noteq> Some '''' \<and> list_all compiles (f_handlers f)"

definition valid_discharger_fact :: "discharger_fact \<Rightarrow> bool" where
  "valid_discharger_fact f \<longleftrightarrow> df_kind f \<in> set discharger_kinds \<and>
     '''' \<notin> set (df_calls f) \<union> set (df_decorators f) \<union> set (df_identity_sources f) \<union> set (df_constraint_params f)
       \<union> set (df_request_sources f) \<union> set (df_permissive_values f)"

definition valid_implication :: "implication_fact \<Rightarrow> bool" where
  "valid_implication f \<longleftrightarrow> authority f \<noteq> '''' \<and> implies f \<noteq> ''''"

lemma require_Inr [simp]: "require ok m = Inr x \<longleftrightarrow> ok"
  by (simp add: require_def)

lemma fact_strings_Inr: "fact_strings v = Inr ss \<Longrightarrow> '''' \<notin> set ss"
  by (auto simp: fact_strings_def split: pyval.splits option.splits if_splits)

lemma optional_int_Inr: "optional_int row field True = Inr (Some i) \<Longrightarrow> 1 \<le> i"
  by (auto simp: optional_int_def split: pyval.splits option.splits if_splits)

lemma handler_shape_Inr:
  "handler_shape compiles row = Inr (patterns, framework) \<Longrightarrow>
     (patterns \<noteq> [] \<longrightarrow> framework \<noteq> None) \<and> framework \<noteq> Some '''' \<and> list_all compiles patterns"
  by (auto simp: handler_shape_def bind_result_eq_Inr split: pyval.splits if_splits)

lemma load_operation_Inr: "load_operation compiles language row = Inr f \<Longrightarrow>
    valid_operation_fact compiles f \<and> f_language f = language \<and> fst ` set row \<subseteq> set operation_fields"
  by (auto simp: load_operation_def bind_result_eq_Inr Let_def valid_operation_fact_def only_fields_def
      unknown_fields_Nil dest: fact_strings_Inr optional_int_Inr handler_shape_Inr split: if_splits option.splits)

lemma load_discharger_Inr: "load_discharger language row = Inr f \<Longrightarrow>
    valid_discharger_fact f \<and> df_language f = language \<and> fst ` set row \<subseteq> set discharger_fields"
  by (auto simp: load_discharger_def bind_result_eq_Inr Let_def valid_discharger_fact_def only_fields_def
      unknown_fields_Nil dest: fact_strings_Inr split: if_splits)

lemma implication_name_Inr: "implication_name row field = Inr s \<Longrightarrow> s \<noteq> ''''"
  by (auto simp: implication_name_def split: pyval.splits if_splits)

lemma load_implication_Inr: "load_implication language row = Inr f \<Longrightarrow> valid_implication f \<and> if_language f = language"
  by (auto simp: load_implication_def bind_result_eq_Inr valid_implication_def dest: implication_name_Inr)

lemma map_result_all: "map_result f xs = Inr ys \<Longrightarrow> x \<in> set xs \<Longrightarrow> \<exists>y. f x = Inr y"
  by (induction xs arbitrary: ys) (auto simp: bind_result_eq_Inr)

lemma map_result_set: "map_result f xs = Inr ys \<Longrightarrow> y \<in> set ys \<Longrightarrow> \<exists>x \<in> set xs. f x = Inr y"
  by (induction xs arbitrary: ys) (auto simp: bind_result_eq_Inr)

lemma map_result_image: "map_result f xs = Inr ys \<Longrightarrow> x \<in> set xs \<Longrightarrow> f x = Inr y \<Longrightarrow> y \<in> set ys"
  by (induction xs arbitrary: ys) (auto simp: bind_result_eq_Inr)

lemma load_file_valid:
  assumes "load_file compiles file = Inr l"
  shows "snd file \<noteq> None" "\<forall>f \<in> set (lf_operations l). valid_operation_fact compiles f"
    "\<forall>f \<in> set (lf_dischargers l). valid_discharger_fact f" "\<forall>f \<in> set (lf_implications l). valid_implication f"
  using assms
  by (auto simp: load_file_def bind_result_eq_Inr Let_def split: option.splits
      dest!: map_result_set load_operation_Inr load_discharger_Inr load_implication_Inr)

lemma load_facts_files:
  assumes "load_facts_uncached compiles (Some files) = Inr facts"
  obtains loaded where "map_result (load_file compiles) (sort_key fst files) = Inr loaded"
    "of_operations facts = concat (map lf_operations loaded)"
    "of_dischargers facts = concat (map lf_dischargers loaded)"
    "of_implications facts = concat (map lf_implications loaded)"
  using assms by (auto simp: load_facts_uncached_def bind_result_eq_Inr)

definition valid_facts :: "(string \<Rightarrow> bool) \<Rightarrow> obligation_facts \<Rightarrow> bool" where
  "valid_facts compiles facts \<longleftrightarrow>
     list_all (valid_operation_fact compiles) (of_operations facts) \<and> list_all valid_discharger_fact (of_dischargers facts) \<and>
     list_all valid_implication (of_implications facts)"

lemma load_facts_valid:
  assumes "load_facts_uncached compiles (Some files) = Inr facts"
  shows "valid_facts compiles facts \<and> (\<forall>file \<in> set files. snd file \<noteq> None)"
proof -
  obtain loaded where l: "map_result (load_file compiles) (sort_key fst files) = Inr loaded"
    "of_operations facts = concat (map lf_operations loaded)"
    "of_dischargers facts = concat (map lf_dischargers loaded)"
    "of_implications facts = concat (map lf_implications loaded)"
    using load_facts_files [OF assms] by blast
  have read: "snd x \<noteq> None" if "x \<in> set files" for x
  proof -
    from map_result_all [OF l(1), of x] that obtain y where "load_file compiles x = Inr y" by auto
    then show ?thesis by (rule load_file_valid(1))
  qed
  have "list_all (valid_operation_fact compiles) (lf_operations y) \<and> list_all valid_discharger_fact (lf_dischargers y) \<and>
      list_all valid_implication (lf_implications y)" if "y \<in> set loaded" for y
  proof -
    from map_result_set [OF l(1) that] obtain x where "load_file compiles x = Inr y" by blast
    from load_file_valid(2-4) [OF this] show ?thesis by (simp add: list_all_iff)
  qed
  then show ?thesis using read by (auto simp: valid_facts_def l(2-4) list_all_iff)
qed

text \<open>
  The memo agrees with the directory states it has seen: each key stands for one content.
\<close>

definition memo_ok :: "(string \<Rightarrow> bool) \<Rightarrow> ('k \<Rightarrow> fact_file list) \<Rightarrow> ('k \<rightharpoonup> obligation_facts) \<Rightarrow> bool" where
  "memo_ok compiles contents memo \<longleftrightarrow>
     (\<forall>k facts. memo k = Some facts \<longrightarrow> load_facts_uncached compiles (Some (contents k)) = Inr facts)"


lemma valid_facts_for_language:
  "valid_facts compiles facts \<Longrightarrow> valid_facts compiles (facts_for_language facts language)"
  by (auto simp: valid_facts_def facts_for_language_def Let_def list_all_iff)

definition sample_facts_file :: fact_file where
  "sample_facts_file = (''rules/java.toml'', Some
     [(''version'', VInt 2),
      (''operation'', VList [VDict [(''id'', VStr ''delete''), (''kind'', VStr ''protected_write''), (''calls'', VList [VStr ''delete'']),
         (''requires'', VList [VStr ''path_guard''])]]),
      (''discharger'', VList [VDict [(''id'', VStr ''guard''), (''kind'', VStr ''path_guard''), (''calls'', VList [VStr ''check''])]])])"


lemma unknown_field_rejected:
  "load_operation (\<lambda>_. True) ''java'' [(''id'', VStr ''x''), (''kinds'', VStr ''protected_write'')] = Inl (ValueError ''unknown field'')"
  by code_simp

end
