(* ===== verification/Shapes.thy ===== *)
theory Shapes
  imports Facts
begin

text \<open>
  Obligated call sites, their dischargers, and the shapes learned from pairs of a vulnerable and a fixed
  file (\<open>semantic/obligations/shapes.py\<close>). The declared names of the functions of a file
  (\<open>source.ranges_from_ir\<close>) are the argument \<open>ranges\<close>: name and first line of each.
\<close>

section \<open>Patterns\<close>

definition RBehind :: "(char \<Rightarrow> bool) \<Rightarrow> regex" where
  "RBehind p = RNotAhead (RNotBehind p)"

definition RWordBound :: regex where
  "RWordBound = RAlt (RSeq (RNotBehind py_word) (RAhead (RChar py_word)))
     (RSeq (RBehind py_word) (RNotAhead (RChar py_word)))"

text \<open>The groups \<open>re.findall\<close> returns, for a pattern that matches no empty text.\<close>

function re_groups_from :: "regex \<Rightarrow> string \<Rightarrow> string \<Rightarrow> string option list" where
  "re_groups_from r behind rest =
     (case rmatch r (behind, rest, None) of
        (b, rest', g) # _ \<Rightarrow> g # (if length rest' < length rest then re_groups_from r b rest' else [])
      | [] \<Rightarrow> (case rest of [] \<Rightarrow> [] | c # cs \<Rightarrow> re_groups_from r (c # behind) cs))"
  by pat_completeness auto
termination by (relation "measure (\<lambda>(r, behind, rest). length rest)") auto

declare re_groups_from.simps [simp del]

definition re_groups :: "regex \<Rightarrow> string \<Rightarrow> string list" where
  "re_groups r s = List.map_filter id (re_groups_from r [] s)"

definition re_fullmatch :: "regex \<Rightarrow> string \<Rightarrow> bool" where
  "re_fullmatch r s = list_ex (\<lambda>(b, rest, g). rest = []) (rmatch r ([], s, None))"

definition value_char :: "char \<Rightarrow> bool" where
  "value_char c \<longleftrightarrow> c \<noteq> CHR '','' \<and> c \<noteq> CHR '')''"

definition assigned_value :: "regex \<Rightarrow> regex" where
  "assigned_value keyword = RSeqs [RWordBound, keyword, RStar py_space, RChar (\<lambda>c. c = CHR ''=''), RStar py_space,
     RGroup (RPlus value_char)]"

definition literal_regex :: regex where
  "literal_regex =
     (let quote = RChar (\<lambda>c. c = CHR 0x27 \<or> c = CHR 0x22); anything = RStar (\<lambda>c. code c \<noteq> 10) in
      RAlts [RSeqs [quote, anything, quote],
        RSeq (RPlus ascii_digit) (ROpt (RSeq (RLit ''.'') (RPlus ascii_digit))),
        RLit ''True'', RLit ''False'', RLit ''None'',
        RSeqs [RLit ''['', anything, RLit '']''], RSeqs [RLit ''{'', anything, RLit ''}'']])"

definition is_literal :: "string \<Rightarrow> bool" where
  "is_literal v = re_fullmatch literal_regex (strip v)"

definition identifier_regex :: regex where
  "identifier_regex = RSeq (RChar (\<lambda>c. ascii_letter c \<or> c = CHR ''_'')) (RStar (\<lambda>c. py_word c \<or> c = CHR ''.''))"

definition leave_regex :: regex where
  "leave_regex = RSeq (RStar py_space) (RAlts (map RLit [''return'', ''raise'', ''abort('', ''sys.exit'']))"

section \<open>Obligated call sites\<close>

record operation_site =
  os_call :: call_site
  os_fact :: operation_fact
  os_function :: function_ir
  os_line_text :: string

text \<open>The same rule as the taint walker: exact, dotted suffix, or the last segment of the fact.\<close>

definition call_matches :: "string \<Rightarrow> string \<Rightarrow> bool" where
  "call_matches name fact_call \<longleftrightarrow> name = fact_call \<or> ends_with (''.'' @ fact_call) name \<or>
     \<not> contains_text ''.'' name \<and> name = after_sep ''.'' fact_call"

definition all_constant :: "call_site \<Rightarrow> string \<Rightarrow> bool" where
  "all_constant call line_text =
     (let keyword_values = re_groups (assigned_value (RPlus py_word)) line_text;
          positional = (if cs_arg_texts call \<noteq> [] then list_all id (cs_arg_constant call) else True)
      in positional \<and> list_all (\<lambda>v. is_literal (strip v)) keyword_values \<and>
         (cs_arg_texts call \<noteq> [] \<or> keyword_values \<noteq> []))"

definition line_text_at :: "string list \<Rightarrow> int \<Rightarrow> string" where
  "line_text_at lines line = (if 0 < line \<and> line \<le> int (length lines) then lines ! nat (line - 1) else '''')"

text \<open>The first fact that recognises the call and whose call is not constant throughout.\<close>

definition site_of :: "function_ir \<Rightarrow> operation_fact list \<Rightarrow> string list \<Rightarrow> string option \<Rightarrow> call_site \<Rightarrow> operation_site option" where
  "site_of function facts lines kind call =
     (case find (\<lambda>f. (kind = None \<or> kind = Some (f_kind f)) \<and> list_ex (call_matches (cs_name call)) (f_calls f) \<and>
            \<not> all_constant call (line_text_at lines (cs_line call))) facts of
        None \<Rightarrow> None
      | Some f \<Rightarrow> Some \<lparr>os_call = call, os_fact = f, os_function = function,
          os_line_text = line_text_at lines (cs_line call)\<rparr>)"

definition operation_sites :: "function_ir \<Rightarrow> obligation_facts \<Rightarrow> string list \<Rightarrow> string option \<Rightarrow> operation_site list" where
  "operation_sites function facts lines kind =
     List.map_filter (site_of function (of_operations facts) lines kind) (fn_calls function)"

section \<open>Where a constraint's value comes from\<close>

definition flow_source_in :: "string \<Rightarrow> semantic_facts \<Rightarrow> discharger_fact option \<Rightarrow> bool" where
  "flow_source_in t flow df \<longleftrightarrow>
     (\<exists>s \<in> set (sm_sources flow). \<exists>p \<in> set (sc_patterns s). p \<noteq> '''' \<and> contains_text p t) \<or>
     (case df of None \<Rightarrow> False | Some f \<Rightarrow> \<exists>p \<in> set (df_request_sources f). contains_text p t)"

text \<open>\<open>max(binds, key=line)\<close>: the first of the latest.\<close>

fun latest_bind :: "bind \<Rightarrow> bind list \<Rightarrow> bind" where
  "latest_bind best [] = best"
| "latest_bind best (b # bs) = latest_bind (if bd_line b > bd_line best then b else best) bs"

definition names_identity :: "discharger_fact \<Rightarrow> string \<Rightarrow> bool" where
  "names_identity df t = list_ex (\<lambda>p. contains_text p t) (df_identity_sources df)"

text \<open>The argument counts how many bindings may still be followed; the code stops after depth 8.\<close>

fun provenance_within :: "nat \<Rightarrow> string \<Rightarrow> function_ir \<Rightarrow> int \<Rightarrow> discharger_fact \<Rightarrow> semantic_facts \<Rightarrow> string" where
  "provenance_within 0 v function before_line df flow = ''unknown''"
| "provenance_within (Suc k) v function before_line df flow =
     (if names_identity df v then ''authenticated_context''
      else if is_literal v then ''constant''
      else case re_match identifier_regex v of
        None \<Rightarrow> ''unknown''
      | Some (matched, _, _) \<Rightarrow>
          (let name = before_char (CHR ''.'') (rev matched) in
           case filter (\<lambda>b. bd_name b = name \<and> bd_line b < before_line) (fn_binds function) of
             b # bs \<Rightarrow>
               (let bound = latest_bind b bs in
                if names_identity df (bd_value_text bound) then ''authenticated_context''
                else if flow_source_in (bd_value_text bound) flow (Some df) then ''request_input''
                else case find (\<lambda>p. p \<noteq> ''unknown'')
                    (map (\<lambda>inner. provenance_within k inner function (bd_line bound) df flow)
                      (filter (\<lambda>inner. inner \<noteq> name) (bd_names bound))) of
                  Some p \<Rightarrow> p
                | None \<Rightarrow> if bd_constant bound \<and> bd_names bound = [] then ''constant'' else ''unknown'')
           | [] \<Rightarrow>
               if name \<in> set (fn_params function) then ''request_input''
               else if flow_source_in v flow (Some df) then ''request_input''
               else ''unknown''))"

definition provenance_of :: "string \<Rightarrow> function_ir \<Rightarrow> int \<Rightarrow> discharger_fact \<Rightarrow> semantic_facts \<Rightarrow> string" where
  "provenance_of = provenance_within 9"

text \<open>The value a constraint keyword of the fact binds on the operation's line.\<close>

definition constrained_value :: "string \<Rightarrow> discharger_fact \<Rightarrow> string option" where
  "constrained_value line_text df =
     (case List.map_filter (\<lambda>p. re_find (assigned_value (RLit p)) line_text) (df_constraint_params df) of
        (_, Some g) # _ \<Rightarrow> Some (strip g)
      | _ \<Rightarrow> None)"

definition constraint_provenance :: "operation_site \<Rightarrow> discharger_fact \<Rightarrow> semantic_facts \<Rightarrow> string option" where
  "constraint_provenance site df flow =
     map_option (\<lambda>v. provenance_of v (os_function site) (cs_line (os_call site)) df flow)
       (constrained_value (os_line_text site) df)"

section \<open>Dischargers of an operation\<close>

definition permissive :: "operation_site \<Rightarrow> discharger_fact \<Rightarrow> bool" where
  "permissive site df = list_ex (\<lambda>token. contains_text token (os_line_text site)) (df_permissive_values df)"

definition guarded_before :: "operation_site \<Rightarrow> discharger_fact \<Rightarrow> string list \<Rightarrow> bool" where
  "guarded_before site df lines =
     (let start = fn_start (os_function site);
          decorators = filter (starts_with ''@'') (map strip (py_slice (max (start - 8) 0) (start - 1) lines));
          guards = map cs_line (filter (\<lambda>call. cs_line call < cs_line (os_call site) \<and>
            list_ex (call_matches (cs_name call)) (df_calls df)) (fn_calls (os_function site)))
      in if list_ex (\<lambda>d. list_ex (\<lambda>n. contains_text n d) (df_decorators df)) decorators then True
         else if guards = [] then False
         else if df_kind df \<noteq> ''path_guard'' then True
         else list_ex (\<lambda>l. re_match leave_regex l \<noteq> None)
           (py_slice (Min (set guards)) (cs_line (os_call site) - 1) lines))"

record discharge_lesson =
  dl_kind :: string
  dl_provenance :: string

definition guard_provenance :: "string \<Rightarrow> string" where
  "guard_provenance kind = (if kind = ''path_guard'' then ''authenticated_context'' else ''unknown'')"

definition lesson_of :: "operation_site \<Rightarrow> semantic_facts \<Rightarrow> string list \<Rightarrow> discharger_fact \<Rightarrow> discharge_lesson option" where
  "lesson_of site flow lines df =
     (if df_kind df \<notin> set (f_requires (os_fact site)) then None
      else if df_kind df = ''identity_constraint''
      then (if constraint_provenance site df flow = Some ''authenticated_context''
            then Some \<lparr>dl_kind = ''identity_constraint'', dl_provenance = ''authenticated_context''\<rparr> else None)
      else if df_kind df \<in> {''path_guard'', ''ownership_check'', ''validated_input''}
      then (if guarded_before site df lines
            then Some \<lparr>dl_kind = df_kind df, dl_provenance = guard_provenance (df_kind df)\<rparr> else None)
      else if df_kind df = ''non_permissive_value'' \<and> list_ex (call_matches (cs_name (os_call site))) (df_calls df) \<and>
        \<not> permissive site df
      then Some \<lparr>dl_kind = ''non_permissive_value'', dl_provenance = ''constant''\<rparr>
      else None)"

definition discharge_of :: "operation_site \<Rightarrow> obligation_facts \<Rightarrow> semantic_facts \<Rightarrow> string list \<Rightarrow> discharge_lesson option" where
  "discharge_of site facts flow lines =
     (case List.map_filter (lesson_of site flow lines) (of_dischargers facts) of [] \<Rightarrow> None | l # _ \<Rightarrow> Some l)"

section \<open>Shapes learned from a pair\<close>

definition shape_family :: string where
  "shape_family = ''obligation''"

definition resource_classes :: "string list" where
  "resource_classes = [''owned'', ''global'', ''setting'']"

definition absence_mechanisms :: "string list" where
  "absence_mechanisms = [''missing_auth_guard'', ''identity_from_request_body'', ''permissive_default'',
     ''validation_strength'', ''unconstrained_protected_read'', ''unconstrained_protected_write'',
     ''unguarded_privileged_action'']"

record obligation_shape =
  sh_language :: string
  sh_operation_kind :: string
  sh_discharger_kind :: string
  sh_provenance :: string
  sh_resource_class :: string
  sh_mechanism :: string
  sh_family :: string

definition shape_key :: "obligation_shape \<Rightarrow> string" where
  "shape_key s = join_with ''|'' [sh_family s, sh_language s, sh_operation_kind s, sh_discharger_kind s,
     sh_provenance s, sh_resource_class s, sh_mechanism s]"

definition shape_to_dict :: "obligation_shape \<Rightarrow> table" where
  "shape_to_dict s = [(''family'', VStr (sh_family s)), (''language'', VStr (sh_language s)),
     (''operation_kind'', VStr (sh_operation_kind s)), (''discharger_kind'', VStr (sh_discharger_kind s)),
     (''provenance'', VStr (sh_provenance s)), (''resource_class'', VStr (sh_resource_class s)),
     (''mechanism'', VStr (sh_mechanism s))]"

definition text_or :: "table \<Rightarrow> string \<Rightarrow> string \<Rightarrow> string" where
  "text_or d k v = py_str (value_or d k (VStr v))"

definition shape_from_dict :: "table \<Rightarrow> obligation_shape result" where
  "shape_from_dict payload =
     (let s = \<lparr>sh_language = text_or payload ''language'' '''', sh_operation_kind = text_or payload ''operation_kind'' '''',
            sh_discharger_kind = text_or payload ''discharger_kind'' '''', sh_provenance = text_or payload ''provenance'' ''unknown'',
            sh_resource_class = text_or payload ''resource_class'' ''global'', sh_mechanism = text_or payload ''mechanism'' ''other'',
            sh_family = text_or payload ''family'' shape_family\<rparr> in
      bind_result (require (sh_family s = shape_family) ''not an obligation shape'') (\<lambda>_.
      bind_result (require (sh_operation_kind s \<in> set operation_kinds) ''unknown operation_kind'') (\<lambda>_.
      bind_result (require (sh_discharger_kind s \<in> set discharger_kinds) ''unknown discharger_kind'') (\<lambda>_.
      bind_result (require (sh_provenance s \<in> set provenance_kinds) ''unknown provenance'') (\<lambda>_.
      bind_result (require (sh_resource_class s \<in> set resource_classes) ''unknown resource_class'') (\<lambda>_.
      Inr s))))))"

definition resource_class :: "string \<Rightarrow> string \<Rightarrow> string" where
  "resource_class operation_kind discharger_kind =
     (if operation_kind = ''security_setting'' then ''setting''
      else if discharger_kind \<in> {''identity_constraint'', ''ownership_check''} then ''owned'' else ''global'')"

text \<open>The function of a given name: by the parser's name, else by the declared name of its first line.\<close>

definition function_named :: "(file_ir \<Rightarrow> string \<Rightarrow> (string \<times> int) list) \<Rightarrow> file_ir \<Rightarrow> string \<Rightarrow> string \<Rightarrow> function_ir option" where
  "function_named ranges ir function t =
     (case find (\<lambda>f. fn_name f = function) (fi_functions ir) of
        Some f \<Rightarrow> Some f
      | None \<Rightarrow> if t = '''' then None
          else (case List.map_filter (\<lambda>(name, start). find (\<lambda>f. fn_start f = start) (fi_functions ir))
              (filter (\<lambda>(name, start). name = function) (ranges ir t)) of
            [] \<Rightarrow> None | f # _ \<Rightarrow> Some f))"

definition same_kind_function :: "file_ir \<Rightarrow> string \<Rightarrow> obligation_facts \<Rightarrow> string list \<Rightarrow> function_ir option" where
  "same_kind_function ir kind facts lines =
     find (\<lambda>f. fn_name f \<noteq> ''<module>'' \<and> operation_sites f facts lines (Some kind) \<noteq> []) (fi_functions ir)"

definition setting_lesson :: "operation_site \<Rightarrow> function_ir \<Rightarrow> obligation_facts \<Rightarrow> string list \<Rightarrow> discharge_lesson option" where
  "setting_lesson target fixed_fn facts lines =
     (let settings = filter (\<lambda>f. df_kind f = ''non_permissive_value'') (of_dischargers facts) in
      if list_ex (\<lambda>op. trailing_name (cs_name (os_call op)) = trailing_name (cs_name (os_call target)) \<and>
          \<not> list_ex (permissive op) settings \<and> strip (os_line_text op) \<noteq> strip (os_line_text target))
        (operation_sites fixed_fn facts lines (Some ''security_setting''))
      then Some \<lparr>dl_kind = ''non_permissive_value'', dl_provenance = ''constant''\<rparr> else None)"

definition first_lesson :: "operation_site list \<Rightarrow> obligation_facts \<Rightarrow> semantic_facts \<Rightarrow> string list \<Rightarrow> discharge_lesson option" where
  "first_lesson sites facts flow lines =
     (case List.map_filter (\<lambda>op. discharge_of op facts flow lines) sites of [] \<Rightarrow> None | l # _ \<Rightarrow> Some l)"

text \<open>
  The lesson of the fixed side. In the search of the vulnerable side the code means to skip the target,
  by comparing sites just built with one built before; the target has no discharger, so nothing is lost.
\<close>

definition fixed_lesson :: "operation_site \<Rightarrow> string \<Rightarrow> function_ir option \<Rightarrow> obligation_facts \<Rightarrow> semantic_facts \<Rightarrow> string list \<Rightarrow>
    discharge_lesson option" where
  "fixed_lesson target kind fixed_fn facts flow lines =
     (case fixed_fn of
        None \<Rightarrow> None
      | Some f \<Rightarrow> (case first_lesson (operation_sites f facts lines (Some (f_kind (os_fact target)))) facts flow lines of
            Some l \<Rightarrow> Some l
          | None \<Rightarrow> if kind = ''security_setting'' then setting_lesson target f facts lines else None))"

text \<open>Any obligated operation stands in when the labelled kind is not visible.\<close>

definition labelled_operations :: "function_ir \<Rightarrow> obligation_facts \<Rightarrow> string list \<Rightarrow> string option \<Rightarrow> operation_site list" where
  "labelled_operations function facts lines obligation =
     (let found = operation_sites function facts lines obligation in
      if found = [] \<and> obligation \<noteq> None then operation_sites function facts lines None else found)"

definition labelled_kind :: "string option \<Rightarrow> operation_site \<Rightarrow> string" where
  "labelled_kind obligation target =
     (case obligation of None \<Rightarrow> f_kind (os_fact target) | Some k \<Rightarrow> if k = '''' then f_kind (os_fact target) else k)"

definition lesson_for :: "operation_site \<Rightarrow> string \<Rightarrow> function_ir option \<Rightarrow> function_ir \<Rightarrow> obligation_facts \<Rightarrow> semantic_facts \<Rightarrow>
    string list \<Rightarrow> string list \<Rightarrow> discharge_lesson option" where
  "lesson_for target kind fixed_fn vuln_fn facts flow fixed_lines vuln_lines =
     (case fixed_lesson target kind fixed_fn facts flow fixed_lines of
        Some l \<Rightarrow> Some l
      | None \<Rightarrow> first_lesson (operation_sites vuln_fn facts vuln_lines (Some (f_kind (os_fact target)))) facts flow vuln_lines)"

definition analyze :: "(file_ir \<Rightarrow> string \<Rightarrow> (string \<times> int) list) \<Rightarrow> file_ir \<Rightarrow> file_ir \<Rightarrow> string \<Rightarrow> string option \<Rightarrow> string \<Rightarrow>
    obligation_facts \<Rightarrow> semantic_facts \<Rightarrow> string \<Rightarrow> string \<Rightarrow> string + obligation_shape" where
  "analyze ranges vuln fixed function obligation mechanism facts flow_facts vuln_text fixed_text =
     (if \<not> fi_ok vuln \<or> \<not> fi_ok fixed then Inl ''parse_failed''
      else let scoped = facts_for_language facts (fi_language vuln); flow = semantic_for_language flow_facts (fi_language vuln);
               vuln_lines = split_lines vuln_text; fixed_lines = split_lines fixed_text in
        case function_named ranges vuln function vuln_text of
          None \<Rightarrow> Inl ''no_labeled_function''
        | Some vuln_fn \<Rightarrow>
            (let operations = labelled_operations vuln_fn scoped vuln_lines obligation
             in if operations = [] then Inl ''no_obligated_operation''
                else case filter (\<lambda>op. discharge_of op scoped flow vuln_lines = None) operations of
                  [] \<Rightarrow> Inl ''no_undischarged_operation''
                | target # _ \<Rightarrow>
                    (let kind = labelled_kind obligation target;
                         fixed_fn = (case function_named ranges fixed function fixed_text of
                            Some f \<Rightarrow> Some f | None \<Rightarrow> same_kind_function fixed (f_kind (os_fact target)) scoped fixed_lines)
                     in case lesson_for target kind fixed_fn vuln_fn scoped flow fixed_lines vuln_lines of
                          None \<Rightarrow> Inl (''no_discharger_added:'' @ join_with ''|'' (f_requires (os_fact target)))
                        | Some l \<Rightarrow> Inr \<lparr>sh_language = fi_language vuln, sh_operation_kind = kind, sh_discharger_kind = dl_kind l,
                            sh_provenance = dl_provenance l, sh_resource_class = resource_class kind (dl_kind l),
                            sh_mechanism = mechanism, sh_family = shape_family\<rparr>)))"

definition derive_obligation :: "(file_ir \<Rightarrow> string \<Rightarrow> (string \<times> int) list) \<Rightarrow> file_ir \<Rightarrow> file_ir \<Rightarrow> string \<Rightarrow> string option \<Rightarrow>
    string \<Rightarrow> obligation_facts \<Rightarrow> semantic_facts \<Rightarrow> string \<Rightarrow> string \<Rightarrow> obligation_shape option" where
  "derive_obligation ranges vuln fixed function obligation mechanism facts flow_facts vuln_text fixed_text =
     (case analyze ranges vuln fixed function obligation mechanism facts flow_facts vuln_text fixed_text of
        Inr s \<Rightarrow> Some s | Inl _ \<Rightarrow> None)"

definition explain_skip :: "(file_ir \<Rightarrow> string \<Rightarrow> (string \<times> int) list) \<Rightarrow> file_ir \<Rightarrow> file_ir \<Rightarrow> string \<Rightarrow> string option \<Rightarrow>
    obligation_facts \<Rightarrow> semantic_facts \<Rightarrow> string \<Rightarrow> string \<Rightarrow> string" where
  "explain_skip ranges vuln fixed function obligation facts flow_facts vuln_text fixed_text =
     (case analyze ranges vuln fixed function obligation ''other'' facts flow_facts vuln_text fixed_text of
        Inr s \<Rightarrow> ''ok'' | Inl reason \<Rightarrow> reason)"

section \<open>What a shape and a lesson are worth\<close>

definition valid_shape :: "obligation_shape \<Rightarrow> bool" where
  "valid_shape s \<longleftrightarrow> sh_family s = shape_family \<and> sh_operation_kind s \<in> set operation_kinds \<and>
     sh_discharger_kind s \<in> set discharger_kinds \<and> sh_provenance s \<in> set provenance_kinds \<and>
     sh_resource_class s \<in> set resource_classes"

lemma shape_from_dict_valid: "shape_from_dict d = Inr s \<Longrightarrow> valid_shape s"
  by (auto simp: shape_from_dict_def Let_def bind_result_eq_Inr valid_shape_def)

lemma shape_to_dict_text:
  "text_or (shape_to_dict s) ''language'' a = sh_language s" "text_or (shape_to_dict s) ''operation_kind'' a = sh_operation_kind s"
  "text_or (shape_to_dict s) ''discharger_kind'' a = sh_discharger_kind s" "text_or (shape_to_dict s) ''provenance'' a = sh_provenance s"
  "text_or (shape_to_dict s) ''resource_class'' a = sh_resource_class s" "text_or (shape_to_dict s) ''mechanism'' a = sh_mechanism s"
  "text_or (shape_to_dict s) ''family'' a = sh_family s"
  by (simp_all add: text_or_def value_or_def shape_to_dict_def)

lemma shape_read_back: "valid_shape s \<Longrightarrow> shape_from_dict (shape_to_dict s) = Inr s"
  by (simp add: shape_from_dict_def shape_to_dict_text valid_shape_def require_def Let_def)

text \<open>
  Shapes survive storage, and only shapes of the closed vocabulary are read back: reading the
  dictionary of a valid shape gives the shape, of any other shape an error.
\<close>

theorem shape_roundtrip:
  "case shape_from_dict (shape_to_dict s) of Inr t \<Rightarrow> valid_shape s \<and> t = s | Inl e \<Rightarrow> \<not> valid_shape s"
proof (cases "valid_shape s")
  case False
  then have "shape_from_dict (shape_to_dict s) = Inr t \<Longrightarrow> False" for t
    by (auto simp: shape_from_dict_def shape_to_dict_text Let_def bind_result_eq_Inr valid_shape_def)
  then show ?thesis using False by (cases "shape_from_dict (shape_to_dict s)") auto
qed (simp add: shape_read_back)

section \<open>What a lesson rests on\<close>

text \<open>The name an authenticated value goes back to: the value itself, or a binding of the function before the line.\<close>

definition names_caller :: "discharger_fact \<Rightarrow> function_ir \<Rightarrow> int \<Rightarrow> string \<Rightarrow> bool" where
  "names_caller df function line v \<longleftrightarrow> names_identity df v \<or>
     (\<exists>b \<in> set (fn_binds function). bd_line b < line \<and>
        (names_identity df (bd_value_text b) \<or> (\<exists>n \<in> set (bd_names b). names_identity df n)))"

lemma latest_bind_in: "latest_bind b bs \<in> set (b # bs)"
  by (induction b bs rule: latest_bind.induct) auto

lemma names_caller_mono: "names_caller df function line v \<Longrightarrow> line \<le> line' \<Longrightarrow> names_caller df function line' v"
  by (fastforce simp: names_caller_def)

lemma names_caller_inner:
  "names_caller df function (bd_line b) n \<Longrightarrow> b \<in> set (fn_binds function) \<Longrightarrow> bd_line b < line \<Longrightarrow>
     n \<in> set (bd_names b) \<Longrightarrow> names_caller df function line v"
  by (fastforce simp: names_caller_def)

lemma provenance_authenticated:
  "provenance_within k v function line df flow = ''authenticated_context'' \<Longrightarrow> names_caller df function line v"
proof (induction k arbitrary: v line)
  case (Suc k)
  show ?case
  proof (cases "names_identity df v")
    case False
    with Suc.prems obtain matched r g where m: "re_match identifier_regex v = Some (matched, r, g)"
      by (fastforce split: if_splits option.splits)
    define name where "name = before_char (CHR ''.'') (rev matched)"
    show ?thesis
    proof (cases "filter (\<lambda>b. bd_name b = name \<and> bd_line b < line) (fn_binds function)")
      case Nil
      with Suc.prems False m show ?thesis by (simp add: name_def Let_def split: if_splits)
    next
      case (Cons b bs)
      define bound where "bound = latest_bind b bs"
      have "bound \<in> set (filter (\<lambda>b. bd_name b = name \<and> bd_line b < line) (fn_binds function))"
        unfolding Cons bound_def by (rule latest_bind_in)
      then have bound: "bound \<in> set (fn_binds function)" "bd_line bound < line" by auto
      show ?thesis
      proof (cases "names_identity df (bd_value_text bound)")
        case True
        with bound show ?thesis by (auto simp: names_caller_def)
      next
        case ident: False
        let ?ps = "map (\<lambda>inner. provenance_within k inner function (bd_line bound) df flow)
                (filter (\<lambda>inner. inner \<noteq> name) (bd_names bound))"
        have "find (\<lambda>p. p \<noteq> ''unknown'') ?ps = Some ''authenticated_context''"
          using Suc.prems False m Cons ident
          by (cases "find (\<lambda>p. p \<noteq> ''unknown'') ?ps")
            (simp_all add: name_def [symmetric] bound_def [symmetric] Let_def split: if_splits)
        then have "''authenticated_context'' \<in> set ?ps" by (blast dest: find_SomeD)
        then obtain n where n: "n \<in> set (bd_names bound)"
          "provenance_within k n function (bd_line bound) df flow = ''authenticated_context''" by auto
        from Suc.IH [OF n(2)] bound n(1) show ?thesis by (rule names_caller_inner)
      qed
    qed
  qed (simp add: names_caller_def)
qed simp

definition lesson_kinds :: "(string \<times> string) set" where
  "lesson_kinds = {(''identity_constraint'', ''authenticated_context''), (''path_guard'', ''authenticated_context''),
     (''ownership_check'', ''unknown''), (''validated_input'', ''unknown''), (''non_permissive_value'', ''constant'')}"

lemma lesson_of_kind: "lesson_of site flow lines df = Some l \<Longrightarrow>
    dl_kind l = df_kind df \<and> df_kind df \<in> set (f_requires (os_fact site)) \<and> (dl_kind l, dl_provenance l) \<in> lesson_kinds"
  by (auto simp: lesson_of_def lesson_kinds_def guard_provenance_def split: if_splits)

lemma discharge_of_lesson: "discharge_of site facts flow lines = Some l \<Longrightarrow>
    \<exists>df \<in> set (of_dischargers facts). lesson_of site flow lines df = Some l"
  by (auto simp: discharge_of_def split: list.splits dest: map_filter_head)

lemma first_lesson_site: "first_lesson sites facts flow lines = Some l \<Longrightarrow>
    \<exists>site \<in> set sites. discharge_of site facts flow lines = Some l"
  by (auto simp: first_lesson_def split: list.splits dest: map_filter_head)

lemma site_of_Some:
  assumes "site_of function facts lines kind call = Some site"
  shows "os_call site = call \<and> os_function site = function \<and> os_line_text site = line_text_at lines (cs_line call) \<and>
    os_fact site \<in> set facts \<and> (kind = None \<or> kind = Some (f_kind (os_fact site))) \<and>
    list_ex (call_matches (cs_name call)) (f_calls (os_fact site)) \<and> \<not> all_constant call (line_text_at lines (cs_line call))"
proof -
  let ?P = "\<lambda>f. (kind = None \<or> kind = Some (f_kind f)) \<and> list_ex (call_matches (cs_name call)) (f_calls f) \<and>
     \<not> all_constant call (line_text_at lines (cs_line call))"
  show ?thesis
  proof (cases "find ?P facts")
    case None
    with assms show ?thesis by (simp add: site_of_def del: find_None_iff)
  next
    case (Some f)
    then have "site = \<lparr>os_call = call, os_fact = f, os_function = function, os_line_text = line_text_at lines (cs_line call)\<rparr>"
      using assms unfolding site_of_def by (simp only: option.case option.inject)
    with find_SomeD [OF Some] show ?thesis by simp
  qed
qed

lemma operation_sites_in: "site \<in> set (operation_sites function facts lines kind) \<Longrightarrow>
    os_call site \<in> set (fn_calls function) \<and> os_fact site \<in> set (of_operations facts) \<and> os_function site = function \<and>
    (kind = None \<or> kind = Some (f_kind (os_fact site))) \<and> \<not> all_constant (os_call site) (os_line_text site) \<and>
    list_ex (call_matches (cs_name (os_call site))) (f_calls (os_fact site)) \<and>
    os_line_text site = line_text_at lines (cs_line (os_call site))"
  by (auto simp: operation_sites_def in_map_filter dest!: site_of_Some)


text \<open>The lesson of a pair: a discharged sibling of the target, or a setting of the fixed side that is not permissive.\<close>

definition taught_by :: "operation_site \<Rightarrow> obligation_facts \<Rightarrow> semantic_facts \<Rightarrow> function_ir \<Rightarrow> string list \<Rightarrow> discharge_lesson \<Rightarrow> bool" where
  "taught_by target facts flow function lines l \<longleftrightarrow>
     (\<exists>site \<in> set (operation_sites function facts lines (Some (f_kind (os_fact target)))).
        discharge_of site facts flow lines = Some l) \<or>
     setting_lesson target function facts lines = Some l"

lemma taught_by_kinds: "taught_by target facts flow function lines l \<Longrightarrow> (dl_kind l, dl_provenance l) \<in> lesson_kinds"
  by (auto simp: taught_by_def setting_lesson_def lesson_kinds_def Let_def dest!: discharge_of_lesson lesson_of_kind split: if_splits)

lemma first_lesson_taught:
  "first_lesson (operation_sites f facts lines (Some (f_kind (os_fact target)))) facts flow lines = Some l \<Longrightarrow>
     taught_by target facts flow f lines l"
  using first_lesson_site by (fastforce simp: taught_by_def)

lemma fixed_lesson_taught:
  "fixed_lesson target kind fixed_fn facts flow lines = Some l \<Longrightarrow>
     \<exists>f. fixed_fn = Some f \<and> taught_by target facts flow f lines l"
  by (auto simp: fixed_lesson_def taught_by_def split: option.splits if_splits dest: first_lesson_taught [unfolded taught_by_def])

lemma lesson_for_taught:
  assumes "lesson_for target kind fixed_fn vuln_fn facts flow fixed_lines vuln_lines = Some l"
  shows "\<exists>f. taught_by target facts flow f fixed_lines l \<or> f = vuln_fn \<and> taught_by target facts flow f vuln_lines l"
proof (cases "fixed_lesson target kind fixed_fn facts flow fixed_lines")
  case None
  with assms show ?thesis by (auto simp: lesson_for_def dest: first_lesson_taught)
next
  case (Some x)
  with assms show ?thesis by (auto simp: lesson_for_def dest: fixed_lesson_taught)
qed

lemma analyze_Inr:
  assumes "analyze ranges vuln fixed function obligation mechanism facts flow_facts vuln_text fixed_text = Inr s"
  defines "scoped \<equiv> facts_for_language facts (fi_language vuln)"
    and "flow \<equiv> semantic_for_language flow_facts (fi_language vuln)"
  shows "\<exists>vuln_fn target rest fixed_fn l.
    function_named ranges vuln function vuln_text = Some vuln_fn \<and>
    filter (\<lambda>op. discharge_of op scoped flow (split_lines vuln_text) = None)
      (labelled_operations vuln_fn scoped (split_lines vuln_text) obligation) = target # rest \<and>
    lesson_for target (labelled_kind obligation target) fixed_fn vuln_fn scoped flow
      (split_lines fixed_text) (split_lines vuln_text) = Some l \<and>
    s = \<lparr>sh_language = fi_language vuln, sh_operation_kind = labelled_kind obligation target,
      sh_discharger_kind = dl_kind l, sh_provenance = dl_provenance l,
      sh_resource_class = resource_class (labelled_kind obligation target) (dl_kind l),
      sh_mechanism = mechanism, sh_family = shape_family\<rparr>"
  using assms(1) unfolding analyze_def Let_def scoped_def flow_def
  by (simp split: if_splits option.splits list.splits) blast+

lemma resource_class_known: "resource_class k d \<in> set resource_classes"
  by (simp add: resource_class_def resource_classes_def)

lemma lesson_kinds_known: "(d, p) \<in> lesson_kinds \<Longrightarrow> d \<in> set discharger_kinds \<and> p \<in> set provenance_kinds"
  by (auto simp: lesson_kinds_def discharger_kinds_def provenance_kinds_def)

lemma facts_for_language_operations: "set (of_operations (facts_for_language facts l)) \<subseteq> set (of_operations facts)"
  by (auto simp: facts_for_language_def Let_def)


section \<open>A pair that teaches\<close>

definition pair_fact :: operation_fact where
  "pair_fact = \<lparr>f_id = ''orm_filter'', f_kind = ''protected_read'', f_language = ''python'', f_calls = [''filter_by''],
     f_resource_arg = None, f_requires = [''identity_constraint''], f_sensitivity = ''high'', f_query_document_arg = None,
     f_handlers = [], f_framework = None, f_request_global_kinds = []\<rparr>"

definition pair_discharger :: discharger_fact where
  "pair_discharger = \<lparr>df_id = ''owner'', df_kind = ''identity_constraint'', df_language = ''python'', df_calls = [],
     df_decorators = [], df_identity_sources = [''current_user''], df_constraint_params = [''owner''],
     df_request_sources = [''request.''], df_permissive_values = []\<rparr>"

definition pair_facts :: obligation_facts where
  "pair_facts = \<lparr>of_version = ''1'', of_operations = [pair_fact], of_dischargers = [pair_discharger], of_implications = []\<rparr>"

definition pair_file :: "int \<Rightarrow> bind list \<Rightarrow> file_ir" where
  "pair_file line binds = \<lparr>fi_path = ''books.py'', fi_language = ''python'', fi_engine = ''tree-sitter'',
     fi_functions = [\<lparr>fn_name = ''show'', fn_params = [''book_id''], fn_start = 1, fn_end = line, fn_binds = binds,
       fn_calls = [\<lparr>cs_name = ''Book.filter_by'', cs_line = line, cs_arg_texts = [], cs_arg_constant = [], cs_arg_names = [],
         cs_extra_sequence = False, cs_order = 1, cs_receiver = Some ''Book'', cs_arity = Some 1\<rparr>]\<rparr>],
     fi_ok = True, fi_reason = None\<rparr>"

definition pair_vuln :: file_ir where "pair_vuln = pair_file 2 []"

definition pair_fixed :: file_ir where
  "pair_fixed = pair_file 3 [\<lparr>bd_name = ''me'', bd_line = 2, bd_value_text = ''current_user.id'', bd_constant = False,
     bd_names = [''current_user''], bd_call = None, bd_order = 1\<rparr>]"

definition newline :: string where "newline = [CHR 10]"

definition pair_vuln_text :: string where
  "pair_vuln_text = ''def show(book_id):'' @ newline @ ''    Book.filter_by(id=book_id)'' @ newline"

definition pair_fixed_text :: string where
  "pair_fixed_text = ''def show(book_id):'' @ newline @ ''    me = current_user.id'' @ newline @
     ''    Book.filter_by(id=book_id, owner=me)'' @ newline"

definition pair_flow :: semantic_facts where "pair_flow = \<lparr>sm_version = ''1'', sm_sources = []\<rparr>"

definition pair_shape :: obligation_shape where
  "pair_shape = \<lparr>sh_language = ''python'', sh_operation_kind = ''protected_read'', sh_discharger_kind = ''identity_constraint'',
     sh_provenance = ''authenticated_context'', sh_resource_class = ''owned'', sh_mechanism = ''missing_auth_guard'',
     sh_family = ''obligation''\<rparr>"

lemmas pair_defs = pair_fact_def pair_discharger_def pair_facts_def pair_file_def pair_vuln_def pair_fixed_def
  newline_def pair_vuln_text_def pair_fixed_text_def pair_flow_def pair_shape_def

lemma pair_derives: "derive_obligation (\<lambda>ir t. []) pair_vuln pair_fixed ''show'' (Some ''protected_read'') ''missing_auth_guard''
    pair_facts pair_flow pair_vuln_text pair_fixed_text = Some pair_shape"
  by code_simp


definition pair_site :: operation_site where
  "pair_site = hd (operation_sites (hd (fi_functions pair_fixed)) pair_facts (split_lines pair_fixed_text) None)"

definition pair_lesson :: discharge_lesson where
  "pair_lesson = \<lparr>dl_kind = ''identity_constraint'', dl_provenance = ''authenticated_context''\<rparr>"


end
