(* ===== verification/Recognise.thy ===== *)
theory Recognise
  imports Shapes
begin

text \<open>
  Recognising obligated operations and discharge witnesses in one parsed file
  (\<open>find_operations\<close>, \<open>find_discharges\<close> of \<open>semantic/obligations/operations.py\<close>). The two index
  expressions that can leave a list are errors. Searching a handler pattern of the facts in a name is
  the argument \<open>pattern_in\<close>.
\<close>

section \<open>Entry points\<close>

text \<open>The fields of \<open>EntryPointRecord\<close> (\<open>mapping/legacy.py\<close>) the obligation stages read.\<close>

record entry_point =
  ep_path :: string
  ep_line :: "int option"
  ep_function :: "string option"
  ep_name :: string
  ep_kind :: string
  ep_access :: string
  ep_boundary :: string
  ep_evidence :: "string list"

definition named_entry :: "entry_point \<Rightarrow> string option" where
  "named_entry e = (case ep_function e of None \<Rightarrow> None | Some n \<Rightarrow> if n = '''' then None else Some n)"

section \<open>Operations\<close>

text \<open>A letter of a pattern under \<open>re.I\<close>.\<close>

fun RLitI :: "string \<Rightarrow> regex" where
  "RLitI [] = REps"
| "RLitI (c # cs) = RSeq (RChar (\<lambda>x. lower_char x = c)) (RLitI cs)"

definition word_regex :: regex where
  "word_regex = RSeq (RChar (\<lambda>c. ascii_letter c \<or> c = CHR ''_'')) (RStar py_word)"

definition sql_table_regex :: regex where
  "sql_table_regex = RSeqs [RWordBound, RAlts (map RLitI [''from'', ''into'', ''update'', ''join'']), RPlus py_space,
     RGroup word_regex]"

definition receiver_names :: "string list" where
  "receiver_names = [''self'', ''cls'', ''db'', ''session'', ''cursor'', ''conn'', ''connection'', ''c'', ''cur'', ''request'',
     ''req'', ''this'']"

text \<open>\<open>xs[i]\<close> of Python: negative positions count from the end.\<close>

definition py_index :: "'a list \<Rightarrow> int \<Rightarrow> 'a result" where
  "py_index xs i =
     (let j = (if i < 0 then i + int (length xs) else i) in
      if 0 \<le> j \<and> j < int (length xs) then Inr (xs ! nat j) else Inl (IndexError ''list index out of range''))"

definition operation_resource :: "string \<Rightarrow> string \<Rightarrow> int option \<Rightarrow> string list \<Rightarrow> string option result" where
  "operation_resource callee line_text resource_arg arg_texts =
     (let named = (let head = before_char (CHR ''('') (before_char (CHR ''.'') callee) in
            if head \<noteq> '''' \<and> head \<notin> set receiver_names \<and> \<not> is_literal head then Some (py_lower head)
            else case re_find sql_table_regex line_text of Some (_, Some g) \<Rightarrow> Some (py_lower g) | _ \<Rightarrow> None)
      in case resource_arg of
           None \<Rightarrow> Inr named
         | Some i \<Rightarrow>
             if i < int (length arg_texts)
             then bind_result (py_index arg_texts i) (\<lambda>arg.
               Inr (case re_match word_regex (strip arg) of None \<Rightarrow> None | Some (b, _, _) \<Rightarrow> Some (py_lower (rev b))))
             else Inr named)"

definition handler_operations :: "(string \<Rightarrow> string \<Rightarrow> bool) \<Rightarrow> (string \<rightharpoonup> string) \<Rightarrow> string \<Rightarrow> function_ir \<Rightarrow> operation_fact list \<Rightarrow>
    operation list" where
  "handler_operations pattern_in handlers_of path function facts =
     List.map_filter (\<lambda>f.
       if f_handlers f \<noteq> [] \<and> f_calls f = [] \<and> handlers_of (fn_name function) = f_framework f \<and>
          list_ex (\<lambda>p. pattern_in p (fn_name function)) (f_handlers f)
       then Some \<lparr>o_path = path, o_line = fn_start function, o_function = fn_name function, o_kind = f_kind f,
         o_fact_id = f_id f, o_resource = None, o_requires = f_requires f\<rparr>
       else None) facts"

type_synonym operation_key = "string \<times> int \<times> string"

definition recognised_key :: "operation_site \<Rightarrow> operation_key" where
  "recognised_key site = (fn_name (os_function site), cs_line (os_call site), f_id (os_fact site))"

definition operation_of_site :: "string \<Rightarrow> operation_site \<Rightarrow> operation result" where
  "operation_of_site path site =
     bind_result (operation_resource (cs_name (os_call site)) (os_line_text site) (f_resource_arg (os_fact site))
       (cs_arg_texts (os_call site))) (\<lambda>resource.
     Inr \<lparr>o_path = path, o_line = cs_line (os_call site), o_function = fn_name (os_function site),
       o_kind = f_kind (os_fact site), o_fact_id = f_id (os_fact site), o_resource = resource,
       o_requires = f_requires (os_fact site)\<rparr>)"

text \<open>The walker records a chained call as several sites of one line: the first of each key counts.\<close>

fun site_operations :: "string \<Rightarrow> operation_key set \<Rightarrow> operation_site list \<Rightarrow> (operation list \<times> operation_key set) result" where
  "site_operations path seen [] = Inr ([], seen)"
| "site_operations path seen (s # ss) =
     (if recognised_key s \<in> seen then site_operations path seen ss
      else bind_result (operation_of_site path s) (\<lambda>op.
        bind_result (site_operations path (insert (recognised_key s) seen) ss) (\<lambda>(ops, seen'). Inr (op # ops, seen'))))"

fun operations_in :: "(string \<Rightarrow> string \<Rightarrow> bool) \<Rightarrow> (string \<rightharpoonup> string) \<Rightarrow> string \<Rightarrow> obligation_facts \<Rightarrow> string list \<Rightarrow>
    operation_key set \<Rightarrow> function_ir list \<Rightarrow> operation list result" where
  "operations_in pattern_in handlers_of path facts lines seen [] = Inr []"
| "operations_in pattern_in handlers_of path facts lines seen (f # fs) =
     (if fn_name f = ''<module>'' then operations_in pattern_in handlers_of path facts lines seen fs
      else bind_result (site_operations path seen (operation_sites f facts lines None)) (\<lambda>(ops, seen').
        bind_result (operations_in pattern_in handlers_of path facts lines seen' fs) (\<lambda>rest.
          Inr (handler_operations pattern_in handlers_of path f (of_operations facts) @ ops @ rest))))"

definition find_operations :: "(string \<Rightarrow> string \<Rightarrow> bool) \<Rightarrow> file_ir \<Rightarrow> obligation_facts \<Rightarrow> string \<Rightarrow> (string \<rightharpoonup> string) \<Rightarrow>
    operation list result" where
  "find_operations pattern_in ir facts t handlers_of =
     (if \<not> fi_ok ir then Inr []
      else operations_in pattern_in handlers_of (fi_path ir) facts (split_lines t) {} (fi_functions ir))"

section \<open>Discharge witnesses\<close>

fun decorators_from :: "nat \<Rightarrow> string list \<Rightarrow> string list" where
  "decorators_from 0 lines = []"
| "decorators_from (Suc i) lines =
     (if starts_with ''@'' (strip (lines ! i)) then strip (lines ! i) # decorators_from i lines else [])"

definition decorators_above :: "function_ir \<Rightarrow> string list \<Rightarrow> string list result" where
  "decorators_above function lines =
     (if int (length lines) \<le> fn_start function - 2 then Inl (IndexError ''list index out of range'')
      else Inr (decorators_from (nat (fn_start function - 1)) lines))"

definition decorator_name :: "string \<Rightarrow> string" where
  "decorator_name d = trailing_name (before_char (CHR ''('') (strip (lstrip_by (\<lambda>c. c = CHR ''@'') d)))"

definition found_witness :: "string \<Rightarrow> int option \<Rightarrow> function_ir \<Rightarrow> discharger_fact \<Rightarrow> string \<Rightarrow> string \<Rightarrow> string \<Rightarrow> discharge" where
  "found_witness path line function df provenance scope detail =
     \<lparr>w_path = path, w_line = line, w_function = fn_name function, w_kind = df_kind df, w_fact_id = df_id df,
      w_provenance = provenance, w_scope = scope, w_detail = detail, w_resource = None, w_authority = None\<rparr>"

definition decorator_witnesses :: "string \<Rightarrow> function_ir \<Rightarrow> discharger_fact \<Rightarrow> string list \<Rightarrow> discharge list" where
  "decorator_witnesses path function df decorators =
     map (\<lambda>d. found_witness path None function df (guard_provenance (df_kind df)) ''decorator'' (decorator_name d))
       (filter (\<lambda>d. decorator_name d \<in> set (df_decorators df)) decorators)"

definition call_witnesses :: "string \<Rightarrow> function_ir \<Rightarrow> discharger_fact \<Rightarrow> discharge list" where
  "call_witnesses path function df =
     (if df_kind df = ''identity_constraint'' then []
      else map (\<lambda>call. found_witness path (Some (cs_line call)) function df (guard_provenance (df_kind df)) ''statement''
             (trailing_name (cs_name call)))
           (filter (\<lambda>call. list_ex (call_matches (cs_name call)) (df_calls df) \<and> df_kind df \<noteq> ''non_permissive_value'')
             (fn_calls function)))"

definition constraint_witnesses :: "string \<Rightarrow> function_ir \<Rightarrow> discharger_fact \<Rightarrow> obligation_facts \<Rightarrow> semantic_facts \<Rightarrow>
    string list \<Rightarrow> discharge list" where
  "constraint_witnesses path function df facts flow lines =
     (if df_kind df = ''identity_constraint''
      then List.map_filter (\<lambda>site. map_option (\<lambda>p. found_witness path (Some (cs_line (os_call site))) function df p ''statement''
             (trailing_name (cs_name (os_call site)))) (constraint_provenance site df flow))
           (operation_sites function facts lines None)
      else if df_kind df = ''non_permissive_value''
      then map (\<lambda>site. found_witness path (Some (cs_line (os_call site))) function df ''constant'' ''statement''
             (trailing_name (cs_name (os_call site))))
           (filter (\<lambda>site. list_ex (call_matches (cs_name (os_call site))) (df_calls df) \<and> \<not> permissive site df)
             (operation_sites function facts lines (Some ''security_setting'')))
      else [])"

text \<open>\<open>evidence_by_function\<close>: what the entry points of a name say about their access, in order.\<close>

definition evidence_of :: "entry_point list \<Rightarrow> string \<Rightarrow> string list" where
  "evidence_of entries name = concat (map ep_evidence (filter (\<lambda>e. named_entry e = Some name) entries))"

definition function_witnesses :: "string \<Rightarrow> obligation_facts \<Rightarrow> semantic_facts \<Rightarrow> string list \<Rightarrow> entry_point list \<Rightarrow> function_ir \<Rightarrow>
    discharge list result" where
  "function_witnesses path facts flow lines entries function =
     bind_result (decorators_above function lines) (\<lambda>above.
     let decorators = above @ evidence_of entries (fn_name function) in
     Inr (concat (map (\<lambda>df. decorator_witnesses path function df decorators @ call_witnesses path function df @
       constraint_witnesses path function df facts flow lines) (of_dischargers facts))))"

definition find_discharges :: "file_ir \<Rightarrow> obligation_facts \<Rightarrow> semantic_facts \<Rightarrow> string \<Rightarrow> entry_point list \<Rightarrow> discharge list result" where
  "find_discharges ir facts flow t entries =
     (if \<not> fi_ok ir then Inr []
      else bind_result (map_result (function_witnesses (fi_path ir) facts flow (split_lines t) entries)
          (filter (\<lambda>f. fn_name f \<noteq> ''<module>'') (fi_functions ir))) (\<lambda>found.
        Inr (dedupe_witnesses (concat found))))"

section \<open>What is recognised\<close>

definition recognised_op_key :: "operation \<Rightarrow> operation_key" where
  "recognised_op_key op = (o_function op, o_line op, o_fact_id op)"

lemma operation_of_site_Inr:
  "operation_of_site path s = Inr op \<Longrightarrow> recognised_op_key op = recognised_key s \<and> o_path op = path \<and>
     o_kind op = f_kind (os_fact s) \<and> o_requires op = f_requires (os_fact s)"
  by (auto simp: operation_of_site_def bind_result_eq_Inr recognised_op_key_def recognised_key_def)

lemma site_operations_exact:
  "site_operations path seen ss = Inr (ops, seen') \<Longrightarrow>
     seen' = seen \<union> recognised_key ` set ss \<and> recognised_op_key ` set ops = recognised_key ` set ss - seen \<and>
     (\<forall>op \<in> set ops. \<exists>s \<in> set ss. operation_of_site path s = Inr op)"
proof (induction path seen ss arbitrary: ops seen' rule: site_operations.induct)
  case (2 path seen s ss)
  show ?case
  proof (cases "recognised_key s \<in> seen")
    case True
    with 2 show ?thesis by auto
  next
    case False
    with "2.prems" obtain op rest where op: "operation_of_site path s = Inr op"
      "site_operations path (insert (recognised_key s) seen) ss = Inr (rest, seen')" "ops = op # rest"
      by (auto simp: bind_result_eq_Inr)
    from "2.IH"(2) [OF False op(1,2)] operation_of_site_Inr [OF op(1)] False op show ?thesis by auto
  qed
qed simp

definition handler_operation_of :: "(string \<Rightarrow> string \<Rightarrow> bool) \<Rightarrow> (string \<rightharpoonup> string) \<Rightarrow> string \<Rightarrow> function_ir \<Rightarrow> operation_fact \<Rightarrow>
    operation \<Rightarrow> bool" where
  "handler_operation_of pattern_in handlers_of path function f op \<longleftrightarrow>
     op \<in> set (handler_operations pattern_in handlers_of path function [f])"

lemma handler_operations_iff:
  "op \<in> set (handler_operations pattern_in handlers_of path function facts) \<longleftrightarrow>
     (\<exists>f \<in> set facts. handler_operation_of pattern_in handlers_of path function f op)"
  by (auto simp: handler_operation_of_def handler_operations_def in_map_filter)

definition recognised :: "(string \<Rightarrow> string \<Rightarrow> bool) \<Rightarrow> (string \<rightharpoonup> string) \<Rightarrow> string \<Rightarrow> obligation_facts \<Rightarrow> string list \<Rightarrow>
    function_ir list \<Rightarrow> operation \<Rightarrow> bool" where
  "recognised pattern_in handlers_of path facts lines fs op \<longleftrightarrow>
     (\<exists>f \<in> set fs. fn_name f \<noteq> ''<module>'' \<and>
        ((\<exists>fact \<in> set (of_operations facts). handler_operation_of pattern_in handlers_of path f fact op) \<or>
         (\<exists>s \<in> set (operation_sites f facts lines None). operation_of_site path s = Inr op)))"

lemma operations_in_sound:
  "operations_in pattern_in handlers_of path facts lines seen fs = Inr ops \<Longrightarrow> op \<in> set ops \<Longrightarrow>
     recognised pattern_in handlers_of path facts lines fs op"
proof (induction fs arbitrary: seen ops)
  case (Cons f fs)
  show ?case
  proof (cases "fn_name f = ''<module>''")
    case True
    with Cons show ?thesis by (auto simp: recognised_def)
  next
    case False
    with Cons.prems(1) obtain xs seen' rest where x: "site_operations path seen (operation_sites f facts lines None) = Inr (xs, seen')"
      "operations_in pattern_in handlers_of path facts lines seen' fs = Inr rest"
      "ops = handler_operations pattern_in handlers_of path f (of_operations facts) @ xs @ rest"
      by (auto simp: bind_result_eq_Inr)
    from Cons.prems(2) x(3) consider "op \<in> set (handler_operations pattern_in handlers_of path f (of_operations facts))"
      | "op \<in> set xs" | "op \<in> set rest" by auto
    then show ?thesis
    proof cases
      case 1
      with False show ?thesis by (auto simp: recognised_def handler_operations_iff)
    next
      case 2
      with site_operations_exact [OF x(1)] False show ?thesis by (auto simp: recognised_def)
    next
      case 3
      from Cons.IH [OF x(2) 3] show ?thesis by (auto simp: recognised_def)
    qed
  qed
qed simp

lemma operations_in_complete:
  "operations_in pattern_in handlers_of path facts lines seen fs = Inr ops \<Longrightarrow> f \<in> set fs \<Longrightarrow> fn_name f \<noteq> ''<module>'' \<Longrightarrow>
     set (handler_operations pattern_in handlers_of path f (of_operations facts)) \<subseteq> set ops \<and>
     recognised_key ` set (operation_sites f facts lines None) \<subseteq> seen \<union> recognised_op_key ` set ops"
proof (induction fs arbitrary: seen ops)
  case (Cons g fs)
  show ?case
  proof (cases "fn_name g = ''<module>''")
    case True
    with Cons.prems have "operations_in pattern_in handlers_of path facts lines seen fs = Inr ops" "f \<in> set fs" by auto
    from Cons.IH [OF this Cons.prems(3)] show ?thesis .
  next
    case False
    with Cons.prems(1) obtain xs seen' rest where x: "site_operations path seen (operation_sites g facts lines None) = Inr (xs, seen')"
      "operations_in pattern_in handlers_of path facts lines seen' fs = Inr rest"
      "ops = handler_operations pattern_in handlers_of path g (of_operations facts) @ xs @ rest"
      by (auto simp: bind_result_eq_Inr)
    from site_operations_exact [OF x(1)] have seen': "seen' = seen \<union> recognised_op_key ` set xs"
      and keys: "recognised_key ` set (operation_sites g facts lines None) \<subseteq> seen \<union> recognised_op_key ` set xs" by auto
    from Cons.prems(2) show ?thesis
    proof (cases "f = g")
      case True
      with keys show ?thesis by (auto simp: x(3))
    next
      case neq: False
      with Cons.prems(2) have "f \<in> set fs" by simp
      from Cons.IH [OF x(2) this Cons.prems(3)] show ?thesis by (auto simp: x(3) seen')
    qed
  qed
qed simp

lemma find_operations_Inr:
  "find_operations pattern_in ir facts t handlers_of = Inr ops \<Longrightarrow> fi_ok ir \<Longrightarrow>
     operations_in pattern_in handlers_of (fi_path ir) facts (split_lines t) {} (fi_functions ir) = Inr ops"
  by (simp add: find_operations_def)


lemma operation_resource_total: "set_option i \<subseteq> {0..} \<Longrightarrow> \<exists>r. operation_resource callee line_text i args = Inr r"
  by (auto simp: operation_resource_def Let_def py_index_def bind_result_eq_Inr split: option.splits)

lemma operation_of_site_total:
  "set_option (f_resource_arg (os_fact s)) \<subseteq> {0..} \<Longrightarrow> \<exists>op. operation_of_site path s = Inr op"
  using operation_resource_total [of "f_resource_arg (os_fact s)" "cs_name (os_call s)" "os_line_text s" "cs_arg_texts (os_call s)"]
  by (auto simp: operation_of_site_def)

lemma site_operations_total:
  "\<forall>s \<in> set ss. set_option (f_resource_arg (os_fact s)) \<subseteq> {0..} \<Longrightarrow> \<exists>r. site_operations path seen ss = Inr r"
proof (induction path seen ss rule: site_operations.induct)
  case (2 path seen s ss)
  from operation_of_site_total [of s path] "2.prems" obtain op where op: "operation_of_site path s = Inr op" by auto
  show ?case
  proof (cases "recognised_key s \<in> seen")
    case True
    with 2 show ?thesis by auto
  next
    case False
    from "2.IH"(2) [OF this op] "2.prems" False op show ?thesis by auto
  qed
qed simp

lemma operations_in_total:
  "\<forall>f \<in> set (of_operations facts). set_option (f_resource_arg f) \<subseteq> {0..} \<Longrightarrow>
     \<exists>ops. operations_in pattern_in handlers_of path facts lines seen fs = Inr ops"
proof (induction fs arbitrary: seen)
  case (Cons f fs)
  have "\<forall>s \<in> set (operation_sites f facts lines None). set_option (f_resource_arg (os_fact s)) \<subseteq> {0..}"
    using Cons.prems by (auto dest: operation_sites_in)
  from site_operations_total [OF this, of path seen] obtain xs seen' where
    x: "site_operations path seen (operation_sites f facts lines None) = Inr (xs, seen')" by auto
  from Cons.IH [OF Cons.prems, of seen'] Cons.IH [OF Cons.prems, of seen] x show ?case by auto
qed simp

text \<open>
  The only index expression over call arguments stays in range when no fact points before the
  first argument: then recognising the operations of a file never raises.
\<close>

theorem find_operations_in_range:
  assumes "\<forall>f \<in> set (of_operations facts). set_option (f_resource_arg f) \<subseteq> {0..}"
  shows "\<not> isl (find_operations pattern_in ir facts t handlers_of)"
  using operations_in_total [OF assms, of pattern_in handlers_of "fi_path ir" "split_lines t" "{}" "fi_functions ir"]
  by (auto simp: find_operations_def)

text \<open>The loader accepts a negative index, with which a short call raises.\<close>

lemma negative_resource_arg_raises:
  "operation_resource ''Book.get'' '''' (Some (-3)) [''a''] = Inl (IndexError ''list index out of range'')"
  by (simp add: operation_resource_def py_index_def)

lemma py_index_in: "py_index xs i = Inr x \<Longrightarrow> x \<in> set xs"
  by (auto simp: py_index_def Let_def split: if_splits)

lemma decorators_from_lines: "d \<in> set (decorators_from k lines) \<Longrightarrow> k \<le> length lines \<Longrightarrow>
    starts_with ''@'' d \<and> d \<in> strip ` set lines"
  by (induction k) (auto split: if_splits)

text \<open>What a witness of a fact in a function stands for.\<close>

definition justified :: "function_ir \<Rightarrow> discharger_fact \<Rightarrow> obligation_facts \<Rightarrow> semantic_facts \<Rightarrow> string list \<Rightarrow> string list \<Rightarrow>
    discharge \<Rightarrow> bool" where
  "justified function df facts flow lines decorators w \<longleftrightarrow>
     w_function w = fn_name function \<and> w_kind w = df_kind df \<and> w_fact_id w = df_id df \<and>
     (w_scope w = ''decorator'' \<and> (\<exists>d \<in> set decorators. decorator_name d = w_detail w \<and> w_detail w \<in> set (df_decorators df)) \<or>
      w_scope w = ''statement'' \<and> (\<exists>call \<in> set (fn_calls function). w_line w = Some (cs_line call) \<and> w_detail w = trailing_name (cs_name call) \<and>
        (if w_kind w = ''identity_constraint''
         then \<exists>site \<in> set (operation_sites function facts lines None). os_call site = call \<and>
           constraint_provenance site df flow = Some (w_provenance w)
         else list_ex (call_matches (cs_name call)) (df_calls df))))"

lemma guard_provenance_identity: "guard_provenance ''identity_constraint'' = ''unknown''"
  by (simp add: guard_provenance_def)

lemma decorator_witnesses_justified:
  "w \<in> set (decorator_witnesses path function df decorators) \<Longrightarrow> justified function df facts flow lines decorators w"
  by (auto simp: decorator_witnesses_def justified_def found_witness_def)

lemma call_witnesses_justified:
  "w \<in> set (call_witnesses path function df) \<Longrightarrow> justified function df facts flow lines decorators w"
  by (auto simp: call_witnesses_def justified_def found_witness_def split: if_splits)

lemma constraint_witnesses_justified:
  assumes w: "w \<in> set (constraint_witnesses path function df facts flow lines)"
  shows "justified function df facts flow lines decorators w"
proof -
  have call: "os_call site \<in> set (fn_calls function)" if "site \<in> set (operation_sites function facts lines k)" for site k
    using operation_sites_in [OF that] by simp
  show ?thesis
  proof (cases "df_kind df = ''identity_constraint''")
    case True
    with w obtain site p where "site \<in> set (operation_sites function facts lines None)"
      "constraint_provenance site df flow = Some p"
      "w = found_witness path (Some (cs_line (os_call site))) function df p ''statement'' (trailing_name (cs_name (os_call site)))"
      by (auto simp: constraint_witnesses_def in_map_filter)
    with call True show ?thesis by (fastforce simp: justified_def found_witness_def)
  next
    case False
    with w obtain site where "site \<in> set (operation_sites function facts lines (Some ''security_setting''))"
      "list_ex (call_matches (cs_name (os_call site))) (df_calls df)"
      "w = found_witness path (Some (cs_line (os_call site))) function df ''constant'' ''statement'' (trailing_name (cs_name (os_call site)))"
      by (auto simp: constraint_witnesses_def split: if_splits)
    with call False show ?thesis by (fastforce simp: justified_def found_witness_def)
  qed
qed

lemma justified_identity:
  assumes "justified function df facts flow lines decorators w" "w_kind w = ''identity_constraint''" "w_scope w = ''statement''"
    "valid_witness w"
  shows "\<exists>site \<in> set (operation_sites function facts lines None). w_line w = Some (cs_line (os_call site)) \<and>
    (\<exists>v. constrained_value (os_line_text site) df = Some v \<and> names_caller df function (cs_line (os_call site)) v)"
proof -
  from assms obtain site where site: "site \<in> set (operation_sites function facts lines None)"
    "w_line w = Some (cs_line (os_call site))" "constraint_provenance site df flow = Some ''authenticated_context''"
    by (auto simp: justified_def valid_witness_def)
  from site(3) obtain v where v: "constrained_value (os_line_text site) df = Some v"
    "provenance_of v (os_function site) (cs_line (os_call site)) df flow = ''authenticated_context''"
    by (auto simp: constraint_provenance_def)
  have "os_function site = function" using operation_sites_in [OF site(1)] by simp
  with provenance_authenticated v(2) have "names_caller df function (cs_line (os_call site)) v" by (simp add: provenance_of_def)
  with site v(1) show ?thesis by blast
qed

lemma function_witnesses_justified:
  assumes "function_witnesses path facts flow lines entries function = Inr ws" "w \<in> set ws"
  shows "\<exists>df above. df \<in> set (of_dischargers facts) \<and> decorators_above function lines = Inr above \<and>
    justified function df facts flow lines (above @ evidence_of entries (fn_name function)) w"
  using assms
  by (auto simp: function_witnesses_def bind_result_eq_Inr Let_def)
    (blast dest: decorator_witnesses_justified call_witnesses_justified constraint_witnesses_justified)+

text \<open>
  A discharge witness is never invented: it has the kind of a discharger fact and stands for a
  decorator (or declared access) the fact names, a call the fact names, or a constraint on an obligated
  operation; a valid identity constraint binds the caller's identity there. No two witnesses have one key.
\<close>

theorem find_discharges_sound:
  assumes "find_discharges ir facts flow t entries = Inr ws" "fi_ok ir"
  shows "distinct (map witness_key ws) \<and>
    (\<forall>w \<in> set ws. \<exists>function df above. function \<in> set (fi_functions ir) \<and> fn_name function \<noteq> ''<module>'' \<and>
      df \<in> set (of_dischargers facts) \<and> decorators_above function (split_lines t) = Inr above \<and>
      justified function df facts flow (split_lines t) (above @ evidence_of entries (fn_name function)) w \<and>
      (w_kind w = ''identity_constraint'' \<and> w_scope w = ''statement'' \<and> valid_witness w \<longrightarrow>
        (\<exists>site v. site \<in> set (operation_sites function facts (split_lines t) None) \<and> w_line w = Some (cs_line (os_call site)) \<and>
          constrained_value (os_line_text site) df = Some v \<and> names_caller df function (cs_line (os_call site)) v)))"
proof -
  from assms obtain found where found: "map_result (function_witnesses (fi_path ir) facts flow (split_lines t) entries)
      (filter (\<lambda>f. fn_name f \<noteq> ''<module>'') (fi_functions ir)) = Inr found" "ws = dedupe_witnesses (concat found)"
    by (auto simp: find_discharges_def bind_result_eq_Inr)
  have "\<exists>function df above. function \<in> set (fi_functions ir) \<and> fn_name function \<noteq> ''<module>'' \<and>
      df \<in> set (of_dischargers facts) \<and> decorators_above function (split_lines t) = Inr above \<and>
      justified function df facts flow (split_lines t) (above @ evidence_of entries (fn_name function)) w"
    if "w \<in> set ws" for w
  proof -
    from that found(2) dedupe_by_subset obtain xs where xs: "xs \<in> set found" "w \<in> set xs"
      by (fastforce simp: dedupe_witnesses_def)
    from map_result_set [OF found(1) xs(1)] obtain f where "f \<in> set (fi_functions ir)" "fn_name f \<noteq> ''<module>''"
      "function_witnesses (fi_path ir) facts flow (split_lines t) entries f = Inr xs" by auto
    with function_witnesses_justified [OF this(3) xs(2)] show ?thesis by blast
  qed
  moreover have "distinct (map witness_key ws)" by (simp add: found(2) dedupe_witnesses_def dedupe_by_distinct)
  ultimately show ?thesis using justified_identity by blast
qed

section \<open>Instances\<close>

definition nothing_found :: "string \<Rightarrow> string \<Rightarrow> bool" where "nothing_found p s = False"

definition pair_operation :: operation where
  "pair_operation = \<lparr>o_path = ''books.py'', o_line = 3, o_function = ''show'', o_kind = ''protected_read'',
     o_fact_id = ''orm_filter'', o_resource = Some ''book'', o_requires = [''identity_constraint'']\<rparr>"

definition pair_witness :: discharge where
  "pair_witness = \<lparr>w_path = ''books.py'', w_line = Some 3, w_function = ''show'', w_kind = ''identity_constraint'',
     w_fact_id = ''owner'', w_provenance = ''authenticated_context'', w_scope = ''statement'', w_detail = ''filter_by'',
     w_resource = None, w_authority = None\<rparr>"

lemma pair_operations: "find_operations nothing_found pair_fixed pair_facts pair_fixed_text (\<lambda>_. None) = Inr [pair_operation]"
  by code_simp

lemma pair_discharges: "find_discharges pair_fixed pair_facts pair_flow pair_fixed_text [] = Inr [pair_witness]"
  by code_simp


lemma find_operations_in_range_witness:
  "\<not> isl (find_operations nothing_found pair_fixed pair_facts pair_fixed_text (\<lambda>_. None))"
  by (rule find_operations_in_range) (simp add: pair_defs)

lemma find_discharges_witness:
  "valid_witness pair_witness \<and>
   (\<exists>function site v. function \<in> set (fi_functions pair_fixed) \<and>
      site \<in> set (operation_sites function pair_facts (split_lines pair_fixed_text) None) \<and>
      constrained_value (os_line_text site) pair_discharger = Some v \<and>
      names_caller pair_discharger function (cs_line (os_call site)) v)"
proof -
  have ok: "fi_ok pair_fixed" and v: "valid_witness pair_witness" "w_kind pair_witness = ''identity_constraint''"
      "w_scope pair_witness = ''statement''"
    by (simp_all add: pair_fixed_def pair_file_def valid_witness_def pair_witness_def)
  from find_discharges_sound [OF pair_discharges ok] v show ?thesis by (auto simp: pair_facts_def)
qed

end
