(* ===== verification/Siblings.thy ===== *)
theory Siblings
  imports Recognise
begin

text \<open>
  Sibling handlers and the handlers that fall short of what their siblings practise
  (\<open>semantic/obligations/siblings.py\<close>). The dictionaries the code builds and sorts afterwards are lists
  here; \<open>module_of\<close> raises for a path without a file name, as \<open>Path.with_suffix\<close> does.
\<close>

section \<open>Sets of siblings\<close>

definition handler_id :: "string \<Rightarrow> string \<Rightarrow> string" where
  "handler_id path function = path @ ''::'' @ function"

definition operation_handler :: "operation \<Rightarrow> string" where
  "operation_handler op = handler_id (o_path op) (o_function op)"

definition witness_handler :: "discharge \<Rightarrow> string" where
  "witness_handler w = handler_id (w_path w) (w_function w)"

text \<open>\<open>s.split("::", 1)[0]\<close>\<close>

fun before_colons :: "string \<Rightarrow> string" where
  "before_colons [] = []"
| "before_colons [c] = [c]"
| "before_colons (c # d # cs) = (if c = CHR '':'' \<and> d = CHR '':'' then [] else c # before_colons (d # cs))"

text \<open>The root of a POSIX path: exactly two leading slashes are kept.\<close>

definition path_root :: "string \<Rightarrow> string" where
  "path_root p = (if starts_with ''/'' p then if starts_with ''//'' p \<and> \<not> starts_with ''///'' p then ''//'' else ''/'' else '''')"

definition module_of :: "string \<Rightarrow> string result" where
  "module_of p =
     (case rev (path_parts p) of
        [] \<Rightarrow> Inl (ValueError ''has an empty name'')
      | name # parents \<Rightarrow> Inr (path_root p @ join_with ''/'' (rev parents @ [path_stem name])))"

definition access_levels :: "entry_point list \<Rightarrow> string \<rightharpoonup> string" where
  "access_levels entries =
     foldl (\<lambda>m e. case named_entry e of
         Some n \<Rightarrow> if ep_path e = '''' then m else m(handler_id (ep_path e) n \<mapsto> ep_access e)
       | None \<Rightarrow> m) Map.empty entries"

definition access_or_unknown :: "string option \<Rightarrow> string" where
  "access_or_unknown a = (case a of None \<Rightarrow> ''unknown'' | Some l \<Rightarrow> l)"

definition discharges_kind :: "discharge list \<Rightarrow> string \<Rightarrow> string \<Rightarrow> bool" where
  "discharges_kind discharges handler kind =
     list_ex (\<lambda>w. valid_witness w \<and> witness_handler w = handler \<and> w_kind w = kind) discharges"

record sibling_set =
  ss_key :: "string \<times> string"
  ss_handlers :: "string list"
  ss_discharging :: "(string \<times> string list) list"
  ss_operation_kinds :: "string list"
  ss_access :: "(string \<times> string) list"

type_synonym member = "(string \<times> string) \<times> string \<times> string"

text \<open>The operations of a handler that name a resource: the group of each, the handler and the kind.\<close>

definition handler_members :: "operation list \<Rightarrow> string \<Rightarrow> member list result" where
  "handler_members operations handler =
     bind_result (module_of (before_colons handler)) (\<lambda>m.
     Inr (List.map_filter (\<lambda>op. if operation_handler op = handler
            then map_option (\<lambda>r. ((m, r), handler, o_kind op)) (o_resource op) else None) operations))"

definition group_members :: "entry_point list \<Rightarrow> operation list \<Rightarrow> member list result" where
  "group_members entries operations =
     bind_result (map_result (handler_members operations)
       (filter (\<lambda>h. access_levels entries h \<noteq> None) (dedup (map operation_handler operations)))) (\<lambda>ms. Inr (concat ms))"

definition sibling_set_of :: "entry_point list \<Rightarrow> discharge list \<Rightarrow> member list \<Rightarrow> string \<times> string \<Rightarrow> sibling_set" where
  "sibling_set_of entries discharges members key =
     (let own = filter (\<lambda>m. fst m = key) members;
          handlers = sorted_set (map (\<lambda>m. fst (snd m)) own);
          discharging = map (\<lambda>kind. (kind, filter (\<lambda>h. discharges_kind discharges h kind) handlers)) discharger_kinds
      in \<lparr>ss_key = key, ss_handlers = handlers, ss_discharging = filter (\<lambda>(kind, who). who \<noteq> []) discharging,
          ss_operation_kinds = sorted_set (map (\<lambda>m. snd (snd m)) own),
          ss_access = map (\<lambda>h. (h, access_or_unknown (access_levels entries h))) handlers\<rparr>)"

definition sibling_sets :: "entry_point list \<Rightarrow> operation list \<Rightarrow> discharge list \<Rightarrow> sibling_set list result" where
  "sibling_sets entries operations discharges =
     bind_result (group_members entries operations) (\<lambda>members.
     Inr (map (sibling_set_of entries discharges members) (sorted_set (map fst members))))"

section \<open>Anomalies\<close>

record anomaly =
  an_handler :: string
  an_missing :: string
  an_operation_kind :: string
  an_siblings :: "string list"
  an_key :: "string \<times> string"
  an_access :: string
  an_evidence :: "string list"

definition access_in :: "sibling_set \<Rightarrow> string \<Rightarrow> string" where
  "access_in s handler = access_or_unknown (map_of (ss_access s) handler)"

definition anomaly_evidence :: "sibling_set \<Rightarrow> string \<Rightarrow> string list \<Rightarrow> string \<Rightarrow> string list" where
  "anomaly_evidence s kind dischargers access =
     map (\<lambda>sibling. sibling @ '' discharges '' @ kind) dischargers @
     (if kind = ''path_guard''
      then [''route access: '' @ access @ ''; siblings: '' @ join_with '', '' (sorted_set (map (access_in s) dischargers))]
      else [])"

definition handler_anomalies :: "sibling_set \<Rightarrow> string \<Rightarrow> string list \<Rightarrow> string \<Rightarrow> anomaly list" where
  "handler_anomalies s kind dischargers handler =
     (if handler \<in> set dischargers then []
      else map (\<lambda>operation_kind. \<lparr>an_handler = handler, an_missing = kind, an_operation_kind = operation_kind,
          an_siblings = dischargers, an_key = ss_key s, an_access = access_in s handler,
          an_evidence = anomaly_evidence s kind dischargers (access_in s handler)\<rparr>) (ss_operation_kinds s))"

definition set_anomalies :: "int \<Rightarrow> sibling_set \<Rightarrow> anomaly list" where
  "set_anomalies min_siblings s =
     concat (map (\<lambda>(kind, dischargers).
         if int (length dischargers) < min_siblings then []
         else concat (map (handler_anomalies s kind dischargers) (ss_handlers s)))
       (sort_key fst (ss_discharging s)))"

definition consistency_anomalies :: "sibling_set list \<Rightarrow> int \<Rightarrow> anomaly list \<times> (string \<times> string) list" where
  "consistency_anomalies sets min_siblings =
     (let populated = (\<lambda>s. \<not> int (length (ss_handlers s)) < min_siblings) in
      (concat (map (set_anomalies min_siblings) (filter populated sets)),
       map ss_key (filter (\<lambda>s. \<not> populated s) sets)))"

section \<open>Membership\<close>

lemma module_of_samples:
  "module_of ''api/v1/books.py'' = Inr ''api/v1/books''" "module_of ''/srv//a/./b.tar.gz'' = Inr ''/srv/a/b.tar''"
  "module_of '''' = Inl (ValueError ''has an empty name'')" "before_colons ''a/b.py::f::g'' = ''a/b.py''"
  by code_simp+

text \<open>A handler is in a group when it is an entry point with an operation on the resource, in the module.\<close>

definition sibling_of :: "entry_point list \<Rightarrow> operation list \<Rightarrow> string \<times> string \<Rightarrow> string \<Rightarrow> bool" where
  "sibling_of entries operations key handler \<longleftrightarrow>
     access_levels entries handler \<noteq> None \<and> module_of (before_colons handler) = Inr (fst key) \<and>
     (\<exists>op \<in> set operations. operation_handler op = handler \<and> o_resource op = Some (snd key))"

lemma handler_members_iff:
  "handler_members operations handler = Inr ms \<Longrightarrow>
     (key, h, k) \<in> set ms \<longleftrightarrow> h = handler \<and> module_of (before_colons handler) = Inr (fst key) \<and>
       (\<exists>op \<in> set operations. operation_handler op = handler \<and> o_resource op = Some (snd key) \<and> o_kind op = k)"
  by (cases key) (auto simp: handler_members_def bind_result_eq_Inr in_map_filter split: if_splits)

lemma group_members_iff:
  assumes "group_members entries operations = Inr ms"
  shows "(key, h, k) \<in> set ms \<longleftrightarrow> access_levels entries h \<noteq> None \<and> module_of (before_colons h) = Inr (fst key) \<and>
    (\<exists>op \<in> set operations. operation_handler op = h \<and> o_resource op = Some (snd key) \<and> o_kind op = k)"
    (is "?l \<longleftrightarrow> ?r")
proof -
  let ?hs = "filter (\<lambda>h. access_levels entries h \<noteq> None) (dedup (map operation_handler operations))"
  from assms obtain mss where mss: "map_result (handler_members operations) ?hs = Inr mss" "ms = concat mss"
    by (auto simp: group_members_def bind_result_eq_Inr)
  show ?thesis
  proof
    assume ?l
    with mss(2) obtain xs where xs: "xs \<in> set mss" "(key, h, k) \<in> set xs" by auto
    from map_result_set [OF mss(1) xs(1)] obtain h' where "h' \<in> set ?hs" "handler_members operations h' = Inr xs" by blast
    with handler_members_iff [OF this(2)] xs(2) show ?r by auto
  next
    assume r: ?r
    then have h: "h \<in> set ?hs" by auto
    from map_result_all [OF mss(1) h] obtain xs where xs: "handler_members operations h = Inr xs" by blast
    with handler_members_iff [OF xs] r have "(key, h, k) \<in> set xs" by simp
    moreover have "xs \<in> set mss" using map_result_image [OF mss(1) h xs] .
    ultimately show ?l using mss(2) by auto
  qed
qed

lemma sibling_handlers:
  assumes "group_members entries operations = Inr ms"
  shows "set (ss_handlers (sibling_set_of entries discharges ms key)) = {h. sibling_of entries operations key h}"
proof -
  have "set (ss_handlers (sibling_set_of entries discharges ms key)) = {h. \<exists>k. (key, h, k) \<in> set ms}"
    by (auto simp: sibling_set_of_def Let_def) force
  then show ?thesis by (auto simp: group_members_iff [OF assms] sibling_of_def)
qed

lemma sibling_set_discharging:
  "(kind, who) \<in> set (ss_discharging (sibling_set_of entries discharges ms key)) \<longleftrightarrow>
     kind \<in> set discharger_kinds \<and> who \<noteq> [] \<and>
     who = filter (\<lambda>h. discharges_kind discharges h kind) (ss_handlers (sibling_set_of entries discharges ms key))"
  by (auto simp: sibling_set_of_def Let_def)

lemma sibling_set_operation_kinds:
  assumes "group_members entries operations = Inr ms"
  shows "set (ss_operation_kinds (sibling_set_of entries discharges ms key)) =
    {o_kind op |op. op \<in> set operations \<and> sibling_of entries operations key (operation_handler op) \<and> o_resource op = Some (snd key)}"
proof -
  have "set (ss_operation_kinds (sibling_set_of entries discharges ms key)) = {k. \<exists>h. (key, h, k) \<in> set ms}"
    by (auto simp: sibling_set_of_def Let_def) force
  also have "\<dots> = {o_kind op |op. op \<in> set operations \<and> sibling_of entries operations key (operation_handler op) \<and>
      o_resource op = Some (snd key)}"
    unfolding group_members_iff [OF assms] sibling_of_def by (rule set_eqI) blast
  finally show ?thesis .
qed

lemma sibling_set_fields [simp]:
  "ss_key (sibling_set_of entries discharges ms key) = key"
  "distinct (ss_handlers (sibling_set_of entries discharges ms key))"
  by (simp_all add: sibling_set_of_def Let_def)

lemma access_in_sibling:
  "h \<in> set (ss_handlers (sibling_set_of entries discharges ms key)) \<Longrightarrow>
     access_in (sibling_set_of entries discharges ms key) h = access_or_unknown (access_levels entries h)"
  by (simp add: sibling_set_of_def Let_def access_in_def access_or_unknown_def [of "Some _"] map_of_map_restrict
      restrict_map_def map_of_eq_None_iff) 

lemma handler_anomalies_iff:
  "a \<in> set (handler_anomalies s kind who h) \<longleftrightarrow> h \<notin> set who \<and> an_handler a = h \<and> an_missing a = kind \<and>
     an_operation_kind a \<in> set (ss_operation_kinds s) \<and> an_siblings a = who \<and> an_key a = ss_key s \<and>
     an_access a = access_in s h \<and> an_evidence a = anomaly_evidence s kind who (access_in s h)"
  by (cases a) (auto simp: handler_anomalies_def)

lemma set_anomalies_iff:
  "a \<in> set (set_anomalies n s) \<longleftrightarrow>
     (an_missing a, an_siblings a) \<in> set (ss_discharging s) \<and> n \<le> int (length (an_siblings a)) \<and>
     an_handler a \<in> set (ss_handlers s) \<and> an_handler a \<notin> set (an_siblings a) \<and>
     an_operation_kind a \<in> set (ss_operation_kinds s) \<and> an_key a = ss_key s \<and>
     an_access a = access_in s (an_handler a) \<and>
     an_evidence a = anomaly_evidence s (an_missing a) (an_siblings a) (access_in s (an_handler a))"
proof -
  have "a \<in> set (set_anomalies n s) \<longleftrightarrow> (\<exists>kind who. (kind, who) \<in> set (ss_discharging s) \<and> n \<le> int (length who) \<and>
      (\<exists>h \<in> set (ss_handlers s). a \<in> set (handler_anomalies s kind who h)))"
    by (force simp: set_anomalies_def not_less split: if_splits)
  then show ?thesis by (auto simp: handler_anomalies_iff)
qed

lemma consistency_anomalies_iff:
  "a \<in> set (fst (consistency_anomalies sets n)) \<longleftrightarrow>
     (\<exists>s \<in> set sets. n \<le> int (length (ss_handlers s)) \<and> a \<in> set (set_anomalies n s))"
  by (auto simp: consistency_anomalies_def Let_def not_less)

lemma set_anomaly_of:
  fixes discharges :: "discharge list"
  assumes "group_members entries operations = Inr ms"
  defines "s \<equiv> sibling_set_of entries discharges ms"
    and "who \<equiv> \<lambda>key kind. {x. sibling_of entries operations key x \<and> discharges_kind discharges x kind}"
  shows "(\<exists>a \<in> set (set_anomalies n (s key)). an_handler a = h \<and> an_missing a = kind \<and> an_operation_kind a = k) \<longleftrightarrow>
    kind \<in> set discharger_kinds \<and> who key kind \<noteq> {} \<and> n \<le> int (card (who key kind)) \<and>
    sibling_of entries operations key h \<and> h \<notin> who key kind \<and> k \<in> set (ss_operation_kinds (s key))"
proof -
  let ?s = "sibling_set_of entries discharges ms key"
  let ?who = "filter (\<lambda>h. discharges_kind discharges h kind) (ss_handlers ?s)"
  have who: "set ?who = who key kind"
    by (auto simp: who_def sibling_handlers [OF assms(1)])
  have card: "card (who key kind) = length ?who"
    unfolding who [symmetric] by (intro distinct_card distinct_filter) simp
  have nonempty: "?who \<noteq> [] \<longleftrightarrow> who key kind \<noteq> {}" using who by (metis set_empty)
  have "(\<exists>a \<in> set (set_anomalies n ?s). an_handler a = h \<and> an_missing a = kind \<and> an_operation_kind a = k) \<longleftrightarrow>
      kind \<in> set discharger_kinds \<and> ?who \<noteq> [] \<and> n \<le> int (length ?who) \<and> h \<in> set (ss_handlers ?s) \<and> h \<notin> set ?who \<and>
      k \<in> set (ss_operation_kinds ?s)" (is "?l \<longleftrightarrow> ?r")
  proof
    assume ?r
    then show ?l
      by (intro bexI [of _ "\<lparr>an_handler = h, an_missing = kind, an_operation_kind = k, an_siblings = ?who, an_key = key,
          an_access = access_in ?s h, an_evidence = anomaly_evidence ?s kind ?who (access_in ?s h)\<rparr>"])
        (simp_all add: set_anomalies_iff sibling_set_discharging)
  qed (auto simp: set_anomalies_iff sibling_set_discharging)
  then show ?thesis
    unfolding s_def card who nonempty using sibling_handlers [OF assms(1), of discharges key] by simp
qed

lemma enough_siblings:
  assumes "group_members entries operations = Inr ms"
    and "n \<le> int (card {x. sibling_of entries operations key x \<and> discharges_kind discharges x kind})"
  shows "n \<le> int (length (ss_handlers (sibling_set_of entries discharges ms key)))"
proof -
  let ?hs = "ss_handlers (sibling_set_of entries discharges ms key)"
  have "{x. sibling_of entries operations key x \<and> discharges_kind discharges x kind} \<subseteq> set ?hs"
    by (auto simp: sibling_handlers [OF assms(1)])
  then have "card {x. sibling_of entries operations key x \<and> discharges_kind discharges x kind} \<le> length ?hs"
    by (meson List.finite_set card_length card_mono order_trans)
  then show ?thesis using assms(2) by linarith
qed

text \<open>
  C28. An anomaly is a departure from a practice, exactly: the handler is an entry point that operates on
  the resource in the module and has no valid witness of the kind, while at least the minimum number of
  its siblings there have one. Every such departure is reported, one per kind of operation in the group.
\<close>

theorem consistency_anomalies_exact:
  assumes "sibling_sets entries operations discharges = Inr sets"
  shows "(\<exists>a \<in> set (fst (consistency_anomalies sets n)).
      an_handler a = h \<and> an_missing a = kind \<and> an_operation_kind a = k \<and> an_key a = key) \<longleftrightarrow>
    sibling_of entries operations key h \<and> \<not> discharges_kind discharges h kind \<and> kind \<in> set discharger_kinds \<and>
    (let who = {s. sibling_of entries operations key s \<and> discharges_kind discharges s kind}
     in who \<noteq> {} \<and> n \<le> int (card who)) \<and>
    (\<exists>op \<in> set operations. sibling_of entries operations key (operation_handler op) \<and> o_resource op = Some (snd key) \<and> o_kind op = k)"
proof -
  from assms obtain ms where ms: "group_members entries operations = Inr ms"
    "sets = map (sibling_set_of entries discharges ms) (sorted_set (map fst ms))"
    by (auto simp: sibling_sets_def bind_result_eq_Inr)
  let ?s = "sibling_set_of entries discharges ms key"
  have kinds: "k \<in> set (ss_operation_kinds ?s) \<longleftrightarrow> (\<exists>op \<in> set operations.
      sibling_of entries operations key (operation_handler op) \<and> o_resource op = Some (snd key) \<and> o_kind op = k)"
    unfolding sibling_set_operation_kinds [OF ms(1)] by blast
  have keys: "(\<exists>s \<in> set sets. ss_key s = key \<and> P s) \<longleftrightarrow> P ?s \<and> (\<exists>h. sibling_of entries operations key h)" for P
  proof -
    have "key \<in> set (map fst ms) \<longleftrightarrow> (\<exists>h k. (key, h, k) \<in> set ms)" by force
    then show ?thesis by (auto simp: ms(2) group_members_iff [OF ms(1)] sibling_of_def)
  qed
  have "(\<exists>a \<in> set (fst (consistency_anomalies sets n)).
      an_handler a = h \<and> an_missing a = kind \<and> an_operation_kind a = k \<and> an_key a = key) \<longleftrightarrow>
    (\<exists>s \<in> set sets. ss_key s = key \<and> (n \<le> int (length (ss_handlers s)) \<and>
      (\<exists>a \<in> set (set_anomalies n s). an_handler a = h \<and> an_missing a = kind \<and> an_operation_kind a = k)))"
    unfolding consistency_anomalies_iff Bex_def by (auto simp: set_anomalies_iff)
  also have "\<dots> \<longleftrightarrow> n \<le> int (length (ss_handlers ?s)) \<and>
      (\<exists>a \<in> set (set_anomalies n ?s). an_handler a = h \<and> an_missing a = kind \<and> an_operation_kind a = k) \<and>
      (\<exists>h. sibling_of entries operations key h)"
    by (auto simp: keys)
  finally show ?thesis
    unfolding set_anomaly_of [OF ms(1)] kinds Let_def using enough_siblings [OF ms(1), of n key discharges kind] by auto
qed

section \<open>The grouping depends on what was found, not on the order it was found in\<close>

lemma map_result_Inl: "map_result f xs = Inl e \<Longrightarrow> \<exists>x \<in> set xs. f x = Inl e"
  by (induction xs) (auto simp: bind_result_def split: sum.splits)

lemma handler_members_Inl: "handler_members operations h = Inl e \<Longrightarrow> e = ValueError ''has an empty name''"
  by (auto simp: handler_members_def bind_result_def module_of_def split: sum.splits list.splits)

lemma group_members_Inl:
  assumes "group_members entries operations = Inl e"
  shows "e = ValueError ''has an empty name'' \<and>
    (\<exists>op \<in> set operations. access_levels entries (operation_handler op) \<noteq> None \<and> isl (module_of (before_colons (operation_handler op))))"
proof -
  from assms have "map_result (handler_members operations)
      (filter (\<lambda>h. access_levels entries h \<noteq> None) (dedup (map operation_handler operations))) = Inl e"
    by (auto simp: group_members_def bind_result_def split: sum.splits)
  from map_result_Inl [OF this] obtain op where op: "op \<in> set operations" "access_levels entries (operation_handler op) \<noteq> None"
    "handler_members operations (operation_handler op) = Inl e" by auto
  moreover from op(3) have "isl (module_of (before_colons (operation_handler op)))"
    by (auto simp: handler_members_def bind_result_def split: sum.splits)
  ultimately show ?thesis using handler_members_Inl by blast
qed

lemma group_members_no_bad:
  assumes "group_members entries operations = Inr ms" "op \<in> set operations" "access_levels entries (operation_handler op) \<noteq> None"
  shows "\<not> isl (module_of (before_colons (operation_handler op)))"
proof -
  from assms(1) obtain mss where mss: "map_result (handler_members operations)
      (filter (\<lambda>h. access_levels entries h \<noteq> None) (dedup (map operation_handler operations))) = Inr mss"
    by (auto simp: group_members_def bind_result_eq_Inr)
  from assms(2,3) map_result_all [OF mss, of "operation_handler op"] obtain xs
    where "handler_members operations (operation_handler op) = Inr xs" by auto
  then show ?thesis by (auto simp: handler_members_def bind_result_eq_Inr)
qed

lemma sibling_set_of_cong:
  assumes "set ms = set ms'" "set ds = set ds'"
  shows "sibling_set_of entries ds ms key = sibling_set_of entries ds' ms' key"
proof -
  have "sorted_set (map (\<lambda>m. fst (snd m)) (filter (\<lambda>m. fst m = key) ms)) =
      sorted_set (map (\<lambda>m. fst (snd m)) (filter (\<lambda>m. fst m = key) ms'))"
    "sorted_set (map (\<lambda>m. snd (snd m)) (filter (\<lambda>m. fst m = key) ms)) =
      sorted_set (map (\<lambda>m. snd (snd m)) (filter (\<lambda>m. fst m = key) ms'))"
    using assms(1) by (simp_all add: sorted_set_eq_iff)
  moreover have "discharges_kind ds = discharges_kind ds'"
    using assms(2) by (auto simp: discharges_kind_def list_ex_iff fun_eq_iff)
  ultimately show ?thesis by (simp add: sibling_set_of_def Let_def)
qed

text \<open>
  Grouping is a function of the sets of operations and witnesses: the order in which the files of a
  repository are read, and repetitions, change neither the sibling sets nor whether grouping raises.
\<close>

theorem sibling_sets_order_irrelevant:
  assumes "set operations = set operations'" "set discharges = set discharges'"
  shows "sibling_sets entries operations discharges = sibling_sets entries operations' discharges'"
proof (cases "group_members entries operations")
  case (Inl e)
  from group_members_Inl [OF this] have e: "e = ValueError ''has an empty name''"
    and bad: "\<exists>op \<in> set operations'. access_levels entries (operation_handler op) \<noteq> None \<and>
      isl (module_of (before_colons (operation_handler op)))" using assms(1) by auto
  show ?thesis
  proof (cases "group_members entries operations'")
    case (Inr ms')
    with group_members_no_bad bad show ?thesis by blast
  next
    case inl: (Inl e')
    from group_members_Inl [OF inl] e show ?thesis by (simp add: sibling_sets_def Inl inl)
  qed
next
  case (Inr ms)
  show ?thesis
  proof (cases "group_members entries operations'")
    case (Inl e)
    from group_members_Inl [OF Inl] group_members_no_bad [OF Inr] assms(1) show ?thesis by auto
  next
    case inr: (Inr ms')
    have "set ms = set ms'"
    proof (rule set_eqI)
      fix m :: member
      obtain key h k where m: "m = (key, h, k)" by (cases m) auto
      show "m \<in> set ms \<longleftrightarrow> m \<in> set ms'"
        unfolding m group_members_iff [OF Inr] group_members_iff [OF inr] assms(1) ..
    qed
    moreover from this have "sorted_set (map fst ms) = sorted_set (map fst ms')" by (simp add: sorted_set_eq_iff)
    ultimately show ?thesis using sibling_set_of_cong [OF _ assms(2)] by (simp add: sibling_sets_def Inr inr)
  qed
qed

section \<open>An instance\<close>

definition shop_operation :: "string \<Rightarrow> operation" where
  "shop_operation f = \<lparr>o_path = ''shop.py'', o_line = 9, o_function = f, o_kind = ''protected_write'', o_fact_id = ''w'',
     o_resource = Some ''order'', o_requires = [''ownership_check'']\<rparr>"

definition shop_witness :: "string \<Rightarrow> discharge" where
  "shop_witness f = \<lparr>w_path = ''shop.py'', w_line = None, w_function = f, w_kind = ''path_guard'', w_fact_id = ''login'',
     w_provenance = ''authenticated_context'', w_scope = ''decorator'', w_detail = ''login_required'',
     w_resource = None, w_authority = None\<rparr>"

definition shop_entry :: "string \<Rightarrow> entry_point" where
  "shop_entry f = \<lparr>ep_path = ''shop.py'', ep_line = None, ep_function = Some f, ep_name = f, ep_kind = ''http'',
     ep_access = ''authenticated'', ep_boundary = ''http_request'', ep_evidence = []\<rparr>"

definition shop_entries :: "entry_point list" where "shop_entries = map shop_entry [''add'', ''pay'', ''drop'']"
definition shop_operations :: "operation list" where "shop_operations = map shop_operation [''add'', ''pay'', ''drop'']"
definition shop_witnesses :: "discharge list" where "shop_witnesses = map shop_witness [''add'', ''pay'']"

lemmas shop_defs = shop_operation_def shop_witness_def shop_entry_def shop_entries_def shop_operations_def shop_witnesses_def

definition shop_set :: sibling_set where
  "shop_set = \<lparr>ss_key = (''shop'', ''order''), ss_handlers = [''shop.py::add'', ''shop.py::drop'', ''shop.py::pay''],
     ss_discharging = [(''path_guard'', [''shop.py::add'', ''shop.py::pay''])], ss_operation_kinds = [''protected_write''],
     ss_access = [(''shop.py::add'', ''authenticated''), (''shop.py::drop'', ''authenticated''), (''shop.py::pay'', ''authenticated'')]\<rparr>"

lemma shop_sets: "sibling_sets shop_entries shop_operations shop_witnesses = Inr [shop_set]"
  by code_simp

lemma consistency_anomalies_witness:
  "sibling_of shop_entries shop_operations (''shop'', ''order'') ''shop.py::drop'' \<and>
   \<not> discharges_kind shop_witnesses ''shop.py::drop'' ''path_guard''"
proof -
  have "list_ex (\<lambda>a. an_handler a = ''shop.py::drop'' \<and> an_missing a = ''path_guard'' \<and>
      an_operation_kind a = ''protected_write'' \<and> an_key a = (''shop'', ''order'')) (fst (consistency_anomalies [shop_set] 2))"
    by code_simp
  then have "\<exists>a \<in> set (fst (consistency_anomalies [shop_set] 2)). an_handler a = ''shop.py::drop'' \<and> an_missing a = ''path_guard'' \<and>
      an_operation_kind a = ''protected_write'' \<and> an_key a = (''shop'', ''order'')" by (simp only: list_ex_iff)
  then show ?thesis unfolding consistency_anomalies_exact [OF shop_sets] by simp
qed

lemma sibling_sets_order_witness: "sibling_sets shop_entries (rev shop_operations @ shop_operations) (rev shop_witnesses) = Inr [shop_set]"
  using sibling_sets_order_irrelevant [of "rev shop_operations @ shop_operations" shop_operations "rev shop_witnesses" shop_witnesses]
  by (simp add: shop_sets)

end
