(* ===== verification/Policy.thy ===== *)
theory Policy
  imports Facts
begin

text \<open>
  The declared policy of a project (\<open>semantic/obligations/policy.py\<close>): its closed schema, the access of a
  route and the hash of its version. Reading and parsing the file happen outside: the loader is given
  nothing when there is no file, else its text and the parsed table, or no table when it is not TOML.
  SHA-1 is the argument \<open>sha1\<close>.
\<close>

section \<open>\<open>fnmatch.fnmatchcase\<close>\<close>

datatype class_item = Single char | Range char char

fun class_items :: "string \<Rightarrow> class_item list" where
  "class_items [] = []"
| "class_items [a] = [Single a]"
| "class_items [a, b] = [Single a, Single b]"
| "class_items (a # b # c # cs) =
     (if b = CHR ''-'' then Range a c # class_items cs else Single a # class_items (b # c # cs))"

definition empty_range :: "class_item \<Rightarrow> bool" where
  "empty_range i = (case i of Range a b \<Rightarrow> b < a | _ \<Rightarrow> False)"

fun in_item :: "char \<Rightarrow> class_item \<Rightarrow> bool" where
  "in_item c (Single a) = (c = a)"
| "in_item c (Range a b) = (a \<le> c \<and> c \<le> b)"

text \<open>
  A class, without its brackets. Empty ranges are removed before the class is compiled, so that a \<open>!\<close>
  which comes first only then negates the class too.
\<close>

definition in_class :: "string \<Rightarrow> char \<Rightarrow> bool" where
  "in_class s c =
     (let items = (\<lambda>t. filter (\<lambda>i. \<not> empty_range i) (class_items t)) in
      case s of
        CHR ''!'' # t \<Rightarrow> \<not> list_ex (in_item c) (items t)
      | _ \<Rightarrow> (case items s of
            Single CHR ''!'' # is \<Rightarrow> \<not> list_ex (in_item c) is
          | Range CHR ''!'' b # is \<Rightarrow> \<not> list_ex (in_item c) (Single CHR ''-'' # Single b # is)
          | is \<Rightarrow> list_ex (in_item c) is))"

text \<open>The class that follows an opening bracket and what comes after it; a \<open>]\<close> right at its start is part of it.\<close>

definition split_class :: "string \<Rightarrow> (string \<times> string) option" where
  "split_class p =
     (let bang = (case p of CHR ''!'' # _ \<Rightarrow> 1 | _ \<Rightarrow> 0);
          first = (case drop bang p of CHR '']'' # _ \<Rightarrow> Suc bang | _ \<Rightarrow> bang);
          inside = takeWhile (\<lambda>c. c \<noteq> CHR '']'') (drop first p)
      in if first + length inside < length p
         then Some (take first p @ inside, drop (Suc (first + length inside)) p) else None)"

lemma split_class_shorter: "split_class p = Some (cls, rest) \<Longrightarrow> length rest < length p"
  by (auto simp: split_class_def Let_def split: if_splits)

function fnmatch :: "string \<Rightarrow> string \<Rightarrow> bool" where
  "fnmatch [] s = (s = [])"
| "fnmatch (p # ps) s =
     (if p = CHR ''*'' then fnmatch ps s \<or> (case s of [] \<Rightarrow> False | c # cs \<Rightarrow> fnmatch (p # ps) cs)
      else case s of
        [] \<Rightarrow> False
      | c # cs \<Rightarrow>
          if p = CHR ''?'' then fnmatch ps cs
          else if p = CHR ''['' then
            (case split_class ps of
               None \<Rightarrow> c = p \<and> fnmatch ps cs
             | Some (cls, rest) \<Rightarrow> in_class cls c \<and> fnmatch rest cs)
          else c = p \<and> fnmatch ps cs)"
  by pat_completeness auto
termination
  by (relation "measures [\<lambda>(p, s). length p + length s, \<lambda>(p, s). length p]") (auto dest: split_class_shorter)

declare fnmatch.simps [simp del]

lemma fnmatch_samples:
  "fnmatch ''/api/*'' ''/api/v1/books''" "\<not> fnmatch ''/api/*'' ''/ap''" "fnmatch ''/b?[0-9]'' ''/bx7''"
  "\<not> fnmatch ''/b[!0-9]'' ''/b7''" "fnmatch ''a[]x]'' ''a]''" "fnmatch ''a[b'' ''a[b''" "\<not> fnmatch ''[z-a]'' ''m''"
  by code_simp+

section \<open>The policy\<close>

definition route_access_values :: "string list" where
  "route_access_values = [''public'', ''authenticated'', ''role'']"

definition top_fields :: "string list" where
  "top_fields = [''version'', ''identity_source'', ''resource'', ''route'']"

definition resource_fields :: "string list" where
  "resource_fields = [''name'', ''sensitivity'', ''identity_field'']"

definition route_fields :: "string list" where
  "route_fields = [''path'', ''access'', ''roles'']"

record policy_resource =
  pr_name :: string
  pr_sensitivity :: string
  pr_identity_field :: "string option"

record policy_route =
  pt_path :: string
  pt_access :: string
  pt_roles :: "string list"

record declared_policy =
  dp_version :: int
  dp_identity_source :: "string option"
  dp_resources :: "(string \<times> policy_resource) list"
  dp_routes :: "policy_route list"
  dp_version_hash :: string

definition route_access :: "declared_policy \<Rightarrow> string \<Rightarrow> string option" where
  "route_access policy path =
     map_option pt_access (find (\<lambda>r. fnmatch (pt_path r) path \<or> path = pt_path r) (dp_routes policy))"

definition policy_sensitivity :: "declared_policy \<Rightarrow> string option \<Rightarrow> string option" where
  "policy_sensitivity policy resource =
     (case resource of None \<Rightarrow> None | Some r \<Rightarrow> map_option pr_sensitivity (map_of (dp_resources policy) r))"

definition kept_text :: "string \<Rightarrow> string" where
  "kept_text line = before_char (CHR ''#'') line"

definition normalized_policy :: "string \<Rightarrow> string" where
  "normalized_policy t =
     join_with [CHR 10] (map (\<lambda>l. rstrip_by py_space (kept_text l))
       (filter (\<lambda>l. strip (kept_text l) \<noteq> '''') (split_lines t)))"

definition version_hash :: "(string \<Rightarrow> string) \<Rightarrow> string \<Rightarrow> string" where
  "version_hash sha1 t = sha1 (normalized_policy t)"

definition policy_rows :: "pyval \<Rightarrow> table list result" where
  "policy_rows v = (case v of
     VNone \<Rightarrow> Inr []
   | VList vs \<Rightarrow> (case tables_of vs of Some ts \<Rightarrow> Inr ts | None \<Rightarrow> Inl (ValueError ''must be an array of tables''))
   | _ \<Rightarrow> Inl (ValueError ''must be an array of tables''))"

definition only_policy_fields :: "table \<Rightarrow> string list \<Rightarrow> string \<Rightarrow> unit result" where
  "only_policy_fields row allowed required =
     (if unknown_fields allowed row \<noteq> [] then Inl (ValueError ''unknown field'')
      else require (map_of row required \<noteq> None) ''required field missing'')"

definition policy_resource_row :: "table \<Rightarrow> policy_resource result" where
  "policy_resource_row row =
     bind_result (only_policy_fields row resource_fields ''name'') (\<lambda>_.
     let sensitivity = py_str (value_or row ''sensitivity'' (VStr ''medium'')) in
     bind_result (require (sensitivity \<in> set sensitivities) ''unknown sensitivity'') (\<lambda>_.
     let identity = value_of row ''identity_field'' in
     Inr \<lparr>pr_name = py_str (value_of row ''name''), pr_sensitivity = sensitivity,
       pr_identity_field = (if truthy identity then Some (py_str identity) else None)\<rparr>))"

definition policy_route_row :: "table \<Rightarrow> policy_route result" where
  "policy_route_row row =
     bind_result (only_policy_fields row route_fields ''path'') (\<lambda>_.
     let access = py_str (value_or row ''access'' (VStr '''')) in
     bind_result (require (access \<in> set route_access_values) ''unknown access'') (\<lambda>_.
     bind_result (case value_or row ''roles'' (VList []) of
         VList vs \<Rightarrow> (case strings_of vs of Some ss \<Rightarrow> Inr ss | None \<Rightarrow> Inl (ValueError ''roles must be a list of strings''))
       | _ \<Rightarrow> Inl (ValueError ''roles must be a list of strings'')) (\<lambda>roles.
     Inr \<lparr>pt_path = py_str (value_of row ''path''), pt_access = access, pt_roles = roles\<rparr>)))"

definition allowed_identity_sources :: "obligation_facts \<Rightarrow> string set" where
  "allowed_identity_sources facts = insert ''token'' (\<Union>f \<in> set (of_dischargers facts). set (df_identity_sources f))"

definition policy_identity_source :: "obligation_facts result \<Rightarrow> pyval \<Rightarrow> string option result" where
  "policy_identity_source loaded v =
     (case v of
        VNone \<Rightarrow> Inr None
      | _ \<Rightarrow> bind_result loaded (\<lambda>facts.
          case v of
            VStr s \<Rightarrow> if s \<in> allowed_identity_sources facts then Inr (Some s)
                else Inl (ValueError ''identity_source is not a known authenticated-context source'')
          | _ \<Rightarrow> Inl (ValueError ''identity_source is not a known authenticated-context source'')))"

definition load_declared_policy :: "(string \<Rightarrow> string) \<Rightarrow> obligation_facts result \<Rightarrow> (string \<times> table option) option \<Rightarrow>
    declared_policy option result" where
  "load_declared_policy sha1 loaded document =
     (case document of
        None \<Rightarrow> Inr None
      | Some (t, None) \<Rightarrow> Inl (ValueError ''invalid TOML'')
      | Some (t, Some payload) \<Rightarrow>
          bind_result (require (unknown_fields top_fields payload = []) ''unknown field'') (\<lambda>_.
          bind_result (case as_int (value_or payload ''version'' (VInt 1)) of
              Some v \<Rightarrow> Inr v | None \<Rightarrow> Inl (ValueError ''version must be an integer'')) (\<lambda>version.
          bind_result (policy_identity_source loaded (value_of payload ''identity_source'')) (\<lambda>source.
          bind_result (policy_rows (value_of payload ''resource'')) (\<lambda>rows.
          bind_result (map_result policy_resource_row rows) (\<lambda>resources.
          bind_result (policy_rows (value_of payload ''route'')) (\<lambda>rows.
          bind_result (map_result policy_route_row rows) (\<lambda>routes.
          Inr (Some \<lparr>dp_version = version, dp_identity_source = source,
            dp_resources = foldl (\<lambda>d r. dict_set (pr_name r) r d) [] resources, dp_routes = routes,
            dp_version_hash = version_hash sha1 t\<rparr>)))))))))"

section \<open>What a loaded policy satisfies\<close>

definition valid_policy :: "obligation_facts result \<Rightarrow> declared_policy \<Rightarrow> bool" where
  "valid_policy loaded p \<longleftrightarrow>
     distinct (map fst (dp_resources p)) \<and>
     (\<forall>(name, r) \<in> set (dp_resources p). pr_name r = name \<and> pr_sensitivity r \<in> set sensitivities) \<and>
     (\<forall>r \<in> set (dp_routes p). pt_access r \<in> set route_access_values) \<and>
     (case dp_identity_source p of None \<Rightarrow> True
      | Some s \<Rightarrow> (case loaded of Inr facts \<Rightarrow> s \<in> allowed_identity_sources facts | Inl _ \<Rightarrow> False))"

lemma policy_resource_row_Inr: "policy_resource_row row = Inr r \<Longrightarrow>
    pr_sensitivity r \<in> set sensitivities \<and> fst ` set row \<subseteq> set resource_fields \<and> ''name'' \<in> fst ` set row"
  by (auto simp: policy_resource_row_def only_policy_fields_def bind_result_eq_Inr Let_def unknown_fields_Nil
      map_of_eq_None_iff split: if_splits)

lemma policy_route_row_Inr: "policy_route_row row = Inr r \<Longrightarrow>
    pt_access r \<in> set route_access_values \<and> fst ` set row \<subseteq> set route_fields \<and> ''path'' \<in> fst ` set row"
  by (auto simp: policy_route_row_def only_policy_fields_def bind_result_eq_Inr Let_def unknown_fields_Nil
      map_of_eq_None_iff split: if_splits)

lemma policy_identity_source_Inr: "policy_identity_source loaded v = Inr (Some s) \<Longrightarrow>
    \<exists>facts. loaded = Inr facts \<and> s \<in> allowed_identity_sources facts"
  by (auto simp: policy_identity_source_def bind_result_eq_Inr split: pyval.splits if_splits)

lemma dict_set_items: "set (dict_set k v d) \<subseteq> insert (k, v) (set d)"
  by (induction k v d rule: dict_set.induct) auto

lemma resource_dict:
  "distinct (map fst d) \<Longrightarrow> distinct (map fst (foldl (\<lambda>d r. dict_set (pr_name r) r d) d rs)) \<and>
     set (foldl (\<lambda>d r. dict_set (pr_name r) r d) d rs) \<subseteq> set d \<union> (\<lambda>r. (pr_name r, r)) ` set rs"
proof (induction rs arbitrary: d)
  case (Cons r rs)
  from Cons.IH [OF distinct_dict_set [OF Cons.prems]] dict_set_items [of "pr_name r" r d] show ?case by fastforce
qed simp

lemma load_declared_policy_Inr:
  assumes "load_declared_policy sha1 loaded (Some (t, d)) = Inr (Some p)"
  obtains payload rows resources rows' routes where "d = Some payload" "fst ` set payload \<subseteq> set top_fields"
    "policy_identity_source loaded (value_of payload ''identity_source'') = Inr (dp_identity_source p)"
    "map_result policy_resource_row rows = Inr resources" "map_result policy_route_row rows' = Inr routes"
    "dp_resources p = foldl (\<lambda>d r. dict_set (pr_name r) r d) [] resources" "dp_routes p = routes"
    "dp_version_hash p = version_hash sha1 t"
  using assms
  by (auto simp: load_declared_policy_def bind_result_eq_Inr unknown_fields_Nil split: option.splits)

text \<open>
  A policy that loads is closed: no field outside the schema, every sensitivity and access one of the
  declared values, one resource per name, and an identity source the facts know.
\<close>

theorem load_declared_policy_valid:
  assumes "load_declared_policy sha1 loaded (Some (t, d)) = Inr (Some p)"
  shows "valid_policy loaded p \<and> (\<exists>payload. d = Some payload \<and> fst ` set payload \<subseteq> set top_fields) \<and>
    dp_version_hash p = sha1 (normalized_policy t)"
proof -
  from load_declared_policy_Inr [OF assms] obtain payload rows resources rows' routes where p: "d = Some payload"
    "fst ` set payload \<subseteq> set top_fields"
    "policy_identity_source loaded (value_of payload ''identity_source'') = Inr (dp_identity_source p)"
    "map_result policy_resource_row rows = Inr resources" "map_result policy_route_row rows' = Inr routes"
    "dp_resources p = foldl (\<lambda>d r. dict_set (pr_name r) r d) [] resources" "dp_routes p = routes"
    "dp_version_hash p = version_hash sha1 t" by blast
  have "pr_sensitivity r \<in> set sensitivities" if "r \<in> set resources" for r
    using map_result_set [OF p(4) that] policy_resource_row_Inr by blast
  moreover have "pt_access r \<in> set route_access_values" if "r \<in> set routes" for r
    using map_result_set [OF p(5) that] policy_route_row_Inr by blast
  moreover have "case dp_identity_source p of None \<Rightarrow> True
      | Some s \<Rightarrow> (case loaded of Inr facts \<Rightarrow> s \<in> allowed_identity_sources facts | Inl _ \<Rightarrow> False)"
    using policy_identity_source_Inr [of loaded _] p(3) by (fastforce split: option.splits)
  ultimately show ?thesis
    using resource_dict [of "[]" resources] p(1,2,6,7,8) unfolding valid_policy_def version_hash_def by fastforce
qed

section \<open>Routes\<close>

definition plain_route :: "string \<Rightarrow> bool" where
  "plain_route p \<longleftrightarrow> set p \<inter> {CHR ''*'', CHR ''?'', CHR ''[''} = {}"

lemma fnmatch_plain: "plain_route p \<Longrightarrow> fnmatch (p @ q) s \<longleftrightarrow> (\<exists>t. s = p @ t \<and> fnmatch q t)"
proof (induction p arbitrary: s)
  case (Cons c p)
  then show ?case by (cases s) (auto simp: plain_route_def fnmatch.simps(2) [of c "p @ q"])
qed simp

lemma fnmatch_star: "fnmatch ''*'' s"
proof (induction s)
  case (Cons c s)
  then show ?case by (subst fnmatch.simps) simp
qed (simp add: fnmatch.simps)

lemma route_access_first:
  "route_access policy path = Some a \<longleftrightarrow>
     (\<exists>i < length (dp_routes policy). pt_access (dp_routes policy ! i) = a \<and>
        (fnmatch (pt_path (dp_routes policy ! i)) path \<or> path = pt_path (dp_routes policy ! i)) \<and>
        (\<forall>j < i. \<not> fnmatch (pt_path (dp_routes policy ! j)) path \<and> path \<noteq> pt_path (dp_routes policy ! j)))"
  by (auto simp: route_access_def find_Some_iff)

text \<open>
  A declared path without wildcards covers itself only, with a trailing star exactly the paths it is a
  prefix of.
\<close>

theorem fnmatch_route_forms:
  assumes "plain_route p"
  shows "(fnmatch p s \<longleftrightarrow> s = p) \<and> (fnmatch (p @ ''*'') s \<longleftrightarrow> (\<exists>t. s = p @ t))"
  using fnmatch_plain [OF assms, of "[]" s] fnmatch_plain [OF assms, of "''*''" s]
  by (simp add: fnmatch.simps(1) fnmatch_star)

section \<open>The version of a policy\<close>

definition no_break :: "string \<Rightarrow> bool" where
  "no_break l \<longleftrightarrow> list_all (\<lambda>c. \<not> line_break c) l"

lemma line_break_10: "line_break (CHR 10)"
  by code_simp

lemma line_break_13: "code c = 13 \<Longrightarrow> line_break c"
  by (simp add: line_break_def Let_def)

lemma lines_from_line: "no_break l \<Longrightarrow> lines_from acc (l @ CHR 10 # rest) = (rev acc @ l) # lines_from [] rest"
proof (induction l arbitrary: acc)
  case Nil
  have "code (CHR 10) \<noteq> 13" by code_simp
  then show ?case using line_break_10 by (cases rest) auto
next
  case (Cons c l)
  then have "\<not> line_break c" "code c \<noteq> 13" "no_break l" by (auto simp: no_break_def dest: line_break_13)
  with Cons.IH [of "c # acc"] show ?case by (cases l) auto
qed

lemma lines_from_last: "no_break l \<Longrightarrow> lines_from acc l = (if acc = [] \<and> l = [] then [] else [rev acc @ l])"
proof (induction l arbitrary: acc)
  case (Cons c l)
  then have "\<not> line_break c" "code c \<noteq> 13" "no_break l" by (auto simp: no_break_def dest: line_break_13)
  with Cons.IH [of "c # acc"] show ?case by (cases l) auto
qed simp

text \<open>Splitting what was joined: only an empty last line is lost.\<close>

lemma split_join: "list_all no_break ls \<Longrightarrow> P [] = False \<Longrightarrow>
    filter P (split_lines (join_with [CHR 10] ls)) = filter P ls"
proof (induction ls)
  case (Cons x ls)
  then show ?case
    by (cases ls) (simp_all add: split_lines_def lines_from_last lines_from_line)
qed (simp add: split_lines_def)

definition policy_lines :: "string list \<Rightarrow> string list" where
  "policy_lines ls = map (\<lambda>l. rstrip_by py_space (kept_text l)) (filter (\<lambda>l. strip (kept_text l) \<noteq> '''') ls)"

lemma normalized_policy_lines: "list_all no_break ls \<Longrightarrow>
    normalized_policy (join_with [CHR 10] ls) = join_with [CHR 10] (policy_lines ls)"
  by (simp add: normalized_policy_def policy_lines_def split_join kept_text_def before_char_def strip_def
      lstrip_by_def rstrip_by_def)

lemma takeWhile_no_break: "no_break l \<Longrightarrow> no_break (takeWhile p l)"
  by (auto simp: no_break_def list_all_iff dest: set_takeWhileD)

lemma rstrip_set: "set (rstrip_by p l) \<subseteq> set l"
  by (auto simp: rstrip_by_def dest: set_dropWhileD)

lemma rstrip_no_break: "no_break l \<Longrightarrow> no_break (rstrip_by p l)"
  using rstrip_set by (fastforce simp: no_break_def list_all_iff)

lemma dropWhile_Nil_iff: "dropWhile p xs = [] \<longleftrightarrow> (\<forall>x \<in> set xs. p x)"
  by (induction xs) auto

lemma rstrip_Nil_iff: "rstrip_by p l = [] \<longleftrightarrow> (\<forall>x \<in> set l. p x)"
  by (auto simp: rstrip_by_def dropWhile_Nil_iff)

lemma strip_Nil_iff: "strip l = [] \<longleftrightarrow> (\<forall>x \<in> set l. py_space x)"
proof -
  have "(\<forall>x \<in> set (dropWhile py_space l). py_space x) \<longleftrightarrow> (\<forall>x \<in> set l. py_space x)"
    by (induction l) auto
  then show ?thesis by (simp add: strip_def lstrip_by_def rstrip_Nil_iff)
qed

lemma policy_lines_shape: "list_all no_break ls \<Longrightarrow> l \<in> set (policy_lines ls) \<Longrightarrow> no_break l \<and> l \<noteq> []"
  by (auto simp: policy_lines_def list_all_iff kept_text_def before_char_def strip_Nil_iff rstrip_Nil_iff
      intro!: rstrip_no_break takeWhile_no_break)

lemma join_inject: "list_all no_break ls \<Longrightarrow> list_all no_break ls' \<Longrightarrow> [] \<notin> set ls \<Longrightarrow> [] \<notin> set ls' \<Longrightarrow>
    join_with [CHR 10] ls = join_with [CHR 10] ls' \<Longrightarrow> ls = ls'"
  using split_join [of ls "\<lambda>l. l \<noteq> []"] split_join [of ls' "\<lambda>l. l \<noteq> []"]
  by (simp add: filter_id_conv [THEN iffD2]) (metis (mono_tags, lifting) filter_True)

text \<open>
  The version of a policy changes exactly when its content does: two files have the same normal form
  if and only if they agree line by line, comments, blank lines and trailing white space left out.
\<close>

theorem normalized_policy_exact:
  assumes "list_all no_break ls" "list_all no_break ls'"
  shows "normalized_policy (join_with [CHR 10] ls) = normalized_policy (join_with [CHR 10] ls') \<longleftrightarrow>
    policy_lines ls = policy_lines ls'"
  unfolding normalized_policy_lines [OF assms(1)] normalized_policy_lines [OF assms(2)]
  using policy_lines_shape [OF assms(1)] policy_lines_shape [OF assms(2)] join_inject [of "policy_lines ls" "policy_lines ls'"]
  by (auto simp: list_all_iff)

section \<open>Instances\<close>

definition shop_policy_text :: string where
  "shop_policy_text = join_with [CHR 10] [''version = 2'', ''# owners'', ''[[resource]]'', ''name = 1  # order'']"

definition shop_policy_table :: table where
  "shop_policy_table = [(''version'', VInt 2), (''identity_source'', VStr ''token''),
     (''resource'', VList [VDict [(''name'', VStr ''order''), (''sensitivity'', VStr ''high''), (''identity_field'', VStr ''owner_id'')]]),
     (''route'', VList [VDict [(''path'', VStr ''/public/*''), (''access'', VStr ''public'')],
        VDict [(''path'', VStr ''/admin''), (''access'', VStr ''role''), (''roles'', VList [VStr ''admin''])]])]"

definition no_facts :: obligation_facts where
  "no_facts = \<lparr>of_version = ''1'', of_operations = [], of_dischargers = [], of_implications = []\<rparr>"

definition shop_policy :: declared_policy where
  "shop_policy = \<lparr>dp_version = 2, dp_identity_source = Some ''token'',
     dp_resources = [(''order'', \<lparr>pr_name = ''order'', pr_sensitivity = ''high'', pr_identity_field = Some ''owner_id''\<rparr>)],
     dp_routes = [\<lparr>pt_path = ''/public/*'', pt_access = ''public'', pt_roles = []\<rparr>,
        \<lparr>pt_path = ''/admin'', pt_access = ''role'', pt_roles = [''admin'']\<rparr>],
     dp_version_hash = rev (normalized_policy shop_policy_text)\<rparr>"

lemma shop_policy_loads:
  "load_declared_policy rev (Inr no_facts) (Some (shop_policy_text, Some shop_policy_table)) = Inr (Some shop_policy)"
  by code_simp

lemma load_declared_policy_witness:
  "valid_policy (Inr no_facts) shop_policy \<and> dp_version_hash shop_policy = rev (normalized_policy shop_policy_text)"
  using load_declared_policy_valid [OF shop_policy_loads] by simp

lemma fnmatch_route_witness: "fnmatch ''/public/*'' ''/public/a/b'' \<and> \<not> fnmatch ''/admin'' ''/admin/x''"
proof -
  have p: "plain_route ''/public/''" "plain_route ''/admin''" by (simp_all add: plain_route_def)
  from fnmatch_route_forms [OF p(1), of "''/public/a/b''"] fnmatch_route_forms [OF p(2), of "''/admin/x''"] show ?thesis by simp
qed

lemma normalized_policy_witness:
  "normalized_policy (join_with [CHR 10] [''a = 1 '', '''', ''# c'']) = normalized_policy (join_with [CHR 10] [''# d'', ''a = 1''])"
proof -
  have b: "list_all no_break [''a = 1 '', '''', ''# c'']" "list_all no_break [''# d'', ''a = 1'']" by code_simp+
  have "policy_lines [''a = 1 '', '''', ''# c''] = policy_lines [''# d'', ''a = 1'']" by code_simp
  then show ?thesis unfolding normalized_policy_exact [OF b] .
qed

lemma unknown_policy_field_rejected:
  "load_declared_policy sha1 loaded (Some (t, Some [(''versions'', VInt 1)])) = Inl (ValueError ''unknown field'')"
  by (simp add: load_declared_policy_def require_def unknown_fields_def top_fields_def)

end
