(* ===== verification/Checker.thy ===== *)
theory Checker
  imports Siblings Policy Dominance Paths
begin

text \<open>
  The obligation checker (\<open>semantic/obligations/check.py\<close>). A dominance is an argument, its answer a
  function of the witness, the operation and the nodes of the path: what an implementation records of its
  degradations is no part of the result. A degradation is the dictionary the code builds.
\<close>

section \<open>Findings\<close>

record obligation_finding =
  og_operation :: operation
  og_missing :: string
  og_provenance :: "string option"
  og_label :: string
  og_evidence :: "string list"
  og_known_fix :: "string option"
  og_sensitivity :: string
  og_route :: "string option"
  og_intent :: "string option"
  og_rationale :: "string option"

record obligation_result =
  or_findings :: "obligation_finding list"
  or_discharges :: "discharge list"
  or_sibling_sets :: "sibling_set list"
  or_under_populated :: "(string \<times> string) list"
  or_operations :: int
  or_degradations :: "table list"
  or_policy_version :: "string option"

text \<open>A row of the mechanism store: its id and its shape when that is a dictionary.\<close>

record store_row =
  sr_id :: string
  sr_shape :: "table option"

definition usable_shape :: "store_row \<Rightarrow> bool" where
  "usable_shape row =
     (case sr_shape row of
        None \<Rightarrow> False
      | Some shape \<Rightarrow> truthy (value_of shape ''operation_kind'') \<and> truthy (value_of shape ''discharger_kind''))"

definition some_text :: "string \<Rightarrow> string option" where
  "some_text s = (if s = '''' then None else Some s)"

definition known_fix :: "operation \<Rightarrow> string \<Rightarrow> store_row list \<Rightarrow> string option" where
  "known_fix op missing rows =
     (case find (\<lambda>row. usable_shape row \<and> (case sr_shape row of None \<Rightarrow> False | Some shape \<Rightarrow>
          value_of shape ''operation_kind'' = VStr (o_kind op) \<and> value_of shape ''discharger_kind'' = VStr missing)) rows of
        None \<Rightarrow> None | Some row \<Rightarrow> some_text (sr_id row))"

definition fact_sensitivity :: "operation \<Rightarrow> obligation_facts \<Rightarrow> string" where
  "fact_sensitivity op facts =
     (case find (\<lambda>f. f_id f = o_fact_id op) (of_operations facts) of None \<Rightarrow> ''medium'' | Some f \<Rightarrow> f_sensitivity f)"

section \<open>The route of a handler\<close>

definition route_regex :: regex where
  "route_regex =
     (let quote = (\<lambda>c. c = CHR 0x27 \<or> c = CHR 0x22) in
      RSeqs [RLit ''@'', RChar py_word, RStar (\<lambda>c. py_word c \<or> c = CHR ''.''), RLit ''.'',
        RAlts (map RLit [''route'', ''get'', ''post'', ''put'', ''delete'', ''patch'', ''api_route'', ''websocket'']),
        RLit ''('', RStar py_space, RChar quote, RGroup (RPlus (\<lambda>c. \<not> quote c)), RChar quote])"

definition def_regex :: "string \<Rightarrow> regex" where
  "def_regex function = RSeqs [RStar py_space, ROpt (RSeq (RLit ''async'') (RPlus py_space)),
     RAlts [RLit ''def'', RLit ''function''], RPlus py_space, RLit function, RWordBound]"

fun first_index :: "('a \<Rightarrow> bool) \<Rightarrow> 'a list \<Rightarrow> nat option" where
  "first_index p [] = None"
| "first_index p (x # xs) = (if p x then Some 0 else map_option Suc (first_index p xs))"

definition def_index :: "string list \<Rightarrow> string \<Rightarrow> nat option" where
  "def_index lines function = first_index (\<lambda>line. re_match (def_regex function) line \<noteq> None) lines"

fun route_above :: "nat \<Rightarrow> string list \<Rightarrow> string option" where
  "route_above 0 lines = None"
| "route_above (Suc i) lines =
     (if starts_with ''@'' (strip (lines ! i))
      then (case re_find route_regex (strip (lines ! i)) of Some (_, Some g) \<Rightarrow> Some g | _ \<Rightarrow> route_above i lines)
      else None)"

definition route_path :: "operation \<Rightarrow> string \<Rightarrow> string option" where
  "route_path op t =
     (let lines = split_lines t in
      case def_index lines (o_function op) of None \<Rightarrow> None | Some i \<Rightarrow> route_above i lines)"

section \<open>Which operations are reached, and by which witnesses judged\<close>

text \<open>\<open>f"{path}::{function_name}"\<close>: a missing name prints as \<open>None\<close>.\<close>

definition entry_id :: "entry_point \<Rightarrow> string" where
  "entry_id e = handler_id (ep_path e) (case ep_function e of None \<Rightarrow> ''None'' | Some n \<Rightarrow> n)"

definition entry_index :: "entry_point list \<Rightarrow> string \<rightharpoonup> entry_point" where
  "entry_index entries = foldl (\<lambda>m e. m(entry_id e \<mapsto> e)) Map.empty entries"

definition reached_operations :: "operation list \<Rightarrow> path_record list \<Rightarrow> string set \<Rightarrow> (operation \<times> path_record option) list" where
  "reached_operations operations paths entry_handlers =
     (if paths = [] then map (\<lambda>op. (op, None)) (filter (\<lambda>op. operation_handler op \<in> entry_handlers) operations)
      else List.map_filter (\<lambda>op. map_option (\<lambda>r. (op, Some r))
             (find (\<lambda>r. p_hops r \<noteq> [] \<and> fst (last (p_hops r)) = operation_handler op) paths)) operations)"

type_synonym dominates = "discharge \<Rightarrow> operation \<Rightarrow> string list option \<Rightarrow> bool"

definition path_hops :: "path_record option \<Rightarrow> hop list" where
  "path_hops record = (case record of None \<Rightarrow> [] | Some r \<Rightarrow> p_hops r)"

definition path_nodes :: "path_record option \<Rightarrow> string list option" where
  "path_nodes record = map_option (\<lambda>r. map fst (p_hops r)) record"

definition on_caller_hop :: "discharge \<Rightarrow> path_record option \<Rightarrow> operation \<Rightarrow> dominates \<Rightarrow> bool" where
  "on_caller_hop w record op dominates =
     (case find (\<lambda>(node, line). node = witness_handler w) (butlast (path_hops record)) of
        None \<Rightarrow> False
      | Some (node, line) \<Rightarrow>
          if w_scope w \<in> {''router'', ''decorator''} then True
          else if w_kind w \<notin> {''path_guard'', ''ownership_check''} then False
          else (case line of
              None \<Rightarrow> False
            | Some l \<Rightarrow> dominates w (op\<lparr>o_path := w_path w, o_function := w_function w, o_line := l\<rparr>) None))"

definition relevant :: "discharge \<Rightarrow> operation \<Rightarrow> bool" where
  "relevant w op \<longleftrightarrow> w_scope w = ''hop'' \<or> same_function w op"

section \<open>One finding\<close>

type_synonym anomaly_index = "((string \<times> string) \<times> anomaly) list"

definition index_anomalies :: "anomaly list \<Rightarrow> anomaly_index" where
  "index_anomalies anomalies = foldl (\<lambda>d a. dict_set (an_handler a, an_missing a) a d) [] anomalies"

definition declared_resource :: "declared_policy option \<Rightarrow> operation \<Rightarrow> policy_resource option" where
  "declared_resource policy op =
     (case policy of None \<Rightarrow> None
      | Some p \<Rightarrow> map_of (dp_resources p) (case o_resource op of None \<Rightarrow> '''' | Some r \<Rightarrow> r))"

definition resource_clause :: "policy_resource \<Rightarrow> string" where
  "resource_clause r = ''resource '' @ pr_name r @ '' declared sensitivity '' @ pr_sensitivity r @
     (case pr_identity_field r of None \<Rightarrow> '''' | Some f \<Rightarrow> if f = '''' then '''' else '', identity field '' @ f)"

definition text_of :: "string option \<Rightarrow> string" where
  "text_of s = (case s of None \<Rightarrow> ''None'' | Some t \<Rightarrow> t)"

definition entry_evidence :: "entry_point \<Rightarrow> string \<Rightarrow> string option \<Rightarrow> bool \<Rightarrow> string list" where
  "entry_evidence e missing declared_access handler_obligation =
     (''entry '' @ ep_kind e @ '': '' @ entry_id e) # ep_evidence e @
     [if handler_obligation \<and> (declared_access = Some ''public'' \<or> ep_access e = ''public'')
      then ''no declared policy clause and no sibling norm; the handler fact requires '' @ missing @ ''; public access waives only path_guard''
      else ''no declared policy clause and no sibling norm; the prover assumes a recognised entry is protected'']"

text \<open>The label of a missing discharger and its evidence; nothing when nothing justifies the obligation.\<close>

definition justification :: "operation \<Rightarrow> string \<Rightarrow> anomaly option \<Rightarrow> declared_policy option \<Rightarrow> string option \<Rightarrow> string option \<Rightarrow>
    path_record list \<Rightarrow> entry_point option \<Rightarrow> bool \<Rightarrow> (string \<times> string list) option" where
  "justification op missing anomaly policy route declared_access paths assumed_entry handler_obligation =
     (let siblings = (case anomaly of None \<Rightarrow> [] | Some a \<Rightarrow> an_siblings a) in
      case (if missing \<in> {''identity_constraint'', ''ownership_check''} then declared_resource policy op else None) of
        Some r \<Rightarrow> Some (''declared_policy_violation'', resource_clause r # siblings)
      | None \<Rightarrow>
          if missing = ''path_guard'' \<and> declared_access \<in> {Some ''authenticated'', Some ''role''}
          then Some (''declared_policy_violation'',
            (''route '' @ text_of route @ '' declared '' @ text_of declared_access) # siblings)
          else case anomaly of
            Some a \<Rightarrow> Some (''consistency_violation'', an_siblings a @ drop (length (an_siblings a)) (an_evidence a))
          | None \<Rightarrow>
              if paths = [] then Some (''function_local'', [])
              else case assumed_entry of
                None \<Rightarrow> None
              | Some e \<Rightarrow>
                  if ep_access e \<noteq> ''public'' \<and> declared_access \<noteq> Some ''public'' \<or> handler_obligation \<and> missing \<noteq> ''path_guard''
                  then Some (''unguarded_path'', entry_evidence e missing declared_access handler_obligation)
                  else None)"

definition make_finding :: "operation \<Rightarrow> string \<Rightarrow> discharge list \<Rightarrow> anomaly option \<Rightarrow> declared_policy option \<Rightarrow> string option \<Rightarrow>
    string option \<Rightarrow> store_row list \<Rightarrow> path_record list \<Rightarrow> obligation_facts \<Rightarrow> entry_point option \<Rightarrow> bool \<Rightarrow>
    obligation_finding option" where
  "make_finding op missing same anomaly policy route declared_access store_shapes paths facts assumed_entry handler_obligation =
     map_option (\<lambda>(label, evidence).
       \<lparr>og_operation = op, og_missing = missing,
        og_provenance = map_option w_provenance (find (\<lambda>w. w_kind w = missing \<and> \<not> valid_witness w) same),
        og_label = label, og_evidence = evidence, og_known_fix = known_fix op missing store_shapes,
        og_sensitivity = (case declared_resource policy op of
            Some r \<Rightarrow> if pr_sensitivity r = '''' then fact_sensitivity op facts else pr_sensitivity r
          | None \<Rightarrow> fact_sensitivity op facts),
        og_route = route, og_intent = None, og_rationale = None\<rparr>)
     (justification op missing anomaly policy route declared_access paths assumed_entry handler_obligation)"

section \<open>One reached operation\<close>

record check_context =
  cx_facts :: obligation_facts
  cx_policy :: "declared_policy option"
  cx_paths :: "path_record list"
  cx_dominates :: dominates
  cx_shapes :: "store_row list"
  cx_assume :: bool
  cx_handlers_known :: bool
  cx_witnesses :: "discharge list"
  cx_texts :: "string \<rightharpoonup> string"
  cx_entries :: "entry_point list"
  cx_anomalies :: anomaly_index

definition path_entry :: "check_context \<Rightarrow> path_record option \<Rightarrow> entry_point option" where
  "path_entry cx record = entry_index (cx_entries cx) (case path_hops record of [] \<Rightarrow> '''' | hop # _ \<Rightarrow> fst hop)"

definition operation_route :: "check_context \<Rightarrow> operation \<Rightarrow> path_record option \<Rightarrow> string option" where
  "operation_route cx op record =
     (case route_path op (case cx_texts cx (o_path op) of None \<Rightarrow> '''' | Some t \<Rightarrow> t) of
        Some r \<Rightarrow> Some r
      | None \<Rightarrow> if cx_assume cx then (case path_entry cx record of None \<Rightarrow> None | Some e \<Rightarrow> some_text (ep_name e)) else None)"

definition declared_access_of :: "check_context \<Rightarrow> operation \<Rightarrow> path_record option \<Rightarrow> string option" where
  "declared_access_of cx op record =
     (case (cx_policy cx, operation_route cx op record) of
        (Some p, Some r) \<Rightarrow> if r = '''' then None else route_access p r
      | _ \<Rightarrow> None)"

definition judged_witnesses :: "check_context \<Rightarrow> operation \<Rightarrow> path_record option \<Rightarrow> discharge list" where
  "judged_witnesses cx op record =
     filter (\<lambda>w. relevant w op \<or> cx_assume cx \<and> on_caller_hop w record op (cx_dominates cx)) (cx_witnesses cx)"

definition dominated_kinds :: "check_context \<Rightarrow> operation \<Rightarrow> path_record option \<Rightarrow> string set" where
  "dominated_kinds cx op record =
     w_kind ` set (filter (\<lambda>w. valid_witness w \<and> cx_dominates cx w op (path_nodes record)) (judged_witnesses cx op record))"

definition required_kinds :: "check_context \<Rightarrow> operation \<Rightarrow> path_record option \<Rightarrow> string list" where
  "required_kinds cx op record =
     filter (\<lambda>kind. \<not> (kind = ''path_guard'' \<and> declared_access_of cx op record = Some ''public'')) (o_requires op)"

definition handler_named :: "check_context \<Rightarrow> operation \<Rightarrow> bool" where
  "handler_named cx op \<longleftrightarrow> cx_handlers_known cx \<and>
     find (\<lambda>f. f_id f = o_fact_id op \<and> f_handlers f \<noteq> []) (of_operations (cx_facts cx)) \<noteq> None"

definition missing_kinds :: "check_context \<Rightarrow> operation \<Rightarrow> path_record option \<Rightarrow> string list" where
  "missing_kinds cx op record =
     (let required = required_kinds cx op record; dominated = dominated_kinds cx op record in
      if handler_named cx op then filter (\<lambda>kind. kind \<notin> dominated) required
      else case required of
        [] \<Rightarrow> []
      | first # _ \<Rightarrow>
          if set required \<inter> dominated = {}
          then [case find (\<lambda>kind. map_of (cx_anomalies cx) (operation_handler op, kind) \<noteq> None) required of
                  Some kind \<Rightarrow> kind | None \<Rightarrow> first]
          else [])"

text \<open>The kinds the siblings of the handler practise beyond what the operation itself requires.\<close>

definition practised_kinds :: "check_context \<Rightarrow> operation \<Rightarrow> path_record option \<Rightarrow> string list" where
  "practised_kinds cx op record =
     filter (\<lambda>kind. kind \<notin> dominated_kinds cx op record \<and>
        \<not> (kind = ''path_guard'' \<and> declared_access_of cx op record = Some ''public''))
       (sorted_set (filter (\<lambda>kind. kind \<notin> set (o_requires op))
         (map (\<lambda>((h, _), a). an_missing a) (filter (\<lambda>((h, _), a). h = operation_handler op) (cx_anomalies cx)))))"

definition finding_for :: "check_context \<Rightarrow> operation \<Rightarrow> path_record option \<Rightarrow> bool \<Rightarrow> string \<Rightarrow> obligation_finding option" where
  "finding_for cx op record handler_obligation kind =
     make_finding op kind (judged_witnesses cx op record) (map_of (cx_anomalies cx) (operation_handler op, kind))
       (cx_policy cx) (operation_route cx op record) (declared_access_of cx op record) (cx_shapes cx) (cx_paths cx)
       (cx_facts cx) (if cx_assume cx then path_entry cx record else None) handler_obligation"

definition operation_findings :: "check_context \<Rightarrow> operation \<times> path_record option \<Rightarrow> obligation_finding list" where
  "operation_findings cx reached =
     (case reached of (op, record) \<Rightarrow>
        List.map_filter (finding_for cx op record (handler_named cx op)) (missing_kinds cx op record) @
        List.map_filter (finding_for cx op record False) (practised_kinds cx op record))"

type_synonym finding_place = "string \<times> int \<times> string \<times> string"

definition finding_key :: "obligation_finding \<Rightarrow> finding_place" where
  "finding_key f =
     (let op = og_operation f in (o_path op, o_line op, o_kind op, og_missing f))"

section \<open>The whole check\<close>

type_synonym parsed_files = "(string \<times> file_ir \<times> string) list"

record gathered =
  ga_operations :: "operation list"
  ga_witnesses :: "discharge list"
  ga_degradations :: "table list"
  ga_unsupported :: "string list"

definition gather_file :: "(string \<Rightarrow> string \<Rightarrow> bool) \<Rightarrow> obligation_facts \<Rightarrow> semantic_facts \<Rightarrow> entry_point list \<Rightarrow>
    (string \<rightharpoonup> (string \<rightharpoonup> string)) option \<Rightarrow> gathered \<Rightarrow> string \<times> file_ir \<times> string \<Rightarrow> gathered result" where
  "gather_file pattern_in facts flow_facts entries handlers_of st item =
     (case item of (path, ir, t) \<Rightarrow>
        if \<not> fi_ok ir
        then Inr (if fi_reason ir = Some ''language_unsupported'' \<and> fi_language ir \<notin> set (ga_unsupported st)
          then st\<lparr>ga_unsupported := ga_unsupported st @ [fi_language ir],
            ga_degradations := ga_degradations st @ [[(''stage'', VStr ''obligations''),
              (''reason'', VStr ''obligations_language_unsupported''), (''language'', VStr (fi_language ir))]]\<rparr>
          else st)
        else let scoped = facts_for_language facts (fi_language ir); flow = semantic_for_language flow_facts (fi_language ir);
                 names = (case handlers_of of None \<Rightarrow> (\<lambda>_. None)
                   | Some m \<Rightarrow> (case m path of None \<Rightarrow> (\<lambda>_. None) | Some names \<Rightarrow> names)) in
          bind_result (find_operations pattern_in ir scoped t names) (\<lambda>operations.
          bind_result (find_discharges ir scoped flow t entries) (\<lambda>witnesses.
          Inr (st\<lparr>ga_operations := ga_operations st @ operations, ga_witnesses := ga_witnesses st @ witnesses\<rparr>))))"

definition language_of :: "parsed_files \<Rightarrow> operation \<Rightarrow> string option" where
  "language_of irs op = map_option (\<lambda>(ir, t). fi_language ir) (map_of irs (o_path op))"

definition function_local_degradations :: "parsed_files \<Rightarrow> operation list \<Rightarrow> table list" where
  "function_local_degradations irs operations =
     map (\<lambda>language. [(''stage'', VStr ''obligations''), (''reason'', VStr ''obligations_function_local''),
         (''language'', VStr language),
         (''files'', VList (map VStr (sorted_set (map o_path (filter (\<lambda>op. language_of irs op = Some language) operations))))),
         (''detail'', VStr ''no path records; obligations evaluated within entry-point handlers only'')])
       (sorted_set (List.map_filter (language_of irs) operations))"

definition invalid_row_degradations :: "store_row list \<Rightarrow> table list" where
  "invalid_row_degradations rows =
     (let ids = sort (map sr_id (filter (\<lambda>r. \<not> usable_shape r) rows)) in
      if ids = [] then []
      else [[(''stage'', VStr ''obligations''), (''reason'', VStr ''obligations_store_row_invalid''),
        (''records'', VList (map VStr ids))]])"

record check_input =
  ci_irs :: parsed_files
  ci_entries :: "entry_point list"
  ci_facts :: obligation_facts
  ci_flow :: semantic_facts
  ci_policy :: "declared_policy option"
  ci_paths :: "path_record list"
  ci_shapes :: "store_row list"
  ci_min_siblings :: int
  ci_extra :: "discharge list"
  ci_assume :: bool
  ci_handlers_of :: "(string \<rightharpoonup> (string \<rightharpoonup> string)) option"

definition gather_all :: "(string \<Rightarrow> string \<Rightarrow> bool) \<Rightarrow> check_input \<Rightarrow> gathered result" where
  "gather_all pattern_in ci =
     fold_result (gather_file pattern_in (ci_facts ci) (ci_flow ci) (ci_entries ci) (ci_handlers_of ci))
       \<lparr>ga_operations = [], ga_witnesses = ci_extra ci, ga_degradations = [], ga_unsupported = []\<rparr> (ci_irs ci)"

definition context_of :: "check_input \<Rightarrow> dominates \<Rightarrow> discharge list \<Rightarrow> anomaly list \<Rightarrow> check_context" where
  "context_of ci dominates witnesses anomalies =
     \<lparr>cx_facts = ci_facts ci, cx_policy = ci_policy ci, cx_paths = ci_paths ci, cx_dominates = dominates,
      cx_shapes = ci_shapes ci, cx_assume = ci_assume ci, cx_handlers_known = ci_handlers_of ci \<noteq> None,
      cx_witnesses = witnesses, cx_texts = (\<lambda>p. map_option snd (map_of (ci_irs ci) p)), cx_entries = ci_entries ci,
      cx_anomalies = index_anomalies anomalies\<rparr>"

definition check_obligations :: "(string \<Rightarrow> string \<Rightarrow> bool) \<Rightarrow> dominates \<Rightarrow> check_input \<Rightarrow> obligation_result result" where
  "check_obligations pattern_in dominates ci =
     bind_result (gather_all pattern_in ci) (\<lambda>st.
     bind_result (sibling_sets (ci_entries ci) (ga_operations st) (ga_witnesses st)) (\<lambda>sets.
     let found = consistency_anomalies sets (ci_min_siblings ci);
         cx = context_of ci dominates (ga_witnesses st) (fst found);
         reached = reached_operations (ga_operations st) (ci_paths ci) (entry_id ` set (ci_entries ci))
     in Inr \<lparr>or_findings = dedupe_by finding_key [] (concat (map (operation_findings cx) reached)),
          or_discharges = ga_witnesses st, or_sibling_sets = sets, or_under_populated = snd found,
          or_operations = int (length (ga_operations st)),
          or_degradations = ga_degradations st @
            (if ci_paths ci = [] then function_local_degradations (ci_irs ci) (ga_operations st) else []) @
            invalid_row_degradations (ci_shapes ci),
          or_policy_version = map_option dp_version_hash (ci_policy ci)\<rparr>))"

section \<open>Findings for the report\<close>

text \<open>\<open>StaticFinding\<close>; its constant ranking priority, a float, is left out.\<close>

record static_finding =
  st_finding_id :: string
  st_path :: string
  st_title :: string
  st_severity :: string
  st_confidence :: string
  st_evidence_level :: string
  st_rationale :: string
  st_line :: "int option"
  st_function :: "string option"
  st_reachability :: string
  st_tags :: "string list"

definition finding_why :: "obligation_finding \<Rightarrow> string" where
  "finding_why f =
     (let why = (if og_evidence f = [] then ''the operation fact alone (function-local mode)''
            else join_with ''; '' (og_evidence f))
      in if og_label f = ''unguarded_path'' then ''unguarded path from a recognised protected entry; '' @ why else why)"

definition resource_name :: "operation \<Rightarrow> string" where
  "resource_name op = (case o_resource op of None \<Rightarrow> ''a resource'' | Some r \<Rightarrow> if r = '''' then ''a resource'' else r)"

definition optional_text :: "string option \<Rightarrow> (string \<Rightarrow> string) \<Rightarrow> string" where
  "optional_text s f = (case s of None \<Rightarrow> '''' | Some t \<Rightarrow> if t = '''' then '''' else f t)"

definition finding_to_static :: "obligation_finding \<Rightarrow> static_finding" where
  "finding_to_static f =
     (let op = og_operation f in
      \<lparr>st_finding_id = ''obligation:'' @ o_kind op @ '':'' @ o_path op @ '':'' @ show_int (o_line op) @ '':'' @ og_missing f,
       st_path = o_path op,
       st_title = ''Obligation not discharged: '' @ o_kind op @ '' on '' @ resource_name op @ '' without '' @ og_missing f,
       st_severity = (if og_sensitivity f \<in> set sensitivities then og_sensitivity f else ''medium''),
       st_confidence = ''low'', st_evidence_level = ''suspicion'',
       st_rationale = o_kind op @ '' on '' @ resource_name op @ '' in '' @ o_function op @ '' is reached without a dominating '' @
         og_missing f @ optional_text (og_provenance f) (\<lambda>p. '' (a '' @ og_missing f @ '' is present but bound from '' @ p @ '')'') @
         ''. Why the obligation exists: '' @ finding_why f @ ''. Label: '' @ og_label f @ ''.'' @
         optional_text (og_known_fix f) (\<lambda>k. '' Known fix learned from the corpus: '' @ k @ ''.''),
       st_line = Some (o_line op), st_function = Some (o_function op), st_reachability = ''unknown'',
       st_tags = [''obligation:'' @ o_kind op, ''discharger:'' @ og_missing f, ''obligation_evidence:'' @ og_label f] @
         (case o_resource op of None \<Rightarrow> [] | Some r \<Rightarrow> if r = '''' then [] else [''resource:'' @ r]) @
         (case og_known_fix f of None \<Rightarrow> [] | Some k \<Rightarrow> if k = '''' then [] else [''mechanism:'' @ k])\<rparr>)"

definition findings_to_static :: "obligation_result \<Rightarrow> static_finding list" where
  "findings_to_static result = map finding_to_static (or_findings result)"

section \<open>What a finding stands for\<close>

definition reached_by :: "check_input \<Rightarrow> operation \<Rightarrow> path_record option \<Rightarrow> bool" where
  "reached_by ci op record \<longleftrightarrow>
     (case record of
        None \<Rightarrow> ci_paths ci = [] \<and> operation_handler op \<in> entry_id ` set (ci_entries ci)
      | Some r \<Rightarrow> r \<in> set (ci_paths ci) \<and> p_hops r \<noteq> [] \<and> fst (last (p_hops r)) = operation_handler op)"

definition undischarged :: "dominates \<Rightarrow> discharge list \<Rightarrow> operation \<Rightarrow> path_record option \<Rightarrow> string \<Rightarrow> bool" where
  "undischarged dominates witnesses op record kind \<longleftrightarrow>
     \<not> (\<exists>w \<in> set witnesses. relevant w op \<and> valid_witness w \<and> w_kind w = kind \<and> dominates w op (path_nodes record))"

text \<open>Why the obligation exists, per label.\<close>

definition label_holds :: "check_input \<Rightarrow> anomaly list \<Rightarrow> operation \<Rightarrow> string \<Rightarrow> string \<Rightarrow> bool" where
  "label_holds ci anomalies op missing label \<longleftrightarrow>
     label = ''declared_policy_violation'' \<and> ci_policy ci \<noteq> None \<or>
     label = ''consistency_violation'' \<and> (\<exists>a \<in> set anomalies. an_handler a = operation_handler op \<and> an_missing a = missing) \<or>
     label = ''function_local'' \<and> ci_paths ci = [] \<or>
     label = ''unguarded_path'' \<and> ci_paths ci \<noteq> [] \<and> ci_assume ci"

lemma reached_operations_by:
  "(op, record) \<in> set (reached_operations operations (ci_paths ci) (entry_id ` set (ci_entries ci))) \<Longrightarrow>
     op \<in> set operations \<and> reached_by ci op record"
  by (auto simp: reached_operations_def reached_by_def in_map_filter split: if_splits dest!: find_SomeD)

lemma index_anomalies_in: "map_of (index_anomalies anomalies) k = Some a \<Longrightarrow>
    a \<in> set anomalies \<and> k = (an_handler a, an_missing a)"
proof (induction anomalies rule: rev_induct)
  case (snoc a as)
  then show ?case by (auto simp: index_anomalies_def split: if_splits)
qed (simp add: index_anomalies_def)

lemma missing_kinds_in: "k \<in> set (missing_kinds cx op record) \<Longrightarrow>
    k \<in> set (required_kinds cx op record) \<and> k \<notin> dominated_kinds cx op record"
  by (auto simp: missing_kinds_def Let_def split: if_splits list.splits option.splits dest: find_SomeD)
    (metis disjoint_iff list.set_intros(1))+

lemma undominated: "k \<notin> dominated_kinds cx op record \<Longrightarrow> undischarged (cx_dominates cx) (cx_witnesses cx) op record k"
  by (auto simp: dominated_kinds_def undischarged_def judged_witnesses_def)

lemma finding_for_fields: "finding_for cx op record h k = Some f \<Longrightarrow>
    og_operation f = op \<and> og_missing f = k \<and> (\<exists>e. justification op k (map_of (cx_anomalies cx) (operation_handler op, k))
      (cx_policy cx) (operation_route cx op record) (declared_access_of cx op record) (cx_paths cx)
      (if cx_assume cx then path_entry cx record else None) h = Some (og_label f, e))"
  by (auto simp: finding_for_def make_finding_def)

lemma declared_resource_policy: "declared_resource policy op = Some r \<Longrightarrow> policy \<noteq> None"
  by (cases policy) (simp_all add: declared_resource_def)

lemma justification_label:
  assumes "justification op k anomaly policy route access paths entry h = Some (label, e)"
  shows "label = ''declared_policy_violation'' \<and> (policy \<noteq> None \<or> access \<noteq> None) \<or>
    label = ''consistency_violation'' \<and> anomaly \<noteq> None \<or> label = ''function_local'' \<and> paths = [] \<or>
    label = ''unguarded_path'' \<and> paths \<noteq> [] \<and> entry \<noteq> None"
proof (cases "if k \<in> {''identity_constraint'', ''ownership_check''} then declared_resource policy op else None")
  case (Some r)
  then have "policy \<noteq> None" using declared_resource_policy by (metis option.distinct(1))
  with assms show ?thesis unfolding justification_def Let_def Some by auto
next
  case None
  note unfold = assms [unfolded justification_def Let_def None option.case]
  show ?thesis
  proof (cases "k = ''path_guard'' \<and> access \<in> {Some ''authenticated'', Some ''role''}")
    case True
    then have "access \<noteq> None" by auto
    with unfold True show ?thesis by simp
  next
    case False
    note unfold = unfold [unfolded if_not_P [OF False]]
    show ?thesis
    proof (cases anomaly)
      case None
      with unfold show ?thesis by (cases "paths = []"; cases entry) (simp_all split: if_splits)
    qed (use unfold in auto)
  qed
qed

lemma declared_access_policy: "declared_access_of cx op record \<noteq> None \<Longrightarrow> cx_policy cx \<noteq> None"
  by (auto simp: declared_access_of_def split: option.splits)

lemma finding_for_label:
  assumes "finding_for (context_of ci dominates ws anomalies) op record h k = Some f"
  shows "label_holds ci anomalies op k (og_label f)"
proof -
  let ?cx = "context_of ci dominates ws anomalies"
  from finding_for_fields [OF assms] obtain e where
    "justification op k (map_of (cx_anomalies ?cx) (operation_handler op, k)) (cx_policy ?cx) (operation_route ?cx op record)
      (declared_access_of ?cx op record) (cx_paths ?cx) (if cx_assume ?cx then path_entry ?cx record else None) h = Some (og_label f, e)"
    by blast
  from justification_label [OF this] declared_access_policy [of "?cx" op "record"] show ?thesis
    by (auto simp: label_holds_def context_of_def split: if_splits dest!: index_anomalies_in)
qed

lemma operation_findings_in:
  assumes "f \<in> set (operation_findings cx (op, record))"
  shows "\<exists>h k. finding_for cx op record h k = Some f \<and> k \<notin> dominated_kinds cx op record \<and>
    \<not> (k = ''path_guard'' \<and> declared_access_of cx op record = Some ''public'')"
  using assms
  by (auto simp: operation_findings_def in_map_filter practised_kinds_def required_kinds_def dest!: missing_kinds_in)
    blast+

lemma check_obligations_Inr:
  assumes "check_obligations pattern_in dominates ci = Inr result"
  obtains st anomalies where "gather_all pattern_in ci = Inr st" "or_discharges result = ga_witnesses st"
    "sibling_sets (ci_entries ci) (ga_operations st) (ga_witnesses st) = Inr (or_sibling_sets result)"
    "anomalies = fst (consistency_anomalies (or_sibling_sets result) (ci_min_siblings ci))"
    "or_findings result = dedupe_by finding_key [] (concat (map (operation_findings (context_of ci dominates (ga_witnesses st) anomalies))
       (reached_operations (ga_operations st) (ci_paths ci) (entry_id ` set (ci_entries ci)))))"
  using assms by (auto simp: check_obligations_def bind_result_eq_Inr Let_def)

lemma check_finding_justified:
  assumes "check_obligations pattern_in dominates ci = Inr result" "f \<in> set (or_findings result)"
  defines "anomalies \<equiv> fst (consistency_anomalies (or_sibling_sets result) (ci_min_siblings ci))"
  defines "cx \<equiv> context_of ci dominates (or_discharges result) anomalies"
  shows "\<exists>record. reached_by ci (og_operation f) record \<and>
      undischarged dominates (or_discharges result) (og_operation f) record (og_missing f) \<and>
      label_holds ci anomalies (og_operation f) (og_missing f) (og_label f) \<and>
      \<not> (og_missing f = ''path_guard'' \<and> declared_access_of cx (og_operation f) record = Some ''public'')"
proof -
  obtain st anomalies' where "gather_all pattern_in ci = Inr st" and st: "or_discharges result = ga_witnesses st"
    and "sibling_sets (ci_entries ci) (ga_operations st) (ga_witnesses st) = Inr (or_sibling_sets result)"
    and a: "anomalies' = fst (consistency_anomalies (or_sibling_sets result) (ci_min_siblings ci))"
    and fs: "or_findings result = dedupe_by finding_key [] (concat (map (operation_findings (context_of ci dominates (ga_witnesses st) anomalies'))
       (reached_operations (ga_operations st) (ci_paths ci) (entry_id ` set (ci_entries ci)))))"
    by (rule check_obligations_Inr [OF assms(1)])
  have "f \<in> set (concat (map (operation_findings cx)
      (reached_operations (ga_operations st) (ci_paths ci) (entry_id ` set (ci_entries ci)))))"
    using assms(2) unfolding fs cx_def st a anomalies_def by (rule subsetD [OF dedupe_by_subset])
  then obtain op "record" where r: "(op, record) \<in> set (reached_operations (ga_operations st) (ci_paths ci)
      (entry_id ` set (ci_entries ci)))" "f \<in> set (operation_findings cx (op, record))" by auto
  from operation_findings_in [OF r(2)] obtain h k where k: "finding_for cx op record h k = Some f"
    "k \<notin> dominated_kinds cx op record" "\<not> (k = ''path_guard'' \<and> declared_access_of cx op record = Some ''public'')" by blast
  from finding_for_fields [OF k(1)] have f: "og_operation f = op" "og_missing f = k" by auto
  from undominated [OF k(2)] have "undischarged dominates (or_discharges result) op record k"
    by (simp add: cx_def context_of_def)
  moreover from k(1) have "label_holds ci anomalies op k (og_label f)" unfolding cx_def by (rule finding_for_label)
  ultimately show ?thesis using reached_operations_by [OF r(1)] k(3) f by auto
qed

lemma check_findings_distinct:
  assumes "check_obligations pattern_in dominates ci = Inr result"
  shows "distinct (map finding_key (or_findings result))"
proof -
  from assms obtain xs where "or_findings result = dedupe_by finding_key [] xs" by (rule check_obligations_Inr) blast
  then show ?thesis by (simp only: dedupe_by_distinct)
qed


section \<open>Nothing reached is dropped\<close>

lemma missing_kinds_some:
  assumes "required_kinds cx op record \<noteq> []" "set (required_kinds cx op record) \<inter> dominated_kinds cx op record = {}"
  shows "missing_kinds cx op record \<noteq> []"
proof (cases "handler_named cx op")
  case True
  from assms(1) obtain k where "k \<in> set (required_kinds cx op record)" by (cases "required_kinds cx op record") auto
  with assms(2) True show ?thesis by (auto simp: missing_kinds_def Let_def filter_empty_conv)
next
  case False
  with assms show ?thesis by (auto simp: missing_kinds_def Let_def split: list.splits)
qed

lemma justification_function_local: "justification op k anomaly policy route access [] entry h \<noteq> None"
  by (simp add: justification_def Let_def split: option.split)

text \<open>
  C23. Without paths nothing reached is dropped: when no discharger an entry point's operation accepts
  dominates it, a finding at its place names a kind it requires.
\<close>

theorem function_local_complete:
  assumes "check_obligations pattern_in dominates ci = Inr result" "gather_all pattern_in ci = Inr st"
    and "ci_paths ci = []" "op \<in> set (ga_operations st)" "operation_handler op \<in> entry_id ` set (ci_entries ci)"
  defines "cx \<equiv> context_of ci dominates (ga_witnesses st)
      (fst (consistency_anomalies (or_sibling_sets result) (ci_min_siblings ci)))"
  assumes "required_kinds cx op None \<noteq> []" "set (required_kinds cx op None) \<inter> dominated_kinds cx op None = {}"
  shows "\<exists>f \<in> set (or_findings result). og_missing f \<in> set (required_kinds cx op None) \<and>
    finding_key f = (o_path op, o_line op, o_kind op, og_missing f)"
proof -
  obtain st' anomalies' where st': "gather_all pattern_in ci = Inr st'"
    and "or_discharges result = ga_witnesses st'"
    and "sibling_sets (ci_entries ci) (ga_operations st') (ga_witnesses st') = Inr (or_sibling_sets result)"
    and a: "anomalies' = fst (consistency_anomalies (or_sibling_sets result) (ci_min_siblings ci))"
    and fs: "or_findings result = dedupe_by finding_key [] (concat (map (operation_findings (context_of ci dominates (ga_witnesses st') anomalies'))
       (reached_operations (ga_operations st') (ci_paths ci) (entry_id ` set (ci_entries ci)))))"
    by (rule check_obligations_Inr [OF assms(1)])
  have st: "st' = st" using st' assms(2) by simp
  from missing_kinds_some [OF assms(7,8)] obtain k where k: "k \<in> set (missing_kinds cx op None)"
    by (cases "missing_kinds cx op None") auto
  have "finding_for cx op None (handler_named cx op) k \<noteq> None"
    using justification_function_local assms(3) by (simp add: finding_for_def make_finding_def cx_def context_of_def)
  then obtain g where g: "finding_for cx op None (handler_named cx op) k = Some g" by blast
  have "g \<in> set (operation_findings cx (op, None))"
    using k g by (auto simp: operation_findings_def in_map_filter)
  moreover have "(op, None) \<in> set (reached_operations (ga_operations st) (ci_paths ci) (entry_id ` set (ci_entries ci)))"
    using assms(3,4,5) by (simp add: reached_operations_def)
  ultimately have "g \<in> set (concat (map (operation_findings cx)
      (reached_operations (ga_operations st) (ci_paths ci) (entry_id ` set (ci_entries ci)))))" by auto
  then have "finding_key g \<in> finding_key ` set (or_findings result)"
    unfolding fs st a cx_def by simp
  then obtain f where f: "f \<in> set (or_findings result)" "finding_key f = finding_key g" by auto
  have "og_missing g = k" "og_operation g = op" using finding_for_fields [OF g] by auto
  with f k missing_kinds_in [OF k] show ?thesis by (intro bexI [of _ f]) (auto simp: finding_key_def Let_def)
qed

section \<open>What the dominance contract gives the checker\<close>

context dominance_protocol
begin

lemma handler_witness_discharges:
  assumes "check_obligations pattern_in dominates ci = Inr result" "f \<in> set (or_findings result)"
    and "w \<in> set (or_discharges result)" "valid_witness w" "w_scope w \<in> scoped" "same_function w (og_operation f)"
  shows "og_missing f \<noteq> w_kind w"
proof
  assume kind: "og_missing f = w_kind w"
  from check_finding_justified [OF assms(1,2)] obtain "record" where
    "undischarged dominates (or_discharges result) (og_operation f) record (og_missing f)" by blast
  moreover have "dominates w (og_operation f) (path_nodes record)" for "record"
    using assms(5,6) by (intro handler) (auto simp: along_path_def scoped_def)
  ultimately show False using assms(3,4,6) kind by (auto simp: undischarged_def relevant_def)
qed

lemma in_place_witness_discharges:
  assumes "check_obligations pattern_in dominates ci = Inr result" "f \<in> set (or_findings result)"
    and "w \<in> set (or_discharges result)" "valid_witness w" "w_scope w = ''statement''" "w_kind w \<in> in_operation"
    and "same_function w (og_operation f)" "w_line w = Some (o_line (og_operation f))"
  shows "og_missing f \<noteq> w_kind w"
proof
  assume kind: "og_missing f = w_kind w"
  from check_finding_justified [OF assms(1,2)] obtain "record" where
    "undischarged dominates (or_discharges result) (og_operation f) record (og_missing f)" by blast
  moreover have "dominates w (og_operation f) (path_nodes record)" for "record"
    using assms(5-8) in_place [of w "og_operation f" "path_nodes record"] by (auto simp: along_path_def scoped_def)
  ultimately show False using assms(3,4,7) kind by (auto simp: undischarged_def relevant_def)
qed

end

text \<open>
  C24. A guard that applies to the handler as a whole is never reported missing, nor is a constraint on the
  operation's own line: judged over control-flow graphs, no finding names the kind of a valid decorator or
  router witness of its function, or of a valid constraint at its operation.
\<close>

theorem guarded_handler_not_reported:
  assumes "check_obligations pattern_in (\<lambda>w op path. fst (cfg_dominates ctx w op path st)) ci = Inr result"
    and "f \<in> set (or_findings result)" "w \<in> set (or_discharges result)" "valid_witness w" "same_function w (og_operation f)"
    and "w_scope w \<in> scoped \<or>
      w_scope w = ''statement'' \<and> w_kind w \<in> in_operation \<and> w_line w = Some (o_line (og_operation f))"
  shows "og_missing f \<noteq> w_kind w"
  using graphs.handler_witness_discharges [OF assms(1-4) _ assms(5)] graphs.in_place_witness_discharges [OF assms(1-4)] assms(5,6)
  by blast

section \<open>An instance\<close>

definition no_graphs :: graphs where
  "no_graphs = \<lparr>g_texts = Map.empty, g_cfgs = (\<lambda>_. [])\<rparr>"

definition graph_dominates :: dominates where
  "graph_dominates = (\<lambda>w op path. fst (cfg_dominates no_graphs w op path []))"

definition pair_entry :: entry_point where
  "pair_entry = \<lparr>ep_path = ''books.py'', ep_line = Some 1, ep_function = Some ''show'', ep_name = ''/books'', ep_kind = ''route'',
     ep_access = ''authenticated'', ep_boundary = ''http_request'', ep_evidence = []\<rparr>"

definition pair_guard :: discharge where
  "pair_guard = \<lparr>w_path = ''books.py'', w_line = None, w_function = ''show'', w_kind = ''path_guard'', w_fact_id = ''login'',
     w_provenance = ''authenticated_context'', w_scope = ''router'', w_detail = '''', w_resource = None, w_authority = None\<rparr>"

definition pair_check :: check_input where
  "pair_check = \<lparr>ci_irs = [(''books.py'', pair_vuln, pair_vuln_text)], ci_entries = [pair_entry], ci_facts = pair_facts,
     ci_flow = pair_flow, ci_policy = None, ci_paths = [], ci_shapes = [], ci_min_siblings = 3, ci_extra = [pair_guard],
     ci_assume = False, ci_handlers_of = None\<rparr>"

definition pair_vuln_operation :: operation where
  "pair_vuln_operation = pair_operation\<lparr>o_line := 2\<rparr>"

definition pair_finding :: obligation_finding where
  "pair_finding = \<lparr>og_operation = pair_vuln_operation, og_missing = ''identity_constraint'', og_provenance = None,
     og_label = ''function_local'', og_evidence = [], og_known_fix = None, og_sensitivity = ''high'', og_route = None,
     og_intent = None, og_rationale = None\<rparr>"

definition pair_gathered :: gathered where
  "pair_gathered = \<lparr>ga_operations = [pair_vuln_operation], ga_witnesses = [pair_guard], ga_degradations = [], ga_unsupported = []\<rparr>"

definition pair_result :: obligation_result where
  "pair_result = \<lparr>or_findings = [pair_finding], or_discharges = [pair_guard],
     or_sibling_sets = [\<lparr>ss_key = (''books'', ''book''), ss_handlers = [''books.py::show''],
       ss_discharging = [(''path_guard'', [''books.py::show''])], ss_operation_kinds = [''protected_read''],
       ss_access = [(''books.py::show'', ''authenticated'')]\<rparr>],
     or_under_populated = [(''books'', ''book'')], or_operations = 1,
     or_degradations = [[(''stage'', VStr ''obligations''), (''reason'', VStr ''obligations_function_local''),
       (''language'', VStr ''python''), (''files'', VList [VStr ''books.py'']),
       (''detail'', VStr ''no path records; obligations evaluated within entry-point handlers only'')]],
     or_policy_version = None\<rparr>"

lemma pair_gathers: "gather_all nothing_found pair_check = Inr pair_gathered"
  by code_simp

lemma pair_checked: "check_obligations nothing_found graph_dominates pair_check = Inr pair_result"
  by code_simp


lemma function_local_witness:
  "\<exists>f \<in> set (or_findings pair_result). finding_key f = (''books.py'', 2, ''protected_read'', ''identity_constraint'')"
proof -
  let ?cx = "context_of pair_check graph_dominates (ga_witnesses pair_gathered)
      (fst (consistency_anomalies (or_sibling_sets pair_result) (ci_min_siblings pair_check)))"
  have r: "required_kinds ?cx pair_vuln_operation None = [''identity_constraint'']" by code_simp
  have d: "dominated_kinds ?cx pair_vuln_operation None = {''path_guard''}" by code_simp
  have h: "operation_handler pair_vuln_operation \<in> entry_id ` set (ci_entries pair_check)" by code_simp
  have "ci_paths pair_check = []" "pair_vuln_operation \<in> set (ga_operations pair_gathered)"
    by (simp_all add: pair_check_def pair_gathered_def)
  from function_local_complete [OF pair_checked pair_gathers this h] show ?thesis
    unfolding r d by (fastforce simp: pair_vuln_operation_def pair_operation_def)
qed

lemma guarded_handler_witness: "og_missing pair_finding \<noteq> w_kind pair_guard"
proof -
  have "pair_finding \<in> set (or_findings pair_result)" "pair_guard \<in> set (or_discharges pair_result)"
    "valid_witness pair_guard" "same_function pair_guard (og_operation pair_finding)" "w_scope pair_guard \<in> scoped"
    by (simp_all add: pair_result_def pair_guard_def pair_finding_def valid_witness_def same_function_def scoped_def
        pair_vuln_operation_def pair_operation_def)
  from guarded_handler_not_reported [OF pair_checked [unfolded graph_dominates_def] this(1-4)] this(5) show ?thesis by blast
qed

end
