(* ===== verification/Components.thy ===== *)
theory Components
  imports Resolution
begin

text \<open>
  The call components of a repository (\<open>semantic/obligations/summaries.py\<close>, the Tarjan part): the strongly
  connected components of the exact call edges, members sorted, callee components first. The work list
  holds the nodes under visit with the children that are left of each, innermost first; the component
  stack has its top first. Indexes and low links are dictionaries from symbols to numbers. The theorem the
  summaries rest on is that every symbol lands in exactly one component and that no edge leads to a later
  one.
\<close>

section \<open>State and operations\<close>

type_synonym call_edges = "(symbol_id \<times> symbol_id list) list"

definition edges_of :: "call_edges \<Rightarrow> symbol_id \<Rightarrow> symbol_id list" where
  "edges_of edges s = or_default [] (map_of edges s)"

record tarjan =
  ta_index :: "(symbol_id \<times> nat) list"
  ta_low :: "(symbol_id \<times> nat) list"
  ta_on :: "symbol_id list"
  ta_stack :: "symbol_id list"
  ta_components :: "symbol_id list list"
  ta_counter :: nat

definition visited :: "tarjan \<Rightarrow> symbol_id \<Rightarrow> bool" where
  "visited t s \<longleftrightarrow> s \<in> set (map fst (ta_index t))"

text \<open>\<open>visit_index[s]\<close> and \<open>lowlink[s]\<close>; only asked of visited nodes.\<close>

definition index_at :: "tarjan \<Rightarrow> symbol_id \<Rightarrow> nat" where
  "index_at t s = or_default 0 (map_of (ta_index t) s)"

definition low_at :: "tarjan \<Rightarrow> symbol_id \<Rightarrow> nat" where
  "low_at t s = or_default 0 (map_of (ta_low t) s)"

definition lower :: "symbol_id \<Rightarrow> nat \<Rightarrow> tarjan \<Rightarrow> tarjan" where
  "lower s k t = t\<lparr>ta_low := dict_set s (min (low_at t s) k) (ta_low t)\<rparr>"

definition enter_node :: "symbol_id \<Rightarrow> tarjan \<Rightarrow> tarjan" where
  "enter_node node t =
     (if visited t node then t
      else t\<lparr>ta_index := dict_set node (ta_counter t) (ta_index t), ta_low := dict_set node (ta_counter t) (ta_low t),
        ta_counter := ta_counter t + 1, ta_stack := node # ta_stack t, ta_on := node # ta_on t\<rparr>)"

text \<open>The loop over the remaining children: it stops at an unvisited child, which is to be descended into.\<close>

fun scan_children :: "symbol_id list \<Rightarrow> symbol_id \<Rightarrow> symbol_id list \<Rightarrow> tarjan \<Rightarrow> symbol_id option \<times> symbol_id list \<times> tarjan" where
  "scan_children known node [] t = (None, [], t)"
| "scan_children known node (child # children) t =
     (if child \<notin> set known then scan_children known node children t
      else if \<not> visited t child then (Some child, children, t)
      else if child \<in> set (ta_on t) then scan_children known node children (lower node (index_at t child) t)
      else scan_children known node children t)"

text \<open>\<open>component_stack.pop()\<close> until the node itself came out: the members in the order they came out.\<close>

fun pop_until :: "symbol_id \<Rightarrow> symbol_id list \<Rightarrow> symbol_id list \<times> symbol_id list" where
  "pop_until node [] = ([], [])"
| "pop_until node (member # stack) =
     (if member = node then ([member], stack)
      else let (members, rest) = pop_until node stack in (member # members, rest))"

definition emit_component :: "symbol_id \<Rightarrow> tarjan \<Rightarrow> tarjan" where
  "emit_component node t =
     (if low_at t node \<noteq> index_at t node then t
      else let (members, rest) = pop_until node (ta_stack t) in
        t\<lparr>ta_stack := rest, ta_on := filter (\<lambda>s. s \<notin> set members) (ta_on t),
          ta_components := ta_components t @ [sorted_symbols members]\<rparr>)"

definition lower_parent :: "(symbol_id \<times> symbol_id list) list \<Rightarrow> symbol_id \<Rightarrow> tarjan \<Rightarrow> tarjan" where
  "lower_parent work node t = (case work of [] \<Rightarrow> t | (parent, _) # _ \<Rightarrow> lower parent (low_at t node) t)"

definition unentered :: "symbol_id list \<Rightarrow> (symbol_id \<times> symbol_id list) list \<Rightarrow> tarjan \<Rightarrow> nat" where
  "unentered known work t = card (set known \<union> fst ` set work - fst ` set (ta_index t))"

definition left_over :: "(symbol_id \<times> symbol_id list) list \<Rightarrow> tarjan \<Rightarrow> nat" where
  "left_over work t = (case work of [] \<Rightarrow> 0 | (node, _) # _ \<Rightarrow>
     if visited t node then 1 + sum_list (map (\<lambda>(_, children). 1 + length children) work) else 0)"

lemma scan_children_index [simp]: "ta_index (snd (snd (scan_children known node children t))) = ta_index t"
  by (induction known node children t rule: scan_children.induct) (simp_all add: lower_def)

lemma scan_children_found:
  "fst (scan_children known node children t) = Some c \<Longrightarrow> c \<in> set known \<and> \<not> visited t c"
  by (induction known node children t rule: scan_children.induct) (auto simp: lower_def visited_def split: if_splits)

lemma emit_component_index [simp]: "ta_index (emit_component node t) = ta_index t"
  by (simp add: emit_component_def split: prod.splits)

lemma lower_parent_index [simp]: "ta_index (lower_parent work node t) = ta_index t"
  by (simp add: lower_parent_def lower_def split: list.splits)

lemma enter_node_index: "fst ` set (ta_index (enter_node node t)) = insert node (fst ` set (ta_index t))"
  by (auto simp: enter_node_def visited_def)

function tarjan_visit :: "call_edges \<Rightarrow> symbol_id list \<Rightarrow> (symbol_id \<times> symbol_id list) list \<Rightarrow> tarjan \<Rightarrow> tarjan" where
  "tarjan_visit edges known [] t = t"
| "tarjan_visit edges known ((node, children) # work) t =
     (case scan_children known node children (enter_node node t) of
        (Some child, remaining, t') \<Rightarrow>
          tarjan_visit edges known ((child, edges_of edges child) # (node, remaining) # work) t'
      | (None, _, t') \<Rightarrow> tarjan_visit edges known work (lower_parent work node (emit_component node t')))"
  by pat_completeness auto

definition tarjan_order :: "((call_edges \<times> symbol_id list \<times> (symbol_id \<times> symbol_id list) list \<times> tarjan) \<times>
    (call_edges \<times> symbol_id list \<times> (symbol_id \<times> symbol_id list) list \<times> tarjan)) set" where
  "tarjan_order = (\<lambda>(edges, known, work, t). unentered known work t) <*mlex*>
     measure (\<lambda>(edges, known, work, t). left_over work t)"

lemma tarjan_order_step:
  assumes sub: "set known \<union> fst ` set work' \<subseteq> set known \<union> fst ` set ((node, children) # work)"
    and index: "fst ` set (ta_index t') = insert node (fst ` set (ta_index t))"
    and left: "visited t node \<Longrightarrow> left_over work' t' < left_over ((node, children) # work) t"
  shows "((edges, known, work', t'), edges, known, (node, children) # work, t) \<in> tarjan_order"
proof -
  let ?K = "set known \<union> fst ` set ((node, children) # work)"
  let ?a = "set known \<union> fst ` set work' - fst ` set (ta_index t')"
  let ?b = "?K - fst ` set (ta_index t)"
  have fin: "finite ?b" by simp
  have le: "?a \<subseteq> ?b" using sub index by auto
  show ?thesis
  proof (cases "visited t node")
    case True
    have "card ?a \<le> card ?b" by (rule card_mono [OF fin le])
    then show ?thesis using left [OF True] by (auto simp: tarjan_order_def unentered_def intro: mlex_leq)
  next
    case False
    have "node \<in> ?b" "node \<notin> ?a" using False index by (auto simp: visited_def)
    then have "card ?a < card ?b" using le by (intro psubset_card_mono [OF fin]) blast
    then show ?thesis by (auto simp: tarjan_order_def unentered_def intro: mlex_less)
  qed
qed

lemma wf_tarjan_order: "wf tarjan_order"
  by (simp add: tarjan_order_def wf_mlex)

lemma scan_children_length: "length (fst (snd (scan_children known node children t))) \<le> length children"
  by (induction known node children t rule: scan_children.induct) (simp_all add: le_SucI)

lemma tarjan_order_descend:
  assumes "scan_children known node children (enter_node node t) = (Some child, remaining, t')"
  shows "((edges, known, (child, edges_of edges child) # (node, remaining) # work, t'), edges, known, (node, children) # work, t)
    \<in> tarjan_order"
proof (rule tarjan_order_step)
  have found: "child \<in> set known" "\<not> visited (enter_node node t) child"
    using scan_children_found [of known node children "enter_node node t"] assms by auto
  then show "set known \<union> fst ` set ((child, edges_of edges child) # (node, remaining) # work)
      \<subseteq> set known \<union> fst ` set ((node, children) # work)" by auto
  have index: "ta_index t' = ta_index (enter_node node t)"
    using scan_children_index [of known node children "enter_node node t"] by (simp add: assms)
  then show "fst ` set (ta_index t') = insert node (fst ` set (ta_index t))" by (simp add: enter_node_index)
  show "left_over ((child, edges_of edges child) # (node, remaining) # work) t' < left_over ((node, children) # work) t"
    if "visited t node"
    using that found(2) index by (simp add: left_over_def visited_def)
qed

lemma tarjan_order_return:
  assumes "scan_children known node children (enter_node node t) = (None, remaining, t')"
  shows "((edges, known, work, lower_parent work node (emit_component node t')), edges, known, (node, children) # work, t)
    \<in> tarjan_order"
proof (rule tarjan_order_step)
  have index: "ta_index t' = ta_index (enter_node node t)"
    using scan_children_index [of known node children "enter_node node t"] by (simp add: assms)
  then show "fst ` set (ta_index (lower_parent work node (emit_component node t'))) = insert node (fst ` set (ta_index t))"
    by (simp add: enter_node_index)
  show "left_over work (lower_parent work node (emit_component node t')) < left_over ((node, children) # work) t"
    if "visited t node"
    using that by (auto simp: left_over_def split: list.splits)
qed auto

termination tarjan_visit
  by (relation tarjan_order)
    (auto simp: wf_tarjan_order intro: tarjan_order_descend [OF sym] tarjan_order_return [OF sym])

definition start_tarjan :: tarjan where
  "start_tarjan = \<lparr>ta_index = [], ta_low = [], ta_on = [], ta_stack = [], ta_components = [], ta_counter = 0\<rparr>"

definition visit_root :: "call_edges \<Rightarrow> symbol_id list \<Rightarrow> tarjan \<Rightarrow> symbol_id \<Rightarrow> tarjan" where
  "visit_root edges known t root = (if visited t root then t else tarjan_visit edges known [(root, edges_of edges root)] t)"

text \<open>\<open>_tarjan_components\<close>; \<open>known\<close> is a set, in the order the set is iterated in.\<close>

definition tarjan_components :: "call_edges \<Rightarrow> symbol_id list \<Rightarrow> symbol_id list list" where
  "tarjan_components edges known = ta_components (foldl (visit_root edges known) start_tarjan (sorted_symbols known))"

section \<open>The invariant of the search\<close>

text \<open>
  The search is looked at with every node under visit entered: the first thing an iteration does with a new
  node is to give it an index.
\<close>

definition nodes_of :: "(symbol_id \<times> symbol_id list) list \<Rightarrow> symbol_id list" where
  "nodes_of work = map fst work"

definition emitted :: "tarjan \<Rightarrow> symbol_id set" where
  "emitted t = \<Union> (set ` set (ta_components t))"

text \<open>Indexes are given out in order, the stack is in the order of the indexes, a visited node is on the
  stack or in one component.\<close>

definition book_ok :: "symbol_id list \<Rightarrow> tarjan \<Rightarrow> bool" where
  "book_ok known t \<longleftrightarrow>
     (\<forall>s. visited t s \<longrightarrow> index_at t s < ta_counter t \<and> s \<in> set known) \<and>
     sorted_wrt (\<lambda>a b. index_at t b < index_at t a) (ta_stack t) \<and>
     set (ta_on t) = set (ta_stack t) \<and>
     (\<forall>s. visited t s \<longleftrightarrow> s \<in> set (ta_stack t) \<or> s \<in> emitted t) \<and>
     set (ta_stack t) \<inter> emitted t = {} \<and>
     distinct (concat (ta_components t))"

text \<open>The nodes under visit are on the stack, in the same order; a low link lies between the index of one of
  them and the index of its own node.\<close>

definition work_ok :: "(symbol_id \<times> symbol_id list) list \<Rightarrow> tarjan \<Rightarrow> bool" where
  "work_ok work t \<longleftrightarrow>
     sorted_wrt (\<lambda>a b. index_at t b < index_at t a) (nodes_of work) \<and>
     set (nodes_of work) \<subseteq> set (ta_stack t) \<and>
     (\<forall>s \<in> set (ta_stack t). low_at t s \<le> index_at t s \<and> (\<exists>a \<in> set (nodes_of work). index_at t a \<le> low_at t s))"

text \<open>An edge that was followed: when it leads back below a node under visit, one of the nodes under visit
  from there on has a low link that says so.\<close>

definition followed :: "(symbol_id \<times> symbol_id list) list \<Rightarrow> tarjan \<Rightarrow> symbol_id \<Rightarrow> symbol_id \<Rightarrow> bool" where
  "followed work t s c \<longleftrightarrow> visited t c \<and>
     (c \<in> set (ta_stack t) \<longrightarrow> (\<forall>b \<in> set (nodes_of work). index_at t b \<le> index_at t s \<longrightarrow> index_at t c < index_at t b \<longrightarrow>
        (\<exists>a \<in> set (nodes_of work). index_at t b \<le> index_at t a \<and> index_at t a \<le> index_at t s \<and> low_at t a \<le> index_at t c)))"

definition edges_ok :: "call_edges \<Rightarrow> symbol_id list \<Rightarrow> (symbol_id \<times> symbol_id list) list \<Rightarrow> tarjan \<Rightarrow> bool" where
  "edges_ok edges known work t \<longleftrightarrow>
     (\<forall>s \<in> set (ta_stack t). \<forall>c \<in> set (edges_of edges s) \<inter> set known.
        (\<exists>children. (s, children) \<in> set work \<and> c \<in> set children) \<or> followed work t s c)"

definition closed_components :: "call_edges \<Rightarrow> symbol_id list \<Rightarrow> symbol_id list list \<Rightarrow> bool" where
  "closed_components edges known components \<longleftrightarrow>
     (\<forall>i < length components. \<forall>s \<in> set (components ! i).
        set (edges_of edges s) \<inter> set known \<subseteq> \<Union> (set ` set (take (Suc i) components)))"

definition search_ok :: "call_edges \<Rightarrow> symbol_id list \<Rightarrow> (symbol_id \<times> symbol_id list) list \<Rightarrow> tarjan \<Rightarrow> bool" where
  "search_ok edges known work t \<longleftrightarrow>
     book_ok known t \<and> work_ok work t \<and> edges_ok edges known work t \<and> closed_components edges known (ta_components t)"

section \<open>Every step keeps the invariant\<close>

lemma lower_sel [simp]:
  "ta_index (lower s k t) = ta_index t" "ta_stack (lower s k t) = ta_stack t" "ta_on (lower s k t) = ta_on t"
  "ta_components (lower s k t) = ta_components t" "ta_counter (lower s k t) = ta_counter t"
  "index_at (lower s k t) = index_at t" "visited (lower s k t) = visited t" "emitted (lower s k t) = emitted t"
  "low_at (lower s k t) u = (if u = s then min (low_at t s) k else low_at t u)"
  by (simp_all add: lower_def index_at_def visited_def emitted_def low_at_def fun_eq_iff)

lemma enter_sel:
  assumes "\<not> visited t c"
  shows "ta_stack (enter_node c t) = c # ta_stack t" "ta_on (enter_node c t) = c # ta_on t"
    "ta_components (enter_node c t) = ta_components t" "ta_counter (enter_node c t) = Suc (ta_counter t)"
    "index_at (enter_node c t) s = (if s = c then ta_counter t else index_at t s)"
    "low_at (enter_node c t) s = (if s = c then ta_counter t else low_at t s)"
    "visited (enter_node c t) s \<longleftrightarrow> s = c \<or> visited t s" "emitted (enter_node c t) = emitted t"
  using assms by (auto simp: enter_node_def index_at_def low_at_def visited_def emitted_def)

lemma closed_components_snoc:
  "closed_components edges known (components @ [members]) \<longleftrightarrow>
     closed_components edges known components \<and>
     (\<forall>s \<in> set members. set (edges_of edges s) \<inter> set known \<subseteq> set members \<union> \<Union> (set ` set components))"
  by (simp add: closed_components_def All_less_Suc nth_append Un_commute conj_commute)

text \<open>Entering a node.\<close>

lemma sorted_wrt_enter:
  assumes "\<not> visited t c" "c \<notin> set xs" "sorted_wrt (\<lambda>a b. index_at t b < index_at t a) xs"
  shows "sorted_wrt (\<lambda>a b. index_at (enter_node c t) b < index_at (enter_node c t) a) xs"
  using assms(3) by (rule sorted_wrt_mono_rel [rotated]) (use assms in \<open>auto simp: enter_sel\<close>)

lemma book_ok_enter:
  assumes "book_ok known t" "\<not> visited t c" "c \<in> set known"
  shows "book_ok known (enter_node c t)"
proof -
  have "c \<notin> set (ta_stack t)" using assms(1,2) by (auto simp: book_ok_def)
  moreover have "sorted_wrt (\<lambda>a b. index_at t b < index_at t a) (ta_stack t)" using assms(1) by (simp add: book_ok_def)
  ultimately have "sorted_wrt (\<lambda>a b. index_at (enter_node c t) b < index_at (enter_node c t) a) (ta_stack t)"
    using assms(2) by (intro sorted_wrt_enter)
  with assms show ?thesis by (auto simp: book_ok_def enter_sel less_SucI)
qed

lemma work_ok_enter:
  assumes "book_ok known t" "work_ok work t" "\<not> visited t c"
  shows "work_ok ((c, children) # work) (enter_node c t)"
proof -
  have fresh: "c \<notin> set (ta_stack t)" "c \<notin> set (nodes_of work)"
    using assms by (auto simp: book_ok_def work_ok_def)
  have old: "index_at t s < ta_counter t" if "s \<in> set (ta_stack t)" for s
    using assms(1) that by (auto simp: book_ok_def)
  have sorted: "sorted_wrt (\<lambda>a b. index_at t b < index_at t a) (nodes_of work)" "set (nodes_of work) \<subseteq> set (ta_stack t)"
    using assms(2) by (simp_all add: work_ok_def)
  have "sorted_wrt (\<lambda>a b. index_at (enter_node c t) b < index_at (enter_node c t) a) (nodes_of work)"
    by (rule sorted_wrt_enter [OF assms(3) fresh(2) sorted(1)])
  then have "sorted_wrt (\<lambda>a b. index_at (enter_node c t) b < index_at (enter_node c t) a) (nodes_of ((c, children) # work))"
    using fresh old sorted(2) assms(3) by (auto simp: nodes_of_def enter_sel)
  moreover have "low_at (enter_node c t) s \<le> index_at (enter_node c t) s \<and>
      (\<exists>a \<in> set (nodes_of ((c, children) # work)). index_at (enter_node c t) a \<le> low_at (enter_node c t) s)"
    if "s \<in> set (c # ta_stack t)" for s
  proof (cases "s = c")
    case False
    then have s: "low_at t s \<le> index_at t s" "\<exists>a \<in> set (nodes_of work). index_at t a \<le> low_at t s"
      using assms(2) that by (simp_all add: work_ok_def)
    then obtain a where "a \<in> set (nodes_of work)" "index_at t a \<le> low_at t s" by blast
    moreover from this have "a \<noteq> c" using fresh by blast
    ultimately show ?thesis using False assms(3) s(1) by (auto simp: enter_sel nodes_of_def)
  qed (use assms(3) in \<open>simp add: enter_sel nodes_of_def\<close>)
  ultimately show ?thesis using assms(3) sorted(2) by (auto simp: work_ok_def enter_sel nodes_of_def)
qed

lemma followedI:
  assumes "visited t c"
    and "\<And>b. c \<in> set (ta_stack t) \<Longrightarrow> b \<in> set (nodes_of work) \<Longrightarrow> index_at t b \<le> index_at t s \<Longrightarrow> index_at t c < index_at t b \<Longrightarrow>
      \<exists>a \<in> set (nodes_of work). index_at t b \<le> index_at t a \<and> index_at t a \<le> index_at t s \<and> low_at t a \<le> index_at t c"
  shows "followed work t s c"
  using assms by (simp add: followed_def)

lemma followedD:
  assumes "followed work t s c" "c \<in> set (ta_stack t)" "b \<in> set (nodes_of work)" "index_at t b \<le> index_at t s"
    "index_at t c < index_at t b"
  obtains a where "a \<in> set (nodes_of work)" "index_at t b \<le> index_at t a" "index_at t a \<le> index_at t s" "low_at t a \<le> index_at t c"
  using assms by (auto simp: followed_def)

lemma nodes_of_simps [simp]: "nodes_of [] = []" "nodes_of ((s, children) # work) = s # nodes_of work"
  by (simp_all add: nodes_of_def)

lemma followed_enter:
  assumes "book_ok known t" "work_ok work t" "\<not> visited t c" "s \<in> set (ta_stack t)" "followed work t s d"
  shows "followed ((c, children) # work) (enter_node c t) s d"
proof (rule followedI)
  have fresh: "c \<notin> set (nodes_of work)" "s \<noteq> c" "d \<noteq> c" "index_at t s < ta_counter t"
    using assms by (auto simp: book_ok_def work_ok_def followed_def)
  show "visited (enter_node c t) d" using assms(3,5) by (simp add: enter_sel followed_def)
  fix b
  assume "d \<in> set (ta_stack (enter_node c t))" "b \<in> set (nodes_of ((c, children) # work))"
    and b: "index_at (enter_node c t) b \<le> index_at (enter_node c t) s" "index_at (enter_node c t) d < index_at (enter_node c t) b"
  then have "d \<in> set (ta_stack t)" "b \<in> set (nodes_of work)" "b \<noteq> c"
    using fresh assms(3) by (auto simp: enter_sel)
  moreover from this b have "index_at t b \<le> index_at t s" "index_at t d < index_at t b"
    using fresh assms(3) by (simp_all add: enter_sel)
  ultimately obtain a where a: "a \<in> set (nodes_of work)" "index_at t b \<le> index_at t a" "index_at t a \<le> index_at t s"
      "low_at t a \<le> index_at t d"
    using assms(5) by (auto elim: followedD)
  moreover from a(1) fresh have "a \<noteq> c" by blast
  ultimately show "\<exists>a \<in> set (nodes_of ((c, children) # work)). index_at (enter_node c t) b \<le> index_at (enter_node c t) a \<and>
      index_at (enter_node c t) a \<le> index_at (enter_node c t) s \<and> low_at (enter_node c t) a \<le> index_at (enter_node c t) d"
    using fresh assms(3) \<open>b \<noteq> c\<close> by (intro bexI [of _ a]) (simp_all add: enter_sel)
qed

lemma search_ok_enter:
  assumes ok: "search_ok edges known work t" and new: "\<not> visited t c" "c \<in> set known"
  shows "search_ok edges known ((c, edges_of edges c) # work) (enter_node c t)"
proof -
  have parts: "book_ok known t" "work_ok work t" "edges_ok edges known work t" "closed_components edges known (ta_components t)"
    using ok by (simp_all add: search_ok_def)
  have "(\<exists>children. (s, children) \<in> set ((c, edges_of edges c) # work) \<and> d \<in> set children) \<or>
      followed ((c, edges_of edges c) # work) (enter_node c t) s d"
    if "s \<in> set (ta_stack (enter_node c t))" "d \<in> set (edges_of edges s) \<inter> set known" for s d
  proof (cases "s = c")
    case False
    then have s: "s \<in> set (ta_stack t)" using that(1) new(1) by (simp add: enter_sel)
    then have "(\<exists>children. (s, children) \<in> set work \<and> d \<in> set children) \<or> followed work t s d"
      using parts(3) that(2) by (simp add: edges_ok_def)
    then show ?thesis using followed_enter [OF parts(1,2) new(1) s] by auto
  qed (use that(2) in auto)
  then show ?thesis
    using book_ok_enter [OF parts(1) new] work_ok_enter [OF parts(1,2) new(1)] parts(4) new(1)
    by (simp add: search_ok_def edges_ok_def enter_sel)
qed

text \<open>Following the children of the innermost node.\<close>

lemma search_ok_lower:
  assumes ok: "search_ok edges known work t" and node: "b0 \<in> set (nodes_of work)" "index_at t b0 \<le> k"
  shows "search_ok edges known work (lower s k t)"
proof -
  have "followed work (lower s k t) u c" if "followed work t u c" for u c
    using that unfolding followed_def by (fastforce simp: min_le_iff_disj)
  moreover have "low_at (lower s k t) u \<le> index_at t u \<and> (\<exists>a \<in> set (nodes_of work). index_at t a \<le> low_at (lower s k t) u)"
    if "u \<in> set (ta_stack t)" for u
  proof -
    have "low_at t u \<le> index_at t u" "\<exists>a \<in> set (nodes_of work). index_at t a \<le> low_at t u"
      using ok that by (simp_all add: search_ok_def work_ok_def)
    then show ?thesis using node by (auto simp: min_le_iff_disj min_def)
  qed
  ultimately show ?thesis
    using ok by (simp add: search_ok_def book_ok_def work_ok_def edges_ok_def) blast
qed

text \<open>A frame whose next child needs no visit.\<close>

lemma search_ok_next:
  assumes ok: "search_ok edges known ((node, c # children) # work) t"
    and c: "c \<in> set known \<Longrightarrow> followed ((node, children) # work) t node c"
  shows "search_ok edges known ((node, children) # work) t"
proof -
  have same: "nodes_of ((node, children) # work) = nodes_of ((node, c # children) # work)" by simp
  then have eq: "followed ((node, children) # work) t = followed ((node, c # children) # work) t"
    "work_ok ((node, children) # work) t = work_ok ((node, c # children) # work) t"
    by (simp_all add: followed_def work_ok_def fun_eq_iff)
  have "(\<exists>rem. (s, rem) \<in> set ((node, children) # work) \<and> d \<in> set rem) \<or> followed ((node, children) # work) t s d"
    if "s \<in> set (ta_stack t)" "d \<in> set (edges_of edges s) \<inter> set known" for s d
  proof -
    have "(\<exists>rem. (s, rem) \<in> set ((node, c # children) # work) \<and> d \<in> set rem) \<or> followed ((node, c # children) # work) t s d"
      using ok that by (simp add: search_ok_def edges_ok_def)
    then show ?thesis using c that(2) by (auto simp: eq)
  qed
  then show ?thesis using ok by (simp add: search_ok_def edges_ok_def eq)
qed

lemma search_ok_node:
  assumes "search_ok edges known ((node, children) # work) t"
  shows "node \<in> set (ta_stack t)" "visited t node"
    "\<And>b. b \<in> set (nodes_of ((node, children) # work)) \<Longrightarrow> index_at t b \<le> index_at t node"
  using assms by (auto simp: search_ok_def work_ok_def book_ok_def less_imp_le)

lemma search_ok_scan:
  assumes "search_ok edges known ((node, children) # work) t" "scan_children known node children t = (found, remaining, t')"
  shows "case found of
      None \<Rightarrow> remaining = [] \<and> search_ok edges known ((node, []) # work) t'
    | Some c \<Rightarrow> search_ok edges known ((node, c # remaining) # work) t' \<and> c \<in> set known \<and> \<not> visited t' c"
  using assms
proof (induction known node children t rule: scan_children.induct)
  case (1 known node t)
  then show ?case by auto
next
  case (2 known node child children t)
  let ?w = "(node, children) # work"
  note ok = 2(4)
  consider "child \<notin> set known" | "child \<in> set known" "\<not> visited t child"
    | "child \<in> set known" "visited t child" "child \<in> set (ta_on t)" | "child \<in> set known" "visited t child" "child \<notin> set (ta_on t)"
    by blast
  then show ?case
  proof cases
    case 1
    then have "search_ok edges known ?w t" by (intro search_ok_next [OF ok]) simp
    with 1 2(1) 2(5) show ?thesis by simp
  next
    case 2
    then show ?thesis using \<open>scan_children known node (child # children) t = (found, remaining, t')\<close> ok by auto
  next
    case 3
    let ?t = "lower node (index_at t child) t"
    have "child \<in> set (ta_stack t)" using 3 ok by (simp add: search_ok_def book_ok_def)
    then obtain b0 where "b0 \<in> set (nodes_of ((node, child # children) # work))" "index_at t b0 \<le> index_at t child"
      using ok unfolding search_ok_def work_ok_def by (meson le_trans)
    then have "search_ok edges known ((node, child # children) # work) ?t" by (rule search_ok_lower [OF ok])
    moreover have "followed ?w ?t node child"
      using 3 by (intro followedI) auto
    ultimately have "search_ok edges known ?w ?t" by (rule search_ok_next)
    with 3 2(2) 2(5) show ?thesis by simp
  next
    case 4
    then have "child \<notin> set (ta_stack t)" using ok by (simp add: search_ok_def book_ok_def)
    then have "followed ?w t node child" using 4 by (intro followedI) auto
    then have "search_ok edges known ?w t" by (intro search_ok_next [OF ok])
    with 4 2(3) 2(5) show ?thesis by simp
  qed
qed

text \<open>Descending: the child is entered and its edge counts as followed.\<close>

lemma search_ok_descend:
  assumes "search_ok edges known ((node, c # remaining) # work) t" "c \<in> set known" "\<not> visited t c"
  shows "search_ok edges known ((c, edges_of edges c) # (node, remaining) # work) (enter_node c t)"
proof -
  let ?t = "enter_node c t"
  let ?w = "(c, edges_of edges c) # (node, c # remaining) # work"
  have ok: "search_ok edges known ?w ?t" by (rule search_ok_enter [OF assms(1,3,2)])
  have same: "nodes_of ((c, edges_of edges c) # (node, remaining) # work) = nodes_of ?w" by simp
  then have eq: "followed ((c, edges_of edges c) # (node, remaining) # work) ?t = followed ?w ?t"
    "work_ok ((c, edges_of edges c) # (node, remaining) # work) ?t = work_ok ?w ?t"
    by (simp_all add: followed_def work_ok_def fun_eq_iff)
  have top: "index_at ?t b \<le> index_at ?t c" if "b \<in> set (nodes_of ?w)" for b
    by (rule search_ok_node(3) [OF ok that])
  have "followed ?w ?t node c"
    using search_ok_node(2) [OF ok] top by (intro followedI) (auto simp: not_less [symmetric])
  moreover have "(\<exists>rem. (s, rem) \<in> set ?w \<and> d \<in> set rem) \<or> followed ?w ?t s d"
    if "s \<in> set (ta_stack ?t)" "d \<in> set (edges_of edges s) \<inter> set known" for s d
    using ok that unfolding search_ok_def edges_ok_def by blast
  ultimately have "edges_ok edges known ((c, edges_of edges c) # (node, remaining) # work) ?t"
    unfolding edges_ok_def eq by fastforce
  then show ?thesis using ok by (simp add: search_ok_def eq)
qed

text \<open>Returning from a node that is not the root of its component.\<close>

lemma search_ok_drop:
  assumes ok: "search_ok edges known ((node, []) # (parent, children) # work) t" and low: "low_at t parent \<le> low_at t node"
  shows "search_ok edges known ((parent, children) # work) t"
proof -
  let ?w = "(parent, children) # work"
  have less: "index_at t parent < index_at t node" using ok by (simp add: search_ok_def work_ok_def)
  have "\<exists>a \<in> set (nodes_of ?w). index_at t a \<le> low_at t s" if "s \<in> set (ta_stack t)" for s
  proof -
    have "work_ok ((node, []) # ?w) t" using ok by (simp add: search_ok_def)
    then have "\<exists>a \<in> set (nodes_of ((node, []) # ?w)). index_at t a \<le> low_at t s"
      using that by (simp only: work_ok_def)
    then obtain a where a: "a \<in> set (nodes_of ((node, []) # ?w))" "index_at t a \<le> low_at t s" ..
    show ?thesis
    proof (cases "a = node")
      case True
      then show ?thesis using a(2) less by (intro bexI [of _ parent]) simp_all
    next
      case False
      then show ?thesis using a by (intro bexI [of _ a]) simp_all
    qed
  qed
  then have work: "work_ok ?w t" using ok by (simp add: search_ok_def work_ok_def)
  have "followed ?w t s c" if f: "followed ((node, []) # ?w) t s c" for s c
  proof (rule followedI)
    show "visited t c" using f by (simp add: followed_def)
    fix b assume b: "c \<in> set (ta_stack t)" "b \<in> set (nodes_of ?w)" "index_at t b \<le> index_at t s" "index_at t c < index_at t b"
    have "b \<in> set (nodes_of ((node, []) # ?w))" using b(2) by simp
    from followedD [OF f b(1) this b(3,4)] obtain a where a: "a \<in> set (nodes_of ((node, []) # ?w))"
      "index_at t b \<le> index_at t a" "index_at t a \<le> index_at t s" "low_at t a \<le> index_at t c" .
    have le: "index_at t b \<le> index_at t parent" using work b(2) by (auto simp: work_ok_def less_imp_le)
    show "\<exists>a \<in> set (nodes_of ?w). index_at t b \<le> index_at t a \<and> index_at t a \<le> index_at t s \<and> low_at t a \<le> index_at t c"
    proof (cases "a = node")
      case True
      then show ?thesis using a low less le by (intro bexI [of _ parent]) auto
    next
      case False
      then show ?thesis using a by (intro bexI [of _ a]) auto
    qed
  qed
  then have "edges_ok edges known ?w t"
    using ok unfolding search_ok_def edges_ok_def by fastforce
  with work show ?thesis using ok by (simp add: search_ok_def)
qed

text \<open>Returning from the root of a component: what lies above it on the stack is the component.\<close>

lemma pop_until_split:
  "node \<in> set stack \<Longrightarrow> pop_until node stack = (members, rest) \<Longrightarrow>
     stack = members @ rest \<and> (\<exists>above. members = above @ [node])"
  by (induction node stack arbitrary: members rule: pop_until.induct) (auto split: if_splits prod.splits)

lemma set_sorted_symbols [simp]: "set (sorted_symbols xs) = set xs"
  by (simp add: sorted_symbols_def)

lemma distinct_sorted_symbols [simp]: "distinct (sorted_symbols xs) = distinct xs"
  by (simp add: sorted_symbols_def)

lemma sorted_wrt_less_distinct: "sorted_wrt (\<lambda>a b. f b < (f a :: nat)) xs \<Longrightarrow> distinct xs"
  by (induction xs) auto

lemma stack_split:
  assumes ok: "search_ok edges known ((node, []) # work) t" and pop: "pop_until node (ta_stack t) = (members, rest)"
  shows "ta_stack t = members @ rest" "node \<in> set members"
    "\<And>s. s \<in> set members \<Longrightarrow> index_at t node \<le> index_at t s" "\<And>s. s \<in> set rest \<Longrightarrow> index_at t s < index_at t node"
    "distinct (members @ rest)" "set (nodes_of work) \<subseteq> set rest"
proof -
  from pop_until_split [OF search_ok_node(1) [OF ok] pop] obtain above where
    split: "ta_stack t = members @ rest" "members = above @ [node]" by blast
  have sorted: "sorted_wrt (\<lambda>a b. index_at t b < index_at t a) (members @ rest)"
    using ok by (simp add: search_ok_def book_ok_def split(1) [symmetric])
  show "ta_stack t = members @ rest" "node \<in> set members" by (simp_all add: split)
  show "\<And>s. s \<in> set members \<Longrightarrow> index_at t node \<le> index_at t s" "\<And>s. s \<in> set rest \<Longrightarrow> index_at t s < index_at t node"
    using sorted by (auto simp: split(2) sorted_wrt_append less_imp_le)
  from this(1) have "s \<in> set rest" if "s \<in> set (ta_stack t)" "index_at t s < index_at t node" for s
    using that by (auto simp: split(1) not_le [symmetric])
  then show "set (nodes_of work) \<subseteq> set rest" using ok by (auto simp: search_ok_def work_ok_def)
  show "distinct (members @ rest)" by (rule sorted_wrt_less_distinct [OF sorted])
qed

lemma component_closed:
  assumes ok: "search_ok edges known ((node, []) # work) t" and pop: "pop_until node (ta_stack t) = (members, rest)"
    and root: "low_at t node = index_at t node" and edge: "s \<in> set members" "c \<in> set (edges_of edges s)" "c \<in> set known"
  shows "c \<in> set members \<or> c \<in> emitted t"
proof -
  note split = stack_split [OF ok pop]
  have "\<not> (\<exists>children. (s, children) \<in> set ((node, []) # work) \<and> c \<in> set children)"
  proof
    assume "\<exists>children. (s, children) \<in> set ((node, []) # work) \<and> c \<in> set children"
    then have "s \<in> set (nodes_of work)" by (force simp: nodes_of_def)
    then show False using split(5,6) edge(1) by auto
  qed
  then have followed: "followed ((node, []) # work) t s c"
    using ok edge split(1) unfolding search_ok_def edges_ok_def by (metis IntI UnI1 set_append)
  have "c \<in> set members" if c: "c \<in> set (ta_stack t)"
  proof (rule ccontr)
    assume "c \<notin> set members"
    then have less: "index_at t c < index_at t node" using c split(1,4) by auto
    from followedD [OF followed c _ split(3) [OF edge(1)] less] obtain a where
      a: "a \<in> set (nodes_of ((node, []) # work))" "index_at t node \<le> index_at t a" "low_at t a \<le> index_at t c"
      by auto
    have "a = node" using a(1,2) split(4,6) by (auto dest!: subsetD simp: not_le [symmetric])
    then show False using a(3) root less by simp
  qed
  then show ?thesis using followed ok by (auto simp: followed_def search_ok_def book_ok_def)
qed

lemma emit_sel:
  assumes "low_at t node = index_at t node" "pop_until node (ta_stack t) = (members, rest)"
  shows "ta_stack (emit_component node t) = rest"
    "ta_on (emit_component node t) = filter (\<lambda>s. s \<notin> set members) (ta_on t)"
    "ta_components (emit_component node t) = ta_components t @ [sorted_symbols members]"
    "ta_counter (emit_component node t) = ta_counter t" "index_at (emit_component node t) = index_at t"
    "low_at (emit_component node t) = low_at t" "visited (emit_component node t) = visited t"
    "emitted (emit_component node t) = emitted t \<union> set members"
  using assms by (auto simp: emit_component_def index_at_def low_at_def visited_def emitted_def fun_eq_iff)

lemma search_ok_emit:
  assumes ok: "search_ok edges known ((node, []) # work) t" and root: "low_at t node = index_at t node"
  shows "search_ok edges known work (emit_component node t)"
proof -
  obtain members rest where pop: "pop_until node (ta_stack t) = (members, rest)" by fastforce
  note split = stack_split [OF ok pop] and sel = emit_sel [OF root pop]
  have book: "book_ok known t" and work: "work_ok ((node, []) # work) t" using ok by (simp_all add: search_ok_def)
  have "distinct (concat (ta_components t @ [sorted_symbols members]))"
    using book split(5) unfolding book_ok_def split(1) emitted_def by auto
  then have "book_ok known (emit_component node t)"
    using book split(5) unfolding book_ok_def sel split(1) by (auto simp: sorted_wrt_append)
  moreover have "work_ok work (emit_component node t)"
  proof -
    have "\<exists>a \<in> set (nodes_of work). index_at t a \<le> low_at t s" if s: "s \<in> set rest" for s
    proof -
      have "low_at t s \<le> index_at t s" "\<exists>a \<in> set (nodes_of ((node, []) # work)). index_at t a \<le> low_at t s"
        using work s split(1) by (auto simp: work_ok_def)
      then show ?thesis using split(4) [OF s] by auto
    qed
    then show ?thesis using work split(6) unfolding work_ok_def sel split(1) by auto
  qed
  moreover have "edges_ok edges known work (emit_component node t)"
    unfolding edges_ok_def sel
  proof (intro ballI)
    fix s c
    assume s: "s \<in> set rest" "c \<in> set (edges_of edges s) \<inter> set known"
    have "(\<exists>children. (s, children) \<in> set ((node, []) # work) \<and> c \<in> set children) \<or> followed ((node, []) # work) t s c"
      using ok s split(1) unfolding search_ok_def edges_ok_def by simp
    moreover have "followed work (emit_component node t) s c" if f: "followed ((node, []) # work) t s c"
    proof (rule followedI, unfold sel)
      show "visited t c" using f by (simp add: followed_def)
      fix b assume b: "c \<in> set rest" "b \<in> set (nodes_of work)" "index_at t b \<le> index_at t s" "index_at t c < index_at t b"
      have "c \<in> set (ta_stack t)" "b \<in> set (nodes_of ((node, []) # work))" using b split(1) by auto
      from followedD [OF f this b(3,4)] obtain a where a: "a \<in> set (nodes_of ((node, []) # work))"
        "index_at t b \<le> index_at t a" "index_at t a \<le> index_at t s" "low_at t a \<le> index_at t c" .
      then show "\<exists>a \<in> set (nodes_of work). index_at t b \<le> index_at t a \<and> index_at t a \<le> index_at t s \<and> low_at t a \<le> index_at t c"
        using split(4) [OF s(1)] by auto
    qed
    ultimately show "(\<exists>children. (s, children) \<in> set work \<and> c \<in> set children) \<or> followed work (emit_component node t) s c"
      by auto
  qed
  moreover have "closed_components edges known (ta_components (emit_component node t))"
    using ok component_closed [OF ok pop root] unfolding sel closed_components_snoc
    by (auto simp: search_ok_def emitted_def)
  ultimately show ?thesis by (simp add: search_ok_def)
qed

lemma search_ok_return:
  assumes ok: "search_ok edges known ((node, []) # work) t"
  shows "search_ok edges known work (lower_parent work node (emit_component node t))"
proof (cases "low_at t node = index_at t node")
  case True
  have emitted_ok: "search_ok edges known work (emit_component node t)" by (rule search_ok_emit [OF ok True])
  show ?thesis
  proof (cases work)
    case (Cons frame rest)
    then obtain parent children where frame: "frame = (parent, children)" by fastforce
    obtain members left where pop: "pop_until node (ta_stack t) = (members, left)" by fastforce
    have "index_at t parent < index_at t node" using stack_split(4,6) [OF ok pop] by (simp add: Cons frame subset_iff)
    then have "index_at (emit_component node t) parent \<le> low_at (emit_component node t) node"
      by (simp add: emit_sel [OF True pop] True)
    from search_ok_lower [OF emitted_ok _ this, of parent] show ?thesis by (simp add: lower_parent_def Cons frame)
  qed (use emitted_ok in \<open>simp add: lower_parent_def\<close>)
next
  case False
  then have t: "emit_component node t = t" by (simp add: emit_component_def)
  have "low_at t node \<le> index_at t node" "\<exists>a \<in> set (nodes_of ((node, []) # work)). index_at t a \<le> low_at t node"
    using ok search_ok_node(1) [OF ok] by (simp_all add: search_ok_def work_ok_def)
  then obtain a where a: "a \<in> set (nodes_of work)" "index_at t a \<le> low_at t node" using False by auto
  then obtain parent children rest where work: "work = (parent, children) # rest" by (cases work) auto
  have "a \<in> set (nodes_of ((node, []) # work))" using a(1) by simp
  from search_ok_lower [OF ok this a(2), of parent] show ?thesis
    unfolding t lower_parent_def work list.case prod.case by (rule search_ok_drop) simp
qed

section \<open>The components\<close>

lemma enter_visited [simp]: "visited t node \<Longrightarrow> enter_node node t = t"
  by (simp add: enter_node_def)

lemma visited_enter [simp]: "visited (enter_node node t) s \<longleftrightarrow> s = node \<or> visited t s"
  by (auto simp: enter_node_def visited_def)

lemma visited_cong: "ta_index t = ta_index t' \<Longrightarrow> visited t = visited t'"
  by (simp add: visited_def fun_eq_iff)

lemma tarjan_visit_ok:
  assumes "case work of [] \<Rightarrow> search_ok edges known [] t | (node, _) # _ \<Rightarrow> search_ok edges known work (enter_node node t)"
  shows "search_ok edges known [] (tarjan_visit edges known work t) \<and>
    (\<forall>s. visited t s \<or> s \<in> set (nodes_of work) \<longrightarrow> visited (tarjan_visit edges known work t) s)"
  using assms
proof (induction edges known work t rule: tarjan_visit.induct)
  case (1 edges known t)
  then show ?case by simp
next
  case (2 edges known node children work t)
  obtain found remaining t' where scan: "scan_children known node children (enter_node node t) = (found, remaining, t')"
    using prod_cases3 by blast
  have ok: "search_ok edges known ((node, children) # work) (enter_node node t)" using "2.prems" by simp
  note step = search_ok_scan [OF ok scan]
  have seen: "visited t' = visited (enter_node node t)"
    using scan_children_index [of known node children "enter_node node t"] by (intro visited_cong) (simp add: scan)
  show ?case
  proof (cases found)
    case (Some c)
    with step have "search_ok edges known ((node, c # remaining) # work) t'" "c \<in> set known" "\<not> visited t' c" by simp_all
    then have "search_ok edges known ((c, edges_of edges c) # (node, remaining) # work) (enter_node c t')"
      by (rule search_ok_descend)
    with "2.IH"(2) [OF scan [symmetric] Some refl] scan Some seen show ?thesis by simp
  next
    case None
    with step have rem: "remaining = []" and done_ok: "search_ok edges known ((node, []) # work) t'" by simp_all
    let ?t = "lower_parent work node (emit_component node t')"
    have after: "search_ok edges known work ?t" by (rule search_ok_return [OF done_ok])
    have seen': "visited ?t = visited (enter_node node t)"
      using seen by (metis emit_component_index lower_parent_index visited_cong)
    have "case work of [] \<Rightarrow> search_ok edges known [] ?t | (n, _) # _ \<Rightarrow> search_ok edges known work (enter_node n ?t)"
    proof (cases work)
      case (Cons frame rest)
      then obtain n cs where "frame = (n, cs)" by fastforce
      then show ?thesis using after search_ok_node(2) [of edges known n cs rest ?t] Cons by simp
    qed (use after in simp)
    with "2.IH"(1) [OF scan [symmetric] None refl] scan None seen' show ?thesis by simp
  qed
qed

lemma search_ok_idle: "search_ok edges known [] t \<Longrightarrow> visited t s \<longleftrightarrow> s \<in> emitted t"
  by (auto simp: search_ok_def book_ok_def work_ok_def)

lemma visit_root_ok:
  assumes "search_ok edges known [] t" "root \<in> set known"
  shows "search_ok edges known [] (visit_root edges known t root) \<and>
    (\<forall>s. visited t s \<or> s = root \<longrightarrow> visited (visit_root edges known t root) s)"
proof (cases "visited t root")
  case False
  have "search_ok edges known [(root, edges_of edges root)] (enter_node root t)"
    by (rule search_ok_enter [OF assms(1) False assms(2)])
  with False tarjan_visit_ok [where work = "[(root, edges_of edges root)]" and t = t and edges = edges and known = known] show ?thesis
    by (auto simp: visit_root_def)
qed (use assms in \<open>auto simp: visit_root_def\<close>)

lemma visit_roots_ok:
  "search_ok edges known [] t \<Longrightarrow> set roots \<subseteq> set known \<Longrightarrow>
     search_ok edges known [] (foldl (visit_root edges known) t roots) \<and>
     (\<forall>s. visited t s \<or> s \<in> set roots \<longrightarrow> visited (foldl (visit_root edges known) t roots) s)"
proof (induction roots arbitrary: t)
  case (Cons root roots)
  then show ?case using visit_root_ok [of edges known t root] by auto
qed simp

lemma start_ok: "search_ok edges known [] start_tarjan"
  by (simp add: search_ok_def book_ok_def work_ok_def edges_ok_def closed_components_def start_tarjan_def visited_def emitted_def)

text \<open>
  C13. The components of a call graph hold every known symbol exactly once, and they come callees first: an
  edge from a member leads to a member of the same component or of an earlier one.
\<close>

theorem tarjan_components_closed:
  "set (concat (tarjan_components edges known)) = set known \<and> distinct (concat (tarjan_components edges known)) \<and>
   closed_components edges known (tarjan_components edges known)"
proof -
  let ?t = "foldl (visit_root edges known) start_tarjan (sorted_symbols known)"
  have ok: "search_ok edges known [] ?t" "\<And>s. s \<in> set known \<Longrightarrow> visited ?t s"
    using visit_roots_ok [OF start_ok, of "sorted_symbols known" known edges] by simp_all
  have "visited ?t s \<longleftrightarrow> s \<in> set (concat (ta_components ?t))" for s
    using search_ok_idle [OF ok(1)] by (simp add: emitted_def)
  moreover have "s \<in> set known" if "visited ?t s" for s using ok(1) that by (simp add: search_ok_def book_ok_def)
  ultimately have "set (concat (ta_components ?t)) = set known" using ok(2) by blast
  then show ?thesis using ok(1) by (simp add: tarjan_components_def search_ok_def book_ok_def)
qed

end
