(* ===== verification/Summaries.thy ===== *)
theory Summaries
  imports Components Operations "HOL-Library.Monad_Syntax" "HOL-Library.Multiset"
begin

text \<open>
  Function summaries (\<open>semantic/obligations/summaries.py\<close>): what a function holds and whom it calls, the union
  of the evidence of the functions it exactly calls, iterated over the call components callees first, and
  the budget that may cut the iteration short.

  Python sets are lists of distinct elements in the order of their first insertion; the order a set is
  iterated in is a permutation of that list, an argument of the model (\<open>set_order\<close>). The readings of the
  monotonic clock are another (\<open>clock\<close>, one reading per call); readings and deadline are only compared, so
  integers stand for them. The iteration of a component has no bound of its own in the code: it is a
  partial function here, \<open>None\<close> when it never ends.
\<close>

section \<open>Local summaries\<close>

record function_summary =
  su_symbol :: symbol_id
  su_operations :: "operation list"
  su_witnesses :: "discharge list"
  su_calls :: "call_target_set list"
  su_completeness :: completeness

record exploration_budget =
  eb_depth :: "int option"
  eb_fan_out :: "int option"
  eb_deadline :: "int option"

record set_order =
  so_symbols :: "symbol_id list \<Rightarrow> symbol_id list"
  so_operations :: "operation list \<Rightarrow> operation list"
  so_witnesses :: "discharge list \<Rightarrow> discharge list"

definition permutes_lists :: "('a list \<Rightarrow> 'a list) \<Rightarrow> bool" where
  "permutes_lists f \<longleftrightarrow> (\<forall>xs. mset (f xs) = mset xs)"

text \<open>Iterating over a set yields each of its elements once.\<close>

definition lawful_order :: "set_order \<Rightarrow> bool" where
  "lawful_order ord \<longleftrightarrow> permutes_lists (so_symbols ord) \<and> permutes_lists (so_operations ord) \<and> permutes_lists (so_witnesses ord)"

definition enclosing_type :: "symbol_index \<Rightarrow> string \<Rightarrow> string \<Rightarrow> string option" where
  "enclosing_type index path name =
     (case find (\<lambda>s. sy_module s = path) (named_symbols index name) of None \<Rightarrow> None | Some s \<Rightarrow> sy_type s)"

definition function_symbol :: "symbol_index \<Rightarrow> string \<Rightarrow> function_ir \<Rightarrow> symbol_id" where
  "function_symbol index path fn =
     \<lparr>sy_module = path, sy_type = enclosing_type index path (fn_name fn), sy_name = fn_name fn,
      sy_signature = (if fn_params fn = [] then None else Some (fn_params fn))\<rparr>"

definition joined_call_completeness :: "call_target_set list \<Rightarrow> completeness" where
  "joined_call_completeness calls = foldl (\<lambda>c call. join_completeness c (ct_completeness call)) complete_value calls"

definition sorted_functions :: "function_ir list \<Rightarrow> function_ir list" where
  "sorted_functions = sort_key (\<lambda>fn. (fn_name fn, fn_start fn))"

type_synonym module_functions = "(string \<times> function_ir list) list"

type_synonym 'a symbol_table = "(symbol_id \<times> 'a list) list"

definition table_at :: "'a symbol_table \<Rightarrow> symbol_id \<Rightarrow> 'a list" where
  "table_at d s = or_default [] (map_of d s)"

definition local_summary :: "symbol_index \<Rightarrow> operation symbol_table \<Rightarrow> discharge symbol_table \<Rightarrow> string \<Rightarrow> function_ir \<Rightarrow> function_summary" where
  "local_summary index operations witnesses path fn =
     (let s = function_symbol index path fn;
          calls = map (\<lambda>call. resolve_call call path index) (fn_calls fn)
      in \<lparr>su_symbol = s, su_operations = table_at operations s, su_witnesses = table_at witnesses s, su_calls = calls,
          su_completeness = joined_call_completeness calls\<rparr>)"

definition local_summaries ::
  "module_functions \<Rightarrow> symbol_index \<Rightarrow> operation symbol_table \<Rightarrow> discharge symbol_table \<Rightarrow> function_summary list" where
  "local_summaries functions index operations witnesses =
     concat (map (\<lambda>path. map (local_summary index operations witnesses path)
       (sorted_functions (or_default [] (map_of functions path)))) (sort (map fst functions)))"

section \<open>The edges the iteration follows\<close>

type_synonym summary_table = "(symbol_id \<times> function_summary) list"

definition exact_target :: "call_target_set \<Rightarrow> symbol_id option" where
  "exact_target call = (if is_complete (ct_completeness call) \<and> length (ct_targets call) = 1 then Some (hd (ct_targets call)) else None)"

definition exact_caller_edges :: "set_order \<Rightarrow> summary_table \<Rightarrow> call_edges" where
  "exact_caller_edges ord summaries =
     map (\<lambda>(s, su). (s, sorted_symbols (so_symbols ord (dedup (List.map_filter exact_target (su_calls su)))))) summaries"

text \<open>\<open>_sorted_scc_components\<close>: the dictionary's keys as a set.\<close>

definition sorted_scc_components :: "set_order \<Rightarrow> call_edges \<Rightarrow> symbol_id list \<Rightarrow> symbol_id list list" where
  "sorted_scc_components ord edges nodes = tarjan_components edges (so_symbols ord (dedup nodes))"

section \<open>Unions of evidence\<close>

definition operation_sort_key :: "operation \<Rightarrow> string \<times> int \<times> string \<times> string \<times> string \<times> string list" where
  "operation_sort_key op = (o_path op, o_line op, o_function op, o_kind op, o_fact_id op, o_requires op)"

definition merge_operations :: "set_order \<Rightarrow> operation list \<Rightarrow> operation list \<Rightarrow> operation list" where
  "merge_operations ord left right = sort_key operation_sort_key (so_operations ord (dedup (left @ right)))"

definition witness_sort_key :: "discharge \<Rightarrow> string \<times> int \<times> string \<times> string \<times> string \<times> string \<times> string" where
  "witness_sort_key w = (w_path w, or_default (-1) (w_line w), w_function w, w_kind w, w_fact_id w, w_provenance w, w_scope w)"

definition merge_witnesses :: "set_order \<Rightarrow> discharge list \<Rightarrow> discharge list \<Rightarrow> discharge list" where
  "merge_witnesses ord left right = sort_key witness_sort_key (so_witnesses ord (dedup (left @ right)))"

definition propagate_one :: "set_order \<Rightarrow> function_summary \<Rightarrow> function_summary \<Rightarrow> function_summary" where
  "propagate_one ord su callee =
     su\<lparr>su_operations := merge_operations ord (su_operations su) (su_operations callee),
        su_witnesses := merge_witnesses ord (su_witnesses su) (su_witnesses callee),
        su_completeness := join_completeness (su_completeness su) (su_completeness callee)\<rparr>"

definition propagated :: "set_order \<Rightarrow> function_summary \<Rightarrow> function_summary list \<Rightarrow> function_summary" where
  "propagated ord = foldl (propagate_one ord)"

text \<open>\<open>xs[:n]\<close>, also for a negative bound.\<close>

definition slice_to :: "int \<Rightarrow> 'a list \<Rightarrow> 'a list" where
  "slice_to n xs = (if n < 0 then take (nat (int (length xs) + n)) xs else take (nat n) xs)"

definition callees_for ::
  "symbol_id \<Rightarrow> call_edges \<Rightarrow> summary_table \<Rightarrow> int option \<Rightarrow> function_summary list \<times> bool" where
  "callees_for s edges summaries fan_out =
     (let callees = filter (\<lambda>e. e \<in> set (map fst summaries)) (edges_of edges s);
          truncated = (case fan_out of None \<Rightarrow> False | Some n \<Rightarrow> n < int (length callees));
          kept = (case fan_out of Some n \<Rightarrow> if truncated then slice_to n callees else callees | None \<Rightarrow> callees)
      in (map (\<lambda>e. the (map_of summaries e)) kept, truncated))"

definition cutoff :: "string \<Rightarrow> completeness" where
  "cutoff reason = make_completeness False [reason]"

definition mark_cutoff :: "string \<Rightarrow> function_summary \<Rightarrow> function_summary" where
  "mark_cutoff reason su = su\<lparr>su_completeness := join_completeness (su_completeness su) (cutoff reason)\<rparr>"

definition depth_cutoff :: string where "depth_cutoff = ''summaries:depth_cutoff''"

definition fan_out_cutoff :: string where "fan_out_cutoff = ''summaries:fan_out_cutoff''"

definition deadline_cutoff :: string where "deadline_cutoff = ''summaries:deadline_cutoff''"

definition propagate_member ::
  "set_order \<Rightarrow> call_edges \<Rightarrow> exploration_budget \<Rightarrow> summary_table \<times> bool \<Rightarrow> symbol_id \<Rightarrow> summary_table \<times> bool" where
  "propagate_member ord edges budget acc s =
     (let (summaries, changed) = acc;
          current = the (map_of summaries s);
          (callees, truncated) = callees_for s edges summaries (eb_fan_out budget);
          united = propagated ord current callees;
          updated = (if truncated then mark_cutoff fan_out_cutoff united else united)
      in if updated \<noteq> current then (dict_set s updated summaries, True) else (summaries, changed))"

definition propagate_round ::
  "set_order \<Rightarrow> call_edges \<Rightarrow> exploration_budget \<Rightarrow> symbol_id list \<Rightarrow> summary_table \<Rightarrow> summary_table \<times> bool" where
  "propagate_round ord edges budget members summaries =
     foldl (propagate_member ord edges budget) (summaries, False) members"

definition apply_cutoff :: "string \<Rightarrow> symbol_id list \<Rightarrow> summary_table \<Rightarrow> summary_table" where
  "apply_cutoff reason members summaries =
     foldl (\<lambda>d s. dict_set s (mark_cutoff reason (the (map_of d s))) d) summaries members"

section \<open>The iteration\<close>

text \<open>The clock is read once per iteration, only under a deadline; \<open>tick\<close> counts the readings made so far.\<close>

definition past_deadline :: "(nat \<Rightarrow> int) \<Rightarrow> exploration_budget \<Rightarrow> nat \<Rightarrow> bool" where
  "past_deadline clock budget tick = (case eb_deadline budget of None \<Rightarrow> False | Some d \<Rightarrow> d < clock tick)"

definition next_tick :: "exploration_budget \<Rightarrow> nat \<Rightarrow> nat" where
  "next_tick budget tick = (if eb_deadline budget = None then tick else Suc tick)"

definition depth_reached :: "exploration_budget \<Rightarrow> int \<Rightarrow> bool" where
  "depth_reached budget rounds = (case eb_depth budget of None \<Rightarrow> False | Some n \<Rightarrow> n \<le> rounds)"

partial_function (option) stabilise_loop ::
  "set_order \<Rightarrow> (nat \<Rightarrow> int) \<Rightarrow> call_edges \<Rightarrow> exploration_budget \<Rightarrow> symbol_id list \<Rightarrow> int \<Rightarrow> nat \<Rightarrow> summary_table \<Rightarrow>
   (summary_table \<times> nat) option" where
  "stabilise_loop ord clock edges budget members rounds tick summaries =
     (if past_deadline clock budget tick
      then Some (apply_cutoff deadline_cutoff members summaries, next_tick budget tick)
      else let (summaries', changed) = propagate_round ord edges budget members summaries in
        if \<not> changed then Some (summaries', next_tick budget tick)
        else if depth_reached budget (rounds + 1)
        then Some (apply_cutoff depth_cutoff members summaries', next_tick budget tick)
        else stabilise_loop ord clock edges budget members (rounds + 1) (next_tick budget tick) summaries')"

declare stabilise_loop.simps [code]

definition stabilise_component ::
  "set_order \<Rightarrow> (nat \<Rightarrow> int) \<Rightarrow> call_edges \<Rightarrow> exploration_budget \<Rightarrow> symbol_id list \<Rightarrow> summary_table \<times> nat \<Rightarrow>
   (summary_table \<times> nat) option" where
  "stabilise_component ord clock edges budget members st =
     (if \<not> list_ex (\<lambda>s. edges_of edges s \<noteq> []) members then Some st
      else stabilise_loop ord clock edges budget members 0 (snd st) (fst st))"

fun stabilise_all ::
  "set_order \<Rightarrow> (nat \<Rightarrow> int) \<Rightarrow> call_edges \<Rightarrow> exploration_budget \<Rightarrow> symbol_id list list \<Rightarrow> summary_table \<times> nat \<Rightarrow>
   (summary_table \<times> nat) option" where
  "stabilise_all ord clock edges budget [] st = Some st"
| "stabilise_all ord clock edges budget (members # components) st =
     stabilise_component ord clock edges budget members st \<bind> stabilise_all ord clock edges budget components"

definition summary_table_of :: "function_summary list \<Rightarrow> summary_table" where
  "summary_table_of local = foldl (\<lambda>d su. dict_set (su_symbol su) su d) [] local"

definition monotone_summaries ::
  "set_order \<Rightarrow> (nat \<Rightarrow> int) \<Rightarrow> module_functions \<Rightarrow> symbol_index \<Rightarrow> operation symbol_table \<Rightarrow> discharge symbol_table \<Rightarrow>
   exploration_budget option \<Rightarrow> function_summary list option" where
  "monotone_summaries ord clock functions index operations witnesses budget =
     (let bounded = or_default \<lparr>eb_depth = None, eb_fan_out = None, eb_deadline = None\<rparr> budget;
          local = local_summaries functions index operations witnesses;
          summaries = summary_table_of local;
          edges = exact_caller_edges ord summaries
      in map_option (\<lambda>(d, _). map (\<lambda>su. the (map_of d (su_symbol su))) local)
           (stabilise_all ord clock edges bounded (sorted_scc_components ord edges (map fst summaries)) (summaries, 0)))"

section \<open>The specification: evidence as a set\<close>

text \<open>What a summary says, one item per operation, witness, reason and doubt; merging is union.\<close>

datatype evidence_item = Holds operation | Witnessed discharge | Because string | Incomplete

definition items :: "function_summary \<Rightarrow> evidence_item set" where
  "items su = Holds ` set (su_operations su) \<union> Witnessed ` set (su_witnesses su) \<union>
     Because ` set (reasons (su_completeness su)) \<union> (if is_complete (su_completeness su) then {} else {Incomplete})"

definition exact_calls :: "summary_table \<Rightarrow> (symbol_id \<times> symbol_id) set" where
  "exact_calls summaries = {(s, c). c \<in> fst ` set summaries \<and>
     (\<exists>su. map_of summaries s = Some su \<and> (\<exists>call \<in> set (su_calls su). exact_target call = Some c))}"

text \<open>The specification of a summary: the evidence of every function an exact call chain leads to.\<close>

definition reached_evidence :: "summary_table \<Rightarrow> symbol_id \<Rightarrow> evidence_item set" where
  "reached_evidence summaries s = \<Union> {items su |su c. (s, c) \<in> (exact_calls summaries)\<^sup>* \<and> map_of summaries c = Some su}"

lemma items_iff:
  "Holds op \<in> items su \<longleftrightarrow> op \<in> set (su_operations su)"
  "Witnessed w \<in> items su \<longleftrightarrow> w \<in> set (su_witnesses su)"
  "Because r \<in> items su \<longleftrightarrow> r \<in> set (reasons (su_completeness su))"
  "Incomplete \<in> items su \<longleftrightarrow> \<not> is_complete (su_completeness su)"
  by (auto simp: items_def)

fun is_evidence :: "evidence_item \<Rightarrow> bool" where
  "is_evidence (Holds op) = True"
| "is_evidence (Witnessed w) = True"
| "is_evidence _ = False"

lemma held_evidence: "Holds ` set (su_operations su) \<union> Witnessed ` set (su_witnesses su) = {e \<in> items su. is_evidence e}"
  by (auto simp: items_def)

lemma finite_items [simp]: "finite (items su)"
  by (simp add: items_def)

lemma permutes_lists_set: "permutes_lists f \<Longrightarrow> set (f xs) = set xs"
  unfolding permutes_lists_def by (metis set_mset_mset)

lemma permutes_lists_distinct: "permutes_lists f \<Longrightarrow> distinct (f xs) = distinct xs"
  unfolding permutes_lists_def by (metis mset_eq_imp_distinct_iff)

lemma set_merge [simp]:
  assumes "lawful_order ord"
  shows "set (merge_operations ord l r) = set l \<union> set r" "set (merge_witnesses ord lw rw) = set lw \<union> set rw"
  using assms by (simp_all add: merge_operations_def merge_witnesses_def lawful_order_def permutes_lists_set)

lemma propagate_one_sel [simp]:
  "su_symbol (propagate_one ord su callee) = su_symbol su" "su_calls (propagate_one ord su callee) = su_calls su"
  "su_operations (propagate_one ord su callee) = merge_operations ord (su_operations su) (su_operations callee)"
  "su_witnesses (propagate_one ord su callee) = merge_witnesses ord (su_witnesses su) (su_witnesses callee)"
  "su_completeness (propagate_one ord su callee) = join_completeness (su_completeness su) (su_completeness callee)"
  by (simp_all add: propagate_one_def)

lemma items_propagate_one: "lawful_order ord \<Longrightarrow> items (propagate_one ord su callee) = items su \<union> items callee"
  by (auto simp: items_def)

lemma items_propagated: "lawful_order ord \<Longrightarrow> items (propagated ord su callees) = items su \<union> \<Union> (items ` set callees)"
  by (induction callees arbitrary: su) (auto simp: propagated_def items_propagate_one)

lemma propagated_sel [simp]:
  "su_symbol (propagated ord su callees) = su_symbol su" "su_calls (propagated ord su callees) = su_calls su"
  by (induction callees arbitrary: su) (simp_all add: propagated_def)

definition cutoff_items :: "evidence_item set" where
  "cutoff_items = {Incomplete, Because depth_cutoff, Because fan_out_cutoff, Because deadline_cutoff}"

lemma mark_cutoff_sel [simp]:
  "su_symbol (mark_cutoff r su) = su_symbol su" "su_calls (mark_cutoff r su) = su_calls su"
  "items (mark_cutoff r su) = insert Incomplete (insert (Because r) (items su))"
  by (auto simp: mark_cutoff_def cutoff_def items_def)

lemma mark_cutoff_completeness: "su_completeness (mark_cutoff r su) = join_completeness (su_completeness su) (cutoff r)"
  by (simp add: mark_cutoff_def)

section \<open>One step of a round\<close>

definition summary_at :: "summary_table \<Rightarrow> symbol_id \<Rightarrow> function_summary" where
  "summary_at d s = the (map_of d s)"

lemma summary_at_dict_set [simp]: "summary_at (dict_set s su d) u = (if u = s then su else summary_at d u)"
  by (simp add: summary_at_def)

definition callee_symbols :: "call_edges \<Rightarrow> summary_table \<Rightarrow> symbol_id \<Rightarrow> symbol_id set" where
  "callee_symbols edges d s = set (edges_of edges s) \<inter> fst ` set d"

lemma set_slice_to: "set (slice_to n xs) \<subseteq> set xs"
  by (simp add: slice_to_def set_take_subset)

lemma callees_for_props:
  assumes "callees_for s edges d fan_out = (callees, truncated)"
  shows "set callees \<subseteq> summary_at d ` callee_symbols edges d s"
    "\<not> truncated \<Longrightarrow> set callees = summary_at d ` callee_symbols edges d s" "fan_out = None \<Longrightarrow> \<not> truncated"
proof -
  let ?all = "filter (\<lambda>e. e \<in> set (map fst d)) (edges_of edges s)"
  have all: "set ?all = callee_symbols edges d s" by (auto simp: callee_symbols_def)
  show "set callees \<subseteq> summary_at d ` callee_symbols edges d s"
    using assms unfolding all [symmetric] callees_for_def Let_def summary_at_def [abs_def]
    by (cases fan_out) (auto simp del: set_filter split: if_splits intro!: imageI dest: subsetD [OF set_slice_to])
  show "\<not> truncated \<Longrightarrow> set callees = summary_at d ` callee_symbols edges d s" "fan_out = None \<Longrightarrow> \<not> truncated"
    using assms unfolding all [symmetric] callees_for_def Let_def summary_at_def [abs_def]
    by (cases fan_out; auto simp del: set_filter split: if_splits)+
qed

definition unbounded :: "exploration_budget \<Rightarrow> bool" where
  "unbounded budget \<longleftrightarrow> eb_depth budget = None \<and> eb_fan_out budget = None \<and> eb_deadline budget = None"

text \<open>A member is settled when it holds the evidence of its callees, or owns up to a cutoff.\<close>

definition settled :: "call_edges \<Rightarrow> exploration_budget \<Rightarrow> summary_table \<Rightarrow> symbol_id \<Rightarrow> bool" where
  "settled edges budget d s \<longleftrightarrow>
     (\<not> unbounded budget \<and> Incomplete \<in> items (summary_at d s)) \<or>
     (\<forall>c \<in> callee_symbols edges d s. items (summary_at d c) \<subseteq> items (summary_at d s))"

text \<open>What a step may do to the table: keep the keys, change only members, add evidence of callees and
  cutoffs of a bounded run. A bound \<open>E\<close> that is closed under the edges of the members is kept.\<close>

definition bounded_by ::
  "call_edges \<Rightarrow> exploration_budget \<Rightarrow> symbol_id set \<Rightarrow> (symbol_id \<Rightarrow> evidence_item set) \<Rightarrow> summary_table \<Rightarrow> bool" where
  "bounded_by edges budget members E d \<longleftrightarrow>
     (\<forall>s. items (summary_at d s) \<subseteq> E s) \<and> (\<forall>s \<in> members. \<forall>c \<in> callee_symbols edges d s. E c \<subseteq> E s) \<and>
     (\<forall>s. unbounded budget \<or> cutoff_items \<subseteq> E s)"

definition evidence_grows :: "call_edges \<Rightarrow> exploration_budget \<Rightarrow> symbol_id set \<Rightarrow> summary_table \<Rightarrow> summary_table \<Rightarrow> bool" where
  "evidence_grows edges budget members d d' \<longleftrightarrow>
     fst ` set d' = fst ` set d \<and>
     (\<forall>s. s \<notin> members \<longrightarrow> summary_at d' s = summary_at d s) \<and>
     (\<forall>s. su_symbol (summary_at d' s) = su_symbol (summary_at d s)) \<and>
     (\<forall>s. items (summary_at d s) \<subseteq> items (summary_at d' s)) \<and>
     (\<forall>E. bounded_by edges budget members E d \<longrightarrow> bounded_by edges budget members E d')"

lemma evidence_grows_refl [simp]: "evidence_grows edges budget members d d"
  by (simp add: evidence_grows_def)

lemma evidence_growsD:
  assumes "evidence_grows edges budget members d d'"
  shows "fst ` set d' = fst ` set d" "callee_symbols edges d' = callee_symbols edges d"
    "s \<notin> members \<Longrightarrow> summary_at d' s = summary_at d s" "su_symbol (summary_at d' s) = su_symbol (summary_at d s)"
    "items (summary_at d s) \<subseteq> items (summary_at d' s)"
    "bounded_by edges budget members E d \<Longrightarrow> bounded_by edges budget members E d'"
  using assms by (simp_all add: evidence_grows_def callee_symbols_def fun_eq_iff)

lemma evidence_grows_trans:
  assumes "evidence_grows edges budget members d d'" "evidence_grows edges budget members d' d''"
  shows "evidence_grows edges budget members d d''"
  using assms by (simp add: evidence_grows_def) blast

lemma evidence_grows_member:
  assumes s: "s \<in> members" "s \<in> fst ` set d" and su: "su_symbol su = su_symbol (summary_at d s)"
    "items (summary_at d s) \<subseteq> items su"
    and le: "items su \<subseteq> items (summary_at d s) \<union> \<Union> ((items \<circ> summary_at d) ` callee_symbols edges d s) \<union>
      (if unbounded budget then {} else cutoff_items)"
  shows "evidence_grows edges budget members d (dict_set s su d)"
proof -
  have keys: "fst ` set (dict_set s su d) = fst ` set d" using s(2) by auto
  have "bounded_by edges budget members E (dict_set s su d)" if E: "bounded_by edges budget members E d" for E
  proof -
    have "items (summary_at d s) \<subseteq> E s" using E by (simp add: bounded_by_def)
    moreover have "(items \<circ> summary_at d) c \<subseteq> E s" if "c \<in> callee_symbols edges d s" for c
    proof -
      have "items (summary_at d c) \<subseteq> E c" "E c \<subseteq> E s" using E that s(1) by (simp_all add: bounded_by_def)
      then show ?thesis by simp
    qed
    moreover have "(if unbounded budget then {} else cutoff_items) \<subseteq> E s" using E by (auto simp: bounded_by_def)
    ultimately have "items su \<subseteq> E s" using le by blast
    then show ?thesis using E keys by (simp add: bounded_by_def callee_symbols_def)
  qed
  then show ?thesis using s(1) su keys by (auto simp: evidence_grows_def)
qed

lemma propagate_member_props:
  assumes ord: "lawful_order ord" and s: "s \<in> members" "s \<in> fst ` set d"
    and step: "propagate_member ord edges budget (d, ch) s = (d', ch')"
  shows "evidence_grows edges budget members d d' \<and> (ch \<longrightarrow> ch') \<and> (\<not> ch' \<longrightarrow> d' = d \<and> settled edges budget d s)"
proof -
  obtain callees truncated where callees: "callees_for s edges d (eb_fan_out budget) = (callees, truncated)" by fastforce
  note props = callees_for_props [OF callees]
  let ?cur = "summary_at d s"
  let ?new = "if truncated then mark_cutoff fan_out_cutoff (propagated ord ?cur callees) else propagated ord ?cur callees"
  have d': "(d', ch') = (if ?new \<noteq> ?cur then (dict_set s ?new d, True) else (d, ch))"
    using step unfolding propagate_member_def Let_def prod.case callees summary_at_def by (rule sym)
  have new: "items ?new = items ?cur \<union> \<Union> (items ` set callees) \<union> (if truncated then {Incomplete, Because fan_out_cutoff} else {})"
    by (auto simp: items_propagated [OF ord])
  have bound: "\<not> unbounded budget" if truncated using props(3) that by (auto simp: unbounded_def)
  have sub: "\<Union> (items ` set callees) \<subseteq> \<Union> ((items \<circ> summary_at d) ` callee_symbols edges d s)"
    using props(1) by auto
  have "items ?new \<subseteq> items ?cur \<union> \<Union> ((items \<circ> summary_at d) ` callee_symbols edges d s) \<union>
      (if unbounded budget then {} else cutoff_items)"
    unfolding new using sub bound by (auto simp: cutoff_items_def)
  then have "evidence_grows edges budget members d (dict_set s ?new d)"
    by (intro evidence_grows_member [OF s]) (auto simp: new)
  moreover have "settled edges budget d s" if "?new = ?cur"
  proof (cases truncated)
    case True
    then have "Incomplete \<in> items ?new" by simp
    then have "Incomplete \<in> items ?cur" by (simp only: that)
    then show ?thesis using bound [OF True] by (simp add: settled_def)
  next
    case False
    then have "\<Union> (items ` summary_at d ` callee_symbols edges d s) \<subseteq> items ?cur"
      using new that props(2) by auto
    then show ?thesis by (auto simp: settled_def)
  qed
  ultimately show ?thesis using d' by (auto split: if_splits)
qed

lemma propagate_round_props:
  assumes ord: "lawful_order ord" and sub: "set ms \<subseteq> members" "members \<subseteq> fst ` set d"
  shows "foldl (propagate_member ord edges budget) (d, ch) ms = (d', ch') \<Longrightarrow>
    evidence_grows edges budget members d d' \<and> (ch \<longrightarrow> ch') \<and> (\<not> ch' \<longrightarrow> d' = d \<and> (\<forall>s \<in> set ms. settled edges budget d s))"
  using sub
proof (induction ms arbitrary: d ch)
  case (Cons s ms)
  obtain d1 ch1 where one: "propagate_member ord edges budget (d, ch) s = (d1, ch1)" by fastforce
  have first: "evidence_grows edges budget members d d1 \<and> (ch \<longrightarrow> ch1) \<and> (\<not> ch1 \<longrightarrow> d1 = d \<and> settled edges budget d s)"
    by (rule propagate_member_props [OF ord _ _ one]) (use Cons.prems in auto)
  have "evidence_grows edges budget members d1 d' \<and> (ch1 \<longrightarrow> ch') \<and> (\<not> ch' \<longrightarrow> d' = d1 \<and> (\<forall>s \<in> set ms. settled edges budget d1 s))"
    by (rule Cons.IH) (use Cons.prems one first evidence_growsD(1) in auto)
  then show ?case using first evidence_grows_trans by auto
qed simp

lemma apply_cutoff_props:
  assumes bounded: "\<not> unbounded budget" and r: "Because r \<in> cutoff_items"
  shows "set ms \<subseteq> members \<Longrightarrow> members \<subseteq> fst ` set d \<Longrightarrow>
    evidence_grows edges budget members d (apply_cutoff r ms d) \<and>
    (\<forall>s \<in> set ms. Incomplete \<in> items (summary_at (apply_cutoff r ms d) s))"
proof (induction ms arbitrary: d)
  case (Cons s ms)
  let ?d = "dict_set s (mark_cutoff r (summary_at d s)) d"
  have "Incomplete \<in> cutoff_items" by (simp add: cutoff_items_def)
  then have g: "evidence_grows edges budget members d ?d"
    using Cons.prems r bounded by (intro evidence_grows_member) auto
  have rest: "evidence_grows edges budget members ?d (apply_cutoff r ms ?d) \<and>
      (\<forall>s \<in> set ms. Incomplete \<in> items (summary_at (apply_cutoff r ms ?d) s))"
    by (rule Cons.IH) (use Cons.prems evidence_growsD(1) [OF g] in auto)
  have "Incomplete \<in> items (summary_at ?d s)" by simp
  then have "Incomplete \<in> items (summary_at (apply_cutoff r ms ?d) s)"
    using evidence_growsD(5) [of edges budget members ?d "apply_cutoff r ms ?d" s] rest by blast
  then show ?case using rest evidence_grows_trans [OF g] by (simp add: apply_cutoff_def summary_at_def)
qed (simp add: apply_cutoff_def)

section \<open>The iteration settles its members\<close>

definition component_done ::
  "call_edges \<Rightarrow> exploration_budget \<Rightarrow> symbol_id list \<Rightarrow> summary_table \<Rightarrow> summary_table \<Rightarrow> bool" where
  "component_done edges budget members d d' \<longleftrightarrow>
     evidence_grows edges budget (set members) d d' \<and> (\<forall>s \<in> set members. settled edges budget d' s)"

lemma cutoff_done:
  assumes "evidence_grows edges budget (set members) d d1" "\<not> unbounded budget" "Because r \<in> cutoff_items" "set members \<subseteq> fst ` set d"
  shows "component_done edges budget members d (apply_cutoff r members d1)"
proof -
  have "set members \<subseteq> fst ` set d1" using assms(1,4) evidence_growsD(1) by blast
  from apply_cutoff_props [OF assms(2,3) order_refl this] show ?thesis
    using evidence_grows_trans [OF assms(1)] assms(2) by (auto simp: component_done_def settled_def)
qed

lemma stabilise_loop_step:
  assumes ord: "lawful_order ord" and keys: "set members \<subseteq> fst ` set d"
    and again: "\<And>rounds tick d d'. f rounds tick d = Some (d', tick') \<Longrightarrow> set members \<subseteq> fst ` set d \<Longrightarrow>
      component_done edges budget members d d'"
    and body: "(if past_deadline clock budget tick
      then Some (apply_cutoff deadline_cutoff members d, next_tick budget tick)
      else let (d1, changed) = propagate_round ord edges budget members d in
        if \<not> changed then Some (d1, next_tick budget tick)
        else if depth_reached budget (rounds + 1) then Some (apply_cutoff depth_cutoff members d1, next_tick budget tick)
        else f (rounds + 1) (next_tick budget tick) d1) = Some (d', tick')"
  shows "component_done edges budget members d d'"
proof (cases "past_deadline clock budget tick")
  case True
  then have "\<not> unbounded budget" by (auto simp: past_deadline_def unbounded_def)
  from cutoff_done [OF evidence_grows_refl this _ keys, of deadline_cutoff] show ?thesis
    using body True by (simp add: cutoff_items_def)
next
  case False
  obtain d1 changed where round: "propagate_round ord edges budget members d = (d1, changed)" by fastforce
  then have grown: "evidence_grows edges budget (set members) d d1"
    "\<not> changed \<Longrightarrow> d1 = d \<and> (\<forall>s \<in> set members. settled edges budget d s)"
    using propagate_round_props [OF ord order_refl keys, of edges budget False d1 changed] by (auto simp: propagate_round_def)
  have keys': "set members \<subseteq> fst ` set d1" using keys evidence_growsD(1) [OF grown(1)] by simp
  consider "\<not> changed" | "changed" "depth_reached budget (rounds + 1)" | "changed" "\<not> depth_reached budget (rounds + 1)"
    by blast
  then show ?thesis
  proof cases
    case 1
    then have "d' = d1" using body False round by simp
    then show ?thesis using 1 grown by (simp add: component_done_def)
  next
    case 2
    then have "d' = apply_cutoff depth_cutoff members d1" using body False round by simp
    moreover have "\<not> unbounded budget" using 2(2) by (auto simp: depth_reached_def unbounded_def)
    ultimately show ?thesis using cutoff_done [OF grown(1) _ _ keys, of depth_cutoff] by (simp add: cutoff_items_def)
  next
    case 3
    then have "f (rounds + 1) (next_tick budget tick) d1 = Some (d', tick')" using body False round by simp
    from again [OF this keys'] show ?thesis
      using evidence_grows_trans [OF grown(1)] by (simp add: component_done_def)
  qed
qed

lemma stabilise_loop_done:
  assumes "stabilise_loop ord clock edges budget members rounds tick d = Some r" "lawful_order ord" "set members \<subseteq> fst ` set d"
  shows "component_done edges budget members d (fst r)"
proof -
  have "lawful_order ord \<longrightarrow> set members \<subseteq> fst ` set d \<longrightarrow> component_done edges budget members d (fst r)"
  proof (rule stabilise_loop.raw_induct [OF _ assms(1), where P =
      "\<lambda>ord clock edges budget members rounds tick d r. lawful_order ord \<longrightarrow> set members \<subseteq> fst ` set d \<longrightarrow>
         component_done edges budget members d (fst r)"], intro impI)
    fix f :: "set_order \<Rightarrow> (nat \<Rightarrow> int) \<Rightarrow> call_edges \<Rightarrow> exploration_budget \<Rightarrow> symbol_id list \<Rightarrow> int \<Rightarrow> nat \<Rightarrow> summary_table \<Rightarrow>
      (summary_table \<times> nat) option"
    fix ord clock edges budget members rounds tick d r
    assume again: "\<And>ord clock edges budget members rounds tick d r.
        f ord clock edges budget members rounds tick d = Some r \<Longrightarrow>
        lawful_order ord \<longrightarrow> set members \<subseteq> fst ` set d \<longrightarrow> component_done edges budget members d (fst r)"
      and body: "(if past_deadline clock budget tick
        then Some (apply_cutoff deadline_cutoff members d, next_tick budget tick)
        else let (d1, changed) = propagate_round ord edges budget members d in
          if \<not> changed then Some (d1, next_tick budget tick)
          else if depth_reached budget (rounds + 1) then Some (apply_cutoff depth_cutoff members d1, next_tick budget tick)
          else f ord clock edges budget members (rounds + 1) (next_tick budget tick) d1) = Some r"
      and keys: "lawful_order ord" "set members \<subseteq> fst ` set d"
    show "component_done edges budget members d (fst r)"
      by (rule stabilise_loop_step [OF keys, of "f ord clock edges budget members" "snd r" edges budget clock tick rounds])
        (use again keys(1) body in \<open>force+\<close>)
  qed
  then show ?thesis using assms(2,3) by blast
qed

lemma stabilise_component_done:
  assumes "stabilise_component ord clock edges budget members st = Some st'" "lawful_order ord" "set members \<subseteq> fst ` set (fst st)"
  shows "component_done edges budget members (fst st) (fst st')"
proof (cases "list_ex (\<lambda>s. edges_of edges s \<noteq> []) members")
  case True
  then show ?thesis using assms by (auto simp: stabilise_component_def intro: stabilise_loop_done)
next
  case False
  then have "st' = st" "\<forall>s \<in> set members. callee_symbols edges (fst st) s = {}"
    using assms(1) by (auto simp: stabilise_component_def list_ex_iff callee_symbols_def)
  then show ?thesis by (simp add: component_done_def settled_def)
qed

text \<open>Over all components, callees first: what is settled stays settled, since later components do not change
  what it depends on.\<close>

definition callees_closed :: "call_edges \<Rightarrow> summary_table \<Rightarrow> symbol_id set \<Rightarrow> bool" where
  "callees_closed edges d S \<longleftrightarrow> (\<forall>s \<in> S. callee_symbols edges d s \<subseteq> S)"

lemma settled_unchanged:
  assumes "evidence_grows edges budget members d d'" "settled edges budget d s" "s \<notin> members" "callee_symbols edges d s \<inter> members = {}"
  shows "settled edges budget d' s"
proof -
  have "summary_at d' c = summary_at d c" if "c \<in> callee_symbols edges d s" for c
    using evidence_growsD(3) [OF assms(1)] that assms(4) by blast
  then show ?thesis using assms(2,3) evidence_growsD(2,3) [OF assms(1)] by (simp add: settled_def)
qed

lemma evidence_grows_mono:
  assumes "evidence_grows edges budget members d d'" "members \<subseteq> members'"
  shows "evidence_grows edges budget members' d d'"
proof -
  have "bounded_by edges budget members' E d'" if E: "bounded_by edges budget members' E d" for E
  proof -
    have "bounded_by edges budget members E d" using E assms(2) unfolding bounded_by_def by blast
    from evidence_growsD(6) [OF assms(1) this] show ?thesis using E evidence_growsD(2) [OF assms(1)] by (simp add: bounded_by_def)
  qed
  then show ?thesis using assms by (auto simp: evidence_grows_def)
qed

lemma stabilise_all_done:
  assumes ord: "lawful_order ord"
  shows "stabilise_all ord clock edges budget components st = Some st' \<Longrightarrow>
    \<Union> (set ` set components) \<subseteq> fst ` set (fst st) \<Longrightarrow> distinct (concat components) \<Longrightarrow>
    \<Union> (set ` set components) \<inter> S = {} \<Longrightarrow> callees_closed edges (fst st) S \<Longrightarrow>
    (\<forall>i < length components. callees_closed edges (fst st) (S \<union> \<Union> (set ` set (take (Suc i) components)))) \<Longrightarrow>
    (\<forall>s \<in> S. settled edges budget (fst st) s) \<Longrightarrow>
    evidence_grows edges budget UNIV (fst st) (fst st') \<and> (\<forall>s \<in> S \<union> \<Union> (set ` set components). settled edges budget (fst st') s)"
proof (induction components arbitrary: st S)
  case (Cons members components)
  obtain st1 where first: "stabilise_component ord clock edges budget members st = Some st1"
    and rest: "stabilise_all ord clock edges budget components st1 = Some st'"
    using Cons.prems(1) by (auto simp: bind_eq_Some_conv)
  have "component_done edges budget members (fst st) (fst st1)"
    by (rule stabilise_component_done [OF first ord]) (use Cons.prems(2) in auto)
  then have g: "evidence_grows edges budget (set members) (fst st) (fst st1)" "\<forall>s \<in> set members. settled edges budget (fst st1) s"
    by (simp_all add: component_done_def)
  have closed: "callees_closed edges (fst st1) T = callees_closed edges (fst st) T" for T
    by (simp add: callees_closed_def evidence_growsD(2) [OF g(1)])
  have "\<forall>s \<in> S. settled edges budget (fst st1) s"
  proof
    fix s assume s: "s \<in> S"
    show "settled edges budget (fst st1) s"
      by (rule settled_unchanged [OF g(1)]) (use s Cons.prems(4,5,7) in \<open>auto simp: callees_closed_def\<close>)
  qed
  then have settled: "\<forall>s \<in> S \<union> set members. settled edges budget (fst st1) s" using g(2) by blast
  have prefix: "callees_closed edges (fst st) (S \<union> \<Union> (set ` set (take (Suc i) (members # components))))"
    if "i < Suc (length components)" for i using Cons.prems(6) that by simp
  have "evidence_grows edges budget UNIV (fst st1) (fst st') \<and>
      (\<forall>s \<in> (S \<union> set members) \<union> \<Union> (set ` set components). settled edges budget (fst st') s)"
  proof (rule Cons.IH [OF rest _ _ _ _ _ settled])
    show "\<Union> (set ` set components) \<subseteq> fst ` set (fst st1)" using Cons.prems(2) evidence_growsD(1) [OF g(1)] by auto
    show "distinct (concat components)" using Cons.prems(3) by simp
    show "\<Union> (set ` set components) \<inter> (S \<union> set members) = {}" using Cons.prems(3,4) by auto
    show "callees_closed edges (fst st1) (S \<union> set members)" using prefix [of 0] by (simp add: closed)
    show "\<forall>i < length components. callees_closed edges (fst st1) ((S \<union> set members) \<union> \<Union> (set ` set (take (Suc i) components)))"
      using prefix [of "Suc _"] by (auto simp: closed Un_assoc)
  qed
  then show ?case using evidence_grows_trans [OF evidence_grows_mono [OF g(1) subset_UNIV]] by (auto simp: Un_assoc)
qed simp

section \<open>The summaries meet their specification\<close>

lemma exact_targets_of: "set (List.map_filter exact_target calls) = {c. \<exists>call \<in> set calls. exact_target call = Some c}"
  by (auto simp: in_map_filter)

lemma edges_of_exact:
  assumes "lawful_order ord" "s \<in> fst ` set d"
  shows "callee_symbols (exact_caller_edges ord d) d s = {c. (s, c) \<in> exact_calls d}"
proof -
  have map: "map_of (exact_caller_edges ord d) s =
      map_option (\<lambda>su. sorted_symbols (so_symbols ord (dedup (List.map_filter exact_target (su_calls su))))) (map_of d s)"
    by (induction d) (auto simp: exact_caller_edges_def)
  obtain su where "map_of d s = Some su" using assms(2) by (metis map_of_eq_None_iff not_None_eq)
  then show ?thesis
    using assms(1) map exact_targets_of [of "su_calls su"]
    by (auto simp: callee_symbols_def edges_of_def exact_calls_def lawful_order_def permutes_lists_set)
qed

lemma reached_evidence_step: "(s, c) \<in> exact_calls d \<Longrightarrow> reached_evidence d c \<subseteq> reached_evidence d s"
  unfolding reached_evidence_def by (auto intro: converse_rtrancl_into_rtrancl)

lemma exact_calls_keys: "(s, c) \<in> exact_calls d \<Longrightarrow> c \<in> fst ` set d"
  by (simp add: exact_calls_def)

lemma summary_at_key: "s \<in> fst ` set d \<Longrightarrow> map_of d s = Some (summary_at d s)"
  unfolding summary_at_def by (metis map_of_eq_None_iff option.collapse)

lemma components_closed_prefix:
  assumes "closed_components edges known components" "set known = fst ` set d" "i < length components"
  shows "callees_closed edges d (\<Union> (set ` set (take (Suc i) components)))"
  unfolding callees_closed_def
proof
  fix s assume "s \<in> \<Union> (set ` set (take (Suc i) components))"
  then obtain members where "members \<in> set (take (Suc i) components)" "s \<in> set members" by blast
  then obtain j where j: "j \<le> i" "s \<in> set (components ! j)"
    using assms(3) by (auto simp: in_set_conv_nth [of members] less_Suc_eq_le)
  then have "set (edges_of edges s) \<inter> set known \<subseteq> \<Union> (set ` set (take (Suc j) components))"
    using assms(1,3) by (simp add: closed_components_def)
  also have "\<dots> \<subseteq> \<Union> (set ` set (take (Suc i) components))"
    using set_take_subset_set_take [of "Suc j" "Suc i" components] j(1) by blast
  finally show "callee_symbols edges d s \<subseteq> \<Union> (set ` set (take (Suc i) components))"
    by (simp add: callee_symbols_def assms(2))
qed

lemma stabilised_table:
  assumes ord: "lawful_order ord" and edges: "edges = exact_caller_edges ord d"
    and run: "stabilise_all ord clock edges budget (sorted_scc_components ord edges (map fst d)) (d, 0) = Some (d', tick)"
    and s: "s \<in> fst ` set d"
  shows "settled edges budget d' s" "items (summary_at d s) \<subseteq> items (summary_at d' s)"
    "su_symbol (summary_at d' s) = su_symbol (summary_at d s)" "fst ` set d' = fst ` set d"
    "items (summary_at d' s) \<subseteq> reached_evidence d s \<union> (if unbounded budget then {} else cutoff_items)"
proof -
  let ?known = "so_symbols ord (dedup (map fst d))"
  let ?cs = "tarjan_components edges ?known"
  have known: "set ?known = fst ` set d" using ord by (simp add: lawful_order_def permutes_lists_set)
  note tarjan = tarjan_components_closed [of edges ?known]
  have cover: "\<Union> (set ` set ?cs) = fst ` set d" using tarjan known by simp
  have "evidence_grows edges budget UNIV (fst (d, 0 :: nat)) (fst (d', tick)) \<and>
      (\<forall>s \<in> {} \<union> \<Union> (set ` set ?cs). settled edges budget (fst (d', tick)) s)"
    by (rule stabilise_all_done [OF ord run [unfolded sorted_scc_components_def]])
      (use cover tarjan components_closed_prefix [OF _ known] in \<open>auto simp: callees_closed_def\<close>)
  then have g: "evidence_grows edges budget UNIV d d'" "\<forall>s \<in> fst ` set d. settled edges budget d' s"
    using cover by auto
  show "settled edges budget d' s" "items (summary_at d s) \<subseteq> items (summary_at d' s)"
    "su_symbol (summary_at d' s) = su_symbol (summary_at d s)" "fst ` set d' = fst ` set d"
    using g(2) s evidence_growsD(1,4,5) [OF g(1)] by auto
  let ?E = "\<lambda>s. if s \<in> fst ` set d then reached_evidence d s \<union> (if unbounded budget then {} else cutoff_items) else UNIV"
  have "?E c \<subseteq> ?E u" if "c \<in> callee_symbols edges d u" for u c
  proof (cases "u \<in> fst ` set d")
    case True
    then have "(u, c) \<in> exact_calls d" using that edges_of_exact [OF ord True] by (simp add: edges)
    from reached_evidence_step [OF this] exact_calls_keys [OF this] True show ?thesis by auto
  qed simp
  moreover have "items (summary_at d u) \<subseteq> ?E u" for u
    using summary_at_key [of u d] by (auto simp: reached_evidence_def)
  ultimately have "bounded_by edges budget UNIV ?E d" by (simp add: bounded_by_def)
  from evidence_growsD(6) [OF g(1) this] have "items (summary_at d' s) \<subseteq> ?E s" by (simp add: bounded_by_def)
  then show "items (summary_at d' s) \<subseteq> reached_evidence d s \<union> (if unbounded budget then {} else cutoff_items)"
    using s by simp
qed

lemma summary_table_step:
  "\<forall>s \<in> fst ` set d. su_symbol (summary_at d s) = s \<Longrightarrow>
   (let d' = foldl (\<lambda>d su. dict_set (su_symbol su) su d) d local in
    fst ` set d' = fst ` set d \<union> su_symbol ` set local \<and> (\<forall>s \<in> fst ` set d'. su_symbol (summary_at d' s) = s))"
proof (induction local arbitrary: d)
  case (Cons su local)
  have "\<forall>s \<in> fst ` set (dict_set (su_symbol su) su d). su_symbol (summary_at (dict_set (su_symbol su) su d) s) = s"
    using Cons.prems by auto
  from Cons.IH [OF this] show ?case by (auto simp: Let_def)
qed (simp add: Let_def)

lemma summary_table_of_props:
  "fst ` set (summary_table_of local) = su_symbol ` set local"
  "s \<in> su_symbol ` set local \<Longrightarrow> su_symbol (summary_at (summary_table_of local) s) = s"
proof -
  have base: "\<forall>s \<in> fst ` set ([] :: summary_table). su_symbol (summary_at [] s) = s" by simp
  have "fst ` set (summary_table_of local) = su_symbol ` set local \<and>
      (\<forall>s \<in> fst ` set (summary_table_of local). su_symbol (summary_at (summary_table_of local) s) = s)"
    unfolding summary_table_of_def
    by (rule summary_table_step [OF base, of local, unfolded Let_def list.set image_empty Un_empty_left])
  then show "fst ` set (summary_table_of local) = su_symbol ` set local"
    "s \<in> su_symbol ` set local \<Longrightarrow> su_symbol (summary_at (summary_table_of local) s) = s" by blast+
qed

lemma monotone_summaries_run:
  assumes "monotone_summaries ord clock functions index operations witnesses budget = Some out"
  defines "local \<equiv> local_summaries functions index operations witnesses"
  defines "d \<equiv> summary_table_of local"
  obtains d' tick where
    "stabilise_all ord clock (exact_caller_edges ord d) (or_default \<lparr>eb_depth = None, eb_fan_out = None, eb_deadline = None\<rparr> budget)
       (sorted_scc_components ord (exact_caller_edges ord d) (map fst d)) (d, 0) = Some (d', tick)"
    "out = map (\<lambda>su. summary_at d' (su_symbol su)) local" "\<And>su. su \<in> set local \<Longrightarrow> su_symbol su \<in> fst ` set d"
  using assms summary_table_of_props(1) [of local]
  by (auto simp: monotone_summaries_def Let_def summary_at_def)

text \<open>
  C10. Summaries refine their specification: without a budget, what a summary holds (operations, witnesses,
  reasons, doubt) is the union of what every function holds that an exact call chain leads to, whatever
  order sets are iterated in and however the recursion runs; there is one summary per function, in order.
\<close>

theorem monotone_summaries_refine:
  assumes "lawful_order ord"
    and "monotone_summaries ord clock functions index operations witnesses None = Some out"
  shows "map items out = map (reached_evidence (summary_table_of (local_summaries functions index operations witnesses)) \<circ> su_symbol)
      (local_summaries functions index operations witnesses) \<and>
    map su_symbol out = map su_symbol (local_summaries functions index operations witnesses)"
proof -
  let ?local = "local_summaries functions index operations witnesses"
  let ?d = "summary_table_of ?local"
  let ?budget = "\<lparr>eb_depth = None, eb_fan_out = None, eb_deadline = None\<rparr> :: exploration_budget"
  obtain d' tick where run: "stabilise_all ord clock (exact_caller_edges ord ?d) ?budget
      (sorted_scc_components ord (exact_caller_edges ord ?d) (map fst ?d)) (?d, 0) = Some (d', tick)"
    and out: "out = map (\<lambda>su. summary_at d' (su_symbol su)) ?local"
    and keys: "\<And>su. su \<in> set ?local \<Longrightarrow> su_symbol su \<in> fst ` set ?d"
    using monotone_summaries_run [OF assms(2)] by auto
  have unb: "unbounded ?budget" by (simp add: unbounded_def)
  note table = stabilised_table [OF assms(1) refl run]
  have step: "items (summary_at d' c) \<subseteq> items (summary_at d' s)" if "(s, c) \<in> exact_calls ?d" "s \<in> fst ` set ?d" for s c
    using table(1,4) [OF that(2)] unb that edges_of_exact [OF assms(1) that(2)]
    by (auto simp: settled_def callee_symbols_def)
  have "items (summary_at ?d c) \<subseteq> items (summary_at d' s)" if "(s, c) \<in> (exact_calls ?d)\<^sup>*" "s \<in> fst ` set ?d" for s c
    using that
  proof (induction rule: converse_rtrancl_induct)
    case base
    then show ?case using table(2) by blast
  next
    case (step u v)
    then show ?case using \<open>\<And>s c. (s, c) \<in> exact_calls ?d \<Longrightarrow> s \<in> fst ` set ?d \<Longrightarrow> items (summary_at d' c) \<subseteq> items (summary_at d' s)\<close>
      exact_calls_keys by blast
  qed
  then have "reached_evidence ?d s \<subseteq> items (summary_at d' s)" if "s \<in> fst ` set ?d" for s
    using that unfolding reached_evidence_def summary_at_def by fastforce
  then have "items (summary_at d' s) = reached_evidence ?d s" if "s \<in> fst ` set ?d" for s
    using table(5) [OF that] unb that by auto
  then show ?thesis
    using keys table(3) summary_table_of_props(2) [of _ ?local] by (simp add: out)
qed

text \<open>
  C11. A cutoff is never silent: under any budget (depth, fan-out or deadline), a summary that comes out
  complete holds exactly the operations and witnesses of every function its exact calls lead to, and each
  of those is complete on its own.
\<close>

theorem complete_summary_exact:
  assumes "lawful_order ord"
    and "monotone_summaries ord clock functions index operations witnesses budget = Some out"
    and "su \<in> set out" "is_complete (su_completeness su)"
  shows "Holds ` set (su_operations su) \<union> Witnessed ` set (su_witnesses su) =
      {e \<in> reached_evidence (summary_table_of (local_summaries functions index operations witnesses)) (su_symbol su).
        is_evidence e} \<and>
    Incomplete \<notin> reached_evidence (summary_table_of (local_summaries functions index operations witnesses)) (su_symbol su)"
proof -
  let ?local = "local_summaries functions index operations witnesses"
  let ?d = "summary_table_of ?local"
  obtain d' tick bounded where run: "stabilise_all ord clock (exact_caller_edges ord ?d) bounded
      (sorted_scc_components ord (exact_caller_edges ord ?d) (map fst ?d)) (?d, 0) = Some (d', tick)"
    and out: "out = map (\<lambda>su. summary_at d' (su_symbol su)) ?local"
    and keys: "\<And>su. su \<in> set ?local \<Longrightarrow> su_symbol su \<in> fst ` set ?d"
    using monotone_summaries_run [OF assms(2)] by metis
  note table = stabilised_table [OF assms(1) refl run]
  from assms(3) obtain f where f: "f \<in> set ?local" "su = summary_at d' (su_symbol f)" by (auto simp: out)
  have s: "su_symbol f \<in> fst ` set ?d" "su_symbol su = su_symbol f"
    using keys [OF f(1)] table(3) [OF keys [OF f(1)]] summary_table_of_props(2) [of "su_symbol f" ?local] f by auto
  have settled: "items (summary_at d' c) \<subseteq> items (summary_at d' u)"
    if "(u, c) \<in> exact_calls ?d" "u \<in> fst ` set ?d" "Incomplete \<notin> items (summary_at d' u)" for u c
    using table(1,4) [OF that(2)] that edges_of_exact [OF assms(1) that(2)]
    by (auto simp: settled_def callee_symbols_def)
  have "items (summary_at ?d c) \<subseteq> items (summary_at d' u)"
    if "(u, c) \<in> (exact_calls ?d)\<^sup>*" "u \<in> fst ` set ?d" "Incomplete \<notin> items (summary_at d' u)" for u c
    using that
  proof (induction rule: converse_rtrancl_induct)
    case base
    then show ?case using table(2) by blast
  next
    case (step u v)
    have "items (summary_at d' v) \<subseteq> items (summary_at d' u)" by (rule settled) (use step in auto)
    then show ?case using step exact_calls_keys by blast
  qed
  moreover have "Incomplete \<notin> items su" using assms(4) by (simp add: items_iff)
  ultimately have "reached_evidence ?d (su_symbol f) \<subseteq> items su"
    using s(1) f(2) unfolding reached_evidence_def summary_at_def by fastforce
  moreover have "items su \<subseteq> reached_evidence ?d (su_symbol f) \<union> cutoff_items"
    using table(5) [OF s(1)] f(2) by (auto split: if_splits)
  ultimately have "{e \<in> items su. is_evidence e} =
      {e \<in> reached_evidence ?d (su_symbol f). is_evidence e}"
    "Incomplete \<notin> reached_evidence ?d (su_symbol f)"
    using \<open>Incomplete \<notin> items su\<close> by (auto simp: cutoff_items_def)
  then show ?thesis unfolding s(2) held_evidence by blast
qed

section \<open>The iteration ends\<close>

text \<open>
  The code compares the merged tuples with the old ones. Merged tuples are sorted by a key; two operations
  or witnesses that agree in the key keep the order of the set, which need not be the same twice. Without
  such ties the iteration ends: every round that changes something adds evidence or sorts a tuple.
\<close>

definition tie_free :: "function_summary list \<Rightarrow> bool" where
  "tie_free summaries \<longleftrightarrow>
     inj_on operation_sort_key (\<Union> (set ` su_operations ` set summaries)) \<and>
     inj_on witness_sort_key (\<Union> (set ` su_witnesses ` set summaries))"

definition settled_tuples :: "function_summary \<Rightarrow> bool" where
  "settled_tuples su \<longleftrightarrow>
     sorted (map operation_sort_key (su_operations su)) \<and> distinct (su_operations su) \<and>
     sorted (map witness_sort_key (su_witnesses su)) \<and> distinct (su_witnesses su)"

lemma sorted_key_unique:
  assumes "sorted (map f xs)" "sorted (map f ys)" "distinct xs" "distinct ys" "set xs = set ys" "inj_on f (set xs)"
  shows "xs = ys"
proof -
  have "map f xs = map f ys"
    by (rule sorted_distinct_set_unique) (use assms in \<open>auto simp: distinct_map\<close>)
  moreover have "inj_on f (set xs \<union> set ys)" using assms(5,6) by simp
  ultimately show ?thesis by (metis map_inj_on)
qed

lemma settled_propagate_one: "lawful_order ord \<Longrightarrow> settled_tuples (propagate_one ord su callee)"
  by (simp add: settled_tuples_def merge_operations_def merge_witnesses_def lawful_order_def permutes_lists_distinct)

lemma settled_propagated: "lawful_order ord \<Longrightarrow> callees \<noteq> [] \<Longrightarrow> settled_tuples (propagated ord su callees)"
  unfolding propagated_def by (cases callees rule: rev_cases) (simp_all add: settled_propagate_one)

text \<open>Joining only ever appends reasons.\<close>

definition extends_completeness :: "completeness \<Rightarrow> completeness \<Rightarrow> bool" where
  "extends_completeness a c \<longleftrightarrow> wf_completeness c \<and> (\<exists>added. reasons c = reasons a @ added)"

lemma extends_completeness_join:
  assumes "wf_completeness a"
  shows "extends_completeness a (join_completeness a b)"
proof -
  have "reasons (join_completeness a b) = reasons a @ dedup_from (reasons a) (reasons b)"
    using assms by (simp add: join_completeness_def dedup_def dedup_from_append wf_completeness_def dedup_from_id)
  then show ?thesis unfolding extends_completeness_def by (blast intro: wf_join_completeness)
qed

lemma extends_completeness_trans: "extends_completeness a b \<Longrightarrow> extends_completeness b c \<Longrightarrow> extends_completeness a c"
  by (auto simp: extends_completeness_def)

lemma extends_completeness_same:
  assumes "extends_completeness a c" "wf_completeness a" "is_complete c = is_complete a" "set (reasons c) = set (reasons a)"
  shows "c = a"
proof -
  obtain added where "reasons c = reasons a @ added" using assms(1) by (auto simp: extends_completeness_def)
  moreover from this have "added = []" using assms by (cases added) (auto simp: extends_completeness_def wf_completeness_def)
  ultimately show ?thesis using assms(3) by (cases a; cases c) simp
qed

lemma extends_completeness_propagated:
  "wf_completeness (su_completeness su) \<Longrightarrow> extends_completeness (su_completeness su) (su_completeness (propagated ord su callees))"
proof (induction callees arbitrary: su)
  case (Cons callee callees)
  let ?su = "propagate_one ord su callee"
  have "extends_completeness (su_completeness su) (su_completeness ?su)" using Cons.prems by (simp add: extends_completeness_join)
  moreover from this have "extends_completeness (su_completeness ?su) (su_completeness (propagated ord ?su callees))"
    by (intro Cons.IH) (simp add: extends_completeness_def)
  ultimately show ?case using extends_completeness_trans by (simp add: propagated_def)
qed (auto simp: propagated_def extends_completeness_def)

text \<open>What a summary can still gain out of a finite stock of evidence, and whether its tuples are still unsorted.\<close>

definition room :: "evidence_item set \<Rightarrow> function_summary \<Rightarrow> nat" where
  "room U su = card (U - items su) + (if settled_tuples su then 0 else 1)"

definition tie_free_stock :: "evidence_item set \<Rightarrow> bool" where
  "tie_free_stock U \<longleftrightarrow> finite U \<and> cutoff_items \<subseteq> U \<and> inj_on operation_sort_key {op. Holds op \<in> U} \<and> inj_on witness_sort_key {w. Witnessed w \<in> U}"

definition within :: "evidence_item set \<Rightarrow> summary_table \<Rightarrow> bool" where
  "within U d \<longleftrightarrow> (\<forall>s \<in> fst ` set d. items (summary_at d s) \<subseteq> U \<and> wf_completeness (su_completeness (summary_at d s)))"

lemma within_at:
  assumes "within U d" "s \<in> fst ` set d"
  shows "items (summary_at d s) \<subseteq> U" "wf_completeness (su_completeness (summary_at d s))"
  using assms unfolding within_def by blast+

lemma within_dict_set:
  assumes "within U d" "s \<in> fst ` set d" "items su \<subseteq> U" "wf_completeness (su_completeness su)"
  shows "within U (dict_set s su d)"
  unfolding within_def using assms(3,4) within_at [OF assms(1)] assms(2) by auto

lemma same_items:
  assumes "items b = items a"
  shows "set (su_operations b) = set (su_operations a)" "set (su_witnesses b) = set (su_witnesses a)"
    "set (reasons (su_completeness b)) = set (reasons (su_completeness a))"
    "is_complete (su_completeness b) = is_complete (su_completeness a)"
  using assms by (simp_all add: set_eq_iff flip: items_iff) (metis items_iff(4))

lemma same_summary:
  assumes stock: "tie_free_stock U" and U: "items a \<subseteq> U" and same: "items b = items a"
    and tuples: "settled_tuples a \<and> settled_tuples b \<or> su_operations b = su_operations a \<and> su_witnesses b = su_witnesses a"
    and rest: "su_symbol b = su_symbol a" "su_calls b = su_calls a"
    and completeness: "wf_completeness (su_completeness a)" "extends_completeness (su_completeness a) (su_completeness b)"
  shows "b = a"
proof -
  note sets = same_items [OF same]
  have inj: "inj_on operation_sort_key (set (su_operations b))" "inj_on witness_sort_key (set (su_witnesses b))"
    using stock U unfolding tie_free_stock_def sets by (auto simp: items_def elim!: inj_on_subset)
  have "su_operations b = su_operations a \<and> su_witnesses b = su_witnesses a"
    using tuples sorted_key_unique [OF _ _ _ _ sets(1) inj(1)] sorted_key_unique [OF _ _ _ _ sets(2) inj(2)]
    by (auto simp: settled_tuples_def)
  moreover have "su_completeness b = su_completeness a"
    by (rule extends_completeness_same [OF completeness(2,1) sets(4,3)])
  ultimately show ?thesis using rest by (cases a; cases b) simp
qed

lemma room_decreases:
  assumes stock: "tie_free_stock U" and U: "items b \<subseteq> U" and le: "items a \<subseteq> items b" and neq: "b \<noteq> a"
    and tuples: "settled_tuples b \<or> su_operations b = su_operations a \<and> su_witnesses b = su_witnesses a"
    and rest: "su_symbol b = su_symbol a" "su_calls b = su_calls a"
    and completeness: "wf_completeness (su_completeness a)" "extends_completeness (su_completeness a) (su_completeness b)"
  shows "room U b < room U a"
proof (cases "items b = items a")
  case False
  have fin: "finite (U - items a)" using stock by (simp add: tie_free_stock_def)
  have "settled_tuples b \<or> \<not> settled_tuples a" using tuples by (auto simp: settled_tuples_def)
  moreover have "card (U - items b) < card (U - items a)" using False le U by (intro psubset_card_mono [OF fin]) blast
  ultimately show ?thesis by (auto simp: room_def)
next
  case True
  then have "\<not> (settled_tuples a \<and> settled_tuples b \<or> su_operations b = su_operations a \<and> su_witnesses b = su_witnesses a)"
    using same_summary [OF stock _ True _ rest completeness] U neq by auto
  then show ?thesis using True tuples by (auto simp: room_def)
qed

definition total_room :: "evidence_item set \<Rightarrow> summary_table \<Rightarrow> nat" where
  "total_room U d = (\<Sum>s \<in> fst ` set d. room U (summary_at d s))"

lemma total_room_decreases:
  assumes "s \<in> fst ` set d" "room U su < room U (summary_at d s)"
  shows "total_room U (dict_set s su d) < total_room U d"
proof -
  have keys: "fst ` set (dict_set s su d) = fst ` set d" using assms(1) by auto
  have "(\<Sum>u \<in> fst ` set d. room U (summary_at (dict_set s su d) u)) < (\<Sum>u \<in> fst ` set d. room U (summary_at d u))"
    by (rule sum_strict_mono_ex1) (use assms in auto)
  then show ?thesis unfolding total_room_def keys .
qed

lemma propagate_member_room:
  assumes ord: "lawful_order ord" and stock: "tie_free_stock U" and d: "within U d" and s: "s \<in> fst ` set d"
    and step: "propagate_member ord edges budget (d, ch) s = (d', ch')"
  shows "fst ` set d' = fst ` set d \<and> within U d' \<and> (d' = d \<and> ch' = ch \<or> ch' \<and> total_room U d' < total_room U d)"
proof -
  obtain callees truncated where callees: "callees_for s edges d (eb_fan_out budget) = (callees, truncated)" by fastforce
  let ?cur = "summary_at d s"
  let ?un = "propagated ord ?cur callees"
  let ?new = "if truncated then mark_cutoff fan_out_cutoff ?un else ?un"
  have d': "(d', ch') = (if ?new \<noteq> ?cur then (dict_set s ?new d, True) else (d, ch))"
    using step unfolding propagate_member_def Let_def prod.case callees summary_at_def by (rule sym)
  have cur: "items ?cur \<subseteq> U" "wf_completeness (su_completeness ?cur)" by (rule within_at [OF d s])+
  have "\<Union> (items ` set callees) \<subseteq> U"
    using callees_for_props(1) [OF callees] within_at(1) [OF d] by (auto simp: callee_symbols_def)
  then have new: "items ?cur \<subseteq> items ?new" "items ?new \<subseteq> U"
    using cur(1) stock by (auto simp: items_propagated [OF ord] tie_free_stock_def cutoff_items_def)
  have un: "extends_completeness (su_completeness ?cur) (su_completeness ?un)"
    by (rule extends_completeness_propagated [OF cur(2)])
  then have "extends_completeness (su_completeness ?un) (su_completeness ?new)"
    using extends_completeness_join [of "su_completeness ?un" "cutoff fan_out_cutoff"]
    by (cases truncated) (simp_all add: mark_cutoff_completeness extends_completeness_def)
  then have ext: "extends_completeness (su_completeness ?cur) (su_completeness ?new)"
    by (rule extends_completeness_trans [OF un])
  have same: "su_operations ?new = su_operations ?un" "su_witnesses ?new = su_witnesses ?un"
    "su_symbol ?new = su_symbol ?cur" "su_calls ?new = su_calls ?cur"
    by (simp_all add: mark_cutoff_def)
  have tuples: "settled_tuples ?new \<or> su_operations ?new = su_operations ?cur \<and> su_witnesses ?new = su_witnesses ?cur"
    unfolding settled_tuples_def same using settled_propagated [OF ord, of callees ?cur]
    by (cases callees) (auto simp: settled_tuples_def propagated_def)
  show ?thesis
  proof (cases "?new = ?cur")
    case False
    have "room U ?new < room U ?cur" by (rule room_decreases [OF stock new(2,1) False tuples same(3,4) cur(2) ext])
    from total_room_decreases [OF s this] False d' have "ch'" "d' = dict_set s ?new d" "total_room U d' < total_room U d" by auto
    moreover have "wf_completeness (su_completeness ?new)" using ext by (simp add: extends_completeness_def)
    ultimately show ?thesis using within_dict_set [OF d s new(2)] s by auto
  qed (use d' d in auto)
qed

lemma propagate_round_room:
  assumes ord: "lawful_order ord" and stock: "tie_free_stock U"
  shows "foldl (propagate_member ord edges budget) (d, ch) ms = (d', ch') \<Longrightarrow> within U d \<Longrightarrow> set ms \<subseteq> fst ` set d \<Longrightarrow>
    fst ` set d' = fst ` set d \<and> within U d' \<and> (d' = d \<and> ch' = ch \<or> ch' \<and> total_room U d' < total_room U d)"
proof (induction ms arbitrary: d ch)
  case (Cons s ms)
  obtain d1 ch1 where one: "propagate_member ord edges budget (d, ch) s = (d1, ch1)" by fastforce
  have first: "fst ` set d1 = fst ` set d \<and> within U d1 \<and> (d1 = d \<and> ch1 = ch \<or> ch1 \<and> total_room U d1 < total_room U d)"
    by (rule propagate_member_room [OF ord stock _ _ one]) (use Cons.prems in auto)
  have "fst ` set d' = fst ` set d1 \<and> within U d' \<and> (d' = d1 \<and> ch' = ch1 \<or> ch' \<and> total_room U d' < total_room U d1)"
    by (rule Cons.IH) (use Cons.prems one first in auto)
  then show ?case using first by auto
qed simp

lemma apply_cutoff_within:
  assumes stock: "tie_free_stock U" and r: "Because r \<in> cutoff_items"
  shows "set ms \<subseteq> fst ` set d \<Longrightarrow> within U d \<Longrightarrow> fst ` set (apply_cutoff r ms d) = fst ` set d \<and> within U (apply_cutoff r ms d)"
proof (induction ms arbitrary: d)
  case (Cons s ms)
  let ?d = "dict_set s (mark_cutoff r (summary_at d s)) d"
  have keys: "fst ` set ?d = fst ` set d" using Cons.prems(1) by auto
  have "Incomplete \<in> U" "Because r \<in> U" using stock r by (auto simp: tie_free_stock_def cutoff_items_def)
  then have "within U ?d"
    using Cons.prems within_at(1) [OF Cons.prems(2), of s] by (intro within_dict_set) (auto simp: mark_cutoff_completeness)
  with Cons.IH [of ?d] Cons.prems(1) keys show ?case by (simp add: apply_cutoff_def summary_at_def)
qed (simp add: apply_cutoff_def)

lemma stabilise_loop_returns:
  assumes ord: "lawful_order ord" and stock: "tie_free_stock U"
  shows "within U d \<Longrightarrow> set members \<subseteq> fst ` set d \<Longrightarrow>
    \<exists>d' tick'. stabilise_loop ord clock edges budget members rounds tick d = Some (d', tick') \<and>
      fst ` set d' = fst ` set d \<and> within U d'"
proof (induction "total_room U d" arbitrary: d rounds tick rule: less_induct)
  case less
  have cut: "fst ` set (apply_cutoff r members d1) = fst ` set d \<and> within U (apply_cutoff r members d1)"
    if "fst ` set d1 = fst ` set d" "within U d1" "r = depth_cutoff \<or> r = deadline_cutoff" for r d1
    using apply_cutoff_within [OF stock, of r members d1] that less.prems(2) by (auto simp: cutoff_items_def)
  show ?case
  proof (cases "past_deadline clock budget tick")
    case True
    then show ?thesis using cut [OF refl less.prems(1), of deadline_cutoff]
      by (subst stabilise_loop.simps) simp
  next
    case False
    obtain d1 changed where round: "propagate_round ord edges budget members d = (d1, changed)" by fastforce
    then have d1: "fst ` set d1 = fst ` set d \<and> within U d1 \<and> (d1 = d \<and> \<not> changed \<or> changed \<and> total_room U d1 < total_room U d)"
      using propagate_round_room [OF ord stock _ less.prems(1,2), of edges budget False d1 changed]
      by (auto simp: propagate_round_def)
    have keys: "set members \<subseteq> fst ` set d1" using d1 less.prems(2) by simp
    have again: "changed \<Longrightarrow> \<exists>d' tick'. stabilise_loop ord clock edges budget members (rounds + 1) (next_tick budget tick) d1 = Some (d', tick') \<and>
      fst ` set d' = fst ` set d1 \<and> within U d'"
      using less.hyps [OF _ _ keys] d1 by blast
    show ?thesis
      using False round d1 again cut [of d1 depth_cutoff]
      by (subst stabilise_loop.simps) (auto simp: Let_def)
  qed
qed

lemma stabilise_all_returns:
  assumes ord: "lawful_order ord" and stock: "tie_free_stock U"
  shows "within U (fst st) \<Longrightarrow> \<Union> (set ` set components) \<subseteq> fst ` set (fst st) \<Longrightarrow>
    \<exists>st'. stabilise_all ord clock edges budget components st = Some st'"
proof (induction components arbitrary: st)
  case (Cons members components)
  have members: "set members \<subseteq> fst ` set (fst st)" using Cons.prems(2) by auto
  have "\<exists>d' tick'. stabilise_component ord clock edges budget members st = Some (d', tick') \<and>
      fst ` set d' = fst ` set (fst st) \<and> within U d'"
    using stabilise_loop_returns [OF ord stock Cons.prems(1) members, of clock edges budget 0 "snd st"] Cons.prems(1)
    by (cases st) (auto simp: stabilise_component_def)
  then obtain d' tick' where "stabilise_component ord clock edges budget members st = Some (d', tick')"
    "fst ` set d' = fst ` set (fst st)" "within U d'" by blast
  then show ?case using Cons.IH [of "(d', tick')"] Cons.prems(2) by auto
qed simp

lemma joined_call_completeness_wf: "wf_completeness (joined_call_completeness calls)"
proof -
  have "wf_completeness c \<Longrightarrow> wf_completeness (foldl (\<lambda>c call. join_completeness c (ct_completeness call)) c calls)" for c
    by (induction calls arbitrary: c) simp_all
  then show ?thesis by (simp add: joined_call_completeness_def complete_value_def)
qed

lemma local_summaries_wf: "su \<in> set (local_summaries functions index operations witnesses) \<Longrightarrow> wf_completeness (su_completeness su)"
  by (auto simp: local_summaries_def local_summary_def Let_def joined_call_completeness_wf)

lemma summary_table_values: "map_of (summary_table_of local) s = Some su \<Longrightarrow> su \<in> set local"
proof -
  have "map_of (foldl (\<lambda>d su. dict_set (su_symbol su) su d) d local) s = Some su \<Longrightarrow> su \<in> set local \<or> map_of d s = Some su" for d
    by (induction local arbitrary: d) (fastforce split: if_splits)+
  from this [of "[]"] show "map_of (summary_table_of local) s = Some su \<Longrightarrow> su \<in> set local"
    by (simp add: summary_table_of_def)
qed

text \<open>
  C12. The iteration ends: when no two operations and no two witnesses tie in the key their tuples are
  sorted by, \<open>monotone_summaries\<close> returns, for every call graph, recursive or not, and every budget.
\<close>

theorem monotone_summaries_returns:
  assumes "lawful_order ord" "tie_free (local_summaries functions index operations witnesses)"
  shows "\<exists>out. monotone_summaries ord clock functions index operations witnesses budget = Some out"
proof -
  let ?local = "local_summaries functions index operations witnesses"
  let ?d = "summary_table_of ?local"
  let ?U = "\<Union> (items ` set ?local) \<union> cutoff_items"
  have stock: "tie_free_stock ?U"
    using assms(2) unfolding tie_free_stock_def tie_free_def
    by (auto simp: cutoff_items_def items_iff elim!: inj_on_subset)
  have "within ?U ?d"
    using summary_table_values [OF summary_at_key] local_summaries_wf unfolding within_def by blast
  moreover have "\<Union> (set ` set (sorted_scc_components ord edges (map fst ?d))) \<subseteq> fst ` set ?d" for edges
    using tarjan_components_closed [of edges "so_symbols ord (dedup (map fst ?d))"] assms(1)
    by (simp add: sorted_scc_components_def lawful_order_def permutes_lists_set)
  ultimately show ?thesis
    using stabilise_all_returns [OF assms(1) stock, of "(?d, 0)"] by (fastforce simp: monotone_summaries_def Let_def)
qed

section \<open>A repository that calls itself\<close>

text \<open>\<open>shop.py\<close>: \<open>show\<close> calls \<open>load\<close>, \<open>load\<close> calls itself and \<open>show\<close>; \<open>load\<close> reads an order, \<open>audit\<close> stands alone.\<close>

definition shop_call :: "string \<Rightarrow> int \<Rightarrow> call_site" where
  "shop_call name line = \<lparr>cs_name = name, cs_line = line, cs_arg_texts = [], cs_arg_constant = [], cs_arg_names = [],
     cs_extra_sequence = False, cs_order = 0, cs_receiver = None, cs_arity = Some 0\<rparr>"

definition shop_function :: "string \<Rightarrow> int \<Rightarrow> call_site list \<Rightarrow> function_ir" where
  "shop_function name line calls =
     \<lparr>fn_name = name, fn_params = [], fn_start = line, fn_end = line + 8, fn_binds = [], fn_calls = calls\<rparr>"

definition shop_functions :: module_functions where
  "shop_functions =
     [(''shop.py'', [shop_function ''show'' 1 [shop_call ''load'' 2],
        shop_function ''load'' 10 [shop_call ''load'' 11, shop_call ''show'' 12], shop_function ''audit'' 20 [shop_call ''gone'' 21]])]"

definition shop_index :: symbol_index where
  "shop_index = build_index [\<lparr>sf_module = ''shop.py'',
     sf_scopes = map (\<lambda>n. \<lparr>ds_name = n, ds_params = [], ds_start = 1, ds_type = None, ds_bases = []\<rparr>) [''show'', ''load'', ''audit''],
     sf_class_bases = []\<rparr>]"

definition shop_symbol :: "string \<Rightarrow> symbol_id" where
  "shop_symbol name = \<lparr>sy_module = ''shop.py'', sy_type = None, sy_name = name, sy_signature = None\<rparr>"

definition shop_operation :: "string \<Rightarrow> operation" where
  "shop_operation resource = \<lparr>o_path = ''shop.py'', o_line = 13, o_function = ''load'', o_kind = ''data_read'', o_fact_id = ''orm'',
     o_resource = Some resource, o_requires = [''path_guard'']\<rparr>"

definition shop_table :: "operation symbol_table" where
  "shop_table = [(shop_symbol ''load'', [shop_operation ''order''])]"

definition first_order :: set_order where
  "first_order = \<lparr>so_symbols = (\<lambda>xs. xs), so_operations = (\<lambda>xs. xs), so_witnesses = (\<lambda>xs. xs)\<rparr>"

definition last_order :: set_order where
  "last_order = \<lparr>so_symbols = rev, so_operations = rev, so_witnesses = rev\<rparr>"

lemma orders_lawful: "lawful_order first_order" "lawful_order last_order"
  by (simp_all add: lawful_order_def permutes_lists_def first_order_def last_order_def)

text \<open>How one summary of a run looks: its name, its resources, whether it is complete.\<close>

definition glance :: "function_summary \<Rightarrow> string \<times> string option list \<times> bool \<times> string list" where
  "glance su = (sy_name (su_symbol su), map o_resource (su_operations su), is_complete (su_completeness su), reasons (su_completeness su))"

definition depth_budget :: "int \<Rightarrow> exploration_budget" where
  "depth_budget n = \<lparr>eb_depth = Some n, eb_fan_out = None, eb_deadline = None\<rparr>"

definition shop_run :: "exploration_budget option \<Rightarrow> function_summary list" where
  "shop_run budget = or_default [] (monotone_summaries last_order (\<lambda>_. 0) shop_functions shop_index shop_table [] budget)"

lemma shop_runs:
  "monotone_summaries last_order (\<lambda>_. 0) shop_functions shop_index shop_table [] None = Some (shop_run None)"
  "monotone_summaries last_order (\<lambda>_. 0) shop_functions shop_index shop_table [] (Some (depth_budget 5)) = Some (shop_run (Some (depth_budget 5)))"
  by code_simp+

text \<open>Recursion does not lose evidence; a budget of one round leaves the recursive component incomplete, and says why.\<close>

lemma shop_run_values:
  "map glance (shop_run None) = [(''audit'', [], False, [''resolution:no_candidate'']), (''load'', [Some ''order''], True, []),
     (''show'', [Some ''order''], True, [])]"
  "map glance (shop_run (Some (depth_budget 1))) = [(''audit'', [], False, [''resolution:no_candidate'']),
     (''load'', [Some ''order''], False, [''summaries:depth_cutoff'']), (''show'', [Some ''order''], False, [''summaries:depth_cutoff''])]"
  by code_simp+

lemma monotone_summaries_refine_witness:
  "map items (shop_run None) = map (reached_evidence (summary_table_of (local_summaries shop_functions shop_index shop_table [])) \<circ> su_symbol)
     (local_summaries shop_functions shop_index shop_table [])"
  using monotone_summaries_refine [OF orders_lawful(2) shop_runs(1)] by (rule conjunct1)

lemma complete_summary_witness:
  "{e \<in> reached_evidence (summary_table_of (local_summaries shop_functions shop_index shop_table [])) (shop_symbol ''show''). is_evidence e} =
     {Holds (shop_operation ''order'')} \<and>
   Incomplete \<notin> reached_evidence (summary_table_of (local_summaries shop_functions shop_index shop_table [])) (shop_symbol ''show'')"
proof -
  let ?su = "shop_run (Some (depth_budget 5)) ! 2"
  have su: "?su \<in> set (shop_run (Some (depth_budget 5)))" "is_complete (su_completeness ?su)"
    "su_symbol ?su = shop_symbol ''show''" "su_operations ?su = [shop_operation ''order'']" "su_witnesses ?su = []"
    by code_simp+
  from complete_summary_exact [OF orders_lawful(2) shop_runs(2) su(1,2)] show ?thesis by (simp add: su)
qed

lemma shop_tie_free: "tie_free (local_summaries shop_functions shop_index shop_table [])"
proof -
  have "map su_operations (local_summaries shop_functions shop_index shop_table []) = [[], [shop_operation ''order''], []]"
    "map su_witnesses (local_summaries shop_functions shop_index shop_table []) = [[], [], []]"
    by code_simp+
  then have "su_operations ` set (local_summaries shop_functions shop_index shop_table []) = {[], [shop_operation ''order'']}"
    "su_witnesses ` set (local_summaries shop_functions shop_index shop_table []) = {[]}"
    by (simp_all add: insert_commute flip: set_map)
  then show ?thesis by (simp add: tie_free_def)
qed

lemma monotone_summaries_returns_witness:
  "\<exists>out. monotone_summaries last_order (\<lambda>_. 0) shop_functions shop_index shop_table [] (Some (depth_budget 1)) = Some out"
  by (rule monotone_summaries_returns [OF orders_lawful(2) shop_tie_free])

text \<open>
  Without the hypothesis the iteration need not end: \<open>load\<close> holds two operations of one line that differ only in
  the resource, calls itself, and the set is iterated newest first. Every round swaps the two, and a round
  that changed something is followed by another.
\<close>

definition swap_summary :: "operation list \<Rightarrow> function_summary" where
  "swap_summary ops = \<lparr>su_symbol = shop_symbol ''load'', su_operations = ops, su_witnesses = [], su_calls = [],
     su_completeness = complete_value\<rparr>"

definition swap_table :: "operation list \<Rightarrow> summary_table" where
  "swap_table ops = [(shop_symbol ''load'', swap_summary ops)]"

definition swap_edges :: call_edges where
  "swap_edges = [(shop_symbol ''load'', [shop_symbol ''load''])]"

definition no_budget :: exploration_budget where
  "no_budget = \<lparr>eb_depth = None, eb_fan_out = None, eb_deadline = None\<rparr>"

lemma swap_rounds:
  "propagate_round last_order swap_edges no_budget [shop_symbol ''load''] (swap_table [shop_operation ''a'', shop_operation ''b'']) =
     (swap_table [shop_operation ''b'', shop_operation ''a''], True)"
  "propagate_round last_order swap_edges no_budget [shop_symbol ''load''] (swap_table [shop_operation ''b'', shop_operation ''a'']) =
     (swap_table [shop_operation ''a'', shop_operation ''b''], True)"
  by code_simp+

lemma tied_operations_never_settle:
  "stabilise_loop last_order clock swap_edges no_budget [shop_symbol ''load''] 0 0
     (swap_table [shop_operation ''a'', shop_operation ''b'']) = None"
proof -
  let ?ab = "swap_table [shop_operation ''a'', shop_operation ''b'']" and ?ba = "swap_table [shop_operation ''b'', shop_operation ''a'']"
  have "\<not> (ord = last_order \<and> edges = swap_edges \<and> budget = no_budget \<and> members = [shop_symbol ''load''] \<and> (d = ?ab \<or> d = ?ba))"
    if "stabilise_loop ord clock edges budget members rounds tick d = Some r"
    for ord clock edges budget members rounds tick d r
  proof (rule stabilise_loop.raw_induct [OF _ that, where P = "\<lambda>ord clock edges budget members rounds tick d r.
      \<not> (ord = last_order \<and> edges = swap_edges \<and> budget = no_budget \<and> members = [shop_symbol ''load''] \<and> (d = ?ab \<or> d = ?ba))"], goal_cases)
    case (1 f ord clock edges budget members rounds tick d r)
    have free: "past_deadline clock no_budget tick = False" "depth_reached no_budget n = False" for n
      by (simp_all add: past_deadline_def depth_reached_def no_budget_def)
    show ?case
    proof
      assume "ord = last_order \<and> edges = swap_edges \<and> budget = no_budget \<and> members = [shop_symbol ''load''] \<and> (d = ?ab \<or> d = ?ba)"
      then have "f last_order clock swap_edges no_budget [shop_symbol ''load''] (rounds + 1) (next_tick no_budget tick) ?ab = Some r \<or>
          f last_order clock swap_edges no_budget [shop_symbol ''load''] (rounds + 1) (next_tick no_budget tick) ?ba = Some r"
        using 1(2) swap_rounds by (auto simp: free)
      then show False using 1(1) by blast
    qed
  qed
  then show ?thesis by (metis not_None_eq)
qed

end
