(* ===== verification/EvidencePaths.thy ===== *)
theory EvidencePaths
  imports Summaries
begin

text \<open>
  Concrete evidence paths (\<open>semantic/obligations/summaries.py\<close>): the exact call edges with their call sites, the
  calls that stay diagnostics, and the walk from recognised entries to the symbols that hold operations.
  \<open>hops\<close> is a set in the code and sorted afterwards; the order it is iterated in is an argument.
\<close>

section \<open>Edges\<close>

record evidence_hop =
  eh_caller :: symbol_id
  eh_callee :: symbol_id
  eh_line :: int

record evidence_path =
  ep_entry :: symbol_id
  ep_target :: symbol_id
  ep_hops :: "evidence_hop list"

record candidate_edge =
  ce_caller :: symbol_id
  ce_candidates :: "symbol_id list"
  ce_line :: int
  ce_reason :: string

text \<open>The call sites of a repository with the symbol of their function, in the order of the loops.\<close>

definition resolved_sites :: "module_functions \<Rightarrow> symbol_index \<Rightarrow> (symbol_id \<times> call_site \<times> call_target_set) list" where
  "resolved_sites functions index =
     concat (map (\<lambda>(path, fns). concat (map (\<lambda>fn. map (\<lambda>call. (function_symbol index path fn, call, resolve_call call path index))
       (fn_calls fn)) fns)) functions)"

definition hop_key :: "evidence_hop \<Rightarrow> (string \<times> string \<times> string \<times> string list) \<times> int \<times> (string \<times> string \<times> string \<times> string list)" where
  "hop_key h = (symbol_key (eh_caller h), eh_line h, symbol_key (eh_callee h))"

definition exact_hop :: "symbol_id \<times> call_site \<times> call_target_set \<Rightarrow> evidence_hop option" where
  "exact_hop site = (case site of (caller, call, targets) \<Rightarrow>
     map_option (\<lambda>t. \<lparr>eh_caller = caller, eh_callee = t, eh_line = cs_line call\<rparr>) (exact_target targets))"

definition exact_call_edges :: "(evidence_hop list \<Rightarrow> evidence_hop list) \<Rightarrow> module_functions \<Rightarrow> symbol_index \<Rightarrow> evidence_hop list" where
  "exact_call_edges order functions index =
     sort_key hop_key (order (dedup (List.map_filter exact_hop (resolved_sites functions index))))"

definition candidate_of :: "symbol_id \<times> call_site \<times> call_target_set \<Rightarrow> candidate_edge option" where
  "candidate_of site = (case site of (caller, call, targets) \<Rightarrow>
     if exact_target targets \<noteq> None then None
     else Some \<lparr>ce_caller = caller, ce_candidates = ct_targets targets, ce_line = cs_line call,
       ce_reason = (case reasons (ct_completeness targets) of [] \<Rightarrow> ''resolution:unresolved'' | r # _ \<Rightarrow> r)\<rparr>)"

definition candidate_call_edges :: "module_functions \<Rightarrow> symbol_index \<Rightarrow> candidate_edge list" where
  "candidate_call_edges functions index =
     sort_key (\<lambda>e. (symbol_key (ce_caller e), ce_line e, ce_reason e)) (List.map_filter candidate_of (resolved_sites functions index))"

section \<open>Paths\<close>

type_synonym hop_table = "(symbol_id \<times> evidence_hop list) list"

definition hops_from :: "hop_table \<Rightarrow> symbol_id \<Rightarrow> evidence_hop list" where
  "hops_from adjacency s = or_default [] (map_of adjacency s)"

definition unmet_callees :: "hop_table \<Rightarrow> symbol_id set \<Rightarrow> nat" where
  "unmet_callees adjacency met = card (eh_callee ` set (concat (map snd adjacency)) - met)"

lemma hops_from_known: "set (hops_from adjacency s) \<subseteq> set (concat (map snd adjacency))"
proof (cases "map_of adjacency s")
  case (Some hs)
  then show ?thesis using map_of_SomeD [OF Some] by (force simp: hops_from_def)
qed (simp add: hops_from_def)

function walk_exact_paths ::
  "hop_table \<Rightarrow> operation symbol_table \<Rightarrow> symbol_id \<Rightarrow> symbol_id \<Rightarrow> evidence_hop list \<Rightarrow> symbol_id set \<Rightarrow> evidence_path list" where
  "walk_exact_paths adjacency operations entry s hops met =
     (if table_at operations s \<noteq> [] then [\<lparr>ep_entry = entry, ep_target = s, ep_hops = hops\<rparr>] else []) @
     concat (map (\<lambda>hop. if eh_callee hop \<in> met then []
         else walk_exact_paths adjacency operations entry (eh_callee hop) (hops @ [hop]) (insert (eh_callee hop) met))
       (hops_from adjacency s))"
  by pat_completeness auto
termination
proof (relation "measure (\<lambda>(adjacency, operations, entry, s, hops, met). unmet_callees adjacency met)")
  fix adjacency operations entry s hops met hop
  assume hop: "hop \<in> set (hops_from adjacency s)" "eh_callee hop \<notin> met"
  then have "eh_callee hop \<in> eh_callee ` set (concat (map snd adjacency)) - met"
    using hops_from_known [of adjacency s] by auto
  then have "unmet_callees adjacency (insert (eh_callee hop) met) < unmet_callees adjacency met"
    unfolding unmet_callees_def by (intro psubset_card_mono) auto
  then show "((adjacency, operations, entry, eh_callee hop, hops @ [hop], insert (eh_callee hop) met),
      adjacency, operations, entry, s, hops, met)
    \<in> measure (\<lambda>(adjacency, operations, entry, s, hops, met). unmet_callees adjacency met)" by simp
qed simp

declare walk_exact_paths.simps [simp del]

definition exact_evidence_paths :: "symbol_id list \<Rightarrow> evidence_hop list \<Rightarrow> operation symbol_table \<Rightarrow> evidence_path list" where
  "exact_evidence_paths entries edges operations =
     (let adjacency = foldl (\<lambda>d hop. group_add (eh_caller hop) hop d) [] (sort_key hop_key edges)
      in concat (map (\<lambda>entry. walk_exact_paths adjacency operations entry entry [] {entry}) (sort_key symbol_key entries)))"

section \<open>What the paths are\<close>

text \<open>A chain of hops that starts at a symbol, each hop leaving from where the last one arrived.\<close>

fun chain_from :: "symbol_id \<Rightarrow> evidence_hop list \<Rightarrow> symbol_id \<Rightarrow> bool" where
  "chain_from s [] t \<longleftrightarrow> t = s"
| "chain_from s (hop # hops) t \<longleftrightarrow> eh_caller hop = s \<and> chain_from (eh_callee hop) hops t"

text \<open>The chains a walk may add: exact hops, no symbol twice, an operation at the end.\<close>

definition walkable :: "evidence_hop set \<Rightarrow> operation symbol_table \<Rightarrow> symbol_id set \<Rightarrow> symbol_id \<Rightarrow> evidence_hop list \<Rightarrow> symbol_id \<Rightarrow> bool" where
  "walkable edges operations met s hops t \<longleftrightarrow>
     set hops \<subseteq> edges \<and> chain_from s hops t \<and> distinct (map eh_callee hops) \<and>
     eh_callee ` set hops \<inter> met = {} \<and> table_at operations t \<noteq> []"

definition adjacency_ok :: "evidence_hop set \<Rightarrow> hop_table \<Rightarrow> bool" where
  "adjacency_ok edges adjacency \<longleftrightarrow> (\<forall>s. set (hops_from adjacency s) = {h \<in> edges. eh_caller h = s})"

lemma walkable_Cons:
  "walkable edges operations met s (hop # hops) t \<longleftrightarrow>
     hop \<in> edges \<and> eh_caller hop = s \<and> eh_callee hop \<notin> met \<and>
     walkable edges operations (insert (eh_callee hop) met) (eh_callee hop) hops t"
  by (auto simp: walkable_def)

lemma walk_exact_paths_iff:
  assumes "adjacency_ok edges adjacency"
  shows "p \<in> set (walk_exact_paths adjacency operations entry s hops met) \<longleftrightarrow>
    ep_entry p = entry \<and> (\<exists>rest. ep_hops p = hops @ rest \<and> walkable edges operations met s rest (ep_target p))"
  using assms
proof (induction adjacency operations entry s hops met rule: walk_exact_paths.induct)
  case (1 adjacency operations entry s hops met)
  have out: "h \<in> set (hops_from adjacency s) \<longleftrightarrow> h \<in> edges \<and> eh_caller h = s" for h
    using "1.prems" by (simp add: adjacency_ok_def)
  have split: "(\<exists>rest. P rest) \<longleftrightarrow> P [] \<or> (\<exists>h rest. P (h # rest))" for P :: "evidence_hop list \<Rightarrow> bool"
    by (metis list.exhaust)
  have "p \<in> set (walk_exact_paths adjacency operations entry s hops met) \<longleftrightarrow>
      p = \<lparr>ep_entry = entry, ep_target = s, ep_hops = hops\<rparr> \<and> table_at operations s \<noteq> [] \<or>
      (\<exists>h \<in> set (hops_from adjacency s). eh_callee h \<notin> met \<and>
         p \<in> set (walk_exact_paths adjacency operations entry (eh_callee h) (hops @ [h]) (insert (eh_callee h) met)))"
    by (subst walk_exact_paths.simps) auto
  also have "\<dots> \<longleftrightarrow> ep_entry p = entry \<and> (ep_hops p = hops \<and> walkable edges operations met s [] (ep_target p) \<or>
      (\<exists>h rest. ep_hops p = hops @ h # rest \<and> walkable edges operations met s (h # rest) (ep_target p)))"
    using "1.IH" [OF _ _ "1.prems"] out by (cases p) (auto simp: walkable_Cons walkable_def [of _ _ _ _ "[]"])
  also have "\<dots> \<longleftrightarrow> ep_entry p = entry \<and> (\<exists>rest. ep_hops p = hops @ rest \<and> walkable edges operations met s rest (ep_target p))"
    by (subst (2) split) simp
  finally show ?case .
qed

lemma grouped_hops:
  "adjacency_ok (set edges) (foldl (\<lambda>d hop. group_add (eh_caller hop) hop d) [] (sort_key hop_key edges))"
proof -
  have "hops_from (foldl (\<lambda>d hop. group_add (eh_caller hop) hop d) [] (sort_key hop_key edges)) s =
      filter (\<lambda>h. eh_caller h = s) (sort_key hop_key edges)" for s
    using group_by_name [of "[]" eh_caller "sort_key hop_key edges" s] by (simp add: hops_from_def)
  then show ?thesis by (auto simp: adjacency_ok_def)
qed

text \<open>
  C14. The evidence paths are exactly the chains that exist: from an entry, over exact hops only, through no
  symbol twice, to a symbol that holds an operation; every such chain is there.
\<close>

theorem exact_evidence_paths_exact:
  "set (exact_evidence_paths entries edges operations) =
     {\<lparr>ep_entry = entry, ep_target = t, ep_hops = hops\<rparr> |entry hops t.
        entry \<in> set entries \<and> set hops \<subseteq> set edges \<and> chain_from entry hops t \<and>
        distinct (entry # map eh_callee hops) \<and> table_at operations t \<noteq> []}"
proof -
  have iff: "p \<in> set (exact_evidence_paths entries edges operations) \<longleftrightarrow>
      ep_entry p \<in> set entries \<and> walkable (set edges) operations {ep_entry p} (ep_entry p) (ep_hops p) (ep_target p)" for p
    by (auto simp: exact_evidence_paths_def walk_exact_paths_iff [OF grouped_hops])
  show ?thesis
  proof (rule set_eqI)
    fix p
    show "p \<in> set (exact_evidence_paths entries edges operations) \<longleftrightarrow>
        p \<in> {\<lparr>ep_entry = entry, ep_target = t, ep_hops = hops\<rparr> |entry hops t.
          entry \<in> set entries \<and> set hops \<subseteq> set edges \<and> chain_from entry hops t \<and>
          distinct (entry # map eh_callee hops) \<and> table_at operations t \<noteq> []}"
      unfolding iff walkable_def by (cases p) auto
  qed
qed

lemma exact_target_eq: "exact_target ts = Some t \<longleftrightarrow> is_complete (ct_completeness ts) \<and> ct_targets ts = [t]"
  by (cases "ct_targets ts") (auto simp: exact_target_def)

lemma candidate_count:
  "length (List.map_filter candidate_of sites) + length (filter (\<lambda>(_, _, ts). exact_target ts \<noteq> None) sites) = length sites"
  by (induction sites) (auto simp: List.map_filter_def candidate_of_def split: if_splits)

text \<open>
  A call is either an exact edge or a diagnostic, never both: the hops are the calls that resolve
  completely to one symbol, and there is one candidate edge for each of the others.
\<close>

theorem exact_call_edges_partition:
  assumes "permutes_lists order"
  shows "set (exact_call_edges order functions index) =
      {\<lparr>eh_caller = caller, eh_callee = t, eh_line = cs_line call\<rparr> |caller call ts t.
        (caller, call, ts) \<in> set (resolved_sites functions index) \<and> is_complete (ct_completeness ts) \<and> ct_targets ts = [t]} \<and>
    length (candidate_call_edges functions index) +
      length (filter (\<lambda>(_, _, ts). is_complete (ct_completeness ts) \<and> length (ct_targets ts) = 1) (resolved_sites functions index)) =
      length (resolved_sites functions index)"
proof -
  have "exact_target ts \<noteq> None \<longleftrightarrow> is_complete (ct_completeness ts) \<and> length (ct_targets ts) = 1" for ts
    by (simp add: exact_target_def)
  then have "length (candidate_call_edges functions index) +
      length (filter (\<lambda>(_, _, ts). is_complete (ct_completeness ts) \<and> length (ct_targets ts) = 1) (resolved_sites functions index)) =
      length (resolved_sites functions index)"
    using candidate_count [of "resolved_sites functions index"] by (simp add: candidate_call_edges_def)
  moreover have "hop \<in> set (exact_call_edges order functions index) \<longleftrightarrow>
      (\<exists>site \<in> set (resolved_sites functions index). exact_hop site = Some hop)" for hop
    by (simp add: exact_call_edges_def permutes_lists_set [OF assms] in_map_filter)
  then have "set (exact_call_edges order functions index) =
      {\<lparr>eh_caller = caller, eh_callee = t, eh_line = cs_line call\<rparr> |caller call ts t.
        (caller, call, ts) \<in> set (resolved_sites functions index) \<and> is_complete (ct_completeness ts) \<and> ct_targets ts = [t]}"
    by (fastforce simp: exact_hop_def exact_target_eq)
  ultimately show ?thesis by blast
qed

lemma exact_call_edges_witness:
  "{\<lparr>eh_caller = caller, eh_callee = t, eh_line = cs_line call\<rparr> |caller call ts t.
     (caller, call, ts) \<in> set (resolved_sites shop_functions shop_index) \<and> is_complete (ct_completeness ts) \<and> ct_targets ts = [t]} =
   {\<lparr>eh_caller = shop_symbol ''show'', eh_callee = shop_symbol ''load'', eh_line = 2\<rparr>,
    \<lparr>eh_caller = shop_symbol ''load'', eh_callee = shop_symbol ''load'', eh_line = 11\<rparr>,
    \<lparr>eh_caller = shop_symbol ''load'', eh_callee = shop_symbol ''show'', eh_line = 12\<rparr>}"
proof -
  have "permutes_lists (rev :: evidence_hop list \<Rightarrow> evidence_hop list)" by (simp add: permutes_lists_def)
  from exact_call_edges_partition [OF this, of shop_functions shop_index, THEN conjunct1, symmetric]
  have "{\<lparr>eh_caller = caller, eh_callee = t, eh_line = cs_line call\<rparr> |caller call ts t.
     (caller, call, ts) \<in> set (resolved_sites shop_functions shop_index) \<and> is_complete (ct_completeness ts) \<and> ct_targets ts = [t]} =
     set (exact_call_edges rev shop_functions shop_index)" .
  also have "exact_call_edges rev shop_functions shop_index =
    [\<lparr>eh_caller = shop_symbol ''load'', eh_callee = shop_symbol ''load'', eh_line = 11\<rparr>,
     \<lparr>eh_caller = shop_symbol ''load'', eh_callee = shop_symbol ''show'', eh_line = 12\<rparr>,
     \<lparr>eh_caller = shop_symbol ''show'', eh_callee = shop_symbol ''load'', eh_line = 2\<rparr>]"
    by code_simp
  finally show ?thesis by auto
qed

lemma shop_paths:
  "map (\<lambda>p. (sy_name (ep_target p), map eh_line (ep_hops p)))
     (exact_evidence_paths [shop_symbol ''show'', shop_symbol ''audit''] (exact_call_edges rev shop_functions shop_index) shop_table) =
   [(''load'', [2])]"
  by code_simp

end
