(* ===== verification/Origins.thy ===== *)
theory Origins
  imports Shapes
begin

text \<open>
  The arguments of the examined call and where each value comes from (\<open>semantic/obligations/trace.py\<close>, the
  reading part). \<open>ast.literal_eval\<close> is an argument: whether a text is a literal, is refused with one of
  the two exceptions the code catches, or raises another one, which its documentation allows
  (\<open>TypeError\<close> for a literal that cannot be built, as a display with an unhashable key).
\<close>

section \<open>The arguments of a call\<close>

text \<open>What follows the leftmost match.\<close>

fun re_after :: "regex \<Rightarrow> string \<Rightarrow> string \<Rightarrow> string option" where
  "re_after r behind rest =
     (case rmatch r (behind, rest, None) of
        (_, rest', _) # _ \<Rightarrow> Some rest'
      | [] \<Rightarrow> (case rest of [] \<Rightarrow> None | c # cs \<Rightarrow> re_after r (c # behind) cs))"

declare re_after.simps [simp del]

definition call_regex :: "string \<Rightarrow> regex" where
  "call_regex name = RSeqs [RNotBehind name_char, RLit (trailing_name name), RStar py_space, RChar (\<lambda>c. c = CHR ''('')]"

definition quote_char :: "char \<Rightarrow> bool" where
  "quote_char c \<longleftrightarrow> code c = 34 \<or> code c = 39 \<or> code c = 96"

text \<open>The scan over the characters after the opening parenthesis: the argument read so far (last character
  first), the depth of nested brackets, the open quote, whether the last character was an escape, and the
  arguments completed. \<open>None\<close> when the text ends before the call does.\<close>

definition opens :: "char \<Rightarrow> bool" where "opens c \<longleftrightarrow> c \<in> set ''([{''"

definition closes :: "char \<Rightarrow> bool" where "closes c \<longleftrightarrow> c \<in> set '')]}''"

primrec scan_arguments :: "string \<Rightarrow> string \<Rightarrow> int \<Rightarrow> char option \<Rightarrow> bool \<Rightarrow> string list \<Rightarrow> string list option" where
  "scan_arguments [] current depth quote escaped found = None"
| "scan_arguments (c # cs) current depth quote escaped found =
     (case quote of
        Some q \<Rightarrow>
          if escaped then scan_arguments cs (c # current) depth quote False found
          else if code c = 92 then scan_arguments cs (c # current) depth quote True found
          else scan_arguments cs (c # current) depth (if c = q then None else quote) False found
      | None \<Rightarrow>
          if quote_char c then scan_arguments cs (c # current) depth (Some c) escaped found
          else if opens c then scan_arguments cs (c # current) (depth + 1) None escaped found
          else if c = CHR '')'' \<and> depth = 0
          then Some (let v = strip (rev current) in if v = [] then found else found @ [v])
          else if closes c then scan_arguments cs (c # current) (depth - 1) None escaped found
          else if c = CHR '','' \<and> depth = 0 then scan_arguments cs [] depth None escaped (found @ [strip (rev current)])
          else scan_arguments cs (c # current) depth None escaped found)"

definition called_arguments :: "string \<Rightarrow> string \<Rightarrow> string list option" where
  "called_arguments source name =
     (case re_after (call_regex name) [] source of None \<Rightarrow> None | Some rest \<Rightarrow> scan_arguments rest [] 0 None False [])"

definition line_feed :: string where "line_feed = [char_of (10 :: nat)]"

definition call_arguments :: "function_ir \<Rightarrow> int \<Rightarrow> string list \<Rightarrow> string \<Rightarrow> string list" where
  "call_arguments fn line names t =
     (let calls = filter (\<lambda>call. cs_line call = line \<and> list_ex (call_matches (cs_name call)) names) (fn_calls fn);
          given = (case calls of call # _ \<Rightarrow> cs_arg_texts call | [] \<Rightarrow> []);
          lines = split_lines t
      in if given \<noteq> [] then given
         else if \<not> (0 < line \<and> line \<le> int (length lines)) then []
         else (case List.map_filter (called_arguments (join_with line_feed (py_slice (line - 1) (fn_end fn) lines))) names of
             found # _ \<Rightarrow> found | [] \<Rightarrow> []))"

lemma argument_samples:
  "called_arguments ''x = Book.find(id, {a: \"),\"}, f(1, 2)) + g(3)'' ''Book.find'' = Some [''id'', ''{a: \"),\"}'', ''f(1, 2)'']"
  "called_arguments ''refind( a ); find( )'' ''find'' = Some []"
  "called_arguments ''find(1'' ''find'' = None"
  by code_simp+

section \<open>Where a value comes from\<close>

datatype literal = Literal | NotLiteral | Refused py_error

text \<open>\<open>(\$?[A-Za-z_]\w*)(?:(?:\.|->)[A-Za-z_]\w*|\[[^\[\]]+\])+\<close> over the whole value. What follows a name
  cannot continue it, so each part is read as far as it goes.\<close>

definition name_start :: "char \<Rightarrow> bool" where
  "name_start c \<longleftrightarrow> ascii_letter c \<or> c = CHR ''_''"

lemma dropWhile_Cons_length: "dropWhile P xs = y # ys \<Longrightarrow> length ys < Suc (length xs)"
  by (metis length_Cons length_dropWhile_le less_Suc_eq_le Suc_leD)

lemma takeWhile_shorter: "x \<in> set xs \<Longrightarrow> \<not> P x \<Longrightarrow> length (takeWhile P xs) < length xs"
  by (induction xs) auto

function accesses :: "string \<Rightarrow> bool" where
  "accesses s =
     (case s of
        [] \<Rightarrow> True
      | c # cs \<Rightarrow>
          if c = CHR ''.'' then (case cs of d # ds \<Rightarrow> name_start d \<and> accesses (dropWhile py_word ds) | [] \<Rightarrow> False)
          else if c = CHR ''-'' then
            (case cs of d # e # es \<Rightarrow> d = CHR ''>'' \<and> name_start e \<and> accesses (dropWhile py_word es) | _ \<Rightarrow> False)
          else if c = CHR ''['' then
            (case dropWhile (\<lambda>x. x \<noteq> CHR ''['' \<and> x \<noteq> CHR '']'') cs of
               d # ds \<Rightarrow> d = CHR '']'' \<and> length ds + 1 < length cs \<and> accesses ds
             | [] \<Rightarrow> False)
          else False)"
  by pat_completeness auto
termination
  by (relation "measure length") (auto simp: le_imp_less_Suc length_dropWhile_le le_SucI dest: dropWhile_Cons_length)

declare accesses.simps [simp del]

definition member_head :: "string \<Rightarrow> string option" where
  "member_head v =
     (let (dollar, body) = (case v of c # cs \<Rightarrow> if c = CHR ''$'' then ([c], cs) else ([], v) | [] \<Rightarrow> ([], []))
      in case body of
           [] \<Rightarrow> None
         | c # cs \<Rightarrow>
             (let rest = dropWhile py_word cs in
              if name_start c \<and> rest \<noteq> [] \<and> accesses rest then Some (dollar @ c # takeWhile py_word cs) else None))"

lemma member_head_shorter: "member_head v = Some h \<Longrightarrow> length h < length v"
  by (auto simp: member_head_def Let_def intro: takeWhile_shorter split: list.splits if_splits)

lemma member_samples:
  "member_head ''req.body'' = Some ''req''" "member_head ''$_GET[id]'' = Some ''$_GET''"
  "member_head ''$this->user->id'' = Some ''$this''" "member_head ''load(x).id'' = None" "member_head ''id'' = None"
  by code_simp+

definition source_matches :: "string \<Rightarrow> string \<Rightarrow> bool" where
  "source_matches v source \<longleftrightarrow> source \<noteq> [] \<and>
     re_search (RSeqs ([RNotBehind name_char, RLit source] @ (if py_word (last source) then [RNotAhead (RChar name_char)] else []))) v"

text \<open>The assignment to follow: the latest above the line, later ones of a line first.\<close>

definition latest_assignment :: "function_ir \<Rightarrow> string \<Rightarrow> int \<Rightarrow> bind option" where
  "latest_assignment fn v before_line =
     find (\<lambda>b. bd_line b < before_line \<and> bd_name b = v) (rev (sort_key (\<lambda>b. (bd_line b, bd_order b)) (rev (fn_binds fn))))"

definition binds_above :: "function_ir \<Rightarrow> int \<Rightarrow> nat" where
  "binds_above fn before_line = length (filter (\<lambda>b. bd_line b < before_line) (fn_binds fn))"

lemma latest_assignment_in:
  assumes "latest_assignment fn v before_line = Some b"
  shows "b \<in> set (fn_binds fn)" "bd_line b < before_line" "bd_name b = v"
  using find_SomeD [OF assms [unfolded latest_assignment_def]] by auto

lemma binds_above_less:
  assumes "latest_assignment fn v before_line = Some b"
  shows "binds_above fn (bd_line b) < binds_above fn before_line"
proof -
  note b = latest_assignment_in [OF assms]
  have "filter (\<lambda>x. bd_line x < bd_line b) (fn_binds fn) =
      filter (\<lambda>x. bd_line x < bd_line b) (filter (\<lambda>x. bd_line x < before_line) (fn_binds fn))"
    using b(2) by (simp add: conj_commute) (metis (mono_tags, lifting) less_trans)
  moreover have "b \<in> set (filter (\<lambda>x. bd_line x < before_line) (fn_binds fn))" using b by simp
  then have "length (filter (\<lambda>x. bd_line x < bd_line b) (filter (\<lambda>x. bd_line x < before_line) (fn_binds fn)))
      < length (filter (\<lambda>x. bd_line x < before_line) (fn_binds fn))"
    by (rule length_filter_less) simp
  ultimately show ?thesis by (simp add: binds_above_def)
qed

text \<open>The loop: follow assignments until there is none.\<close>

function follow_binds :: "function_ir \<Rightarrow> string \<Rightarrow> int \<Rightarrow> string \<times> int" where
  "follow_binds fn v before_line =
     (case latest_assignment fn v before_line of
        None \<Rightarrow> (v, before_line)
      | Some b \<Rightarrow> follow_binds fn (strip (bd_value_text b)) (bd_line b))"
  by pat_completeness auto
termination
  by (relation "measure (\<lambda>(fn, v, before_line). binds_above fn before_line)") (auto simp: binds_above_less)

declare follow_binds.simps [simp del]

text \<open>The rest of \<open>_origin\<close>: what the value at the end of the assignments is.\<close>

function origin_of ::
  "(string \<Rightarrow> literal) \<Rightarrow> discharger_fact list \<Rightarrow> function_ir \<Rightarrow> (string \<rightharpoonup> string) \<Rightarrow> string \<Rightarrow> int \<Rightarrow> string result" where
  "origin_of literal dischargers fn parameters v0 before0 =
     (let (v, before_line) = follow_binds fn (strip v0) before0 in
      if v \<in> {''true'', ''false'', ''null''} then Inr ''constant''
      else case literal v of
        Refused e \<Rightarrow> Inl e
      | Literal \<Rightarrow> Inr ''constant''
      | NotLiteral \<Rightarrow>
          if list_ex (\<lambda>df. list_ex (source_matches v) (df_identity_sources df)) dischargers then Inr ''authenticated_context''
          else if list_ex (\<lambda>df. list_ex (source_matches v) (df_request_sources df)) dischargers then Inr ''request_input''
          else (case parameters v of
              Some p \<Rightarrow> Inr p
            | None \<Rightarrow>
                (case member_head v of
                   Some h \<Rightarrow> origin_of literal dischargers fn parameters h before_line
                 | None \<Rightarrow> Inr ''unknown'')))"
  by pat_completeness auto

lemma follow_binds_measure:
  "follow_binds fn v before_line = (v', before') \<Longrightarrow>
     binds_above fn before' < binds_above fn before_line \<or> v' = v \<and> before' = before_line"
proof (induction fn v before_line rule: follow_binds.induct)
  case (1 fn v before_line)
  show ?case
  proof (cases "latest_assignment fn v before_line")
    case None
    then show ?thesis using "1.prems" by (simp add: follow_binds.simps)
  next
    case (Some b)
    from "1.prems" Some have "follow_binds fn (strip (bd_value_text b)) (bd_line b) = (v', before')"
      by (simp add: follow_binds.simps [of fn v])
    from "1.IH" [OF Some this] binds_above_less [OF Some] show ?thesis by auto
  qed
qed

lemma strip_length: "length (strip s) \<le> length s"
  unfolding strip_def lstrip_by_def rstrip_by_def
  by (metis length_dropWhile_le length_rev order_trans)

termination origin_of
proof (relation "(\<lambda>(literal, dischargers, fn, parameters, v, before_line). binds_above fn before_line) <*mlex*>
    measure (\<lambda>(literal, dischargers, fn, parameters, v, before_line). length v)", goal_cases)
  case 1
  then show ?case by (simp add: wf_mlex)
next
  case (2 literal dischargers fn parameters v0 before0 x v before_line h)
  have follow: "follow_binds fn (strip v0) before0 = (v, before_line)" using 2(1,2) by simp
  have "length h < length v" using member_head_shorter 2 by blast
  then show ?case
    using follow_binds_measure [OF follow] strip_length [of v0]
    by (auto intro: mlex_less mlex_leq)
qed

declare origin_of.simps [simp del]

section \<open>What an origin means\<close>

text \<open>How a value is traced: to the text of its latest assignment above, or to the head of a member access.\<close>

inductive traced :: "function_ir \<Rightarrow> string \<times> int \<Rightarrow> string \<times> int \<Rightarrow> bool" for fn where
  here: "traced fn (v, n) (strip v, n)"
| assigned: "traced fn (v, n) (w, m) \<Longrightarrow> latest_assignment fn w m = Some b \<Longrightarrow>
    traced fn (v, n) (strip (bd_value_text b), bd_line b)"
| member: "traced fn (v, n) (w, m) \<Longrightarrow> member_head w = Some h \<Longrightarrow> traced fn (v, n) (strip h, m)"

lemma traced_follow:
  "follow_binds fn w m = (w', m') \<Longrightarrow> traced fn vn (w, m) \<Longrightarrow> traced fn vn (w', m')"
proof (induction fn w m arbitrary: w' m' rule: follow_binds.induct)
  case (1 fn w m)
  show ?case
  proof (cases "latest_assignment fn w m")
    case None
    then show ?thesis using "1.prems" by (simp add: follow_binds.simps)
  next
    case (Some b)
    from "1.prems"(1) Some have "follow_binds fn (strip (bd_value_text b)) (bd_line b) = (w', m')"
      by (simp add: follow_binds.simps [of fn w])
    moreover have "traced fn vn (strip (bd_value_text b), bd_line b)"
      using "1.prems"(2) Some by (cases vn) (auto intro: traced.assigned)
    ultimately show ?thesis using "1.IH" [OF Some] by blast
  qed
qed

lemma origin_branches:
  assumes "W \<Longrightarrow> T" "\<not> W \<Longrightarrow> l = Literal \<Longrightarrow> T" "\<And>e. \<not> W \<Longrightarrow> l = Refused e \<Longrightarrow> T"
    and "\<not> W \<Longrightarrow> l = NotLiteral \<Longrightarrow> I \<Longrightarrow> T" "\<not> W \<Longrightarrow> l = NotLiteral \<Longrightarrow> \<not> I \<Longrightarrow> R \<Longrightarrow> T"
    and "\<And>p. \<not> W \<Longrightarrow> l = NotLiteral \<Longrightarrow> \<not> I \<Longrightarrow> \<not> R \<Longrightarrow> ps = Some p \<Longrightarrow> T"
    and "\<not> W \<Longrightarrow> l = NotLiteral \<Longrightarrow> \<not> I \<Longrightarrow> \<not> R \<Longrightarrow> ps = None \<Longrightarrow> m = None \<Longrightarrow> T"
    and "\<And>h. \<not> W \<Longrightarrow> l = NotLiteral \<Longrightarrow> \<not> I \<Longrightarrow> \<not> R \<Longrightarrow> ps = None \<Longrightarrow> m = Some h \<Longrightarrow> T"
  shows T
proof (rule ccontr)
  assume "\<not> T"
  with assms have "\<not> W" "l = NotLiteral" "\<not> I" "\<not> R" by (metis literal.exhaust)+
  with assms(6,7,8) \<open>\<not> T\<close> show False by (cases ps; cases m) auto
qed

text \<open>What a text at the end of the trace says about its origin.\<close>

definition origin_evidence ::
  "(string \<Rightarrow> literal) \<Rightarrow> discharger_fact list \<Rightarrow> (string \<rightharpoonup> string) \<Rightarrow> string \<Rightarrow> string \<Rightarrow> bool" where
  "origin_evidence literal dischargers parameters u found \<longleftrightarrow>
     (let names = (\<lambda>sources. list_ex (\<lambda>df. list_ex (source_matches u) (sources df)) dischargers) in
      found = ''constant'' \<and> (u \<in> {''true'', ''false'', ''null''} \<or> literal u = Literal) \<or>
      found = ''authenticated_context'' \<and> names df_identity_sources \<or>
      found = ''request_input'' \<and> names df_request_sources \<or>
      parameters u = Some found)"

lemma origin_evidenceI:
  "u \<in> {''true'', ''false'', ''null''} \<Longrightarrow> origin_evidence literal dischargers parameters u ''constant''"
  "literal u = Literal \<Longrightarrow> origin_evidence literal dischargers parameters u ''constant''"
  "list_ex (\<lambda>df. list_ex (source_matches u) (df_identity_sources df)) dischargers \<Longrightarrow>
     origin_evidence literal dischargers parameters u ''authenticated_context''"
  "list_ex (\<lambda>df. list_ex (source_matches u) (df_request_sources df)) dischargers \<Longrightarrow>
     origin_evidence literal dischargers parameters u ''request_input''"
  "parameters u = Some found \<Longrightarrow> origin_evidence literal dischargers parameters u found"
  unfolding origin_evidence_def Let_def by blast+

lemma origin_of_traced:
  "origin_of literal dischargers fn parameters w m = Inr found \<Longrightarrow> traced fn vn (strip w, m) \<Longrightarrow>
   found = ''unknown'' \<or>
   (\<exists>u k. traced fn vn (u, k) \<and> origin_evidence literal dischargers parameters u found)"
proof (induction literal dischargers fn parameters w m rule: origin_of.induct)
  case (1 literal dischargers fn parameters v0 before0)
  obtain v before_line where follow: "follow_binds fn (strip v0) before0 = (v, before_line)" by fastforce
  have here: "traced fn vn (v, before_line)" by (rule traced_follow [OF follow "1.prems"(2)])
  let ?words = "v \<in> {''true'', ''false'', ''null''}"
  let ?id = "list_ex (\<lambda>df. list_ex (source_matches v) (df_identity_sources df)) dischargers"
  let ?req = "list_ex (\<lambda>df. list_ex (source_matches v) (df_request_sources df)) dischargers"
  have body: "Inr found = (if ?words then Inr ''constant'' else case literal v of Refused e \<Rightarrow> Inl e | Literal \<Rightarrow> Inr ''constant''
      | NotLiteral \<Rightarrow> if ?id then Inr ''authenticated_context'' else if ?req then Inr ''request_input''
        else (case parameters v of Some p \<Rightarrow> Inr p | None \<Rightarrow>
          (case member_head v of Some h \<Rightarrow> origin_of literal dischargers fn parameters h before_line | None \<Rightarrow> Inr ''unknown'')))"
    using "1.prems"(1) unfolding origin_of.simps [of _ _ _ _ v0] follow Let_def prod.case by (rule sym)
  consider "?words" | "\<not> ?words" "literal v = Literal" | e where "\<not> ?words" "literal v = Refused e"
    | "\<not> ?words" "literal v = NotLiteral" "?id" | "\<not> ?words" "literal v = NotLiteral" "\<not> ?id" "?req"
    | p where "\<not> ?words" "literal v = NotLiteral" "\<not> ?id" "\<not> ?req" "parameters v = Some p"
    | "\<not> ?words" "literal v = NotLiteral" "\<not> ?id" "\<not> ?req" "parameters v = None" "member_head v = None"
    | h where "\<not> ?words" "literal v = NotLiteral" "\<not> ?id" "\<not> ?req" "parameters v = None" "member_head v = Some h"
    by (rule origin_branches)
  then show ?case
  proof cases
    case 1
    then have "found = ''constant''" using body by simp
    then show ?thesis using here origin_evidenceI(1) [OF 1] by blast
  next
    case 2
    then have "found = ''constant''" using body by simp
    then show ?thesis using here origin_evidenceI(2) [of literal, OF 2(2)] by blast
  next
    case 3
    then show ?thesis using body by simp
  next
    case 4
    then have "found = ''authenticated_context''" using body by simp
    then show ?thesis using here origin_evidenceI(3) [OF 4(3)] by blast
  next
    case 5
    then have "found = ''request_input''" using body by simp
    then show ?thesis using here origin_evidenceI(4) [OF 5(4)] by blast
  next
    case 6
    then have "found = p" using body by simp
    then show ?thesis using here origin_evidenceI(5) [of parameters, OF 6(5)] by blast
  next
    case 7
    then show ?thesis using body by simp
  next
    case 8
    then have "origin_of literal dischargers fn parameters h before_line = Inr found" using body by simp
    moreover have "traced fn vn (strip h, before_line)"
      using here 8(6) by (cases vn) (auto intro: traced.member)
    ultimately show ?thesis by (rule "1.IH" [OF follow [symmetric] refl 8])
  qed
qed


section \<open>A traced argument\<close>

definition owner_discharger :: discharger_fact where
  "owner_discharger = \<lparr>df_id = ''owner'', df_kind = ''identity_constraint'', df_language = ''python'', df_calls = [], df_decorators = [],
     df_identity_sources = [''current_user''], df_constraint_params = [''owner''], df_request_sources = [''request.args''],
     df_permissive_values = []\<rparr>"

definition owner_bind :: "string \<Rightarrow> int \<Rightarrow> string \<Rightarrow> bind" where
  "owner_bind name line t = \<lparr>bd_name = name, bd_line = line, bd_value_text = t, bd_constant = False, bd_names = [], bd_call = None, bd_order = 0\<rparr>"

definition owner_function :: function_ir where
  "owner_function = \<lparr>fn_name = ''show'', fn_params = [''book''], fn_start = 1, fn_end = 9,
     fn_binds = [owner_bind ''user'' 2 ''current_user'', owner_bind ''owner'' 3 ''user.id'', owner_bind ''owner'' 6 ''request.args''], fn_calls = []\<rparr>"

lemma owner_origins:
  "origin_of (\<lambda>_. NotLiteral) [owner_discharger] owner_function [''book'' \<mapsto> ''request_input''] ''owner'' 5 = Inr ''authenticated_context''"
  "origin_of (\<lambda>_. NotLiteral) [owner_discharger] owner_function [''book'' \<mapsto> ''request_input''] ''owner.name'' 8 = Inr ''request_input''"
  "origin_of (\<lambda>_. NotLiteral) [owner_discharger] owner_function [''book'' \<mapsto> ''request_input''] '' book.id'' 5 = Inr ''request_input''"
  "origin_of (\<lambda>_. NotLiteral) [owner_discharger] owner_function [''book'' \<mapsto> ''request_input''] ''load(book)'' 5 = Inr ''unknown''"
  by code_simp+


text \<open>
  An argument such as \<open>{["a"]: 1}\<close>, a computed key in JavaScript, is refused by \<open>literal_eval\<close> with \<open>TypeError\<close>
  (the display has an unhashable key), which the code does not catch.
\<close>

lemma unhashable_display_raises:
  "origin_of (\<lambda>_. Refused (TypeError ''unhashable type'')) dischargers owner_function parameters ''{[1]: 2}'' 5 =
     Inl (TypeError ''unhashable type'')"
proof -
  have "follow_binds owner_function (strip ''{[1]: 2}'') 5 = (''{[1]: 2}'', 5)" by code_simp
  then show ?thesis by (subst origin_of.simps) simp
qed

end
