(* ===== verification/Trace.thy ===== *)
theory Trace
  imports Origins Prover Recognise Resolution
begin

text \<open>
  The trace of an examined path (\<open>semantic/obligations/trace.py\<close>): hop by hop the guards before and after the
  call, the arguments with their origins, and the canonical encoding of the abstract state with its
  inverse. The dominance a trace is built with is a record of its three answers; each answer may record a
  degradation, which is threaded through as in the code.
\<close>

section \<open>The dominance a trace asks\<close>

record judge =
  jd_describe :: "discharge \<Rightarrow> operation \<Rightarrow> unavailable \<Rightarrow> (string \<times> string) \<times> unavailable"
  jd_dominates :: "discharge \<Rightarrow> operation \<Rightarrow> unavailable \<Rightarrow> bool \<times> unavailable"
  jd_context :: "operation \<Rightarrow> unavailable \<Rightarrow> control_context \<times> unavailable"

text \<open>By the order of lines, by graphs, and by graphs with handlers measured at their end (\<open>hunt/prover.py\<close>).\<close>

definition order_judge :: "texts \<Rightarrow> texts \<Rightarrow> judge" where
  "order_judge own texts =
     \<lparr>jd_describe = (\<lambda>w op st. describe (ByOrder own) w op texts st),
      jd_dominates = (\<lambda>w op st. (order_dominates own w op None, st)),
      jd_context = (\<lambda>op st. operation_context (ByOrder own) op st)\<rparr>"

definition graph_judge :: "graphs \<Rightarrow> texts \<Rightarrow> judge" where
  "graph_judge ctx texts =
     \<lparr>jd_describe = (\<lambda>w op st. describe (ByGraphs ctx) w op texts st),
      jd_dominates = (\<lambda>w op st. cfg_dominates ctx w op None st),
      jd_context = (\<lambda>op st. operation_context (ByGraphs ctx) op st)\<rparr>"

definition handler_judge :: "graphs \<Rightarrow> (operation \<Rightarrow> int option) \<Rightarrow> judge" where
  "handler_judge ctx ends =
     \<lparr>jd_describe = (\<lambda>w op st. let (r, st1) = handler_relation ctx ends w op st; (e, st2) = handler_effect ctx ends w op st1 in ((r, e), st2)),
      jd_dominates = (\<lambda>w op st. handler_dominates ctx ends w op None st),
      jd_context = (\<lambda>op st. handler_context ctx ends op st)\<rparr>"

section \<open>Traces\<close>

record trace_guard =
  tg_kind :: string
  tg_scope :: string
  tg_line :: "int option"
  tg_provenance :: string
  tg_fact_id :: string
  tg_relation :: string
  tg_effect :: string

record trace_hop =
  th_function :: string
  th_call_line :: "int option"
  th_guards :: "trace_guard list"
  th_forwarded :: "string list"

record trace =
  tr_entry_kind :: string
  tr_boundary :: string
  tr_access :: string
  tr_parameters :: "string list"
  tr_hops :: "trace_hop list"
  tr_operation_kind :: string
  tr_fact_id :: string
  tr_operation_line :: int
  tr_arguments :: "(string \<times> string) list"
  tr_guards_after :: "trace_guard list"
  tr_requires :: "string list"
  tr_dominating :: "string list"
  tr_missing :: "string option"
  tr_context :: control_context
  tr_state :: "abstract_trace_state option"

record trace_request =
  rq_path :: path_record
  rq_entry :: entry_point
  rq_operation :: operation
  rq_irs :: "string \<rightharpoonup> file_ir \<times> string"
  rq_facts :: obligation_facts
  rq_witnesses :: "discharge list"
  rq_judge :: judge
  rq_literal :: "string \<Rightarrow> literal"
  rq_dominating :: "string list"
  rq_missing :: "string option"
  rq_access :: "string option"
  rq_state :: "abstract_trace_state option"

text \<open>\<open>x or y\<close> for an optional line: zero counts as absent.\<close>

definition line_or :: "int option \<Rightarrow> int \<Rightarrow> int" where
  "line_or x y = (case x of None \<Rightarrow> y | Some l \<Rightarrow> if l = 0 then y else l)"

definition guard_of :: "discharge \<Rightarrow> string \<times> string \<Rightarrow> trace_guard" where
  "guard_of w d = \<lparr>tg_kind = w_kind w, tg_scope = w_scope w, tg_line = w_line w, tg_provenance = w_provenance w,
     tg_fact_id = w_fact_id w, tg_relation = fst d, tg_effect = snd d\<rparr>"

definition above_call :: "discharge \<Rightarrow> int option \<Rightarrow> bool" where
  "above_call w line \<longleftrightarrow> (case (w_line w, line) of (Some a, Some b) \<Rightarrow> a < b | _ \<Rightarrow> False)"

definition below_call :: "discharge \<Rightarrow> int option \<Rightarrow> bool" where
  "below_call w line \<longleftrightarrow> (case (w_line w, line) of (Some a, Some b) \<Rightarrow> b < a | _ \<Rightarrow> False)"

text \<open>The witnesses of a hop's function, one after the other; an invalid one is not asked for dominance.\<close>

definition place_guard :: "judge \<Rightarrow> operation \<Rightarrow> int option \<Rightarrow> discharge \<Rightarrow>
    (trace_guard list \<times> trace_guard list) \<times> unavailable \<Rightarrow> (trace_guard list \<times> trace_guard list) \<times> unavailable" where
  "place_guard jd measured_op line w acc =
     (let ((before_call, after_call), st) = acc;
          (d, st1) = jd_describe jd w measured_op st;
          (dominated, st2) = (if valid_witness w then jd_dominates jd w measured_op st1 else (False, st1))
      in (if dominated \<or> valid_witness w \<and> above_call w line then (before_call @ [guard_of w d], after_call)
          else if below_call w line then (before_call, after_call @ [guard_of w d])
          else (before_call, after_call), st2))"

definition local_witnesses :: "discharge list \<Rightarrow> string \<Rightarrow> string \<Rightarrow> discharge list" where
  "local_witnesses ws path name =
     sort_key (\<lambda>w. (line_or (w_line w) 0, w_kind w, w_scope w, w_provenance w, w_fact_id w))
       (filter (\<lambda>w. w_path w = path \<and> w_function w = name) ws)"

definition place_guards :: "judge \<Rightarrow> operation \<Rightarrow> int option \<Rightarrow> discharge list \<Rightarrow> unavailable \<Rightarrow>
    (trace_guard list \<times> trace_guard list) \<times> unavailable" where
  "place_guards jd measured_op line ws st = foldl (\<lambda>acc w. place_guard jd measured_op line w acc) (([], []), st) ws"

definition receiver_params :: "string list" where
  "receiver_params = [''self'', ''cls'', ''this'']"

definition own_params :: "function_ir \<Rightarrow> string list" where
  "own_params fn = filter (\<lambda>p. p \<notin> set receiver_params) (fn_params fn)"

definition request_boundary :: "string \<Rightarrow> bool" where
  "request_boundary b \<longleftrightarrow> b = ''http_request'' \<or> b = ''network_request''"

definition hop_origins :: "bool \<Rightarrow> string \<Rightarrow> function_ir \<Rightarrow> string list \<Rightarrow> string \<rightharpoonup> string" where
  "hop_origins first boundary fn incoming =
     (if first then map_of (rev (map (\<lambda>p. (p, if request_boundary boundary then ''request_input'' else ''unknown'')) (fn_params fn)))
      else map_of (rev (zip (own_params fn) incoming)))"

record hop_state =
  hs_incoming :: "string list"
  hs_parameters :: "string list"
  hs_arguments :: "(string \<times> string) list"
  hs_hops :: "trace_hop list"
  hs_after :: "trace_guard list list"
  hs_record :: unavailable

definition stop_iteration :: "'a option \<Rightarrow> 'a result" where
  "stop_iteration x = (case x of None \<Rightarrow> Inl StopIteration | Some v \<Rightarrow> Inr v)"

text \<open>One hop in its function; \<open>next_node\<close> is the node after it, absent for the hop of the operation.\<close>

definition hop_names :: "trace_request \<Rightarrow> obligation_facts \<Rightarrow> string option \<Rightarrow> (bool \<times> string list) result" where
  "hop_names rq facts next_node =
     (case next_node of
        Some n \<Rightarrow> Inr (False, [snd (rpartition ''::'' n)])
      | None \<Rightarrow> bind_result (stop_iteration (find (\<lambda>f. f_id f = o_fact_id (rq_operation rq)) (of_operations facts)))
          (\<lambda>f. Inr (f_handlers f \<noteq> [] \<and> f_calls f = [], f_calls f)))"

definition hop_values :: "function_ir \<Rightarrow> int option \<Rightarrow> string list \<Rightarrow> string \<Rightarrow> string list" where
  "hop_values fn line names t =
     (case line of Some l \<Rightarrow> if names \<noteq> [] then call_arguments fn l names t else [] | None \<Rightarrow> [])"

definition trace_function :: "trace_request \<Rightarrow> bool \<Rightarrow> int option \<Rightarrow> string option \<Rightarrow> hop_state \<Rightarrow> string \<Rightarrow> string \<Rightarrow>
    file_ir \<Rightarrow> string \<Rightarrow> function_ir \<Rightarrow> hop_state result" where
  "trace_function rq first call_line next_node s path name ir t fn =
     (let op = rq_operation rq; final = (next_node = None);
          facts = facts_for_language (rq_facts rq) (fi_language ir);
          origins = hop_origins first (ep_boundary (rq_entry rq)) fn (hs_incoming s);
          line = (if final then Some (o_line op) else call_line);
          measured_op = (if final then op else op\<lparr>o_path := path, o_function := name, o_line := line_or line (fn_end fn)\<rparr>);
          (guards, st) = place_guards (rq_judge rq) measured_op line (local_witnesses (rq_witnesses rq) path name) (hs_record s)
      in
      bind_result (hop_names rq facts next_node) (\<lambda>(handler, names).
      let values = hop_values fn line names t in
      bind_result (map_result (\<lambda>v. origin_of (rq_literal rq) (of_dischargers facts) fn origins v (line_or line (fn_end fn + 1))) values)
        (\<lambda>incoming.
      Inr \<lparr>hs_incoming = incoming,
        hs_parameters = (if first then fn_params fn else hs_parameters s),
        hs_arguments = (if handler then map (\<lambda>p. (p, or_default ''unknown'' (origins p))) (own_params fn)
          else if final then zip values incoming else hs_arguments s),
        hs_hops = hs_hops s @ [\<lparr>th_function = name, th_call_line = call_line, th_guards = fst guards,
          th_forwarded = (if final then [] else map fst (filter (\<lambda>(v, origin). origin = ''request_input'') (zip values incoming)))\<rparr>],
        hs_after = hs_after s @ [snd guards], hs_record = st\<rparr>)))"

definition trace_hop_step :: "trace_request \<Rightarrow> bool \<Rightarrow> hop \<Rightarrow> string option \<Rightarrow> hop_state \<Rightarrow> hop_state result" where
  "trace_hop_step rq first hop next_node s =
     (let (path, name) = rpartition ''::'' (fst hop) in
      bind_result (case rq_irs rq path of None \<Rightarrow> Inl (KeyError path) | Some x \<Rightarrow> Inr x) (\<lambda>(ir, t).
      bind_result (stop_iteration (find (\<lambda>f. fn_name f = name) (fi_functions ir))) (\<lambda>fn.
      trace_function rq first (snd hop) next_node s path name ir t fn)))"

fun trace_hops :: "trace_request \<Rightarrow> bool \<Rightarrow> hop list \<Rightarrow> hop_state \<Rightarrow> hop_state result" where
  "trace_hops rq first [] s = Inr s"
| "trace_hops rq first (hop # hops) s =
     bind_result (trace_hop_step rq first hop (case hops of [] \<Rightarrow> None | h # _ \<Rightarrow> Some (fst h)) s) (trace_hops rq False hops)"

definition build_trace :: "trace_request \<Rightarrow> unavailable \<Rightarrow> (trace \<times> unavailable) result" where
  "build_trace rq st =
     bind_result (trace_hops rq True (p_hops (rq_path rq))
       \<lparr>hs_incoming = [], hs_parameters = [], hs_arguments = [], hs_hops = [], hs_after = [], hs_record = st\<rparr>) (\<lambda>s.
     let op = rq_operation rq; entry = rq_entry rq; (context, st') = jd_context (rq_judge rq) op (hs_record s) in
     Inr (\<lparr>tr_entry_kind = ep_kind entry, tr_boundary = ep_boundary entry,
        tr_access = or_default (ep_access entry) (rq_access rq), tr_parameters = hs_parameters s, tr_hops = hs_hops s,
        tr_operation_kind = o_kind op, tr_fact_id = o_fact_id op, tr_operation_line = o_line op, tr_arguments = hs_arguments s,
        tr_guards_after = concat (rev (hs_after s)), tr_requires = o_requires op, tr_dominating = sort (rq_dominating rq),
        tr_missing = rq_missing rq, tr_context = context, tr_state = rq_state rq\<rparr>, st'))"

section \<open>No guard is invented, none above the call is dropped\<close>

definition shows_witness :: "trace_guard \<Rightarrow> discharge \<Rightarrow> bool" where
  "shows_witness g w \<longleftrightarrow> g = guard_of w (tg_relation g, tg_effect g)"

lemma shows_guard_of [simp]: "shows_witness (guard_of w d) w"
  by (simp add: shows_witness_def guard_of_def)

text \<open>The nodes of a path with the line the hop is judged at: its call, the operation for the last.\<close>

fun hop_lines :: "operation \<Rightarrow> hop list \<Rightarrow> (string \<times> int option) list" where
  "hop_lines op [] = []"
| "hop_lines op [h] = [(fst h, Some (o_line op))]"
| "hop_lines op (h # h' # hs) = h # hop_lines op (h' # hs)"

definition in_node :: "string \<Rightarrow> discharge \<Rightarrow> bool" where
  "in_node node w \<longleftrightarrow> (w_path w, w_function w) = rpartition ''::'' node"

definition guards_ok :: "discharge list \<Rightarrow> int option \<Rightarrow> trace_guard list \<Rightarrow> bool" where
  "guards_ok ws line gs \<longleftrightarrow>
     (\<forall>g \<in> set gs. \<exists>w \<in> set ws. valid_witness w \<and> shows_witness g w) \<and>
     (\<forall>w \<in> set ws. valid_witness w \<and> above_call w line \<longrightarrow> (\<exists>g \<in> set gs. shows_witness g w))"

definition after_ok :: "discharge list \<Rightarrow> int option \<Rightarrow> trace_guard list \<Rightarrow> bool" where
  "after_ok ws line gs \<longleftrightarrow> (\<forall>g \<in> set gs. \<exists>w \<in> set ws. below_call w line \<and> shows_witness g w)"

lemma place_guard_props:
  assumes "place_guard jd op line w ((bs, as), st) = ((bs', as'), st')"
  shows "\<exists>more_bs more_as. bs' = bs @ more_bs \<and> as' = as @ more_as \<and> guards_ok [w] line more_bs \<and> after_ok [w] line more_as"
  using assms
  by (auto simp: place_guard_def Let_def guards_ok_def after_ok_def split: prod.splits if_splits)

lemma place_guards_props:
  "foldl (\<lambda>acc w. place_guard jd op line w acc) ((bs, as), st) ws = ((bs', as'), st') \<Longrightarrow>
   \<exists>more_bs more_as. bs' = bs @ more_bs \<and> as' = as @ more_as \<and> guards_ok ws line more_bs \<and> after_ok ws line more_as"
proof (induction ws arbitrary: bs as st)
  case Nil
  then show ?case by (simp add: guards_ok_def after_ok_def)
next
  case (Cons w ws)
  obtain bs1 as1 st1 where one: "place_guard jd op line w ((bs, as), st) = ((bs1, as1), st1)" by (metis surj_pair)
  obtain b1 a1 where first: "bs1 = bs @ b1" "as1 = as @ a1" "guards_ok [w] line b1" "after_ok [w] line a1"
    using place_guard_props [OF one] by blast
  from Cons.IH [of bs1 as1 st1] Cons.prems one obtain b2 a2 where
    rest: "bs' = bs1 @ b2" "as' = as1 @ a2" "guards_ok ws line b2" "after_ok ws line a2" by auto
  have "guards_ok (w # ws) line (b1 @ b2)" "after_ok (w # ws) line (a1 @ a2)"
    using first(3,4) rest(3,4) by (auto simp: guards_ok_def after_ok_def)
  then show ?case using first(1,2) rest(1,2) by auto
qed

lemma place_guards_ok:
  assumes "place_guards jd op line ws st = ((bs, as), st')"
  shows "guards_ok ws line bs" "after_ok ws line as"
  using place_guards_props [OF assms [unfolded place_guards_def]] by auto

definition hop_ok :: "discharge list \<Rightarrow> string \<times> int option \<Rightarrow> trace_hop \<Rightarrow> bool" where
  "hop_ok ws nl th \<longleftrightarrow> th_function th = snd (rpartition ''::'' (fst nl)) \<and>
     guards_ok (filter (in_node (fst nl)) ws) (snd nl) (th_guards th)"

lemma local_witnesses_set: "rpartition ''::'' node = (path, name) \<Longrightarrow>
    set (local_witnesses ws path name) = set (filter (in_node node) ws)"
  by (auto simp: local_witnesses_def in_node_def)

lemma guards_ok_cong: "set ws = set ws' \<Longrightarrow> guards_ok ws line gs = guards_ok ws' line gs"
  "set ws = set ws' \<Longrightarrow> after_ok ws line gs = after_ok ws' line gs"
  by (simp_all add: guards_ok_def after_ok_def)

lemma trace_function_ok:
  assumes "trace_function rq first call_line next_node s path name ir t fn = Inr s'" "rpartition ''::'' node = (path, name)"
  defines "line \<equiv> (if next_node = None then Some (o_line (rq_operation rq)) else call_line)"
  shows "\<exists>th as. hs_hops s' = hs_hops s @ [th] \<and> hs_after s' = hs_after s @ [as] \<and> hop_ok (rq_witnesses rq) (node, line) th \<and>
    after_ok (filter (in_node node) (rq_witnesses rq)) line as"
proof -
  let ?op = "if next_node = None then rq_operation rq
    else (rq_operation rq)\<lparr>o_path := path, o_function := name, o_line := line_or line (fn_end fn)\<rparr>"
  obtain bs as st where bs: "place_guards (rq_judge rq) ?op line (local_witnesses (rq_witnesses rq) path name) (hs_record s) = ((bs, as), st)"
    by (metis surj_pair)
  have "\<exists>forwarded. hs_hops s' = hs_hops s @ [\<lparr>th_function = name, th_call_line = call_line, th_guards = bs, th_forwarded = forwarded\<rparr>] \<and>
      hs_after s' = hs_after s @ [as]"
    using assms(1) unfolding trace_function_def Let_def line_def [symmetric] bs prod.case bind_result_eq_Inr
    by (auto split: prod.splits simp: bind_result_eq_Inr)
  moreover have "guards_ok (filter (in_node node) (rq_witnesses rq)) line bs" "after_ok (filter (in_node node) (rq_witnesses rq)) line as"
    using place_guards_ok [OF bs] guards_ok_cong [OF local_witnesses_set [OF assms(2)]] by auto
  ultimately show ?thesis using assms(2) by (auto simp: hop_ok_def)
qed

lemma trace_hop_step_ok:
  assumes "trace_hop_step rq first (node, call_line) next_node s = Inr s'"
  defines "line \<equiv> (if next_node = None then Some (o_line (rq_operation rq)) else call_line)"
  shows "\<exists>th as. hs_hops s' = hs_hops s @ [th] \<and> hs_after s' = hs_after s @ [as] \<and> hop_ok (rq_witnesses rq) (node, line) th \<and>
    after_ok (filter (in_node node) (rq_witnesses rq)) line as"
proof -
  obtain path name where node: "rpartition ''::'' node = (path, name)" by fastforce
  then obtain ir t fn where "trace_function rq first call_line next_node s path name ir t fn = Inr s'"
    using assms(1) by (auto simp: trace_hop_step_def bind_result_eq_Inr)
  from trace_function_ok [OF this node] show ?thesis unfolding line_def .
qed

lemma trace_hops_ok:
  "trace_hops rq first hops s = Inr s' \<Longrightarrow>
   \<exists>ths ass. hs_hops s' = hs_hops s @ ths \<and> hs_after s' = hs_after s @ ass \<and>
     list_all2 (hop_ok (rq_witnesses rq)) (hop_lines (rq_operation rq) hops) ths \<and>
     list_all2 (\<lambda>(node, line) as. after_ok (filter (in_node node) (rq_witnesses rq)) line as) (hop_lines (rq_operation rq) hops) ass"
proof (induction rq first hops s rule: trace_hops.induct)
  case (1 rq first s)
  then show ?case by simp
next
  case (2 rq first hop hops s)
  obtain node call_line where hop: "hop = (node, call_line)" by fastforce
  let ?next = "case hops of [] \<Rightarrow> None | h # _ \<Rightarrow> Some (fst h)"
  obtain s1 where one: "trace_hop_step rq first (node, call_line) ?next s = Inr s1" and rest: "trace_hops rq False hops s1 = Inr s'"
    using "2.prems" hop by (auto simp: bind_result_eq_Inr)
  let ?line = "if ?next = None then Some (o_line (rq_operation rq)) else call_line"
  obtain th as where first: "hs_hops s1 = hs_hops s @ [th]" "hs_after s1 = hs_after s @ [as]"
    "hop_ok (rq_witnesses rq) (node, ?line) th" "after_ok (filter (in_node node) (rq_witnesses rq)) ?line as"
    using trace_hop_step_ok [OF one] by blast
  from "2.IH" [OF one [folded hop] rest] obtain ths ass where later: "hs_hops s' = hs_hops s1 @ ths" "hs_after s' = hs_after s1 @ ass"
    "list_all2 (hop_ok (rq_witnesses rq)) (hop_lines (rq_operation rq) hops) ths"
    "list_all2 (\<lambda>(node, line) as. after_ok (filter (in_node node) (rq_witnesses rq)) line as) (hop_lines (rq_operation rq) hops) ass"
    by blast
  have "hop_lines (rq_operation rq) (hop # hops) = (node, ?line) # hop_lines (rq_operation rq) hops"
    by (cases hops) (simp_all add: hop)
  then show ?case using first later by (intro exI [of _ "th # ths"] exI [of _ "as # ass"]) simp
qed


section \<open>A traced path\<close>

definition save_function :: function_ir where
  "save_function = \<lparr>fn_name = ''save'', fn_params = [''self'', ''who''], fn_start = 1, fn_end = 6, fn_binds = [],
     fn_calls = [\<lparr>cs_name = ''db.delete'', cs_line = 4, cs_arg_texts = [''who''], cs_arg_constant = [False], cs_arg_names = [[''who'']],
       cs_extra_sequence = False, cs_order = 0, cs_receiver = Some ''db'', cs_arity = Some 1\<rparr>]\<rparr>"

definition show_function :: function_ir where
  "show_function = owner_function\<lparr>fn_calls := [\<lparr>cs_name = ''save'', cs_line = 5, cs_arg_texts = [''book.id''], cs_arg_constant = [False],
     cs_arg_names = [[''book'']], cs_extra_sequence = False, cs_order = 0, cs_receiver = None, cs_arity = Some 1\<rparr>]\<rparr>"

definition traced_file :: "string \<Rightarrow> function_ir \<Rightarrow> file_ir \<times> string" where
  "traced_file path fn = (\<lparr>fi_path = path, fi_language = ''python'', fi_engine = ''tree_sitter'', fi_functions = [fn], fi_ok = True,
     fi_reason = None\<rparr>, '''')"

definition show_witness :: "int \<Rightarrow> string \<Rightarrow> discharge" where
  "show_witness line provenance = \<lparr>w_path = ''a.py'', w_line = Some line, w_function = ''show'', w_kind = ''identity_constraint'',
     w_fact_id = ''owner'', w_provenance = provenance, w_scope = ''statement'', w_detail = ''owner'', w_resource = None, w_authority = None\<rparr>"

definition delete_operation :: operation where
  "delete_operation = \<lparr>o_path = ''m.py'', o_line = 4, o_function = ''save'', o_kind = ''object_write'', o_fact_id = ''delete'',
     o_resource = None, o_requires = [''identity_constraint'']\<rparr>"

definition delete_fact :: operation_fact where
  "delete_fact = \<lparr>f_id = ''delete'', f_kind = ''object_write'', f_language = ''python'', f_calls = [''db.delete''], f_resource_arg = None,
     f_requires = [''identity_constraint''], f_sensitivity = ''high'', f_query_document_arg = None, f_handlers = [], f_framework = None,
     f_request_global_kinds = []\<rparr>"

definition sample_request :: trace_request where
  "sample_request = \<lparr>rq_path = \<lparr>p_hops = [(''a.py::show'', Some 5), (''m.py::save'', None)], p_entry = ''a.py::show'', p_complete = True\<rparr>,
     rq_entry = \<lparr>ep_path = ''a.py'', ep_line = Some 1, ep_function = Some ''show'', ep_name = ''show'', ep_kind = ''route'',
       ep_access = ''public'', ep_boundary = ''http_request'', ep_evidence = []\<rparr>,
     rq_operation = delete_operation,
     rq_irs = [''a.py'' \<mapsto> traced_file ''a.py'' show_function, ''m.py'' \<mapsto> traced_file ''m.py'' save_function],
     rq_facts = \<lparr>of_version = ''1'', of_operations = [delete_fact], of_dischargers = [owner_discharger], of_implications = []\<rparr>,
     rq_witnesses = [show_witness 7 ''authenticated_context'', show_witness 3 ''authenticated_context'', show_witness 4 ''request_input''],
     rq_judge = order_judge (\<lambda>_. Some '''') Map.empty, rq_literal = (\<lambda>_. NotLiteral), rq_dominating = [], rq_missing = Some ''identity_constraint'',
     rq_access = None, rq_state = None\<rparr>"

lemma sample_trace:
  "map_sum (\<lambda>e. e) (\<lambda>(tr, st). (map th_function (tr_hops tr), map (map tg_line \<circ> th_guards) (tr_hops tr), map tg_line (tr_guards_after tr)))
     (build_trace sample_request []) = Inr ([''show'', ''save''], [[Some 3], []], [Some 7])"
  "map_sum (\<lambda>e. e) (\<lambda>(tr, st). (map th_forwarded (tr_hops tr), tr_arguments tr)) (build_trace sample_request []) =
     Inr ([[''book.id''], []], [(''who'', ''request_input'')])"
  by code_simp+


end
