(* ===== verification/Inventory.thy ===== *)
theory Inventory
  imports Trace Checker
begin

text \<open>
  What \<open>prove_change\<close> (\<open>hunt/prover.py\<close>) collects before it judges: the readable product files, the recognised
  entries and their frameworks, the parsed functions with their operations, the touched functions, the exact
  callers and the functions the touched ones call. The checkout is an argument: what \<open>Context\<close> reads, the
  parsers, the entry-point mapping and the symbol index are functions of the record \<open>world\<close>, whose failures are
  the name of the exception's type.
\<close>

section \<open>The checkout\<close>

type_synonym 'a reading = "string + 'a"

record world =
  wd_head :: "unit result"
  wd_products :: "string list"
  wd_configs :: "string list"
  wd_read :: "string \<Rightarrow> string reading"
  wd_language :: "string \<Rightarrow> string"
  wd_target :: "string \<Rightarrow> string \<Rightarrow> string \<Rightarrow> unit reading"
  wd_entries :: "string list \<Rightarrow> entry_point list result"
  wd_defines_handler :: "entry_point \<Rightarrow> bool"
  wd_parse :: "string \<Rightarrow> file_ir reading"
  wd_safe_path :: "string \<Rightarrow> unit result"
  wd_generated :: "string \<Rightarrow> string option"
  wd_declarations :: "source_file list result"
  wd_policy :: "(string \<times> table option) option"
  wd_sha1 :: "string \<Rightarrow> string"
  wd_enforcement :: "string \<Rightarrow> entry_point list \<Rightarrow> discharge list reading"
  wd_nodes :: "string \<Rightarrow> cst list"
  wd_limit :: nat
  wd_pattern_in :: "string \<Rightarrow> string \<Rightarrow> bool"
  wd_literal :: "string \<Rightarrow> literal"
  wd_facts :: obligation_facts
  wd_flow :: semantic_facts

text \<open>\<open>type(error).__name__\<close> of the errors the modelled code raises.\<close>

fun type_name :: "py_error \<Rightarrow> string" where
  "type_name (ValueError m) = ''ValueError''"
| "type_name (TypeError m) = ''TypeError''"
| "type_name (KeyError m) = ''KeyError''"
| "type_name (PermissionError m) = ''PermissionError''"
| "type_name (IndexError m) = ''IndexError''"
| "type_name StopIteration = ''StopIteration''"
| "type_name (RuntimeError m) = ''RuntimeError''"
| "type_name Diverges = ''Diverges''"

definition texts_of :: "world \<Rightarrow> texts" where
  "texts_of w path = (case wd_read w path of Inl _ \<Rightarrow> None | Inr t \<Rightarrow> Some t)"

section \<open>Frameworks of entries (\<open>mapping/legacy.py\<close>)\<close>

definition framework_marks :: "(string \<times> string) list" where
  "framework_marks = [(''Stapler'', ''stapler''), (''Jetty'', ''jetty''), (''Servlet'', ''servlet''), (''JAX-RS'', ''jaxrs''),
     (''Symfony'', ''symfony''), (''Livewire'', ''livewire''), (''Laravel'', ''laravel''), (''Remix'', ''remix''),
     (''Tornado'', ''tornado''), (''Express'', ''express'')]"

definition entry_framework :: "entry_point \<Rightarrow> string option" where
  "entry_framework e =
     map_option snd (find (\<lambda>(name, identifier). contains_text name (join_with '' '' (ep_evidence e))) framework_marks)"

definition is_handler_entry :: "world \<Rightarrow> entry_point \<Rightarrow> bool" where
  "is_handler_entry w e \<longleftrightarrow> named_entry e \<noteq> None \<and> wd_defines_handler w e \<and> ep_line e \<noteq> None \<and> ep_kind e = ''route''"

definition framework_of :: "world \<Rightarrow> entry_point \<Rightarrow> string" where
  "framework_of w e =
     (case entry_framework e of Some f \<Rightarrow> f | None \<Rightarrow> canonical_language (wd_language w (ep_path e)))"

type_synonym handlers = "string \<rightharpoonup> (string \<rightharpoonup> string)"

definition entry_function :: "entry_point \<Rightarrow> string" where
  "entry_function e = (case ep_function e of None \<Rightarrow> ''None'' | Some n \<Rightarrow> n)"

definition add_handler :: "world \<Rightarrow> handlers \<Rightarrow> entry_point \<Rightarrow> handlers" where
  "add_handler w handlers e =
     handlers(ep_path e \<mapsto> (or_default Map.empty (handlers (ep_path e)))(entry_function e \<mapsto> framework_of w e))"

definition handlers_of_entries :: "world \<Rightarrow> entry_point list \<Rightarrow> handlers" where
  "handlers_of_entries w entries = foldl (add_handler w) Map.empty entries"

definition handler_of :: "handlers \<Rightarrow> string \<Rightarrow> string \<Rightarrow> string option" where
  "handler_of handlers path name = (case handlers path of None \<Rightarrow> None | Some names \<Rightarrow> names name)"

section \<open>Counters and degradations\<close>

type_synonym counter = "(string \<times> int) list"

definition bump :: "string \<Rightarrow> counter \<Rightarrow> counter" where
  "bump k c = dict_set k (or_default 0 (map_of c k) + 1) c"

definition path_degradation :: "string \<Rightarrow> string \<Rightarrow> table" where
  "path_degradation path reason = [(''path'', VStr path), (''reason'', VStr reason)]"

definition framework_counts :: "world \<Rightarrow> entry_point list \<Rightarrow> counter" where
  "framework_counts w entries =
     foldl (\<lambda>c f. bump f c) [] (map snd (dedup (map (\<lambda>e. (ep_path e, framework_of w e)) entries)))"

section \<open>Functions and operations\<close>

record inventory =
  iv_reasons :: counter
  iv_failed :: "string list"
  iv_irs :: parsed_files
  iv_functions :: "((string \<times> string) \<times> function_ir) list"
  iv_operations :: "((string \<times> string) \<times> operation list) list"
  iv_degradations :: "table list"

definition fail_file :: "string \<Rightarrow> string \<Rightarrow> inventory \<Rightarrow> inventory" where
  "fail_file path reason iv = iv\<lparr>iv_reasons := bump reason (iv_reasons iv), iv_failed := iv_failed iv @ [path],
     iv_degradations := iv_degradations iv @ [path_degradation path reason]\<rparr>"

definition skip_file :: "string \<Rightarrow> string \<Rightarrow> inventory \<Rightarrow> inventory" where
  "skip_file path reason iv = iv\<lparr>iv_reasons := bump reason (iv_reasons iv), iv_failed := iv_failed iv @ [path]\<rparr>"

text \<open>The product files that can be read, with the languages they are counted under.\<close>

definition read_product :: "world \<Rightarrow> inventory \<times> counter \<times> string list \<Rightarrow> string \<Rightarrow> inventory \<times> counter \<times> string list" where
  "read_product w st path =
     (case st of (iv, langs, readable) \<Rightarrow>
        (case wd_read w path of
           Inl reason \<Rightarrow> (fail_file path reason iv, langs, readable)
         | Inr t \<Rightarrow> let language = canonical_language (wd_language w path) in
             (case wd_target w path language t of
                Inl reason \<Rightarrow> (fail_file path reason iv, bump language langs, readable)
              | Inr _ \<Rightarrow> (iv, bump language langs, readable @ [path]))))"

definition read_config :: "world \<Rightarrow> inventory \<Rightarrow> string \<Rightarrow> inventory" where
  "read_config w iv path =
     (case wd_read w path of
        Inl reason \<Rightarrow> iv\<lparr>iv_degradations := iv_degradations iv @ [path_degradation path reason]\<rparr>
      | Inr _ \<Rightarrow> iv)"

text \<open>
  Parsing a file once. The spans \<open>read_ir\<close> also caches for the other producers are not part of the inventory.
\<close>

text \<open>A Remix handler has the name of its entry where the parser left the function anonymous.\<close>

definition remix_aliases :: "entry_point list \<Rightarrow> string \<Rightarrow> int \<rightharpoonup> string" where
  "remix_aliases entries path =
     map_of (rev (map (\<lambda>e. (line_or (ep_line e) 0, entry_function e))
       (filter (\<lambda>e. ep_path e = path \<and> entry_framework e = Some ''remix'') entries)))"

definition alias_function :: "(int \<rightharpoonup> string) \<Rightarrow> function_ir \<Rightarrow> function_ir" where
  "alias_function aliases fn =
     (if fn_name fn = ''<anon>'' then (case aliases (fn_start fn) of None \<Rightarrow> fn | Some name \<Rightarrow> fn\<lparr>fn_name := name\<rparr>) else fn)"

definition add_function :: "string \<Rightarrow> operation list \<Rightarrow> inventory \<Rightarrow> function_ir \<Rightarrow> inventory" where
  "add_function path found iv fn =
     (if fn_name fn = ''<module>'' then iv
      else iv\<lparr>iv_functions := dict_set (path, fn_name fn) fn (iv_functions iv),
        iv_operations := dict_set (path, fn_name fn) (filter (\<lambda>op. o_function op = fn_name fn) found) (iv_operations iv)\<rparr>)"

definition names_of :: "handlers \<Rightarrow> string \<Rightarrow> string \<rightharpoonup> string" where
  "names_of handlers path = or_default Map.empty (handlers path)"

definition read_ir :: "world \<Rightarrow> entry_point list \<Rightarrow> handlers \<Rightarrow> inventory \<Rightarrow> string \<Rightarrow> file_ir option \<times> inventory" where
  "read_ir w entries handlers iv path =
     (if path \<in> set (iv_failed iv) then (None, iv)
      else case map_of (iv_irs iv) path of
        Some (ir, t) \<Rightarrow> (Some ir, iv)
      | None \<Rightarrow> (case (wd_parse w path, wd_read w path) of
          (Inr parsed, Inr t) \<Rightarrow>
            let ir = parsed\<lparr>fi_functions := map (alias_function (remix_aliases entries path)) (fi_functions parsed)\<rparr>;
                scoped = facts_for_language (wd_facts w) (fi_language ir) in
            if \<not> fi_ok ir
            then (None, skip_file path
              (if fi_reason ir = Some ''language_unsupported'' then ''language_unsupported'' else ''parse_failed'') iv)
            else if of_operations scoped = [] then (None, skip_file path ''no_facts'' iv)
            else let iv1 = iv\<lparr>iv_irs := iv_irs iv @ [(path, ir, t)]\<rparr> in
              (case find_operations (wd_pattern_in w) ir scoped t (names_of handlers path) of
                 Inl e \<Rightarrow> (None, fail_file path (type_name e) iv1)
               | Inr found \<Rightarrow> (Some ir, foldl (add_function path found) iv1 (fi_functions ir)))
        | (Inr parsed, Inl reason) \<Rightarrow> (None, fail_file path reason iv)
        | (Inl reason, _) \<Rightarrow> (None, fail_file path reason iv)))"

section \<open>The touched functions\<close>

record changed_file =
  ch_path :: string
  ch_lines :: "(int \<times> int) list"

definition touched_functions :: "changed_file \<Rightarrow> file_ir \<Rightarrow> function_ir list" where
  "touched_functions f ir =
     filter (\<lambda>fn. fn_name fn \<noteq> ''<module>'' \<and> (\<exists>(start, stop) \<in> set (ch_lines f). fn_start fn \<le> stop \<and> start \<le> fn_end fn))
       (fi_functions ir)"

type_synonym touched = "(string \<times> string) list"

definition touch_file :: "world \<Rightarrow> entry_point list \<Rightarrow> handlers \<Rightarrow> inventory \<times> touched \<Rightarrow> changed_file \<Rightarrow> (inventory \<times> touched) result" where
  "touch_file w entries handlers st f =
     bind_result (wd_safe_path w (ch_path f)) (\<lambda>_.
     case st of (iv, touched) \<Rightarrow>
       (case wd_generated w (ch_path f) of
          Some reason \<Rightarrow> Inr (iv\<lparr>iv_reasons := bump reason (iv_reasons iv)\<rparr>, touched)
        | None \<Rightarrow> (case read_ir w entries handlers iv (ch_path f) of
            (None, iv1) \<Rightarrow> Inr (iv1, touched)
          | (Some ir, iv1) \<Rightarrow> let selected = touched_functions f ir in
              Inr (if ch_lines f \<noteq> [] \<and> selected = [] then iv1\<lparr>iv_reasons := bump ''function_unavailable'' (iv_reasons iv1)\<rparr> else iv1,
                touched @ map (\<lambda>fn. (ch_path f, fn_name fn)) selected))))"

section \<open>Callers and targets\<close>

definition functions_by_module :: "inventory \<Rightarrow> (string \<times> function_ir list) list" where
  "functions_by_module iv = foldl (\<lambda>d ((module, name), fn). group_add module fn d) [] (iv_functions iv)"

text \<open>The handler around \<open>read_ir\<close> in \<open>_resolution_bindings\<close> never runs: \<open>read_ir\<close> keeps its errors itself.\<close>

definition resolution_bindings :: "world \<Rightarrow> entry_point list \<Rightarrow> handlers \<Rightarrow> string list \<Rightarrow> symbol_index \<Rightarrow> inventory \<Rightarrow>
    call_bindings \<times> inventory" where
  "resolution_bindings w entries handlers readable index iv =
     (let iv1 = foldl (\<lambda>iv path. snd (read_ir w entries handlers iv path)) iv readable
      in (bind_calls (functions_by_module iv1) index, iv1))"

definition exact_caller_sites :: "call_bindings \<Rightarrow> symbol_index \<Rightarrow> string \<Rightarrow> string \<Rightarrow> (string \<times> int) list" where
  "exact_caller_sites bindings index path function =
     sorted_set (concat (map (\<lambda>symbol. map (\<lambda>b. (handler_id (cb_module b) (cb_function b), cb_line b)) (exact_callers bindings symbol))
       (filter (\<lambda>symbol. sy_module symbol = path) (named_symbols index function))))"

definition called_targets :: "call_bindings \<Rightarrow> string \<times> string \<Rightarrow> function_ir \<Rightarrow> (string \<times> string) list" where
  "called_targets bindings key fn =
     concat (map (\<lambda>call. concat (map (\<lambda>ts. map (\<lambda>symbol. (sy_module symbol, sy_name symbol)) (ct_targets ts))
       (or_default [] (map_of (cl_resolutions bindings) (fst key, snd key, cs_line call))))) (fn_calls fn))"

definition targets_from_bindings :: "touched \<Rightarrow> ((string \<times> string) \<times> function_ir) list \<Rightarrow> call_bindings \<Rightarrow> (string \<times> string) list result" where
  "targets_from_bindings touched functions bindings =
     bind_result (map_result (\<lambda>key. case map_of functions key of None \<Rightarrow> Inl (KeyError (snd key))
         | Some fn \<Rightarrow> Inr (called_targets bindings key fn)) touched)
       (\<lambda>called. Inr (sorted_set (touched @ concat called)))"

section \<open>Graphs of the parsed files\<close>

definition graphs_of_file :: "world \<Rightarrow> string \<Rightarrow> file_ir \<Rightarrow> string \<Rightarrow> function_cfg list" where
  "graphs_of_file w path ir name =
     concat (map (\<lambda>fn. case filter (\<lambda>node. line_of node = fn_start fn \<and> end_line_of node = fn_end fn) (wd_nodes w path) of
         [node] \<Rightarrow> [from_cst (wd_limit w) node (fi_language ir)] | _ \<Rightarrow> [])
       (filter (\<lambda>fn. fn_name fn = name) (fi_functions ir)))"

definition built_graphs :: "world \<Rightarrow> parsed_files \<Rightarrow> graphs" where
  "built_graphs w irs =
     \<lparr>g_texts = texts_of w,
      g_cfgs = (\<lambda>(path, name). case map_of irs path of None \<Rightarrow> [] | Some (ir, t) \<Rightarrow> graphs_of_file w path ir name)\<rparr>"

end
