(* ===== verification/TraceState.thy ===== *)
theory TraceState
  imports Trace Facts
begin

text \<open>
  The canonical JSON of a trace and the way back for its abstract state (\<open>Trace.record\<close> and
  \<open>parse_abstract_state\<close> of \<open>semantic/obligations/trace.py\<close>). JSON values are the values of parsed documents;
  \<open>json.dumps\<close> followed by \<open>json.loads\<close> turns tuples into lists, relations into their names and sorts the keys.
  A list of reasons, kinds or evidence that holds anything but text is outside the model of the parser.
\<close>

section \<open>Names of relations and judgments\<close>

definition relation_names :: "(string \<times> evidence_relation) list" where
  "relation_names = [(''must'', MUST), (''may'', MAY), (''no'', NO), (''unknown'', UNKNOWN)]"

fun relation_value :: "evidence_relation \<Rightarrow> string" where
  "relation_value MUST = ''must''"
| "relation_value MAY = ''may''"
| "relation_value NO = ''no''"
| "relation_value UNKNOWN = ''unknown''"

definition judgment_names :: "(string \<times> pair_judgment) list" where
  "judgment_names = [(''unguarded'', UNGUARDED), (''discharged'', DISCHARGED), (''indeterminate'', INDETERMINATE)]"

fun judgment_value :: "pair_judgment \<Rightarrow> string" where
  "judgment_value UNGUARDED = ''unguarded''"
| "judgment_value DISCHARGED = ''discharged''"
| "judgment_value INDETERMINATE = ''indeterminate''"

text \<open>\<open>EvidenceRelation(value)\<close> and \<open>PairJudgment(value)\<close>: a value that names nothing raises.\<close>

definition enum_of :: "(string \<times> 'a) list \<Rightarrow> pyval \<Rightarrow> 'a result" where
  "enum_of names v = (case v of
     VStr s \<Rightarrow> (case map_of names s of Some x \<Rightarrow> Inr x | None \<Rightarrow> Inl (ValueError ''not a valid value''))
   | _ \<Rightarrow> Inl (ValueError ''not a valid value''))"

section \<open>The record\<close>

definition texts_value :: "string list \<Rightarrow> pyval" where
  "texts_value ss = VList (map VStr ss)"

definition optional_value :: "string option \<Rightarrow> pyval" where
  "optional_value x = (case x of None \<Rightarrow> VNone | Some s \<Rightarrow> VStr s)"

definition optional_line :: "int option \<Rightarrow> pyval" where
  "optional_line x = (case x of None \<Rightarrow> VNone | Some l \<Rightarrow> VInt l)"

definition match_record :: "witness_match \<Rightarrow> pyval" where
  "match_record m = VDict [(''authority_relation'', VStr (relation_value (m_authority m))), (''evidence'', texts_value (m_evidence m)),
     (''relation'', VStr (relation_value (m_relation m))), (''resource_relation'', VStr (relation_value (m_resource m)))]"

definition judgment_record :: "path_judgment \<Rightarrow> pyval" where
  "judgment_record j = VDict
     [(''completeness'', VDict [(''is_complete'', VBool (is_complete (j_completeness j))), (''reasons'', texts_value (reasons (j_completeness j)))]),
      (''judgment'', VStr (judgment_value (j_judgment j))), (''matches'', VList (map match_record (j_matches j))),
      (''missing'', texts_value (j_missing j))]"

definition state_record :: "abstract_trace_state \<Rightarrow> pyval" where
  "state_record s = VDict
     [(''authority'', VDict [(''is_unknown'', VBool (is_unknown (a_authority s))), (''values'', texts_value (avalues (a_authority s)))]),
      (''authority_relation'', VStr (relation_value (a_authority_relation s))),
      (''path_judgment'', judgment_record (a_judgment s)),
      (''resource'', VDict [(''kind'', VStr (rkind (a_resource s))), (''values'', texts_value (rvalues (a_resource s)))]),
      (''resource_relation'', VStr (relation_value (a_resource_relation s)))]"

definition guard_record :: "trace_guard \<Rightarrow> pyval" where
  "guard_record g = VDict [(''effect'', VStr (tg_effect g)), (''fact_id'', VStr (tg_fact_id g)), (''kind'', VStr (tg_kind g)),
     (''line'', optional_line (tg_line g)), (''provenance'', VStr (tg_provenance g)), (''relation'', VStr (tg_relation g)),
     (''scope'', VStr (tg_scope g))]"

definition hop_record :: "trace_hop \<Rightarrow> pyval" where
  "hop_record h = VDict [(''call_line'', optional_line (th_call_line h)), (''forwarded'', texts_value (th_forwarded h)),
     (''function'', VStr (th_function h)), (''guards_before_call'', VList (map guard_record (th_guards h)))]"

definition context_record :: "control_context \<Rightarrow> pyval" where
  "context_record c = VDict [(''catches'', texts_value (catches c)), (''conditions'', texts_value (conditions c)),
     (''in_loop'', VBool (in_loop c)), (''in_try'', VBool (in_try c)), (''on_exception_path'', VBool (on_exception_path c))]"

definition trace_record :: "trace \<Rightarrow> table" where
  "trace_record t =
     (case tr_state t of None \<Rightarrow> [] | Some s \<Rightarrow> [(''abstract_state'', state_record s)]) @
     [(''access'', VStr (tr_access t)), (''arguments'', VList (map (\<lambda>(v, origin). texts_value [v, origin]) (tr_arguments t))),
      (''boundary'', VStr (tr_boundary t)), (''dominating'', texts_value (tr_dominating t)), (''entry_kind'', VStr (tr_entry_kind t)),
      (''fact_id'', VStr (tr_fact_id t)), (''guards_after'', VList (map guard_record (tr_guards_after t))),
      (''hops'', VList (map hop_record (tr_hops t))), (''missing'', optional_value (tr_missing t)),
      (''operation_context'', context_record (tr_context t)), (''operation_kind'', VStr (tr_operation_kind t)),
      (''operation_line'', VInt (tr_operation_line t)), (''parameters'', texts_value (tr_parameters t)),
      (''requires'', texts_value (tr_requires t))]"

section \<open>The way back\<close>

definition subscript :: "pyval \<Rightarrow> string \<Rightarrow> pyval result" where
  "subscript v k = (case v of
     VDict d \<Rightarrow> (case map_of d k of Some x \<Rightarrow> Inr x | None \<Rightarrow> Inl (KeyError k))
   | _ \<Rightarrow> Inl (TypeError ''not subscriptable''))"

definition iterated :: "pyval \<Rightarrow> pyval list result" where
  "iterated v = (case v of
     VList xs \<Rightarrow> Inr xs
   | VStr s \<Rightarrow> Inr (map (\<lambda>c. VStr [c]) s)
   | VDict d \<Rightarrow> Inr (map (VStr \<circ> fst) d)
   | _ \<Rightarrow> Inl (TypeError ''not iterable''))"

definition as_text :: "pyval \<Rightarrow> string result" where
  "as_text v = (case v of VStr s \<Rightarrow> Inr s | _ \<Rightarrow> Inl (TypeError ''not text''))"

definition texts_at :: "pyval \<Rightarrow> string \<Rightarrow> string list result" where
  "texts_at v k = bind_result (subscript v k) (\<lambda>x. bind_result (iterated x) (map_result as_text))"

definition enum_at :: "(string \<times> 'a) list \<Rightarrow> pyval \<Rightarrow> string \<Rightarrow> 'a result" where
  "enum_at names v k = bind_result (subscript v k) (enum_of names)"

definition parse_match :: "pyval \<Rightarrow> witness_match result" where
  "parse_match v =
     bind_result (enum_at relation_names v ''relation'') (\<lambda>r.
     bind_result (enum_at relation_names v ''resource_relation'') (\<lambda>rr.
     bind_result (enum_at relation_names v ''authority_relation'') (\<lambda>ar.
     bind_result (texts_at v ''evidence'') (\<lambda>e.
     Inr \<lparr>m_relation = r, m_resource = rr, m_authority = ar, m_evidence = e\<rparr>))))"

definition parse_path_judgment :: "pyval \<Rightarrow> path_judgment result" where
  "parse_path_judgment payload =
     bind_result (subscript payload ''completeness'') (\<lambda>c.
     bind_result (enum_at judgment_names payload ''judgment'') (\<lambda>j.
     bind_result (texts_at payload ''missing'') (\<lambda>missing.
     bind_result (subscript c ''is_complete'') (\<lambda>complete.
     bind_result (texts_at c ''reasons'') (\<lambda>rs.
     bind_result (subscript payload ''matches'') (\<lambda>ms.
     bind_result (iterated ms) (\<lambda>ms.
     bind_result (map_result parse_match ms) (\<lambda>matches.
     Inr \<lparr>j_judgment = j, j_missing = missing, j_completeness = make_completeness (truthy complete) rs, j_matches = matches\<rparr>))))))))"

definition parse_abstract_state :: "pyval \<Rightarrow> abstract_trace_state result" where
  "parse_abstract_state payload =
     bind_result (subscript payload ''resource'') (\<lambda>r.
     bind_result (subscript payload ''authority'') (\<lambda>a.
     bind_result (bind_result (subscript payload ''path_judgment'') parse_path_judgment) (\<lambda>j.
     bind_result (bind_result (subscript r ''kind'') as_text) (\<lambda>kind.
     bind_result (texts_at r ''values'') (\<lambda>vs.
     bind_result (make_resource kind vs) (\<lambda>resource.
     bind_result (texts_at a ''values'') (\<lambda>ws.
     bind_result (subscript a ''is_unknown'') (\<lambda>u.
     bind_result (make_authority ws (truthy u)) (\<lambda>authority.
     bind_result (enum_at relation_names payload ''resource_relation'') (\<lambda>rr.
     bind_result (enum_at relation_names payload ''authority_relation'') (\<lambda>ar.
     Inr \<lparr>a_judgment = j, a_resource = resource, a_authority = authority, a_resource_relation = rr, a_authority_relation = ar\<rparr>)))))))))))"

section \<open>The round trip\<close>

definition wf_state :: "abstract_trace_state \<Rightarrow> bool" where
  "wf_state s \<longleftrightarrow> wf_completeness (j_completeness (a_judgment s)) \<and> wf_resource (a_resource s) \<and> wf_authority (a_authority s)"

lemma named_relation [simp]: "enum_of relation_names (VStr (relation_value r)) = Inr r"
  by (cases r) (simp_all add: enum_of_def relation_names_def)

lemma named_judgment [simp]: "enum_of judgment_names (VStr (judgment_value j)) = Inr j"
  by (cases j) (simp_all add: enum_of_def judgment_names_def)

lemma map_result_texts [simp]: "map_result as_text (map VStr ss) = Inr ss"
  by (induction ss) (simp_all add: as_text_def)

lemma subscript_VDict [simp]: "subscript (VDict d) k = (case map_of d k of Some x \<Rightarrow> Inr x | None \<Rightarrow> Inl (KeyError k))"
  by (simp add: subscript_def)

lemma iterated_VList [simp]: "iterated (VList xs) = Inr xs"
  by (simp add: iterated_def)

lemma parse_match_record [simp]: "parse_match (match_record m) = Inr m"
  by (cases m) (simp add: parse_match_def match_record_def enum_at_def texts_at_def texts_value_def)

lemma map_result_matches [simp]: "map_result parse_match (map match_record ms) = Inr ms"
  by (induction ms) simp_all

lemma parse_judgment_record:
  "parse_path_judgment (judgment_record j) =
     Inr (j\<lparr>j_completeness := make_completeness (is_complete (j_completeness j)) (reasons (j_completeness j))\<rparr>)"
  by (cases j) (simp add: parse_path_judgment_def judgment_record_def enum_at_def texts_at_def texts_value_def)

lemma make_completeness_id: "make_completeness (is_complete c) (reasons c) = c \<longleftrightarrow> wf_completeness c"
  by (cases c) (auto simp: make_completeness_def wf_completeness_def, metis distinct_dedup)

lemma bind_result_Inr: "bind_result r f = Inr y \<longleftrightarrow> (\<exists>x. r = Inr x \<and> f x = Inr y)"
  by (cases r) simp_all

lemma parse_path_judgment_wf:
  "parse_path_judgment v = Inr j \<Longrightarrow> wf_completeness (j_completeness j)"
  by (auto simp: parse_path_judgment_def bind_result_Inr)

lemma read_authority_wf: "make_authority ws u = Inr a \<Longrightarrow> wf_authority a"
  by (auto simp: wf_authority_def make_authority_def sorted_set_id split: if_splits)

text \<open>Whatever the parser accepts is well formed: the constructors it calls check it.\<close>

lemma parse_abstract_state_wf: "parse_abstract_state v = Inr s \<Longrightarrow> wf_state s"
  unfolding parse_abstract_state_def bind_result_Inr wf_state_def
  by (elim exE conjE) (auto dest: parse_path_judgment_wf make_resource_wf read_authority_wf simp: bind_result_Inr)

text \<open>
  C17. A stored abstract state reads back as itself, relations, judgment, reasons and all, exactly when it is
  well formed: its reasons are free of repetitions and its resource and authority pass their constructors.
\<close>

theorem abstract_state_roundtrip:
  "parse_abstract_state (state_record s) = Inr s \<longleftrightarrow> wf_state s"
proof -
  have e: "parse_abstract_state (state_record s) =
      bind_result (make_resource (rkind (a_resource s)) (rvalues (a_resource s))) (\<lambda>resource.
      bind_result (make_authority (avalues (a_authority s)) (is_unknown (a_authority s))) (\<lambda>authority.
      Inr (s\<lparr>a_judgment := (a_judgment s)\<lparr>j_completeness :=
            make_completeness (is_complete (j_completeness (a_judgment s))) (reasons (j_completeness (a_judgment s)))\<rparr>,
          a_resource := resource, a_authority := authority\<rparr>)))"
    by (cases s) (simp add: parse_abstract_state_def state_record_def parse_judgment_record enum_at_def texts_at_def texts_value_def
        as_text_def)
  show ?thesis
  proof
    assume "wf_state s"
    then show "parse_abstract_state (state_record s) = Inr s"
      by (simp add: e wf_state_def wf_resource_def wf_authority_def flip: make_completeness_id)
  qed (rule parse_abstract_state_wf)
qed

end
