(* ===== verification/ProveChange.thy ===== *)
theory ProveChange
  imports Inventory TraceState
begin

text \<open>
  \<open>prove_change\<close> (\<open>hunt/prover.py\<close>) itself: the inventory, the bounded caller paths to the touched functions and
  what they call, the judgment of every operation on every path in both modes, findings, traces and coverage.
  The record of missing graphs is not part of the result here; no answer depends on it.
\<close>

section \<open>Handler obligations\<close>

definition handler_ids :: "obligation_facts \<Rightarrow> string set" where
  "handler_ids facts = f_id ` set (filter (\<lambda>f. f_handlers f \<noteq> []) (of_operations facts))"

definition target_of :: "path_record \<Rightarrow> string \<times> string" where
  "target_of record = rpartition ''::'' (fst (last (p_hops record)))"

definition operations_at :: "((string \<times> string) \<times> operation list) list \<Rightarrow> string \<times> string \<Rightarrow> operation list" where
  "operations_at operations key = or_default [] (map_of operations key)"

text \<open>An entry that already reaches a listed operation is no obligation of its own.\<close>

definition drop_handler :: "world \<Rightarrow> inventory \<Rightarrow> handlers \<Rightarrow> path_record \<Rightarrow> handlers result" where
  "drop_handler w iv handlers record =
     (if \<exists>op \<in> set (operations_at (iv_operations iv) (target_of record)). o_fact_id op \<notin> handler_ids (wd_facts w)
      then let (path, name) = rpartition ''::'' (p_entry record) in
        if handler_of handlers path name = Some ''remix'' then Inr handlers
        else (case handlers path of None \<Rightarrow> Inl (KeyError path) | Some names \<Rightarrow> Inr (handlers(path \<mapsto> names(name := None))))
      else Inr handlers)"

definition keep_obligations :: "world \<Rightarrow> handlers \<Rightarrow> (string \<times> string) \<times> operation list \<Rightarrow> (string \<times> string) \<times> operation list" where
  "keep_obligations w handlers item =
     (case item of ((path, name), ops) \<Rightarrow>
        if handler_of handlers path name = None then ((path, name), filter (\<lambda>op. o_fact_id op \<notin> handler_ids (wd_facts w)) ops)
        else item)"

definition return_regex :: regex where
  "return_regex = RSeqs [RStar py_space, RLit ''return'', RWordBound]"

definition return_lines :: "string \<Rightarrow> function_ir \<Rightarrow> int list" where
  "return_lines t fn =
     map fst (filter (\<lambda>(i, line). fn_start fn \<le> i \<and> i \<le> fn_end fn \<and> re_match return_regex line \<noteq> None)
       (zip (map int [1..<Suc (length (split_lines t))]) (split_lines t)))"

definition handler_end :: "string \<Rightarrow> function_ir \<Rightarrow> int" where
  "handler_end t fn = (case return_lines t fn of [] \<Rightarrow> fn_end fn + 1 | ls \<Rightarrow> last ls)"

definition handler_ends :: "world \<Rightarrow> inventory \<Rightarrow> (operation \<times> int) list result" where
  "handler_ends w iv =
     bind_result (map_result (\<lambda>(key, ops).
         case (map_of (iv_functions iv) key, texts_of w (fst key)) of
           (Some fn, Some t) \<Rightarrow> Inr (map (\<lambda>op. (op, handler_end t fn)) (filter (\<lambda>op. o_fact_id op \<in> handler_ids (wd_facts w)) ops))
         | _ \<Rightarrow> Inl (KeyError (snd key))) (iv_operations iv))
       (\<lambda>found. Inr (foldl (\<lambda>d (op, e). dict_set op e d) [] (concat found)))"

section \<open>Witnesses beyond the checker's own\<close>

definition enforced :: "world \<Rightarrow> entry_point list \<Rightarrow> discharge list \<times> table list \<Rightarrow> string \<Rightarrow> discharge list \<times> table list" where
  "enforced w entries st language =
     (case wd_enforcement w language entries of
        Inl reason \<Rightarrow> (fst st, snd st @ [[(''stage'', VStr ''enforcement''), (''reason'', VStr reason)]])
      | Inr ws \<Rightarrow> (fst st @ ws, snd st))"

definition prover_dominates :: "graphs \<Rightarrow> (operation \<rightharpoonup> int) \<Rightarrow> dominates" where
  "prover_dominates ctx ends w op nodes = fst (handler_dominates ctx ends w op nodes [])"

definition predicate_witnesses :: "world \<Rightarrow> inventory \<Rightarrow> handlers \<Rightarrow> dominates \<Rightarrow> operation \<Rightarrow> discharge list result" where
  "predicate_witnesses w iv handlers dominates op =
     (case map_of (iv_irs iv) (o_path op) of
        None \<Rightarrow> Inl (KeyError (o_path op))
      | Some (ir, t) \<Rightarrow>
          bind_result (find_discharges ir (facts_for_language (wd_facts w) (fi_language ir))
              (semantic_for_language (wd_flow w) (fi_language ir)) t []) (\<lambda>found.
          Inr (map (\<lambda>x. x\<lparr>w_kind := ''path_guard''\<rparr>)
            (filter (\<lambda>x. w_function x = o_function op \<and> w_kind x = ''ownership_check'' \<and> dominates x op None \<and>
               handler_of handlers (o_path op) (o_function op) = Some ''stapler'') found))))"

section \<open>What the loop over the paths is given\<close>

record prepared =
  pp_world :: world
  pp_inventory :: inventory
  pp_entries :: "entry_point list"
  pp_handlers :: handlers
  pp_touched :: touched
  pp_policy :: "declared_policy option"
  pp_graphs :: graphs
  pp_ends :: "operation \<rightharpoonup> int"
  pp_extra :: "discharge list"

definition entry_at :: "prepared \<Rightarrow> string \<rightharpoonup> entry_point" where
  "entry_at pp = entry_index (pp_entries pp)"

definition needed_files :: "prepared \<Rightarrow> path_record \<Rightarrow> string list" where
  "needed_files pp record =
     sorted_set (map fst (pp_touched pp) @ map (\<lambda>hop. fst (rpartition ''::'' (fst hop))) (p_hops record))"

definition path_irs :: "prepared \<Rightarrow> path_record \<Rightarrow> parsed_files" where
  "path_irs pp record =
     List.map_filter (\<lambda>path. map_option (Pair path) (map_of (iv_irs (pp_inventory pp)) path)) (needed_files pp record)"

definition path_check :: "prepared \<Rightarrow> path_record \<Rightarrow> check_input" where
  "path_check pp record =
     \<lparr>ci_irs = path_irs pp record, ci_entries = pp_entries pp, ci_facts = wd_facts (pp_world pp), ci_flow = wd_flow (pp_world pp),
      ci_policy = pp_policy pp, ci_paths = [record], ci_shapes = [], ci_min_siblings = 3, ci_extra = pp_extra pp,
      ci_assume = True, ci_handlers_of = Some (pp_handlers pp)\<rparr>"

definition dominates_of :: "prepared \<Rightarrow> dominates" where
  "dominates_of pp = prover_dominates (pp_graphs pp) (pp_ends pp)"

text \<open>The route of the entry, or of the operation's function, decides the declared access.\<close>

definition trace_access :: "prepared \<Rightarrow> operation \<Rightarrow> entry_point \<Rightarrow> string option" where
  "trace_access pp op entry =
     (let route = (case route_path op (or_default '''' (texts_of (pp_world pp) (o_path op))) of
          None \<Rightarrow> ep_name entry | Some r \<Rightarrow> if r = '''' then ep_name entry else r)
      in case pp_policy pp of None \<Rightarrow> None | Some p \<Rightarrow> if route = '''' then None else route_access p route)"

definition path_trace :: "prepared \<Rightarrow> path_record \<Rightarrow> discharge list \<Rightarrow> operation \<Rightarrow> string list \<Rightarrow> string option \<Rightarrow>
    abstract_trace_state option \<Rightarrow> table result" where
  "path_trace pp record discharges op dominating missing state =
     (case entry_at pp (p_entry record) of
        None \<Rightarrow> Inl (KeyError (p_entry record))
      | Some entry \<Rightarrow>
          bind_result (build_trace
            \<lparr>rq_path = record, rq_entry = entry, rq_operation = op, rq_irs = map_of (path_irs pp record),
             rq_facts = wd_facts (pp_world pp), rq_witnesses = discharges, rq_judge = handler_judge (pp_graphs pp) (pp_ends pp),
             rq_literal = wd_literal (pp_world pp), rq_dominating = dominating, rq_missing = missing,
             rq_access = trace_access pp op entry, rq_state = state\<rparr> []) (\<lambda>(trace, _). Inr (trace_record trace)))"

section \<open>One operation on one path\<close>

record check_state =
  ck_findings :: "(entry_point, table) findings"
  ck_judged :: "judged list"
  ck_traces_by :: "(operation \<times> table) list"
  ck_traces :: "table list"
  ck_checked :: "operation list"
  ck_undischarged :: "operation list"
  ck_degradations :: "table list"

definition first_text :: "string list \<Rightarrow> string option" where
  "first_text ss = (case ss of [] \<Rightarrow> None | s # _ \<Rightarrow> Some s)"

definition judge_strictly :: "prepared \<Rightarrow> path_record \<Rightarrow> discharge list \<Rightarrow> check_state \<Rightarrow> operation \<Rightarrow> check_state result" where
  "judge_strictly pp record discharges ck op =
     bind_result (path_judgment (pp_graphs pp) discharges op (of_operations (wd_facts (pp_world pp)))) (\<lambda>j.
     bind_result (abstract_state j op) (\<lambda>state.
     bind_result (path_trace pp record discharges op [] (first_text (j_missing j)) (Some state)) (\<lambda>trace.
     Inr (ck\<lparr>ck_checked := ck_checked ck @ [op], ck_judged := group_add op (record, j) (ck_judged ck),
       ck_undischarged := (if j_judgment j = UNGUARDED then ck_undischarged ck @ [op] else ck_undischarged ck),
       ck_traces := ck_traces ck @ [trace], ck_traces_by := dict_set op trace (ck_traces_by ck)\<rparr>))))"

definition path_dominated :: "prepared \<Rightarrow> path_record \<Rightarrow> discharge list \<Rightarrow> operation \<Rightarrow> string set" where
  "path_dominated pp record discharges op =
     w_kind ` set (filter (\<lambda>w. w_kind w \<in> set (o_requires op) \<and> valid_witness w \<and>
         dominates_of pp w op (Some (map fst (p_hops record))) \<and>
         (relevant w op \<or> on_caller_hop w (Some record) op (dominates_of pp))) discharges)"

definition left_undischarged :: "prepared \<Rightarrow> operation \<Rightarrow> string set \<Rightarrow> bool" where
  "left_undischarged pp op dominated \<longleftrightarrow>
     (if o_fact_id op \<in> handler_ids (wd_facts (pp_world pp)) then \<not> set (o_requires op) \<subseteq> dominated else dominated = {})"

definition judge_plainly :: "prepared \<Rightarrow> path_record \<Rightarrow> obligation_result \<Rightarrow> check_state \<times> (operation \<times> table) list \<Rightarrow> operation \<Rightarrow>
    (check_state \<times> (operation \<times> table) list) result" where
  "judge_plainly pp record found st op =
     (let (ck, pair_traces) = st;
          dominated = path_dominated pp record (or_discharges found) op;
          missing = map_option og_missing (find (\<lambda>f. og_operation f = op) (or_findings found))
      in bind_result (path_trace pp record (or_discharges found) op (sorted_list_of_set dominated) missing None) (\<lambda>trace.
         Inr (ck\<lparr>ck_checked := ck_checked ck @ [op],
             ck_undischarged := (if left_undischarged pp op dominated then ck_undischarged ck @ [op] else ck_undischarged ck),
             ck_traces := ck_traces ck @ [trace]\<rparr>,
           dict_set op trace pair_traces)))"

definition plain_finding :: "prepared \<Rightarrow> path_record \<Rightarrow> (operation \<times> table) list \<Rightarrow> obligation_finding \<Rightarrow>
    (entry_point, table) strict_finding result" where
  "plain_finding pp record pair_traces f =
     (let op = og_operation f; identity = finding_identity op (og_missing f) in
      bind_result (stop_iteration (find (\<lambda>x. f_id x = o_fact_id op) (of_operations (wd_facts (pp_world pp))))) (\<lambda>known_fact.
      case (map_of (iv_functions (pp_inventory pp)) (o_path op, o_function op), entry_at pp (p_entry record), map_of pair_traces op) of
        (Some fn, Some entry, Some trace) \<Rightarrow>
          Inr \<lparr>sf_id = identity, sf_path = o_path op, sf_line = o_line op, sf_family = ''access_control'', sf_function = o_function op,
            sf_evidence = og_evidence f @
              [''hops: '' @ join_with '' -> '' (map fst (p_hops record)),
               ''operation '' @ o_fact_id op @ '' ('' @ o_kind op @ '') at '' @ o_path op @ '':'' @ show_int (o_line op)
                 @ ''; missing '' @ og_missing f],
            sf_entry = entry, sf_hops = p_hops record,
            sf_operation = (o_fact_id op, o_kind op, operation_calls fn op known_fact, o_line op),
            sf_missing = og_missing f, sf_label = og_label f, sf_trace = trace\<rparr>
      | _ \<Rightarrow> Inl (KeyError identity)))"

definition add_finding :: "prepared \<Rightarrow> path_record \<Rightarrow> (operation \<times> table) list \<Rightarrow> (entry_point, table) findings \<Rightarrow> obligation_finding \<Rightarrow>
    (entry_point, table) findings result" where
  "add_finding pp record pair_traces findings f =
     bind_result (plain_finding pp record pair_traces f) (\<lambda>made. Inr (set_default (sf_id made) made findings))"

section \<open>The paths, one after the other\<close>

definition check_path :: "prepared \<Rightarrow> bool \<Rightarrow> check_state \<Rightarrow> path_record \<Rightarrow> check_state result" where
  "check_path pp strict ck record =
     (if length (path_irs pp record) \<noteq> length (needed_files pp record) then Inr ck
      else bind_result (check_obligations (wd_pattern_in (pp_world pp)) (dominates_of pp) (path_check pp record)) (\<lambda>found.
        let ck1 = ck\<lparr>ck_degradations := ck_degradations ck @ or_degradations found\<rparr>;
            ops = operations_at (iv_operations (pp_inventory pp)) (target_of record)
        in if strict then fold_result (judge_strictly pp record (or_discharges found)) ck1 ops
           else bind_result (fold_result (judge_plainly pp record found) (ck1, []) ops) (\<lambda>(ck2, pair_traces).
             bind_result (fold_result (add_finding pp record pair_traces) (ck_findings ck2) (or_findings found)) (\<lambda>findings.
             Inr (ck2\<lparr>ck_findings := findings\<rparr>)))))"

definition no_checks :: "table list \<Rightarrow> check_state" where
  "no_checks degraded = \<lparr>ck_findings = [], ck_judged = [], ck_traces_by = [], ck_traces = [], ck_checked = [],
     ck_undischarged = [], ck_degradations = degraded\<rparr>"

section \<open>The result\<close>

record coverage =
  co_languages :: counter
  co_frameworks :: counter
  co_entries :: int
  co_reached :: int
  co_unreached :: int
  co_checked :: int
  co_discharged :: int
  co_reasons :: counter
  co_resolution :: call_counts
  co_pairs :: pair_judgment_counts

record prover_result =
  pv_findings :: "(entry_point, table) strict_finding list"
  pv_coverage :: coverage
  pv_degradations :: "table list"
  pv_traces :: "table list"

definition no_pairs :: pair_judgment_counts where
  "no_pairs = count_pair_judgments []"

definition conclude :: "prepared \<Rightarrow> bool \<Rightarrow> counter \<Rightarrow> call_counts \<Rightarrow> path_record list \<Rightarrow> string list \<Rightarrow> check_state \<Rightarrow> prover_result result" where
  "conclude pp strict langs counts paths unreached ck =
     bind_result (if strict
         then judgment_findings \<lparr>fc_entries = entry_at pp, fc_facts = of_operations (wd_facts (pp_world pp)),
           fc_functions = map_of (iv_functions (pp_inventory pp)), fc_traces = map_of (ck_traces_by ck)\<rparr> (ck_judged ck)
         else Inr (ck_findings ck, no_pairs)) (\<lambda>(findings, pairs).
     let touched_nodes = map (\<lambda>(path, name). handler_id path name) (pp_touched pp);
         checked = remdups (ck_checked ck)
     in Inr \<lparr>pv_findings = map snd findings,
       pv_coverage = \<lparr>co_languages = langs, co_frameworks = framework_counts (pp_world pp) (pp_entries pp),
         co_entries = int (length (pp_entries pp)),
         co_reached = int (card (set (map (\<lambda>r. fst (last (p_hops r))) paths) \<inter> set touched_nodes)),
         co_unreached = int (card (set unreached \<inter> set touched_nodes)),
         co_checked = int (length checked),
         co_discharged = int (length (filter (\<lambda>op. op \<notin> set (ck_undischarged ck)) checked)),
         co_reasons = iv_reasons (pp_inventory pp), co_resolution = counts, co_pairs = pairs\<rparr>,
       pv_degradations = ck_degradations ck, pv_traces = ck_traces ck\<rparr>)"

definition count_unreached :: "entry_point list \<Rightarrow> counter \<Rightarrow> string \<Rightarrow> counter" where
  "count_unreached entries c node =
     bump (if fst (rpartition ''::'' node) \<in> set (map ep_path entries) then ''unreached'' else ''framework_unrecognised'') c"

text \<open>What the judging loop gets: handler obligations filtered, every node's file read, graphs and witnesses.\<close>

definition settled_inventory :: "world \<Rightarrow> entry_point list \<Rightarrow> handlers \<Rightarrow> path_record list \<Rightarrow> string list \<Rightarrow> inventory \<Rightarrow> inventory" where
  "settled_inventory w entries handlers paths unreached iv =
     (let iv1 = iv\<lparr>iv_operations := map (keep_obligations w handlers) (iv_operations iv)\<rparr>;
          nodes = dedup (concat (map (\<lambda>r. map fst (p_hops r)) paths));
          iv2 = foldl (\<lambda>iv node. snd (read_ir w entries handlers iv (fst (rpartition ''::'' node)))) iv1 nodes
      in iv2\<lparr>iv_reasons := foldl (count_unreached entries) (iv_reasons iv2) unreached\<rparr>)"

definition prepare :: "world \<Rightarrow> entry_point list \<Rightarrow> touched \<Rightarrow> path_record list \<Rightarrow> string list \<Rightarrow> inventory \<Rightarrow> prepared result" where
  "prepare w entries touched paths unreached iv =
     bind_result (fold_result (drop_handler w iv) (handlers_of_entries w entries) paths) (\<lambda>handlers.
     let iv1 = settled_inventory w entries handlers paths unreached iv; ctx = built_graphs w (iv_irs iv1);
         found = foldl (enforced w entries) ([], iv_degradations iv1) [''php'', ''python'']
     in bind_result (wd_safe_path w ''.openultrasast/obligations.toml'') (\<lambda>_.
        bind_result (load_declared_policy (wd_sha1 w) (Inr (wd_facts w)) (wd_policy w)) (\<lambda>policy.
        bind_result (handler_ends w iv1) (\<lambda>ends.
        bind_result (map_result (\<lambda>(op, _). predicate_witnesses w iv1 handlers (prover_dominates ctx (map_of ends)) op) ends) (\<lambda>guards.
        Inr \<lparr>pp_world = w, pp_inventory = iv1\<lparr>iv_degradations := snd found\<rparr>, pp_entries = entries, pp_handlers = handlers,
          pp_touched = touched, pp_policy = policy, pp_graphs = ctx, pp_ends = map_of ends,
          pp_extra = fst found @ concat guards\<rparr>)))))"

definition empty_inventory :: inventory where
  "empty_inventory = \<lparr>iv_reasons = [], iv_failed = [], iv_irs = [], iv_functions = [], iv_operations = [], iv_degradations = []\<rparr>"

text \<open>What is known before the paths are walked.\<close>

record survey =
  sv_entries :: "entry_point list"
  sv_languages :: counter
  sv_inventory :: inventory
  sv_touched :: touched
  sv_index :: symbol_index
  sv_bindings :: call_bindings
  sv_targets :: "(string \<times> string) list"

definition survey_change :: "world \<Rightarrow> changed_file list \<Rightarrow> survey result" where
  "survey_change w files =
     bind_result (wd_head w) (\<lambda>_.
     let (iv0, langs, readable) = foldl (read_product w) (empty_inventory, [], []) (wd_products w);
         iv1 = foldl (read_config w) iv0 (wd_configs w)
     in bind_result (wd_entries w readable) (\<lambda>all_entries.
        let entries = filter (is_handler_entry w) all_entries; handlers = handlers_of_entries w entries in
        bind_result (fold_result (touch_file w entries handlers) (iv1, []) files) (\<lambda>(iv2, touched).
        bind_result (wd_declarations w) (\<lambda>declared.
        let index = build_index declared; (bindings, iv3) = resolution_bindings w entries handlers readable index iv2 in
        bind_result (targets_from_bindings touched (iv_functions iv3) bindings) (\<lambda>targets.
        Inr \<lparr>sv_entries = entries, sv_languages = langs, sv_inventory = iv3, sv_touched = touched, sv_index = index,
          sv_bindings = bindings, sv_targets = targets\<rparr>)))))"

definition survey_callers :: "survey \<Rightarrow> callers" where
  "survey_callers sv = exact_caller_sites (sv_bindings sv) (sv_index sv)"

definition survey_entries :: "survey \<Rightarrow> string set" where
  "survey_entries sv = set (map entry_id (sv_entries sv))"

definition prove_change :: "world \<Rightarrow> changed_file list \<Rightarrow> int \<Rightarrow> bool \<Rightarrow> prover_result result" where
  "prove_change w files max_depth strict =
     (if max_depth < 0 then Inl (ValueError ''invalid path depth'')
      else bind_result (survey_change w files) (\<lambda>sv.
        bind_result (compose_paths (survey_callers sv) (survey_entries sv) (sv_targets sv) max_depth 25) (\<lambda>(paths, unreached).
        bind_result (prepare w (sv_entries sv) (sv_touched sv) paths unreached (sv_inventory sv)) (\<lambda>pp.
        bind_result (fold_result (check_path pp strict) (no_checks (iv_degradations (pp_inventory pp))) paths) (\<lambda>ck.
        conclude pp strict (sv_languages sv) (cl_counts (sv_bindings sv)) paths unreached ck)))))"

end
