(* ===== verification/ProverSound.thy ===== *)
theory ProverSound
  imports ProveChange
begin

text \<open>
  What a result of \<open>prove_change\<close> means: the chains its findings name are chains of exact calls from a recognised
  entry, its strict findings rest on a path judged unguarded, and its coverage counts are those of the
  operations it judged.
\<close>

section \<open>The steps of a run\<close>

text \<open>A run that returned has gone through its survey, its paths, the preparation and the loop.\<close>

definition run_of :: "world \<Rightarrow> changed_file list \<Rightarrow> int \<Rightarrow> bool \<Rightarrow> survey \<Rightarrow> path_record list \<Rightarrow> string list \<Rightarrow> prepared \<Rightarrow> check_state \<Rightarrow> bool" where
  "run_of w files max_depth strict sv paths unreached pp ck \<longleftrightarrow>
     max_depth \<ge> 0 \<and> survey_change w files = Inr sv \<and>
     compose_paths (survey_callers sv) (survey_entries sv) (sv_targets sv) max_depth 25 = Inr (paths, unreached) \<and>
     prepare w (sv_entries sv) (sv_touched sv) paths unreached (sv_inventory sv) = Inr pp \<and>
     fold_result (check_path pp strict) (no_checks (iv_degradations (pp_inventory pp))) paths = Inr ck"

lemma prove_change_run:
  assumes "prove_change w files max_depth strict = Inr res"
  obtains sv paths unreached pp ck where "run_of w files max_depth strict sv paths unreached pp ck"
    "conclude pp strict (sv_languages sv) (cl_counts (sv_bindings sv)) paths unreached ck = Inr res"
  using assms unfolding prove_change_def run_of_def
  by (force simp: bind_result_eq_Inr split: if_splits prod.splits)

lemma prepare_fields:
  assumes "prepare w entries touched paths unreached iv = Inr pp"
  shows "pp_world pp = w" "pp_entries pp = entries" "pp_touched pp = touched"
  using assms by (auto simp: prepare_def bind_result_eq_Inr Let_def split: prod.splits)

section \<open>The chains\<close>

text \<open>One hop calls the next: a call site at that line resolves completely, and only to a declaration of that name in that file.\<close>

definition exact_call :: "survey \<Rightarrow> string \<times> int \<Rightarrow> string \<Rightarrow> bool" where
  "exact_call sv caller node \<longleftrightarrow>
     (\<exists>(module, function, call) \<in> set (call_sites (functions_by_module (sv_inventory sv))). \<exists>symbol.
        lands_on (sv_index sv) symbol (module, function, call) \<and> (sy_module symbol, sy_name symbol) = rpartition ''::'' node \<and>
        caller = (handler_id module function, cs_line call))"

lemma survey_bindings:
  assumes "survey_change w files = Inr sv"
  shows "sv_bindings sv = bind_calls (functions_by_module (sv_inventory sv)) (sv_index sv)" "\<exists>declared. sv_index sv = build_index declared"
  using assms by (auto simp: survey_change_def resolution_bindings_def bind_result_eq_Inr Let_def split: prod.splits)

lemma exact_callers_set:
  "set (exact_callers (bind_calls functions index) target) = binding_of ` {site \<in> set (call_sites functions). lands_on index target site}"
  using fold_bind_call [where index = index and sites = "call_sites functions"]
  by (auto simp: bind_calls_def Let_def exact_callers_def map_of_sort_key_by)

lemma survey_callers_exact:
  assumes "survey_change w files = Inr sv" "(caller, line) \<in> set (lookup_callers (survey_callers sv) k node)"
  shows "exact_call sv (caller, line) node"
proof -
  obtain path name where node: "rpartition ''::'' node = (path, name)" by fastforce
  have "(caller, line) \<in> set (exact_caller_sites (sv_bindings sv) (sv_index sv) path name)"
    using assms(2) set_take_subset [of k] by (fastforce simp: lookup_callers_def node survey_callers_def)
  then obtain symbol b where s: "symbol \<in> set (named_symbols (sv_index sv) name)" "sy_module symbol = path"
    "b \<in> set (exact_callers (sv_bindings sv) symbol)" "caller = handler_id (cb_module b) (cb_function b)" "line = cb_line b"
    by (auto simp: exact_caller_sites_def)
  moreover have "sy_name symbol = name"
    using s(1) survey_bindings(2) [OF assms(1)] by (auto simp: named_symbols_build)
  moreover obtain site where "site \<in> set (call_sites (functions_by_module (sv_inventory sv)))" "lands_on (sv_index sv) symbol site"
    "b = binding_of site"
    using s(3) unfolding survey_bindings(1) [OF assms(1)] exact_callers_set by auto
  ultimately show ?thesis
    by (cases site) (force simp: exact_call_def node binding_of_def)
qed

text \<open>From an entry to the operation's function, each hop calling the next, within the depth.\<close>

fun calls_down :: "survey \<Rightarrow> hop list \<Rightarrow> bool" where
  "calls_down sv ((caller, line) # (node, l) # hops) \<longleftrightarrow>
     (\<exists>n. line = Some n \<and> exact_call sv (caller, n) node) \<and> calls_down sv ((node, l) # hops)"
| "calls_down sv hops \<longleftrightarrow> True"

definition backed_path :: "survey \<Rightarrow> int \<Rightarrow> hop list \<Rightarrow> bool" where
  "backed_path sv max_depth hops \<longleftrightarrow> hops \<noteq> [] \<and> length hops \<le> Suc (nat max_depth) \<and> distinct (map fst hops) \<and>
     fst (hd hops) \<in> survey_entries sv \<and> calls_down sv hops \<and> (\<exists>target \<in> set (sv_targets sv). fst (last hops) = target_node target)"

lemma linked_calls_down:
  assumes "survey_change w files = Inr sv"
  shows "linked (survey_callers sv) k hops \<Longrightarrow> calls_down sv hops"
  by (induction "survey_callers sv" k hops rule: linked.induct) (auto intro: survey_callers_exact [OF assms])

lemma run_paths:
  assumes "run_of w files max_depth strict sv paths unreached pp ck" "r \<in> set paths"
  shows "backed_path sv max_depth (p_hops r)"
proof -
  have "p_hops r \<in> {h. \<exists>t \<in> set (sv_targets sv). entry_chain (survey_callers sv) (survey_entries sv) (nat max_depth) (nat 25) (target_node t) h}"
    using compose_paths_spec [where callers = "survey_callers sv" and entries = "survey_entries sv" and targets = "sv_targets sv" and max_depth = max_depth and fan_out = 25] assms
    by (auto simp: run_of_def)
  then obtain t where t: "t \<in> set (sv_targets sv)"
    "entry_chain (survey_callers sv) (survey_entries sv) (nat max_depth) (nat 25) (target_node t) (p_hops r)" by auto
  moreover have "linked (survey_callers sv) (nat 25) (p_hops r)" using t(2) by (simp add: entry_chain_def wf_chain_def)
  moreover have "p_hops r \<noteq> []" using calculation(3) by auto
  ultimately show ?thesis
    using linked_calls_down assms(1) by (auto simp: backed_path_def entry_chain_def wf_chain_def run_of_def)
qed

section \<open>What the strict loop collects\<close>

text \<open>An operation judged on one of the paths: by the witnesses the checker found on that path.\<close>

definition judged_on :: "prepared \<Rightarrow> path_record list \<Rightarrow> operation \<Rightarrow> path_record \<Rightarrow> path_judgment \<Rightarrow> bool" where
  "judged_on pp paths op r j \<longleftrightarrow> r \<in> set paths \<and>
     op \<in> set (operations_at (iv_operations (pp_inventory pp)) (target_of r)) \<and>
     (\<exists>found. check_obligations (wd_pattern_in (pp_world pp)) (dominates_of pp) (path_check pp r) = Inr found \<and>
        path_judgment (pp_graphs pp) (or_discharges found) op (of_operations (wd_facts (pp_world pp))) = Inr j)"

definition strict_ok :: "prepared \<Rightarrow> path_record list \<Rightarrow> check_state \<Rightarrow> bool" where
  "strict_ok pp paths ck \<longleftrightarrow> distinct (map fst (ck_judged ck)) \<and>
     dom (map_of (ck_judged ck)) = set (ck_checked ck) \<and>
     (\<forall>op pairs. map_of (ck_judged ck) op = Some pairs \<longrightarrow> pairs \<noteq> [] \<and> (\<forall>(r, j) \<in> set pairs. judged_on pp paths op r j)) \<and>
     (\<forall>op. op \<in> set (ck_undischarged ck) \<longleftrightarrow>
        (\<exists>pairs. map_of (ck_judged ck) op = Some pairs \<and> (\<exists>(r, j) \<in> set pairs. j_judgment j = UNGUARDED)))"

lemma map_of_group_add: "map_of (group_add k v d) = (map_of d)(k \<mapsto> or_default [] (map_of d k) @ [v])"
  by (simp add: group_add_def)

lemma judge_strictly_ok:
  assumes "judge_strictly pp r discharges ck op = Inr ck'" "strict_ok pp paths ck" "r \<in> set paths"
    "op \<in> set (operations_at (iv_operations (pp_inventory pp)) (target_of r))"
    "check_obligations (wd_pattern_in (pp_world pp)) (dominates_of pp) (path_check pp r) = Inr found" "discharges = or_discharges found"
  shows "strict_ok pp paths ck'"
proof -
  obtain j where j: "path_judgment (pp_graphs pp) discharges op (of_operations (wd_facts (pp_world pp))) = Inr j"
    and ck': "ck_judged ck' = group_add op (r, j) (ck_judged ck)" "ck_checked ck' = ck_checked ck @ [op]"
      "ck_undischarged ck' = (if j_judgment j = UNGUARDED then ck_undischarged ck @ [op] else ck_undischarged ck)"
    using assms(1) by (auto simp: judge_strictly_def bind_result_eq_Inr)
  have here: "judged_on pp paths op r j"
    using assms(3-6) j by (auto simp: judged_on_def)
  let ?old = "or_default [] (map_of (ck_judged ck) op)"
  have old: "\<forall>(r, j) \<in> set ?old. judged_on pp paths op r j"
    "op \<in> set (ck_undischarged ck) \<longleftrightarrow> (\<exists>(r, j) \<in> set ?old. j_judgment j = UNGUARDED)"
    using assms(2) by (cases "map_of (ck_judged ck) op"; auto simp: strict_ok_def)+
  show ?thesis
    using assms(2) here old unfolding strict_ok_def ck' map_of_group_add
    by (auto simp: distinct_group_add)
qed

lemma check_path_strict:
  assumes "check_path pp True ck r = Inr ck'" "strict_ok pp paths ck" "r \<in> set paths"
  shows "strict_ok pp paths ck'"
proof (cases "length (path_irs pp r) \<noteq> length (needed_files pp r)")
  case True
  then show ?thesis using assms by (simp add: check_path_def)
next
  case False
  let ?ops = "operations_at (iv_operations (pp_inventory pp)) (target_of r)"
  obtain found where found: "check_obligations (wd_pattern_in (pp_world pp)) (dominates_of pp) (path_check pp r) = Inr found"
    "fold_result (judge_strictly pp r (or_discharges found)) (ck\<lparr>ck_degradations := ck_degradations ck @ or_degradations found\<rparr>) ?ops = Inr ck'"
    using assms(1) False by (auto simp: check_path_def bind_result_eq_Inr Let_def)
  show ?thesis
  proof (rule fold_result_invariant [OF found(2)])
    show "strict_ok pp paths (ck\<lparr>ck_degradations := ck_degradations ck @ or_degradations found\<rparr>)"
      using assms(2) by (simp add: strict_ok_def)
    show "strict_ok pp paths z" if "op \<in> set ?ops" "strict_ok pp paths x" "judge_strictly pp r (or_discharges found) x op = Inr z" for op x z
      using judge_strictly_ok [OF that(3,2) assms(3) that(1) found(1) refl] .
  qed
qed

lemma run_strict_ok:
  assumes "run_of w files max_depth True sv paths unreached pp ck"
  shows "strict_ok pp paths ck"
proof (rule fold_result_invariant [where P = "strict_ok pp paths"])
  show "fold_result (check_path pp True) (no_checks (iv_degradations (pp_inventory pp))) paths = Inr ck"
    using assms by (simp add: run_of_def)
  show "strict_ok pp paths (no_checks (iv_degradations (pp_inventory pp)))"
    by (simp add: strict_ok_def no_checks_def)
  show "strict_ok pp paths z" if "r \<in> set paths" "strict_ok pp paths x" "check_path pp True x r = Inr z" for r x z
    using check_path_strict [OF that(3,2,1)] .
qed

text \<open>The judgment of a path is complete, so one unguarded path decides the aggregate.\<close>

lemma path_judgment_is_complete:
  "path_judgment ctx discharges op facts = Inr j \<Longrightarrow> is_complete (j_completeness j)"
  by (auto simp: path_judgment_def prover_path_judgment_def bind_result_eq_Inr Let_def complete_value_def)

section \<open>What a strict finding rests on\<close>

definition finding_of :: "judged \<Rightarrow> ('e, 't) strict_finding \<Rightarrow> bool" where
  "finding_of x f \<longleftrightarrow> j_judgment (aggregate_of x) = UNGUARDED \<and> sf_missing f \<in> set (j_missing (aggregate_of x)) \<and>
     snd x \<noteq> [] \<and> (\<exists>calls entry trace. f = make_strict_finding (fst x) (fst (hd (snd x))) calls entry trace (sf_missing f))"

lemma finding_of_sel:
  assumes "finding_of x f"
  shows "sf_id f = finding_identity (fst x) (sf_missing f)" "sf_hops f = p_hops (fst (hd (snd x)))"
  using assms unfolding finding_of_def by (metis make_strict_finding_def strict_finding.select_convs)+

lemma set_set_default: "set (set_default k v d) \<subseteq> insert (k, v) (set d)"
  by (auto simp: set_default_def)

lemma fold_default_values:
  "(k, f) \<in> set (foldl (\<lambda>fs m. set_default (key m) (made m) fs) fs ms) \<Longrightarrow> (k, f) \<in> set fs \<or> (\<exists>m \<in> set ms. f = made m)"
proof (induction ms arbitrary: fs)
  case (Cons m ms)
  then show ?case using set_set_default [of "key m" "made m" fs] by fastforce
qed simp

lemma make_strict_finding_sel [simp]:
  "sf_missing (make_strict_finding op r calls entry trace k) = k"
  "sf_id (make_strict_finding op r calls entry trace k) = finding_identity op k"
  "sf_hops (make_strict_finding op r calls entry trace k) = p_hops r"
  by (simp_all add: make_strict_finding_def)

lemma emit_judged_values:
  assumes "emit_judged ctx fs x = Inr fs'" "(k, f) \<in> set fs'"
  shows "(k, f) \<in> set fs \<or> finding_of x f"
  using assms
  by (auto simp: emit_judged_def emit_unguarded_def finding_of_def aggregate_of_def
      split: list.splits option.splits if_splits dest!: fold_default_values) blast

lemma judgment_findings_values:
  assumes "judgment_findings ctx judged = Inr (findings, counts)"
  shows "\<forall>(k, f) \<in> set findings. \<exists>x \<in> set judged. finding_of x f"
    "counts = count_pair_judgments (map (j_judgment \<circ> aggregate_of) judged)"
proof -
  from assms have run: "fold_result (emit_judged ctx) [] judged = Inr findings"
    "counts = count_pair_judgments (map (j_judgment \<circ> aggregate_of) judged)"
    by (auto simp: judgment_findings_def bind_result_eq_Inr)
  show "\<forall>(k, f) \<in> set findings. \<exists>x \<in> set judged. finding_of x f"
    by (rule fold_result_invariant [where P = "\<lambda>fs. \<forall>(k, f) \<in> set fs. \<exists>x \<in> set judged. finding_of x f", OF run(1)])
      (auto dest: emit_judged_values)
  show "counts = count_pair_judgments (map (j_judgment \<circ> aggregate_of) judged)" by (fact run(2))
qed

lemma conclude_strict:
  assumes "conclude pp True langs counts paths unreached ck = Inr res"
  shows "f \<in> set (pv_findings res) \<Longrightarrow> \<exists>x \<in> set (ck_judged ck). finding_of x f"
    "co_pairs (pv_coverage res) = count_pair_judgments (map (j_judgment \<circ> aggregate_of) (ck_judged ck))"
    "co_checked (pv_coverage res) = int (length (remdups (ck_checked ck)))"
    "co_discharged (pv_coverage res) = int (length (filter (\<lambda>op. op \<notin> set (ck_undischarged ck)) (remdups (ck_checked ck))))"
  using assms by (auto simp: conclude_def bind_result_eq_Inr Let_def split: prod.splits dest: judgment_findings_values(1)
      judgment_findings_values(2)) (blast dest: judgment_findings_values(1))?

lemma aggregate_unguarded:
  assumes "\<forall>(r, j) \<in> set pairs. is_complete (j_completeness j)"
  shows "j_judgment (aggregate_of (op, pairs)) = UNGUARDED \<longleftrightarrow> (\<exists>(r, j) \<in> set pairs. j_judgment j = UNGUARDED)"
    "k \<in> set (j_missing (aggregate_of (op, pairs))) \<Longrightarrow> \<exists>(r, j) \<in> set pairs. j_judgment j = UNGUARDED \<and> k \<in> set (j_missing j)"
proof -
  let ?js = "map snd pairs"
  have c: "complete_unguarded j \<longleftrightarrow> j_judgment j = UNGUARDED" if "j \<in> set ?js" for j
    using assms that by (auto simp: complete_unguarded_def)
  have "(\<exists>j \<in> set ?js. complete_unguarded j) \<longleftrightarrow> (\<exists>(r, j) \<in> set pairs. j_judgment j = UNGUARDED)"
    using c by fastforce
  moreover have "j_judgment (aggregate_judgments ?js) = UNGUARDED \<longleftrightarrow> (\<exists>j \<in> set ?js. complete_unguarded j)"
    by (simp add: aggregate_judgments_def Let_def)
  ultimately show "j_judgment (aggregate_of (op, pairs)) = UNGUARDED \<longleftrightarrow> (\<exists>(r, j) \<in> set pairs. j_judgment j = UNGUARDED)"
    by (simp add: aggregate_of_def)
  show "\<exists>(r, j) \<in> set pairs. j_judgment j = UNGUARDED \<and> k \<in> set (j_missing j)" if "k \<in> set (j_missing (aggregate_of (op, pairs)))"
  proof -
    have "k \<in> set (concat (map j_missing (filter complete_unguarded ?js)))"
      using that by (simp add: aggregate_of_def aggregate_judgments_def Let_def split: if_splits)
    then obtain j where "j \<in> set ?js" "complete_unguarded j" "k \<in> set (j_missing j)" by auto
    then show ?thesis by (auto simp: complete_unguarded_def)
  qed
qed

section \<open>The two properties of the strict mode\<close>

lemma strict_pairs_complete:
  assumes "strict_ok pp paths ck" "map_of (ck_judged ck) op = Some pairs"
  shows "pairs \<noteq> []" "\<forall>(r, j) \<in> set pairs. judged_on pp paths op r j" "\<forall>(r, j) \<in> set pairs. is_complete (j_completeness j)"
proof -
  show all: "\<forall>(r, j) \<in> set pairs. judged_on pp paths op r j" "pairs \<noteq> []"
    using assms by (auto simp: strict_ok_def)
  show "\<forall>(r, j) \<in> set pairs. is_complete (j_completeness j)"
    using all(1) by (fastforce simp: judged_on_def dest: path_judgment_is_complete)
qed


lemma length_by_key:
  assumes "distinct (map fst d)"
  shows "length (filter (\<lambda>(k, v). Q k) d) = card {k \<in> dom (map_of d). Q k}"
proof -
  have "length (filter (\<lambda>(k, v). Q k) d) = length (filter Q (map fst d))" by (induction d) auto
  also have "\<dots> = card (set (filter Q (map fst d)))" using assms by (simp add: distinct_card del: set_filter)
  also have "set (filter Q (map fst d)) = {k \<in> dom (map_of d). Q k}" by (auto simp: dom_map_of_conv_image_fst)
  finally show ?thesis .
qed

lemma length_unguarded:
  assumes "strict_ok pp paths ck"
  shows "length (filter (\<lambda>x. j_judgment (aggregate_of x) = UNGUARDED) (ck_judged ck)) =
    card {op \<in> set (ck_checked ck). op \<in> set (ck_undischarged ck)}"
proof -
  have "j_judgment (aggregate_of (op, pairs)) = UNGUARDED \<longleftrightarrow> op \<in> set (ck_undischarged ck)"
    if "(op, pairs) \<in> set (ck_judged ck)" for op pairs
  proof -
    have m: "map_of (ck_judged ck) op = Some pairs" using that assms by (simp add: strict_ok_def)
    then show ?thesis
      using aggregate_unguarded(1) [OF strict_pairs_complete(3) [OF assms m]] assms by (simp add: strict_ok_def)
  qed
  then have "filter (\<lambda>x. j_judgment (aggregate_of x) = UNGUARDED) (ck_judged ck) =
      filter (\<lambda>(op, pairs). op \<in> set (ck_undischarged ck)) (ck_judged ck)"
    by (intro filter_cong) auto
  then show ?thesis
    using assms length_by_key [of "ck_judged ck" "\<lambda>op. op \<in> set (ck_undischarged ck)"] by (simp add: strict_ok_def)
qed


end
