(* ===== verification/ProverSample.thy ===== *)
theory ProverSample
  imports ProverSound
begin

text \<open>
  A small change proved end to end: one route handler that calls a function deleting an object, the function
  being what the change touched. The file on the checkout is real text, the second product file is empty.
\<close>

text \<open>Evaluation looks at an outcome before it looks at what follows.\<close>

declare bind_result_def [code_unfold]

section \<open>A change proved end to end\<close>

definition delete_call :: "int \<Rightarrow> call_site" where
  "delete_call line = \<lparr>cs_name = ''db.delete'', cs_line = line, cs_arg_texts = [''book''], cs_arg_constant = [False], cs_arg_names = [[''book'']],
     cs_extra_sequence = False, cs_order = 0, cs_receiver = Some ''db'', cs_arity = Some 1\<rparr>"

definition drop_call :: call_site where
  "drop_call = \<lparr>cs_name = ''drop'', cs_line = 3, cs_arg_texts = [''book''], cs_arg_constant = [False], cs_arg_names = [[''book'']],
     cs_extra_sequence = False, cs_order = 0, cs_receiver = None, cs_arity = Some 1\<rparr>"

definition remove_function :: function_ir where
  "remove_function = \<lparr>fn_name = ''remove'', fn_params = [''book''], fn_start = 2, fn_end = 3, fn_binds = [], fn_calls = [drop_call]\<rparr>"

definition drop_function :: function_ir where
  "drop_function = \<lparr>fn_name = ''drop'', fn_params = [''book''], fn_start = 5, fn_end = 6, fn_binds = [], fn_calls = [delete_call 6]\<rparr>"

definition guarded_fact :: operation_fact where
  "guarded_fact = delete_fact\<lparr>f_requires := [''path_guard'']\<rparr>"

definition sample_text :: string where
  "sample_text = join_with line_feed [''@app.get(/book)'', ''def remove(book):'', ''    drop(book)'', '''', ''def drop(book):'', ''    db.delete(book)'']"

definition remove_entry :: entry_point where
  "remove_entry = \<lparr>ep_path = ''a.py'', ep_line = Some 2, ep_function = Some ''remove'', ep_name = ''/book'', ep_kind = ''route'',
     ep_access = ''unknown'', ep_boundary = ''http_request'', ep_evidence = []\<rparr>"

definition sample_file :: file_ir where
  "sample_file = \<lparr>fi_path = ''a.py'', fi_language = ''python'', fi_engine = ''tree_sitter'', fi_functions = [remove_function, drop_function],
     fi_ok = True, fi_reason = None\<rparr>"

definition drop_operation :: operation where
  "drop_operation = \<lparr>o_path = ''a.py'', o_line = 6, o_function = ''drop'', o_kind = ''object_write'', o_fact_id = ''delete'',
     o_resource = None, o_requires = [''path_guard'']\<rparr>"

definition sample_declarations :: "source_file list" where
  "sample_declarations = [\<lparr>sf_module = ''a.py'', sf_scopes = [scope_at ''remove'' [''book''] None [], scope_at ''drop'' [''book''] None []],
     sf_class_bases = []\<rparr>]"

definition sample_world :: world where
  "sample_world = \<lparr>wd_head = Inr (), wd_products = [''a.py'', ''empty.py''], wd_configs = [],
     wd_read = (\<lambda>p. if p = ''a.py'' then Inr sample_text else Inl ''_Absent''),
     wd_language = (\<lambda>_. ''python''), wd_target = (\<lambda>_ _ _. Inr ()),
     wd_entries = (\<lambda>_. Inr [remove_entry]),
     wd_defines_handler = (\<lambda>_. True),
     wd_parse = (\<lambda>p. Inr sample_file),
     wd_safe_path = (\<lambda>_. Inr ()), wd_generated = (\<lambda>_. None),
     wd_declarations = Inr sample_declarations,
     wd_policy = None, wd_sha1 = (\<lambda>s. s), wd_enforcement = (\<lambda>_ _. Inr []), wd_nodes = (\<lambda>_. []), wd_limit = 100,
     wd_pattern_in = (\<lambda>_ _. False), wd_literal = (\<lambda>_. NotLiteral),
     wd_facts = \<lparr>of_version = ''1'', of_operations = [guarded_fact], of_dischargers = [], of_implications = []\<rparr>,
     wd_flow = \<lparr>sm_version = ''1'', sm_sources = []\<rparr>\<rparr>"

definition sample_change :: "changed_file list" where
  "sample_change = [\<lparr>ch_path = ''a.py'', ch_lines = [(6, 6)]\<rparr>]"

definition sample_inventory :: inventory where
  "sample_inventory = \<lparr>iv_reasons = [(''_Absent'', 1)], iv_failed = [''empty.py''],
     iv_irs = [(''a.py'', sample_file, sample_text)],
     iv_functions = [((''a.py'', ''remove''), remove_function), ((''a.py'', ''drop''), drop_function)],
     iv_operations = [((''a.py'', ''remove''), []), ((''a.py'', ''drop''), [drop_operation])],
     iv_degradations = [path_degradation ''empty.py'' ''_Absent'']\<rparr>"

definition sample_sv :: survey where
  "sample_sv = \<lparr>sv_entries = [remove_entry], sv_languages = [(''python'', 1)], sv_inventory = sample_inventory,
     sv_touched = [(''a.py'', ''drop'')], sv_index = build_index sample_declarations,
     sv_bindings = bind_calls [(''a.py'', [remove_function, drop_function])] (build_index sample_declarations),
     sv_targets = [(''a.py'', ''drop'')]\<rparr>"

definition sample_path :: path_record where
  "sample_path = \<lparr>p_hops = [(''a.py::remove'', Some 3), (''a.py::drop'', None)], p_entry = ''a.py::remove'', p_complete = True\<rparr>"

lemma sample_survey: "survey_change sample_world sample_change = Inr sample_sv"
  by code_simp

lemma sample_paths:
  "compose_paths (survey_callers sample_sv) (survey_entries sample_sv) (sv_targets sample_sv) 3 25 = Inr ([sample_path], [])"
  by code_simp

text \<open>The route that reaches the deletion is no handler obligation of its own.\<close>

lemma sample_handlers:
  "fold_result (drop_handler sample_world sample_inventory) (handlers_of_entries sample_world [remove_entry]) [sample_path] =
     Inr [''a.py'' \<mapsto> Map.empty]"
proof -
  have known: "framework_of sample_world remove_entry = ''python''" "ep_path remove_entry = ''a.py''" "entry_function remove_entry = ''remove''"
    "rpartition ''::'' (p_entry sample_path) = (''a.py'', ''remove'')"
    "operations_at (iv_operations sample_inventory) (target_of sample_path) = [drop_operation]"
    "o_fact_id drop_operation \<notin> handler_ids (wd_facts sample_world)"
    by code_simp+
  have "handlers_of_entries sample_world [remove_entry] = [''a.py'' \<mapsto> [''remove'' \<mapsto> ''python'']]"
    by (simp add: handlers_of_entries_def add_handler_def known)
  then show ?thesis by (simp add: drop_handler_def known handler_of_def)
qed

definition sample_prepared :: prepared where
  "sample_prepared = \<lparr>pp_world = sample_world, pp_inventory = sample_inventory, pp_entries = [remove_entry],
     pp_handlers = [''a.py'' \<mapsto> Map.empty], pp_touched = [(''a.py'', ''drop'')], pp_policy = None,
     pp_graphs = built_graphs sample_world [(''a.py'', sample_file, sample_text)], pp_ends = Map.empty, pp_extra = []\<rparr>"

lemma sample_prepare:
  "prepare sample_world (sv_entries sample_sv) (sv_touched sample_sv) [sample_path] [] (sv_inventory sample_sv) = Inr sample_prepared"
proof -
  have sv: "sv_entries sample_sv = [remove_entry]" "sv_inventory sample_sv = sample_inventory" "sv_touched sample_sv = [(''a.py'', ''drop'')]"
    by (simp_all add: sample_sv_def)
  have known: "settled_inventory sample_world [remove_entry] [''a.py'' \<mapsto> Map.empty] [sample_path] [] sample_inventory = sample_inventory"
    "foldl (enforced sample_world [remove_entry]) ([], iv_degradations sample_inventory) [''php'', ''python''] = ([], iv_degradations sample_inventory)"
    "wd_safe_path sample_world ''.openultrasast/obligations.toml'' = Inr ()"
    "load_declared_policy (wd_sha1 sample_world) (Inr (wd_facts sample_world)) (wd_policy sample_world) = Inr None"
    "handler_ends sample_world sample_inventory = Inr []"
    "iv_irs sample_inventory = [(''a.py'', sample_file, sample_text)]"
    by code_simp+
  show ?thesis
    by (simp only: sv prepare_def sample_handlers bind_result_simps known Let_def map_result.simps fst_conv snd_conv) (simp add: sample_prepared_def)
qed

definition sample_found :: obligation_result where
  "sample_found = projr (check_obligations (wd_pattern_in sample_world) (dominates_of sample_prepared) (path_check sample_prepared sample_path))"

lemma sample_check:
  "check_obligations (wd_pattern_in sample_world) (dominates_of sample_prepared) (path_check sample_prepared sample_path) = Inr sample_found"
  "or_discharges sample_found = []" "or_degradations sample_found = []"
proof -
  have found: "map_sum (\<lambda>e. e) (\<lambda>r. (or_discharges r, or_degradations r))
      (check_obligations (wd_pattern_in sample_world) (dominates_of sample_prepared) (path_check sample_prepared sample_path)) = Inr ([], [])"
    by code_simp
  then show "check_obligations (wd_pattern_in sample_world) (dominates_of sample_prepared) (path_check sample_prepared sample_path) = Inr sample_found"
    "or_discharges sample_found = []" "or_degradations sample_found = []"
    unfolding sample_found_def
    by (cases "check_obligations (wd_pattern_in sample_world) (dominates_of sample_prepared) (path_check sample_prepared sample_path)"; simp)+
qed

definition sample_start :: check_state where
  "sample_start = no_checks (iv_degradations sample_inventory)"

lemma sample_checked:
  "check_path sample_prepared True sample_start sample_path = judge_strictly sample_prepared sample_path [] sample_start drop_operation"
proof -
  have known: "length (path_irs sample_prepared sample_path) = length (needed_files sample_prepared sample_path)"
    "operations_at (iv_operations sample_inventory) (target_of sample_path) = [drop_operation]"
    by code_simp+
  have fields: "pp_world sample_prepared = sample_world" "pp_inventory sample_prepared = sample_inventory"
    by (simp_all add: sample_prepared_def)
  show ?thesis
    by (simp add: check_path_def known fields sample_check Let_def)
      (cases "judge_strictly sample_prepared sample_path [] sample_start drop_operation"; simp)
qed

definition sample_conclusion :: "check_state \<Rightarrow> prover_result result" where
  "sample_conclusion ck =
     conclude sample_prepared True (sv_languages sample_sv) (cl_counts (sv_bindings sample_sv)) [sample_path] [] ck"

lemma sample_result:
  "prove_change sample_world sample_change 3 True =
     bind_result (judge_strictly sample_prepared sample_path [] sample_start drop_operation) sample_conclusion"
proof -
  have start: "no_checks (iv_degradations (pp_inventory sample_prepared)) = sample_start"
    by (simp add: sample_prepared_def sample_start_def)
  show ?thesis
    by (simp add: prove_change_def sample_survey sample_paths sample_prepare start sample_checked bind_result_assoc
        sample_conclusion_def [abs_def])
qed

definition shown :: "prover_result \<Rightarrow> (hop list \<times> string \<times> string) list \<times> int \<times> int \<times> pair_judgment_counts" where
  "shown res = (map (\<lambda>f. (sf_hops f, sf_id f, sf_missing f)) (pv_findings res), co_checked (pv_coverage res),
     co_discharged (pv_coverage res), co_pairs (pv_coverage res))"

lemma sample_shown:
  "map_sum (\<lambda>e. e) shown (bind_result (judge_strictly sample_prepared sample_path [] sample_start drop_operation) sample_conclusion) =
     Inr ([(p_hops sample_path, ''obligation:object_write:a.py:6:path_guard'', ''path_guard'')], 1, 0,
       \<lparr>n_unguarded = 1, n_discharged = 0, n_indeterminate = 0\<rparr>)"
  by code_simp

lemma sample_proved:
  obtains res f where "prove_change sample_world sample_change 3 True = Inr res" "f \<in> set (pv_findings res)"
    "sf_hops f = p_hops sample_path" "sf_missing f = ''path_guard''" "co_checked (pv_coverage res) = 1" "co_discharged (pv_coverage res) = 0"
    "co_pairs (pv_coverage res) = \<lparr>n_unguarded = 1, n_discharged = 0, n_indeterminate = 0\<rparr>"
proof -
  obtain res where res: "prove_change sample_world sample_change 3 True = Inr res"
    "shown res = ([(p_hops sample_path, ''obligation:object_write:a.py:6:path_guard'', ''path_guard'')], 1, 0,
       \<lparr>n_unguarded = 1, n_discharged = 0, n_indeterminate = 0\<rparr>)"
    using sample_shown unfolding sample_result [symmetric] by (cases "prove_change sample_world sample_change 3 True") auto
  then obtain f where "pv_findings res = [f]" "sf_hops f = p_hops sample_path" "sf_missing f = ''path_guard''"
    by (auto simp: shown_def)
  with res show thesis by (intro that [of res f]) (auto simp: shown_def)
qed



section \<open>Two paths, one finding\<close>

text \<open>
  An operation reached twice, the first time discharged and the second time unguarded: the one finding names
  the hops of the first, discharged path, because the code reports \<open>pairs[0]\<close>, and not the path that decided.
\<close>

definition direct_path :: path_record where
  "direct_path = \<lparr>p_hops = [(''A.java::m'', None)], p_entry = ''A.java::m'', p_complete = True\<rparr>"

definition other_path :: path_record where
  "other_path = \<lparr>p_hops = [(''B.java::n'', Some 4), (''A.java::m'', None)], p_entry = ''B.java::n'', p_complete = True\<rparr>"

lemma finding_names_discharged_path:
  "j_judgment (projr (sample_judgment 2)) = DISCHARGED" "j_judgment (projr (sample_judgment 6)) = UNGUARDED"
  "map_sum (\<lambda>e. e) (map (sf_hops \<circ> snd) \<circ> fst)
     (judgment_findings sample_context
       [(sample_operation, [(direct_path, projr (sample_judgment 2)), (other_path, projr (sample_judgment 6))])]) =
     Inr [p_hops direct_path]"
  by code_simp+

end
