(* ===== verification/Json.thy ===== *)
theory Json
  imports PyValue
begin

text \<open>
  The JSON the program writes and reads back (\<open>json.dumps\<close> with sorted keys, \<open>json.loads\<close>), for characters below
  256. The writer has the parameters the source uses, the separators and \<open>ensure_ascii\<close>; the reader is the
  recursive descent of the decoder, with fuel for the nesting. A float is the text Python prints for it; the
  reader takes as an argument \<open>fl\<close> what is printed for the float a text denotes. An escape above 255 is outside
  the reader, which then gives no value.
\<close>

section \<open>Writing\<close>

record json_style =
  item_sep :: string
  key_sep :: string
  ascii_only :: bool

definition spaced :: json_style where
  "spaced = \<lparr>item_sep = '', '', key_sep = '': '', ascii_only = True\<rparr>"

definition compact :: "bool \<Rightarrow> json_style" where
  "compact ascii = \<lparr>item_sep = '','', key_sep = '':'', ascii_only = ascii\<rparr>"

definition backslash :: char where "backslash = CHR 0x5C"

definition quote_mark :: char where "quote_mark = CHR 0x22"

definition unicode_escape :: "nat \<Rightarrow> string" where
  "unicode_escape n = [backslash, CHR ''u'', CHR ''0'', CHR ''0'', hex_digit (n div 16), hex_digit (n mod 16)]"

definition escape_char :: "bool \<Rightarrow> char \<Rightarrow> string" where
  "escape_char ascii c = (let n = code c in
     if n = 34 \<or> n = 92 then [backslash, c]
     else if n = 10 then [backslash, CHR ''n''] else if n = 13 then [backslash, CHR ''r'']
     else if n = 9 then [backslash, CHR ''t''] else if n = 12 then [backslash, CHR ''f'']
     else if n = 8 then [backslash, CHR ''b'']
     else if n < 32 \<or> ascii \<and> 127 \<le> n then unicode_escape n
     else [c])"

definition json_string :: "bool \<Rightarrow> string \<Rightarrow> string" where
  "json_string ascii s = quote_mark # concat (map (escape_char ascii) s) @ [quote_mark]"

text \<open>\<open>float.__repr__\<close>, but the three floats that are not numbers have names of their own.\<close>

definition float_json :: "string \<Rightarrow> string" where
  "float_json s = (if s = ''nan'' then ''NaN'' else if s = ''inf'' then ''Infinity'' else if s = ''-inf'' then ''-Infinity'' else s)"

fun json_text :: "json_style \<Rightarrow> pyval \<Rightarrow> string" where
  "json_text st VNone = ''null''"
| "json_text st (VBool b) = (if b then ''true'' else ''false'')"
| "json_text st (VInt i) = show_int i"
| "json_text st (VFloat s) = float_json s"
| "json_text st (VStr s) = json_string (ascii_only st) s"
| "json_text st (VList xs) = ''['' @ join_with (item_sep st) (map (json_text st) xs) @ '']''"
| "json_text st (VDict d) =
     ''{'' @ join_with (item_sep st) (map (\<lambda>(k, v). json_string (ascii_only st) k @ key_sep st @ json_text st v) d) @ ''}''"

text \<open>\<open>sort_keys\<close>: by code points, at every level.\<close>

fun sorted_value :: "pyval \<Rightarrow> pyval" where
  "sorted_value (VList xs) = VList (map sorted_value xs)"
| "sorted_value (VDict d) = VDict (sort_key fst (map (\<lambda>(k, v). (k, sorted_value v)) d))"
| "sorted_value v = v"

definition dumps :: "json_style \<Rightarrow> pyval \<Rightarrow> string" where
  "dumps st v = json_text st (sorted_value v)"

section \<open>Reading\<close>

definition json_space :: "char \<Rightarrow> bool" where
  "json_space c \<longleftrightarrow> code c \<in> {32, 9, 10, 13}"

abbreviation skip_space :: "string \<Rightarrow> string" where
  "skip_space s \<equiv> dropWhile json_space s"

definition unescape :: "char \<Rightarrow> char option" where
  "unescape e = (let n = code e in
     if n = 34 \<or> n = 92 \<or> n = 47 then Some e
     else if e = CHR ''n'' then Some (char_of (10 :: nat)) else if e = CHR ''r'' then Some (char_of (13 :: nat))
     else if e = CHR ''t'' then Some (char_of (9 :: nat)) else if e = CHR ''f'' then Some (char_of (12 :: nat))
     else if e = CHR ''b'' then Some (char_of (8 :: nat))
     else None)"

definition hex_value :: "char \<Rightarrow> nat option" where
  "hex_value c = (let n = code c in
     if 48 \<le> n \<and> n \<le> 57 then Some (n - 48) else if 97 \<le> n \<and> n \<le> 102 then Some (n - 87)
     else if 65 \<le> n \<and> n \<le> 70 then Some (n - 55) else None)"

definition hex_char :: "char \<Rightarrow> char \<Rightarrow> char \<Rightarrow> char \<Rightarrow> char option" where
  "hex_char a b c d = (case (hex_value a, hex_value b, hex_value c, hex_value d) of
     (Some w, Some x, Some y, Some z) \<Rightarrow> if w = 0 \<and> x = 0 then Some (char_of (16 * y + z)) else None
   | _ \<Rightarrow> None)"

text \<open>The rest of a string literal; a control character inside it is an error.\<close>

fun read_string :: "string \<Rightarrow> string \<Rightarrow> (string \<times> string) option" where
  "read_string acc [] = None"
| "read_string acc (c # r) =
     (if c = quote_mark then Some (acc, r)
      else if c = backslash then (case r of
          [] \<Rightarrow> None
        | e # r' \<Rightarrow> (case unescape e of
            Some x \<Rightarrow> read_string (acc @ [x]) r'
          | None \<Rightarrow> (case r' of
              w # x # y # z # r'' \<Rightarrow> if e = CHR ''u''
                then (case hex_char w x y z of Some u \<Rightarrow> read_string (acc @ [u]) r'' | None \<Rightarrow> None) else None
            | _ \<Rightarrow> None)))
      else if code c < 32 then None
      else read_string (acc @ [c]) r)"

text \<open>A number is an integer part and then, where they are complete, a fraction and an exponent; with either it
  is a float.\<close>

definition whole_digits :: "string \<Rightarrow> string" where
  "whole_digits s =
     (let ds = takeWhile ascii_digit s in if ds \<noteq> [] \<and> hd ds = CHR ''0'' then ''0'' else ds)"

definition int_part :: "string \<Rightarrow> (string \<times> int \<times> string) option" where
  "int_part s =
     (let neg = starts_with ''-'' s; r = (if neg then tl s else s); t = whole_digits r in
      if t = [] then None
      else Some ((if neg then ''-'' else []) @ t, (if neg then - int (read_nat 0 t) else int (read_nat 0 t)), drop (length t) r))"

definition frac_part :: "string \<Rightarrow> string \<times> string" where
  "frac_part r =
     (let ds = takeWhile ascii_digit (tl r) in
      if starts_with ''.'' r \<and> ds \<noteq> [] then (CHR ''.'' # ds, dropWhile ascii_digit (tl r)) else ([], r))"

definition sign_char :: "char \<Rightarrow> bool" where
  "sign_char c \<longleftrightarrow> c = CHR ''+'' \<or> c = CHR ''-''"

definition exp_part :: "string \<Rightarrow> string \<times> string" where
  "exp_part r =
     (let sign = (case tl r of [] \<Rightarrow> [] | c # _ \<Rightarrow> if sign_char c then [c] else []);
          r' = drop (length sign) (tl r); ds = takeWhile ascii_digit r' in
      if (starts_with ''e'' r \<or> starts_with ''E'' r) \<and> ds \<noteq> [] then (hd r # sign @ ds, dropWhile ascii_digit r') else ([], r))"

definition read_number :: "(string \<Rightarrow> string) \<Rightarrow> string \<Rightarrow> (pyval \<times> string) option" where
  "read_number fl s =
     (case int_part s of
        None \<Rightarrow> None
      | Some (t, i, r) \<Rightarrow>
          let (f, r1) = frac_part r; (e, r2) = exp_part r1 in
          if f = [] \<and> e = [] then Some (VInt i, r) else Some (VFloat (fl (t @ f @ e)), r2))"

definition read_word :: "string \<Rightarrow> pyval \<Rightarrow> string \<Rightarrow> (pyval \<times> string) option" where
  "read_word w v s = (if starts_with w s then Some (v, drop (length w) s) else None)"

definition dict_of :: "table \<Rightarrow> table" where
  "dict_of items = foldl (\<lambda>d (k, v). dict_set k v d) [] items"

fun read_value :: "(string \<Rightarrow> string) \<Rightarrow> nat \<Rightarrow> string \<Rightarrow> (pyval \<times> string) option"
and read_items :: "(string \<Rightarrow> string) \<Rightarrow> nat \<Rightarrow> string \<Rightarrow> (pyval list \<times> string) option"
and read_members :: "(string \<Rightarrow> string) \<Rightarrow> nat \<Rightarrow> string \<Rightarrow> (table \<times> string) option" where
  "read_value fl 0 s = None"
| "read_value fl (Suc n) s =
     (case s of
        [] \<Rightarrow> None
      | c # r \<Rightarrow>
          if c = quote_mark then map_option (\<lambda>(t, r). (VStr t, r)) (read_string [] r)
          else if c = CHR ''['' then
            (if starts_with '']'' (skip_space r) then Some (VList [], tl (skip_space r))
             else map_option (\<lambda>(xs, r). (VList xs, r)) (read_items fl n (skip_space r)))
          else if c = CHR ''{'' then
            (if starts_with ''}'' (skip_space r) then Some (VDict [], tl (skip_space r))
             else map_option (\<lambda>(d, r). (VDict (dict_of d), r)) (read_members fl n (skip_space r)))
          else if c = CHR ''n'' then read_word ''null'' VNone s
          else if c = CHR ''t'' then read_word ''true'' (VBool True) s
          else if c = CHR ''f'' then read_word ''false'' (VBool False) s
          else if c = CHR ''N'' then read_word ''NaN'' (VFloat ''nan'') s
          else if c = CHR ''I'' then read_word ''Infinity'' (VFloat ''inf'') s
          else if starts_with ''-Infinity'' s then read_word ''-Infinity'' (VFloat ''-inf'') s
          else read_number fl s)"
| "read_items fl 0 s = None"
| "read_items fl (Suc n) s =
     (case read_value fl n s of
        None \<Rightarrow> None
      | Some (v, r) \<Rightarrow> (case skip_space r of
          [] \<Rightarrow> None
        | c # r' \<Rightarrow> if c = CHR '']'' then Some ([v], r')
            else if c = CHR '','' then map_option (\<lambda>(vs, r). (v # vs, r)) (read_items fl n (skip_space r'))
            else None))"
| "read_members fl 0 s = None"
| "read_members fl (Suc n) s =
     (case s of
        [] \<Rightarrow> None
      | q # r \<Rightarrow> if q \<noteq> quote_mark then None else (case read_string [] r of
          None \<Rightarrow> None
        | Some (k, r) \<Rightarrow> (case skip_space r of
            [] \<Rightarrow> None
          | c # r' \<Rightarrow> if c \<noteq> CHR '':'' then None else (case read_value fl n (skip_space r') of
              None \<Rightarrow> None
            | Some (v, r) \<Rightarrow> (case skip_space r of
                [] \<Rightarrow> None
              | c # r' \<Rightarrow> if c = CHR ''}'' then Some ([(k, v)], r')
                  else if c = CHR '','' then map_option (\<lambda>(d, r). ((k, v) # d, r)) (read_members fl n (skip_space r'))
                  else None)))))"

definition loads :: "(string \<Rightarrow> string) \<Rightarrow> string \<Rightarrow> pyval option" where
  "loads fl s =
     (case read_value fl (2 * length s + 2) (skip_space s) of
        Some (v, r) \<Rightarrow> if skip_space r = [] then Some v else None
      | None \<Rightarrow> None)"

section \<open>Reading back what was written\<close>

lemma code_char_of [simp]: "n < 256 \<Longrightarrow> code (char_of n) = n"
  by (simp add: code_def)

lemma code_less [simp]: "code c < 256"
  by (metis code_def of_char_mod_256 mod_less_divisor zero_less_numeral)

lemma char_of_code [simp]: "char_of (code c) = c"
  by (simp add: code_def)

lemma code_inject: "c = d \<longleftrightarrow> code c = code d"
  by (metis char_of_code)

lemma code_marks [simp]:
  "code quote_mark = 34" "code backslash = 92" "code (CHR ''u'') = 117" "code (CHR ''n'') = 110" "code (CHR ''r'') = 114"
  "code (CHR ''t'') = 116" "code (CHR ''f'') = 102" "code (CHR ''b'') = 98" "code (CHR '','') = 44" "code (CHR '']'') = 93"
  "code (CHR ''}'') = 125" "code (CHR ''['') = 91" "code (CHR ''{'') = 123" "code (CHR '':'') = 58" "code (CHR ''.'') = 46"
  "code (CHR ''e'') = 101" "code (CHR ''E'') = 69" "code (CHR ''-'') = 45" "code (CHR '' '') = 32" "code (CHR ''0'') = 48"
  "code (CHR ''N'') = 78" "code (CHR ''I'') = 73"
  by (simp_all add: code_def quote_mark_def backslash_def)

lemma unescape_pairs:
  "code c = 34 \<or> code c = 92 \<Longrightarrow> unescape c = Some c"
  "unescape (CHR ''n'') = Some (char_of (10 :: nat))" "unescape (CHR ''r'') = Some (char_of (13 :: nat))"
  "unescape (CHR ''t'') = Some (char_of (9 :: nat))" "unescape (CHR ''f'') = Some (char_of (12 :: nat))"
  "unescape (CHR ''b'') = Some (char_of (8 :: nat))" "unescape (CHR ''u'') = None"
  by (auto simp: unescape_def Let_def)

lemma less_16: "n < 16 \<longleftrightarrow> n \<in> set [0..<16]" for n :: nat
  by simp

lemma hex_value_digit: "n < 16 \<Longrightarrow> hex_value (hex_digit n) = Some n"
proof -
  have "\<forall>n \<in> set [0..<16]. hex_value (hex_digit n) = Some n" by code_simp
  then show "n < 16 \<Longrightarrow> hex_value (hex_digit n) = Some n" by simp
qed

lemma hex_char_escape: "n < 256 \<Longrightarrow> hex_char (CHR ''0'') (CHR ''0'') (hex_digit (n div 16)) (hex_digit (n mod 16)) = Some (char_of n)"
proof -
  assume n: "n < 256"
  have "hex_value (CHR ''0'') = Some 0" by code_simp
  moreover have "hex_value (hex_digit (n div 16)) = Some (n div 16)" "hex_value (hex_digit (n mod 16)) = Some (n mod 16)"
    using n by (auto intro: hex_value_digit)
  ultimately show ?thesis by (simp add: hex_char_def)
qed

text \<open>What one character is written as: a short escape, a numeric escape, or itself.\<close>

lemma escape_cases:
  obtains (short) e where "escape_char ascii c = [backslash, e]" "unescape e = Some c"
  | (numeric) "escape_char ascii c = unicode_escape (code c)"
  | (plain) "escape_char ascii c = [c]" "c \<noteq> quote_mark" "c \<noteq> backslash" "32 \<le> code c"
proof -
  have same: "char_of k = c" if "code c = k" for k using that by auto
  consider "code c = 34 \<or> code c = 92" | "code c = 10" | "code c = 13" | "code c = 9" | "code c = 12" | "code c = 8"
    | "code c \<notin> {34, 92, 10, 13, 9, 12, 8}" by auto
  then show thesis
  proof cases
    case 1 then show thesis using short [of c] by (auto simp: escape_char_def unescape_pairs(1))
  next
    case 2 then show thesis using short [of "CHR ''n''"] by (simp add: escape_char_def unescape_pairs same)
  next
    case 3 then show thesis using short [of "CHR ''r''"] by (simp add: escape_char_def unescape_pairs same)
  next
    case 4 then show thesis using short [of "CHR ''t''"] by (simp add: escape_char_def unescape_pairs same)
  next
    case 5 then show thesis using short [of "CHR ''f''"] by (simp add: escape_char_def unescape_pairs same)
  next
    case 6 then show thesis using short [of "CHR ''b''"] by (simp add: escape_char_def unescape_pairs same)
  next
    case 7
    then show thesis
      using numeric plain by (cases "code c < 32 \<or> ascii \<and> 127 \<le> code c") (auto simp: escape_char_def code_inject)
  qed
qed

lemma read_escaped: "read_string acc (escape_char ascii c @ r) = read_string (acc @ [c]) r"
proof (cases ascii c rule: escape_cases)
  case (short e)
  then show ?thesis by (simp add: code_inject)
next
  case numeric
  then show ?thesis by (simp add: unicode_escape_def code_inject unescape_pairs hex_char_escape)
next
  case plain
  then show ?thesis by simp
qed

lemma read_string_text: "read_string acc (concat (map (escape_char ascii) s) @ quote_mark # r) = Some (acc @ s, r)"
  by (induction s arbitrary: acc) (simp_all add: read_escaped)

text \<open>What may follow a value: nothing a number could go on with.\<close>

definition ends_value :: "string \<Rightarrow> bool" where
  "ends_value r \<longleftrightarrow> (case r of [] \<Rightarrow> True | c # _ \<Rightarrow> \<not> ascii_digit c \<and> \<not> sign_char c \<and> c \<notin> {CHR ''.'', CHR ''e'', CHR ''E''})"

lemma show_nat_head: "n \<noteq> 0 \<Longrightarrow> hd (show_nat n) \<noteq> CHR ''0''"
proof (induction n rule: show_nat.induct)
  case (1 n)
  have "digit k \<noteq> CHR ''0''" if "0 < k" "k < 10" for k using that by (simp add: code_inject code_digit)
  moreover have "show_nat m \<noteq> []" for m by (subst show_nat.simps) simp
  ultimately show ?case using 1 by (subst show_nat.simps) auto
qed

lemma ends_digits: "ends_value r \<Longrightarrow> takeWhile ascii_digit (ds @ r) = takeWhile ascii_digit ds"
  "ends_value r \<Longrightarrow> dropWhile ascii_digit (ds @ r) = dropWhile ascii_digit ds @ r"
  by (induction ds) (cases r; simp add: ends_value_def)+

lemma show_nat_ne [simp]: "show_nat n \<noteq> []"
  by (subst show_nat.simps) simp

lemma show_nat_start: "\<exists>c cs. show_nat n = c # cs \<and> ascii_digit c"
  using show_nat_digits [of _ n] show_nat_ne [of n] by (metis list.exhaust list.set_intros(1))

lemma minus_mark [simp]: "\<not> ascii_digit (CHR ''-'')" "\<not> ascii_digit (CHR ''.'')"
  by code_simp+

lemma whole_digits_append: "ends_value r \<Longrightarrow> whole_digits (s @ r) = whole_digits s"
  by (simp add: whole_digits_def ends_digits)

lemma whole_digits_Nil [simp]: "whole_digits [] = []"
  by (simp add: whole_digits_def)

lemma whole_digits_length: "length (whole_digits s) \<le> length s"
proof -
  have "length (takeWhile ascii_digit s) \<le> length s" by (rule length_takeWhile_le)
  then show ?thesis by (cases s) (auto simp: whole_digits_def Let_def)
qed

lemma whole_digits_start: "whole_digits s = c # cs \<Longrightarrow> s = c # tl s \<and> ascii_digit c"
  by (cases s) (auto simp: whole_digits_def Let_def split: if_splits)

lemma int_part_append:
  assumes "int_part s = Some (t, i, q)" "ends_value r"
  shows "int_part (s @ r) = Some (t, i, q @ r)"
proof -
  obtain c u where s: "s = c # u" using assms(1) by (cases s) (auto simp: int_part_def starts_with_def)
  then show ?thesis
    using assms whole_digits_length [of u] whole_digits_length [of s] whole_digits_append [of r u] whole_digits_append [of r s]
    by (cases "c = CHR ''-''") (auto simp: int_part_def Let_def starts_with_def simp del: append_Cons simp flip: append_Cons split: if_splits)
qed

lemma frac_part_append:
  assumes "ends_value r"
  shows "frac_part (q @ r) = (fst (frac_part q), snd (frac_part q) @ r)"
proof (cases q)
  case Nil
  then show ?thesis using assms by (cases r) (auto simp: frac_part_def starts_with_def ends_value_def)
qed (use assms in \<open>simp add: frac_part_def starts_with_def ends_digits Let_def\<close>)

lemma exp_part_append:
  assumes "ends_value r"
  shows "exp_part (q @ r) = (fst (exp_part q), snd (exp_part q) @ r)"
proof (cases q)
  case Nil
  then show ?thesis using assms by (cases r) (auto simp: exp_part_def starts_with_def ends_value_def Let_def)
next
  case (Cons c q')
  have "takeWhile ascii_digit r = []" "r = [] \<or> \<not> sign_char (hd r)"
    using assms by (cases r; simp add: ends_value_def)+
  then show ?thesis using assms Cons
    by (cases q'; cases r) (auto simp: exp_part_def starts_with_def ends_digits Let_def)
qed

text \<open>A number is read the same whatever follows it.\<close>

lemma read_number_append:
  assumes "read_number fl s = Some (v, q)" "ends_value r"
  shows "read_number fl (s @ r) = Some (v, q @ r)"
  using assms by (cases "int_part s")
    (auto simp: read_number_def int_part_append frac_part_append exp_part_append case_prod_unfold Let_def split: if_splits)

lemma parts_Nil [simp]: "frac_part [] = ([], [])" "exp_part [] = ([], [])"
  by (simp_all add: frac_part_def exp_part_def starts_with_def)

lemma whole_digits_show [simp]: "whole_digits (show_nat n) = show_nat n"
proof -
  have takes: "takeWhile ascii_digit (show_nat n) = show_nat n" using show_nat_digits [of _ n] by simp
  have "show_nat n = ''0''" if "hd (show_nat n) = CHR ''0''"
    using that show_nat_head [of n] by (cases "n = 0") (simp_all add: show_nat.simps code_inject code_digit)
  then show ?thesis unfolding whole_digits_def Let_def takes by auto
qed

lemma int_part_show: "int_part (show_int i) = Some (show_int i, i, [])"
proof -
  have "\<not> starts_with ''-'' (show_nat n)" for n
    using show_nat_start [of n] by (auto simp: starts_with_def)
  then show ?thesis
    by (cases "i < 0") (simp_all add: int_part_def show_int_def Let_def starts_with_def read_show_nat)
qed

lemma read_number_show: "ends_value r \<Longrightarrow> read_number fl (show_int i @ r) = Some (VInt i, r)"
  using read_number_append [of fl "show_int i" "VInt i" "[]" r] by (simp add: read_number_def int_part_show)

lemma show_int_start: "\<exists>c cs. show_int i = c # cs \<and> (c = CHR ''-'' \<or> ascii_digit c)"
proof (cases "i < 0")
  case False
  then show ?thesis using show_nat_start [of "nat i"] by (auto simp: show_int_def)
qed (simp add: show_int_def)

lemma int_part_start: "int_part s = Some (t, i, q) \<Longrightarrow> whole_digits (if starts_with ''-'' s then tl s else s) \<noteq> []"
  by (auto simp: int_part_def Let_def split: if_splits)

lemma number_start:
  assumes "read_number fl s = Some (v, q)"
  shows "\<exists>c cs. s = c # cs \<and> (c = CHR ''-'' \<or> ascii_digit c)"
proof -
  obtain t i q where "int_part s = Some (t, i, q)" using assms by (auto simp: read_number_def split: option.splits)
  from int_part_start [OF this] show ?thesis
    using whole_digits_start [of s] by (cases s; cases "whole_digits s") (auto simp: starts_with_def split: if_splits)
qed

lemma not_infinity:
  assumes "read_number fl s = Some (v, q)"
  shows "\<not> starts_with ''-Infinity'' (s @ r)"
proof -
  obtain t i q where "int_part s = Some (t, i, q)" using assms by (auto simp: read_number_def split: option.splits)
  note digits = int_part_start [OF this]
  have "\<not> ascii_digit (CHR ''I'')" by code_simp
  then show ?thesis
    using digits whole_digits_start [of s] whole_digits_start [of "tl s"] number_start [OF assms]
    by (cases "whole_digits (tl s)"; cases s; cases "tl s") (auto simp: starts_with_def split: if_splits)
qed

lemma number_read:
  assumes "read_number fl s = Some (v, [])" "ends_value r"
  shows "read_value fl (Suc n) (s @ r) = Some (v, r)"
proof -
  obtain c cs where c: "s = c # cs" "c = CHR ''-'' \<or> ascii_digit c" using number_start [OF assms(1)] by blast
  have "c \<noteq> quote_mark" "c \<noteq> CHR ''[''" "c \<noteq> CHR ''{''" "c \<noteq> CHR ''n''" "c \<noteq> CHR ''t''" "c \<noteq> CHR ''f''"
    "c \<noteq> CHR ''N''" "c \<noteq> CHR ''I''"
    using c(2) by (auto simp: code_inject ascii_digit_def Let_def)
  then show ?thesis
    using read_number_append [OF assms] not_infinity [OF assms(1), of r] c(1) by simp
qed

lemma float_json_number: "read_number fl s = Some (v, q) \<Longrightarrow> float_json s = s"
proof -
  assume s: "read_number fl s = Some (v, q)"
  have "whole_digits ''inf'' = []" by code_simp
  then have "read_number fl ''-inf'' = None" by (simp add: read_number_def int_part_def starts_with_def)
  then show ?thesis using s number_start [OF s] by (auto simp: float_json_def ascii_digit_def code_def)
qed

text \<open>How the text of a value starts.\<close>

fun plain :: "(string \<Rightarrow> string) \<Rightarrow> pyval \<Rightarrow> bool" where
  "plain fl (VFloat s) \<longleftrightarrow> read_number fl s = Some (VFloat s, [])"
| "plain fl (VList xs) = list_all (plain fl) xs"
| "plain fl (VDict d) = (distinct (map fst d) \<and> list_all (\<lambda>(k, v). plain fl v) d)"
| "plain fl v = True"

definition style_ok :: "json_style \<Rightarrow> bool" where
  "style_ok st \<longleftrightarrow> item_sep st \<in> {'','', '', ''} \<and> key_sep st \<in> {'':'', '': ''}"

definition value_start :: "char \<Rightarrow> bool" where
  "value_start c \<longleftrightarrow> \<not> json_space c \<and> c \<noteq> CHR '']'' \<and> c \<noteq> CHR ''}'' \<and> c \<noteq> CHR '',''"

lemma value_start_simps [simp]:
  "value_start (CHR ''n'')" "value_start (CHR ''t'')" "value_start (CHR ''f'')" "value_start quote_mark" "value_start (CHR ''['')"
  "value_start (CHR ''{'')" "value_start (CHR ''-'')"
  by code_simp+

lemma value_start_digit: "ascii_digit c \<Longrightarrow> value_start c"
  by (auto simp: value_start_def json_space_def ascii_digit_def code_inject Let_def)

lemma text_start:
  assumes "plain fl v"
  shows "\<exists>c cs. json_text st v = c # cs \<and> value_start c"
proof (cases v)
  case (VInt i)
  then show ?thesis using show_int_start [of i] by (auto simp: value_start_digit)
next
  case (VFloat s)
  then have "read_number fl s = Some (VFloat s, [])" using assms by simp
  from number_start [OF this] float_json_number [OF this] show ?thesis using VFloat value_start_digit by fastforce
qed (use assms in \<open>simp_all add: json_string_def\<close>)

lemma read_word_append: "read_word w v (w @ r) = Some (v, r)"
  by (simp add: read_word_def starts_with_def)

lemma dict_of_distinct: "distinct (map fst d) \<Longrightarrow> dict_of d = d"
proof -
  have step: "dict_set k v d = d @ [(k, v)]" if "k \<notin> fst ` set d" for k v and d :: table
    using that by (induction k v d rule: dict_set.induct) auto
  have "foldl (\<lambda>d (k, v). dict_set k v d) e d = e @ d" if "distinct (map fst (e @ d))" for e
    using that
  proof (induction d arbitrary: e)
    case (Cons x d)
    then show ?case using step [of "fst x" e "snd x"] by (cases x) auto
  qed simp
  from this [of "[]"] show "distinct (map fst d) \<Longrightarrow> dict_of d = d" by (simp add: dict_of_def)
qed

lemma skip_value_start: "value_start c \<Longrightarrow> skip_space (c # cs) = c # cs"
  by (simp add: value_start_def)

lemma skip_text: "plain fl v \<Longrightarrow> skip_space (json_text st v @ r) = json_text st v @ r"
  using text_start [of fl v st] by (auto simp: value_start_def)

lemma not_space [simp]: "\<not> json_space (CHR '','')" "\<not> json_space (CHR '']'')" "\<not> json_space (CHR ''}'')" "\<not> json_space (CHR '':'')"
  "json_space (CHR '' '')"
  by code_simp+

lemma skip_sep:
  assumes "style_ok st"
  shows "\<exists>t. item_sep st @ r = CHR '','' # t \<and> skip_space t = skip_space r" "\<exists>t. key_sep st @ r = CHR '':'' # t \<and> skip_space t = skip_space r"
  using assms by (auto simp: style_ok_def)

lemma ends_value_marks [simp]: "ends_value []" "ends_value (CHR '','' # r)" "ends_value (CHR '']'' # r)" "ends_value (CHR ''}'' # r)"
proof -
  have "\<not> ascii_digit (CHR '','')" "\<not> ascii_digit (CHR '']'')" "\<not> ascii_digit (CHR ''}'')"
    "\<not> sign_char (CHR '','')" "\<not> sign_char (CHR '']'')" "\<not> sign_char (CHR ''}'')" by code_simp+
  then show "ends_value []" "ends_value (CHR '','' # r)" "ends_value (CHR '']'' # r)" "ends_value (CHR ''}'' # r)"
    by (simp_all add: ends_value_def)
qed

lemma sep_nonempty: "style_ok st \<Longrightarrow> item_sep st \<noteq> [] \<and> key_sep st \<noteq> []"
  by (auto simp: style_ok_def)

text \<open>What reads one value reads a sequence of them.\<close>

definition reads :: "(string \<Rightarrow> string) \<Rightarrow> json_style \<Rightarrow> pyval \<Rightarrow> bool" where
  "reads fl st v \<longleftrightarrow> (\<forall>n r. 2 * length (json_text st v) \<le> n \<longrightarrow> ends_value r \<longrightarrow> read_value fl n (json_text st v @ r) = Some (v, r))"

lemma read_items_text:
  assumes "style_ok st" "xs \<noteq> []" "\<forall>x \<in> set xs. plain fl x \<and> reads fl st x"
    "2 * length (join_with (item_sep st) (map (json_text st) xs)) < n"
  shows "read_items fl n (join_with (item_sep st) (map (json_text st) xs) @ CHR '']'' # r) = Some (xs, r)"
  using assms(2-)
proof (induction xs arbitrary: n)
  case (Cons x xs)
  then obtain m where n: "n = Suc m" by (cases n) auto
  show ?case
  proof (cases xs)
    case Nil
    then have "read_value fl m (json_text st x @ CHR '']'' # r) = Some (x, CHR '']'' # r)"
      using Cons.prems n by (auto simp: reads_def)
    then show ?thesis using Nil n by simp
  next
    case (Cons y ys)
    let ?rest = "join_with (item_sep st) (map (json_text st) xs)"
    have join: "join_with (item_sep st) (map (json_text st) (x # xs)) = json_text st x @ item_sep st @ ?rest"
      by (simp add: Cons)
    have len: "2 * (length (json_text st x) + length (item_sep st) + length ?rest) < Suc m"
      using Cons.prems(3) unfolding n join by simp
    obtain t where t: "item_sep st @ ?rest @ CHR '']'' # r = CHR '','' # t" "skip_space t = skip_space (?rest @ CHR '']'' # r)"
      using skip_sep(1) [OF assms(1)] by blast
    have "read_value fl m (json_text st x @ CHR '','' # t) = Some (x, CHR '','' # t)"
      using Cons.prems(2) len by (auto simp: reads_def)
    moreover have "read_items fl m (?rest @ CHR '']'' # r) = Some (xs, r)"
      using Cons.IH [of m] Cons.prems(2) len sep_nonempty [OF assms(1)] Cons by (cases "item_sep st") auto
    moreover have "skip_space (?rest @ CHR '']'' # r) = ?rest @ CHR '']'' # r"
      using skip_text [of fl y st] Cons.prems(2) by (cases ys) (auto simp: Cons)
    ultimately show ?thesis unfolding join append_assoc t(1) n by (simp add: t(2) del: append.append_Cons)
  qed
qed simp

definition member_text :: "json_style \<Rightarrow> string \<times> pyval \<Rightarrow> string" where
  "member_text st kv = json_string (ascii_only st) (fst kv) @ key_sep st @ json_text st (snd kv)"

lemma member_start: "\<exists>cs. member_text st kv @ r = quote_mark # cs"
  by (simp add: member_text_def json_string_def)

lemma read_member:
  assumes "style_ok st" "plain fl v" "reads fl st v" "2 * length (member_text st (k, v)) \<le> m" "ends_value r"
  shows "\<exists>q r' c t. member_text st (k, v) @ r = q # r' \<and> q = quote_mark \<and> read_string [] r' = Some (k, c # t) \<and> c = CHR '':'' \<and>
    \<not> json_space c \<and> read_value fl m (skip_space t) = Some (v, r)"
proof -
  obtain t where t: "key_sep st @ json_text st v @ r = CHR '':'' # t" "skip_space t = json_text st v @ r"
    using skip_sep(2) [OF assms(1)] skip_text [OF assms(2)] by metis
  have "member_text st (k, v) @ r =
      quote_mark # concat (map (escape_char (ascii_only st)) k) @ quote_mark # CHR '':'' # t"
    by (simp add: member_text_def json_string_def t(1))
  moreover have "read_value fl m (json_text st v @ r) = Some (v, r)"
    using assms(3-5) by (auto simp: reads_def member_text_def)
  ultimately show ?thesis by (simp add: read_string_text t(2))
qed

lemma read_members_text:
  assumes "style_ok st" "d \<noteq> []" "\<forall>(k, v) \<in> set d. plain fl v \<and> reads fl st v"
    "2 * length (join_with (item_sep st) (map (member_text st) d)) < n"
  shows "read_members fl n (join_with (item_sep st) (map (member_text st) d) @ CHR ''}'' # r) = Some (d, r)"
  using assms(2-)
proof (induction d arbitrary: n)
  case (Cons x d)
  then obtain m where n: "n = Suc m" by (cases n) auto
  obtain k v where x: "x = (k, v)" by fastforce
  have v: "plain fl v" "reads fl st v" using Cons.prems(2) x by auto
  show ?case
  proof (cases d)
    case Nil
    then have "2 * length (member_text st (k, v)) \<le> m" using Cons.prems(3) n x by simp
    from read_member [OF assms(1) v this, of "CHR ''}'' # r"] obtain r' t where
      "member_text st (k, v) @ CHR ''}'' # r = quote_mark # r'" "read_string [] r' = Some (k, CHR '':'' # t)"
      "read_value fl m (skip_space t) = Some (v, CHR ''}'' # r)" by auto
    then show ?thesis using Nil n x by simp
  next
    case (Cons y ys)
    let ?rest = "join_with (item_sep st) (map (member_text st) d)"
    have join: "join_with (item_sep st) (map (member_text st) (x # d)) = member_text st (k, v) @ item_sep st @ ?rest"
      by (simp add: Cons x)
    have len: "2 * (length (member_text st (k, v)) + length (item_sep st) + length ?rest) < Suc m"
      using Cons.prems(3) unfolding n join by simp
    obtain t where t: "item_sep st @ ?rest @ CHR ''}'' # r = CHR '','' # t" "skip_space t = skip_space (?rest @ CHR ''}'' # r)"
      using skip_sep(1) [OF assms(1)] by blast
    have "2 * length (member_text st (k, v)) \<le> m" using len by simp
    from read_member [OF assms(1) v this, of "CHR '','' # t"] obtain r' u where
      first: "member_text st (k, v) @ CHR '','' # t = quote_mark # r'" "read_string [] r' = Some (k, CHR '':'' # u)"
      "read_value fl m (skip_space u) = Some (v, CHR '','' # t)" by auto
    have "read_members fl m (?rest @ CHR ''}'' # r) = Some (d, r)"
      using Cons.IH [of m] Cons.prems(2) len sep_nonempty [OF assms(1)] Cons by (cases "item_sep st") auto
    moreover have "skip_space (?rest @ CHR ''}'' # r) = ?rest @ CHR ''}'' # r"
    proof -
      obtain cs where "?rest @ CHR ''}'' # r = quote_mark # cs"
        using member_start [of st y] by (cases ys) (auto simp: Cons)
      then show ?thesis using skip_value_start [of quote_mark cs] by simp
    qed
    ultimately show ?thesis unfolding join append_assoc t(1) n first(1) by (simp add: first x t(2))
  qed
qed simp

lemma json_text_VDict: "json_text st (VDict d) = CHR ''{'' # join_with (item_sep st) (map (member_text st) d) @ ''}''"
  by (simp add: member_text_def [abs_def] case_prod_unfold)

lemma reads_plain:
  assumes "style_ok st"
  shows "plain fl v \<Longrightarrow> reads fl st v"
proof (induction v)
  case VNone
  then show ?case unfolding reads_def
  proof (intro allI impI)
    fix n r assume "2 * length (json_text st VNone) \<le> n"
    then obtain m where "n = Suc m" by (cases n) auto
    then show "read_value fl n (json_text st VNone @ r) = Some (VNone, r)"
      using read_word_append [of "''null''" VNone r] by (simp add: code_inject)
  qed
next
  case (VBool b)
  show ?case unfolding reads_def
  proof (intro allI impI)
    fix n r assume "2 * length (json_text st (VBool b)) \<le> n"
    then obtain m where "n = Suc m" by (cases n) (auto split: if_splits)
    then show "read_value fl n (json_text st (VBool b) @ r) = Some (VBool b, r)"
      using read_word_append [of "''true''" "VBool True" r] read_word_append [of "''false''" "VBool False" r] by (simp add: code_inject)
  qed
next
  case (VInt i)
  show ?case unfolding reads_def
  proof (intro allI impI)
    fix n r assume len: "2 * length (json_text st (VInt i)) \<le> n" and r: "ends_value r"
    then obtain m where "n = Suc m" using show_int_start [of i] by (cases n) auto
    then show "read_value fl n (json_text st (VInt i) @ r) = Some (VInt i, r)"
      using number_read [OF _ r, of fl "show_int i"] read_number_show [of "[]" fl i] by simp
  qed
next
  case (VFloat s)
  then have s: "read_number fl s = Some (VFloat s, [])" by simp
  show ?case unfolding reads_def
  proof (intro allI impI)
    fix n r assume len: "2 * length (json_text st (VFloat s)) \<le> n" and r: "ends_value r"
    then obtain m where "n = Suc m" using number_start [OF s] by (cases n) (auto simp: float_json_number [OF s])
    then show "read_value fl n (json_text st (VFloat s) @ r) = Some (VFloat s, r)"
      using number_read [OF s r] by (simp add: float_json_number [OF s])
  qed
next
  case (VStr s)
  show ?case unfolding reads_def
  proof (intro allI impI)
    fix n r assume "2 * length (json_text st (VStr s)) \<le> n"
    then obtain m where "n = Suc m" by (cases n) (auto simp: json_string_def)
    then show "read_value fl n (json_text st (VStr s) @ r) = Some (VStr s, r)"
      by (simp add: json_string_def read_string_text)
  qed
next
  case (VList xs)
  then have xs: "\<forall>x \<in> set xs. plain fl x \<and> reads fl st x" by (simp add: list_all_iff)
  show ?case unfolding reads_def
  proof (intro allI impI)
    fix n r assume len: "2 * length (json_text st (VList xs)) \<le> n"
    then obtain m where n: "n = Suc m" by (cases n) auto
    have marks: "CHR ''['' \<noteq> quote_mark" by (simp add: code_inject)
    show "read_value fl n (json_text st (VList xs) @ r) = Some (VList xs, r)"
    proof (cases xs)
      case Nil
      then show ?thesis using n marks by (simp add: starts_with_def)
    next
      case (Cons y ys)
      obtain c cs where c: "json_text st y = c # cs" "value_start c" using text_start [of fl y st] xs Cons by auto
      let ?body = "join_with (item_sep st) (map (json_text st) xs) @ CHR '']'' # r"
      obtain bs where b: "?body = c # bs" using c(1) by (cases ys) (auto simp: Cons)
      have "read_items fl m ?body = Some (xs, r)"
        using read_items_text [OF assms _ xs, of m r] Cons len n by simp
      moreover have "\<not> starts_with '']'' (skip_space ?body)" "skip_space ?body = ?body"
        using c(2) unfolding b by (simp_all add: value_start_def starts_with_def)
      ultimately show ?thesis using n marks by simp
    qed
  qed
next
  case (VDict d)
  then have d: "\<forall>(k, v) \<in> set d. plain fl v \<and> reads fl st v" "distinct (map fst d)"
    by (auto simp: list_all_iff snds.simps)
  show ?case unfolding reads_def
  proof (intro allI impI)
    fix n r assume len: "2 * length (json_text st (VDict d)) \<le> n"
    then obtain m where n: "n = Suc m" by (cases n) auto
    have marks: "CHR ''{'' \<noteq> quote_mark" by (simp add: code_inject)
    show "read_value fl n (json_text st (VDict d) @ r) = Some (VDict d, r)"
    proof (cases d)
      case Nil
      then show ?thesis using n marks by (simp add: starts_with_def)
    next
      case (Cons y ys)
      let ?body = "join_with (item_sep st) (map (member_text st) d) @ CHR ''}'' # r"
      obtain bs where b: "?body = quote_mark # bs" using member_start [of st y] by (cases ys) (auto simp: Cons)
      have "read_members fl m ?body = Some (d, r)"
        using read_members_text [OF assms _ d(1), of m r] Cons len n unfolding json_text_VDict by simp
      moreover have "\<not> starts_with ''}'' (skip_space ?body)" "skip_space ?body = ?body"
        unfolding b using skip_value_start [of quote_mark bs] by (simp_all add: starts_with_def code_inject)
      ultimately show ?thesis using n marks unfolding json_text_VDict by (simp add: dict_of_distinct d(2))
    qed
  qed
qed

text \<open>Sorting the keys keeps a value within the reader, and does nothing the second time.\<close>

lemma plain_sorted: "plain fl v \<Longrightarrow> plain fl (sorted_value v)"
proof (induction v)
  case (VList xs)
  then show ?case by (simp add: list_all_iff)
next
  case (VDict d)
  then have "\<forall>(k, v) \<in> set d. plain fl (sorted_value v)" by (fastforce simp: list_all_iff snds.simps)
  moreover have "distinct (map fst (sort_key fst e))" if "distinct (map fst e)" for e :: table
    using that by (simp add: distinct_map)
  ultimately show ?case using VDict.prems by (simp add: list_all_iff case_prod_unfold comp_def)
qed simp_all

lemma loads_dumps: "plain fl v \<Longrightarrow> style_ok st \<Longrightarrow> loads fl (dumps st v) = Some (sorted_value v)"
proof -
  assume v: "plain fl v" and st: "style_ok st"
  let ?w = "sorted_value v"
  have w: "plain fl ?w" by (rule plain_sorted [OF v])
  have "read_value fl (2 * length (json_text st ?w) + 2) (json_text st ?w @ []) = Some (?w, [])"
    using reads_plain [OF st w] unfolding reads_def by (metis ends_value_marks(1) le_add1)
  then show ?thesis using skip_text [OF w, of st "[]"] by (simp add: loads_def dumps_def)
qed

text \<open>Values that are written alike are alike, up to the order of their keys.\<close>

lemma dumps_inject: "plain fl v \<Longrightarrow> plain fl w \<Longrightarrow> style_ok st \<Longrightarrow> dumps st v = dumps st w \<longleftrightarrow> sorted_value v = sorted_value w"
  by (metis dumps_def loads_dumps option.inject)

lemma sorted_value_idem [simp]: "sorted_value (sorted_value v) = sorted_value v"
proof (induction v)
  case (VDict d)
  define e where "e = sort_key fst (map (\<lambda>(k, v). (k, sorted_value v)) d)"
  have "sorted_value v = v" if "(k, v) \<in> set e" for k v
    using that VDict by (auto simp: e_def snds.simps)
  then have "map (\<lambda>(k, v). (k, sorted_value v)) e = e"
    by (intro map_idI) (auto split: prod.splits)
  moreover have "sort_key fst e = e"
    by (rule sort_key_id_if_sorted) (simp add: e_def)
  ultimately show ?case by (simp add: e_def)
qed simp_all

text \<open>With \<open>ensure_ascii\<close> the text has printable ASCII characters only.\<close>

definition printable :: "char \<Rightarrow> bool" where
  "printable c \<longleftrightarrow> 32 \<le> code c \<and> code c < 127"

lemma printable_marks [simp]: "printable quote_mark" "printable backslash" "printable (CHR '','')" "printable (CHR '':'')" "printable (CHR '' '')"
  "printable (CHR ''['')" "printable (CHR '']'')" "printable (CHR ''{'')" "printable (CHR ''}'')" "printable (CHR ''-'')" "printable (CHR ''.'')"
  "printable (CHR ''u'')" "printable (CHR ''0'')" "printable (CHR ''e'')" "printable (CHR ''E'')" "printable (CHR ''+'')"
  "printable (CHR ''n'')" "printable (CHR ''l'')" "printable (CHR ''t'')" "printable (CHR ''r'')" "printable (CHR ''f'')"
  "printable (CHR ''a'')" "printable (CHR ''s'')" "printable (CHR ''b'')"
  by code_simp+

lemma printable_digit: "ascii_digit c \<Longrightarrow> printable c"
  by (simp add: ascii_digit_def printable_def Let_def)

lemma printable_hex: "n < 16 \<Longrightarrow> printable (hex_digit n)"
proof -
  have "\<forall>n \<in> set [0..<16]. printable (hex_digit n)" by code_simp
  then show "n < 16 \<Longrightarrow> printable (hex_digit n)" by simp
qed

lemma printable_escape: "c \<in> set (escape_char True d) \<Longrightarrow> printable c"
proof -
  have "printable (hex_digit (code d div 16))" "printable (hex_digit (code d mod 16))"
    using code_less [of d] by (simp_all add: printable_hex less_mult_imp_div_less)
  moreover assume "c \<in> set (escape_char True d)"
  ultimately show ?thesis
    by (auto simp: escape_char_def Let_def unicode_escape_def split: if_splits) (auto simp: printable_def)
qed

lemma printable_string: "c \<in> set (json_string True s) \<Longrightarrow> printable c"
  by (auto simp: json_string_def dest: printable_escape)

text \<open>The parts of a number are its text.\<close>

lemma whole_digits_take: "s = whole_digits s @ drop (length (whole_digits s)) s" "c \<in> set (whole_digits s) \<Longrightarrow> ascii_digit c"
proof -
  have take: "s = takeWhile ascii_digit s @ drop (length (takeWhile ascii_digit s)) s"
    by (metis dropWhile_eq_drop takeWhile_dropWhile_id)
  have "ascii_digit (CHR ''0'')" by code_simp
  then show "c \<in> set (whole_digits s) \<Longrightarrow> ascii_digit c"
    by (auto simp: whole_digits_def Let_def dest: set_takeWhileD split: if_splits)
  show "s = whole_digits s @ drop (length (whole_digits s)) s"
    using take by (cases s) (auto simp: whole_digits_def Let_def split: if_splits)
qed

lemma int_part_text: "int_part s = Some (t, i, q) \<Longrightarrow> s = t @ q \<and> (\<forall>c \<in> set t. printable c)"
  using whole_digits_take(1) [of s] whole_digits_take(1) [of "tl s"] whole_digits_take(2) [of _ s] whole_digits_take(2) [of _ "tl s"]
  by (cases s) (auto simp: int_part_def Let_def starts_with_def printable_digit split: if_splits)

lemma frac_part_text: "q = fst (frac_part q) @ snd (frac_part q)" "c \<in> set (fst (frac_part q)) \<Longrightarrow> printable c"
  by (cases q; auto simp: frac_part_def starts_with_def Let_def printable_digit dest: set_takeWhileD split: if_splits)+

lemma exp_part_text: "q = fst (exp_part q) @ snd (exp_part q)" "c \<in> set (fst (exp_part q)) \<Longrightarrow> printable c"
proof -
  have "printable c" if "sign_char c" for c using that by (auto simp: sign_char_def)
  then show "q = fst (exp_part q) @ snd (exp_part q)" "c \<in> set (fst (exp_part q)) \<Longrightarrow> printable c"
    by (cases q; cases "tl q"; auto simp: exp_part_def starts_with_def Let_def printable_digit dest: set_takeWhileD split: if_splits)+
qed

lemma printable_number: "read_number fl s = Some (VFloat s, []) \<Longrightarrow> c \<in> set s \<Longrightarrow> printable c"
proof -
  assume s: "read_number fl s = Some (VFloat s, [])" and c: "c \<in> set s"
  then obtain t i q where t: "int_part s = Some (t, i, q)" by (auto simp: read_number_def split: option.splits)
  then have "s = t @ fst (frac_part q) @ fst (exp_part (snd (frac_part q)))"
    using s int_part_text [OF t] frac_part_text(1) [of q] exp_part_text(1) [of "snd (frac_part q)"]
    by (auto simp: read_number_def case_prod_unfold Let_def split: if_splits)
  then show "printable c" using c int_part_text [OF t] frac_part_text(2) exp_part_text(2) by (metis Un_iff set_append)
qed

lemma set_join_with: "c \<in> set (join_with sep xs) \<Longrightarrow> c \<in> set sep \<or> (\<exists>x \<in> set xs. c \<in> set x)"
  by (induction sep xs rule: join_with.induct) auto

lemma printable_text:
  assumes "style_ok st" "ascii_only st"
  shows "plain fl v \<Longrightarrow> c \<in> set (json_text st v) \<Longrightarrow> printable c"
proof (induction v arbitrary: c)
  case (VInt i)
  have "printable c" if "c \<in> set (show_nat n)" for n using that show_nat_digits printable_digit by blast
  then show ?case using VInt by (auto simp: show_int_def split: if_splits)
next
  case (VFloat s)
  then show ?case using printable_number [of fl s c] float_json_number [of fl s] by simp
next
  case (VStr s)
  then show ?case using assms(2) printable_string by simp
next
  case (VList xs)
  have "printable c" if "c \<in> set (item_sep st)" for c using that assms(1) by (auto simp: style_ok_def)
  then show ?case using VList by (auto simp: list_all_iff dest!: set_join_with)
next
  case (VDict d)
  have sep: "printable c" if "c \<in> set (item_sep st) \<union> set (key_sep st)" for c using that assms(1) by (auto simp: style_ok_def)
  have "printable c" if "x \<in> set d" "c \<in> set (member_text st x)" for x c
    using that VDict sep printable_string [of c "fst x"] assms(2)
    by (fastforce simp: member_text_def list_all_iff snds.simps)
  then show ?case using VDict.prems(2) sep unfolding json_text_VDict by (auto dest!: set_join_with)
qed (auto split: if_splits simp: list_all_iff)

end
