(* ===== verification/MemoryStore.thy ===== *)
theory MemoryStore
  imports Json
begin

text \<open>
  The plane's memory store (\<open>plane/memory.py\<close>, class \<open>MemoryStore\<close> on the file backend): blobs by content and
  rows by repository and pin. The state is the objects by key, in the order they were first written, and the free
  space of the disk. An operation gives its value or its exception, and the state it leaves. The arguments
  \<open>library\<close> stand for what is printed for the float of a text, for \<open>urlsplit\<close> (host name and path), for the SHA-256
  text, and for what is printed for a float plus one.
\<close>

section \<open>The objects\<close>

record memory =
  mm_objects :: "(string \<times> string) list"
  mm_free :: int

record library =
  lib_float :: "string \<Rightarrow> string"
  lib_url :: "string \<Rightarrow> (string \<times> string) result"
  lib_sha :: "string \<Rightarrow> string"
  lib_succ :: "string \<Rightarrow> string"

type_synonym 'a step = "memory \<Rightarrow> 'a result \<times> memory"

definition bind_step :: "'a step \<Rightarrow> ('a \<Rightarrow> 'b step) \<Rightarrow> 'b step" where
  "bind_step s f m = (case s m of (Inl e, m') \<Rightarrow> (Inl e, m') | (Inr x, m') \<Rightarrow> f x m')"

definition give :: "'a result \<Rightarrow> 'a step" where
  "give r m = (r, m)"

fun fold_step :: "('a \<Rightarrow> unit step) \<Rightarrow> 'a list \<Rightarrow> unit step" where
  "fold_step f [] = give (Inr ())"
| "fold_step f (x # xs) = bind_step (f x) (\<lambda>_. fold_step f xs)"

definition store_get :: "string \<Rightarrow> memory \<Rightarrow> string option" where
  "store_get key m = map_of (mm_objects m) key"

definition store_put :: "string \<Rightarrow> string \<Rightarrow> unit step" where
  "store_put key data m = (Inr (), m\<lparr>mm_objects := dict_set key data (mm_objects m)\<rparr>)"

definition store_delete :: "string \<Rightarrow> unit step" where
  "store_delete key m = (Inr (), m\<lparr>mm_objects := filter (\<lambda>(k, _). k \<noteq> key) (mm_objects m)\<rparr>)"

definition store_keys :: "string \<Rightarrow> memory \<Rightarrow> string list" where
  "store_keys prefix m = sort (filter (\<lambda>k. starts_with prefix k \<and> \<not> starts_with ''.'' (path_name k)) (map fst (mm_objects m)))"

definition check_space :: "unit step" where
  "check_space m = (if mm_free m < 2 ^ 30 then Inl (RuntimeError ''refusing to write the memory store'') else Inr (), m)"

definition memory_error :: "string \<Rightarrow> 'a result" where
  "memory_error text = Inl (RuntimeError text)"

section \<open>Blobs\<close>

definition lower_letter :: "char \<Rightarrow> bool" where
  "lower_letter c \<longleftrightarrow> 97 \<le> code c \<and> code c \<le> 122"

definition blob_char :: "char \<Rightarrow> bool" where
  "blob_char c \<longleftrightarrow> ascii_letter c \<or> ascii_digit c \<or> c = CHR ''.'' \<or> c = CHR ''_'' \<or> c = CHR ''-''"

definition hex_char_low :: "char \<Rightarrow> bool" where
  "hex_char_low c \<longleftrightarrow> ascii_digit c \<or> 97 \<le> code c \<and> code c \<le> 102"

definition blob_prefix_match :: "string \<Rightarrow> bool" where
  "blob_prefix_match p =
     (let r = dropWhile lower_letter p in
      takeWhile lower_letter p \<noteq> [] \<and> (r = [] \<or> hd r = CHR ''/'' \<and> tl r \<noteq> [] \<and> list_all blob_char (tl r)))"

definition blob_name_match :: "string \<Rightarrow> bool" where
  "blob_name_match s \<longleftrightarrow> length s = 64 \<and> list_all hex_char_low s"

definition blob_suffix :: "string \<Rightarrow> string" where
  "blob_suffix folder = (if folder = ''excerpts'' then ''.txt'' else if folder = ''labels'' then ''.jsonl'' else ''.json'')"

definition blob_key :: "string \<Rightarrow> string \<Rightarrow> string result" where
  "blob_key prefix name =
     (let folder = before_char (CHR ''/'') prefix in
      if \<not> blob_prefix_match prefix \<or> contains_text ''..'' prefix \<or> folder \<in> {''repos'', ''facts'', ''index.jsonl''}
      then memory_error ''not a blob prefix of the layout''
      else if \<not> blob_name_match name then memory_error ''not a 64-hex sha256''
      else Inr (prefix @ ''/'' @ name @ blob_suffix folder))"

definition put_blob :: "library \<Rightarrow> string \<Rightarrow> string \<Rightarrow> string option \<Rightarrow> string step" where
  "put_blob L prefix data name m =
     (let name = (case name of Some n \<Rightarrow> if n = [] then lib_sha L data else n | None \<Rightarrow> lib_sha L data) in
      bind_step (give (blob_key prefix name)) (\<lambda>key m.
        (if store_get key m = None
         then bind_step check_space (\<lambda>_. bind_step (store_put key data) (\<lambda>_. give (Inr name))) m
         else (Inr name, m))) m)"

definition get_blob :: "library \<Rightarrow> string \<Rightarrow> string \<Rightarrow> bool \<Rightarrow> string option step" where
  "get_blob L prefix name verify m =
     bind_step (give (blob_key prefix name)) (\<lambda>key m. case store_get key m of
         None \<Rightarrow> (Inr None, m)
       | Some data \<Rightarrow>
           if verify \<and> lib_sha L data \<noteq> name then bind_step (store_delete key) (\<lambda>_. give (Inr None)) m
           else (Inr (Some data), m)) m"

definition put_facts :: "library \<Rightarrow> string \<Rightarrow> string step" where
  "put_facts L data m =
     (let sha = lib_sha L data; key = ''facts/'' @ sha @ ''.json'' in
      if store_get key m = None
      then bind_step check_space (\<lambda>_. bind_step (store_put key data) (\<lambda>_. give (Inr sha))) m
      else (Inr sha, m))"

definition get_facts :: "library \<Rightarrow> string \<Rightarrow> string option step" where
  "get_facts L sha m =
     (let key = ''facts/'' @ sha @ ''.json'' in
      case store_get key m of
        None \<Rightarrow> (Inr None, m)
      | Some data \<Rightarrow>
          if lib_sha L data \<noteq> sha then bind_step (store_delete key) (\<lambda>_. give (Inr None)) m
          else (Inr (Some data), m))"

definition remove_suffix :: "string \<Rightarrow> string \<Rightarrow> string" where
  "remove_suffix suffix s = (if suffix \<noteq> [] \<and> ends_with suffix s then take (length s - length suffix) s else s)"

definition count_char :: "char \<Rightarrow> string \<Rightarrow> nat" where
  "count_char c s = length (filter (\<lambda>d. d = c) s)"

definition blob_names :: "string \<Rightarrow> memory \<Rightarrow> string list result" where
  "blob_names prefix m =
     bind_result (blob_key prefix (replicate 64 (CHR ''0''))) (\<lambda>_.
       let suffix = blob_suffix (before_char (CHR ''/'') prefix) in
       Inr (sort (map (\<lambda>k. remove_suffix suffix (after_last (\<lambda>c. c = CHR ''/'') k))
         (filter (\<lambda>k. count_char (CHR ''/'') k = count_char (CHR ''/'') prefix + 1) (store_keys (prefix @ ''/'') m)))))"

section \<open>Rows\<close>

definition row_kinds :: "string list" where
  "row_kinds = [''facts'', ''verdict'', ''unit_cost'', ''alert'', ''coverage'', ''proposal_outcome'', ''features'', ''label'',
     ''decision'', ''experiment'', ''arm_outcome'', ''experiment_result'', ''example'']"

definition row_fields :: "string list" where
  "row_fields = [''id'', ''kind'', ''repo'', ''pin'', ''run'', ''task'', ''population'', ''split'', ''image'']"

definition query_fields :: "string \<Rightarrow> string list" where
  "query_fields kind =
     (if kind = ''facts'' then [''candidates_digest''] else if kind = ''verdict'' then [''candidate'', ''final'']
      else if kind = ''example'' then [''profile''] else [])"

definition queryable :: "string list" where
  "queryable = sorted_set (filter (\<lambda>f. f \<notin> set row_fields) (concat (map query_fields row_kinds)))"

definition pin_match :: "string \<Rightarrow> bool" where
  "pin_match s \<longleftrightarrow> length s = 40 \<and> list_all hex_char_low s"

definition text_field :: "table \<Rightarrow> string \<Rightarrow> string option" where
  "text_field row f = (case map_of row f of Some (VStr s) \<Rightarrow> if s = [] then None else Some s | _ \<Rightarrow> None)"

definition field_text :: "table \<Rightarrow> string \<Rightarrow> string" where
  "field_text row f = (case map_of row f of Some (VStr s) \<Rightarrow> s | _ \<Rightarrow> [])"

definition validate_row :: "pyval \<Rightarrow> table result" where
  "validate_row v = (case v of
     VDict row \<Rightarrow>
       if \<exists>f \<in> set row_fields. text_field row f = None then memory_error ''missing or empty fields''
       else if field_text row ''kind'' \<notin> set row_kinds then memory_error ''unknown kind''
       else if \<not> pin_match (field_text row ''pin'') then memory_error ''pin is not a 40-hex commit''
       else Inr row
   | _ \<Rightarrow> memory_error ''a row must be a JSON object'')"

definition fill_field :: "table \<Rightarrow> string \<Rightarrow> table result" where
  "fill_field row f = (case value_of row f of
     VNone \<Rightarrow> Inr (dict_set f (VStr []) row)
   | VStr s \<Rightarrow> Inr row
   | _ \<Rightarrow> memory_error ''queryable field must be a string'')"

definition normalise_row :: "table \<Rightarrow> table result" where
  "normalise_row row = fold_result fill_field row queryable"

text \<open>\<open>text.rstrip("/").removesuffix(".git").strip("/")\<close> of the text without its scheme.\<close>

definition repo_key :: "library \<Rightarrow> string \<Rightarrow> string result" where
  "repo_key L repo =
     (let text = strip repo; slash = (\<lambda>c. c = CHR ''/'') in
      bind_result (if contains_text ''://'' text then map_sum id (\<lambda>(host, path). host @ path) (lib_url L text) else Inr text)
        (\<lambda>text. let text = lstrip_by slash (rstrip_by slash (remove_suffix ''.git'' (rstrip_by slash text))) in
          if text = [] then Inl (ValueError ''not a repository'') else Inr text))"

definition repo_dir :: "library \<Rightarrow> string \<Rightarrow> string result" where
  "repo_dir L repo = map_sum id (\<lambda>key. concat (map (\<lambda>c. if c = CHR ''/'' then ''__'' else [c]) key)) (repo_key L repo)"

definition newline :: char where "newline = char_of (10 :: nat)"

definition row_line :: "table \<Rightarrow> string" where
  "row_line row = dumps (compact True) (VDict row)"

definition rows_text :: "table list \<Rightarrow> string" where
  "rows_text rows = concat (map (\<lambda>r. row_line r @ [newline]) rows)"

text \<open>UTF-8 for the characters of the model: one byte below 128, two below 256.\<close>

fun utf8_decode :: "string \<Rightarrow> string result" where
  "utf8_decode [] = Inr []"
| "utf8_decode (c # s) =
     (if code c < 128 then map_sum id ((#) c) (utf8_decode s)
      else case s of
          d # s' \<Rightarrow> if code c \<in> {194, 195} \<and> 128 \<le> code d \<and> code d < 192
            then map_sum id ((#) (char_of (64 * (code c - 192) + (code d - 128)))) (utf8_decode s')
            else Inl (ValueError ''utf-8'')
        | [] \<Rightarrow> Inl (ValueError ''utf-8''))"

definition parse_line :: "library \<Rightarrow> string \<Rightarrow> table result" where
  "parse_line L raw = (case loads (lib_float L) raw of
     None \<Rightarrow> memory_error ''not JSON''
   | Some (VDict row) \<Rightarrow> Inr row
   | Some _ \<Rightarrow> memory_error ''not a JSON object'')"

definition parse_lines :: "library \<Rightarrow> string \<Rightarrow> table list result" where
  "parse_lines L data =
     bind_result (utf8_decode data) (\<lambda>text. map_result (parse_line L) (filter (\<lambda>raw. strip raw \<noteq> []) (split_lines text)))"

definition id_of :: "table \<Rightarrow> string result" where
  "id_of row = (case map_of row ''id'' of None \<Rightarrow> Inl (KeyError ''id'') | Some v \<Rightarrow> Inr (py_str v))"

type_synonym rows_by_id = "(string \<times> table) list"

text \<open>The object of a row, and the rows of a call by object and id; a repeated id keeps the last row.\<close>

definition object_key :: "library \<Rightarrow> table \<Rightarrow> string result" where
  "object_key L row = map_sum id (\<lambda>d. ''repos/'' @ d @ ''/'' @ field_text row ''pin'' @ ''.jsonl'') (repo_dir L (field_text row ''repo''))"

definition add_row :: "library \<Rightarrow> (string \<times> rows_by_id) list \<Rightarrow> table \<Rightarrow> (string \<times> rows_by_id) list result" where
  "add_row L groups row =
     bind_result (validate_row (VDict row)) (\<lambda>row. bind_result (normalise_row row) (\<lambda>row.
       bind_result (object_key L row) (\<lambda>key.
         let group = (case map_of groups key of None \<Rightarrow> [] | Some g \<Rightarrow> g) in
         Inr (dict_set key (dict_set (field_text row ''id'') row group) groups))))"

definition stored_row :: "rows_by_id \<Rightarrow> table \<Rightarrow> rows_by_id result" where
  "stored_row merged row = bind_result (id_of row) (\<lambda>i. bind_result (normalise_row row) (\<lambda>r. Inr (dict_set i r merged)))"

definition put_group :: "library \<Rightarrow> string \<times> rows_by_id \<Rightarrow> unit step" where
  "put_group L = (\<lambda>(key, new) m.
     bind_step
       (give (case store_get key m of
          None \<Rightarrow> Inr []
        | Some data \<Rightarrow> bind_result (parse_lines L data) (\<lambda>rows. fold_result stored_row [] rows)))
       (\<lambda>merged. store_put key (rows_text (map snd (sort_key fst (foldl (\<lambda>d (i, r). dict_set i r d) merged new))))) m)"

definition put_rows :: "library \<Rightarrow> table list \<Rightarrow> unit step" where
  "put_rows L rows =
     bind_step (give (fold_result (add_row L) [] rows)) (\<lambda>groups.
       bind_step (if groups = [] then give (Inr ()) else check_space) (\<lambda>_.
         fold_step (put_group L) (sort_key fst groups)))"

definition drop_rows :: "library \<Rightarrow> string \<Rightarrow> string \<Rightarrow> string list \<Rightarrow> nat step" where
  "drop_rows L repo pin ids =
     bind_step (give (repo_dir L repo)) (\<lambda>d m.
       let key = ''repos/'' @ d @ ''/'' @ pin @ ''.jsonl'' in
       case store_get key m of
         None \<Rightarrow> (Inr 0, m)
       | Some data \<Rightarrow>
           if ids = [] then (Inr 0, m)
           else bind_step (give (bind_result (parse_lines L data) (\<lambda>rows.
                  bind_result (map_result (\<lambda>r. bind_result (id_of r) (\<lambda>i. if i \<in> set ids then Inr None else map_sum id Some (normalise_row r))) rows)
                    (\<lambda>kept. Inr (length rows, List.map_filter id kept)))))
                (\<lambda>(n, kept).
                  if length kept = n then give (Inr 0)
                  else bind_step (if kept \<noteq> [] then store_put key (rows_text kept) else store_delete key) (\<lambda>_. give (Inr (n - length kept)))) m)"

text \<open>The filter of a read; a value of a query is a text or null.\<close>

type_synonym query = "(string \<times> string option) list"

definition check_query :: "string option \<Rightarrow> query \<Rightarrow> unit result" where
  "check_query kind q =
     (if (case kind of Some k \<Rightarrow> k \<notin> set row_kinds | None \<Rightarrow> False) then memory_error ''rows: unknown kind''
      else if \<not> fst ` set q \<subseteq> set row_fields \<union> (case kind of Some k \<Rightarrow> set (query_fields k) | None \<Rightarrow> set queryable)
      then memory_error ''rows: where fields are not queryable''
      else if \<exists>(f, v) \<in> set q. v = None then memory_error ''rows: null never matches''
      else Inr ())"

definition row_matches :: "query \<Rightarrow> table \<Rightarrow> bool" where
  "row_matches q row = list_all (\<lambda>(f, v). case v of Some s \<Rightarrow> map_of row f = Some (VStr s) | None \<Rightarrow> value_of row f = VNone) q"

record row_record =
  rr_row :: table
  rr_key :: string
  rr_version :: string

definition select_rows :: "library \<Rightarrow> memory \<Rightarrow> query \<Rightarrow> string \<Rightarrow> row_record list result" where
  "select_rows L m wanted key = (case store_get key m of
     None \<Rightarrow> Inr []
   | Some data \<Rightarrow> bind_result (parse_lines L data) (\<lambda>rows.
       bind_result (map_result (\<lambda>r. map_sum id (\<lambda>i. (i, r)) (id_of r)) (filter (row_matches wanted) rows)) (\<lambda>keyed.
         Inr (map (\<lambda>(_, r). \<lparr>rr_row = r, rr_key = key, rr_version = ''sha256:'' @ lib_sha L data\<rparr>) (sort_key fst keyed)))))"

definition read_rows :: "library \<Rightarrow> string option \<Rightarrow> string option \<Rightarrow> string option \<Rightarrow> query \<Rightarrow> memory \<Rightarrow> row_record list result" where
  "read_rows L repo pin kind q m =
     bind_result (check_query kind q) (\<lambda>_.
       bind_result (case repo of Some r \<Rightarrow> if r = [] then Inr ''repos/'' else map_sum id (\<lambda>d. ''repos/'' @ d @ ''/'') (repo_dir L r) | None \<Rightarrow> Inr ''repos/'')
         (\<lambda>prefix.
           let keys = filter (\<lambda>k. ends_with ''.jsonl'' k \<and> (case pin of None \<Rightarrow> True | Some p \<Rightarrow> ends_with (''/'' @ p @ ''.jsonl'') k)) (store_keys prefix m);
               wanted = (case kind of Some k \<Rightarrow> if k = [] then q else dict_set ''kind'' (Some k) q | None \<Rightarrow> q) in
           map_sum id concat (map_result (select_rows L m wanted) keys)))"

section \<open>Ingest, and the rewrite to the schema\<close>

record ingest_result =
  in_run :: string
  in_task :: string
  in_rows :: nat
  in_skipped :: bool
  in_kinds :: "(string \<times> nat) list"

definition store_index :: "library \<Rightarrow> memory \<Rightarrow> table list result" where
  "store_index L m = (case store_get ''index.jsonl'' m of Some data \<Rightarrow> parse_lines L data | None \<Rightarrow> Inr [])"

definition count_kinds :: "table list \<Rightarrow> (string \<times> nat) list" where
  "count_kinds rows = foldl (\<lambda>d r. let k = field_text r ''kind'' in dict_set k (case map_of d k of Some n \<Rightarrow> n + 1 | None \<Rightarrow> 1) d) [] rows"

definition ingest_hit :: "string \<Rightarrow> string \<Rightarrow> string \<Rightarrow> table \<Rightarrow> bool" where
  "ingest_hit run task digest e \<longleftrightarrow>
     map_of e ''run'' = Some (VStr run) \<and> map_of e ''task'' = Some (VStr task) \<and> map_of e ''sha256'' = Some (VStr digest)"

definition index_entry :: "string \<Rightarrow> string \<Rightarrow> string \<Rightarrow> nat \<Rightarrow> string \<Rightarrow> table" where
  "index_entry run task digest n now =
     [(''run'', VStr run), (''task'', VStr task), (''sha256'', VStr digest), (''rows'', VInt (int n)), (''ingested'', VStr now)]"

definition ingest_rows :: "library \<Rightarrow> string \<Rightarrow> string \<Rightarrow> string \<Rightarrow> table list \<Rightarrow> string option \<Rightarrow> ingest_result step" where
  "ingest_rows L now run task rows facts =
     bind_step (give (map_result (\<lambda>r. validate_row (VDict r)) rows)) (\<lambda>checked.
       let digest = lib_sha L (rows_text checked);
           outcome = (\<lambda>skipped. \<lparr>in_run = run, in_task = task, in_rows = length checked, in_skipped = skipped, in_kinds = count_kinds checked\<rparr>) in
       bind_step (\<lambda>m. (store_index L m, m)) (\<lambda>index.
         if list_ex (ingest_hit run task digest) index then give (Inr (outcome True))
         else bind_step check_space (\<lambda>_.
           bind_step (case facts of Some data \<Rightarrow> bind_step (put_facts L data) (\<lambda>_. give (Inr ())) | None \<Rightarrow> give (Inr ())) (\<lambda>_.
             bind_step (put_rows L checked) (\<lambda>_.
               bind_step (store_put ''index.jsonl'' (rows_text (index @ [index_entry run task digest (length checked) now])))
                 (\<lambda>_. give (Inr (outcome False))))))))"

record schema_counts =
  sc_objects :: nat
  sc_rewritten :: nat
  sc_rows :: nat
  sc_changed :: nat
  sc_filled :: nat

definition missing_fields :: "table \<Rightarrow> nat" where
  "missing_fields row = length (filter (\<lambda>f. value_of row f = VNone) queryable)"

definition normalise_object :: "library \<Rightarrow> bool \<Rightarrow> schema_counts \<Rightarrow> string \<Rightarrow> schema_counts step" where
  "normalise_object L dry c key m =
     (case store_get key m of
        None \<Rightarrow> (Inr c, m)
      | Some data \<Rightarrow>
          bind_step (give (parse_lines L data)) (\<lambda>rows.
            bind_step (give (map_result normalise_row rows)) (\<lambda>fixed.
              let filled = map missing_fields rows; write = (\<exists>n \<in> set filled. n \<noteq> 0);
                  c' = c\<lparr>sc_objects := sc_objects c + 1, sc_rewritten := sc_rewritten c + (if write then 1 else 0),
                         sc_rows := sc_rows c + length rows, sc_changed := sc_changed c + length (filter (\<lambda>n. n \<noteq> 0) filled),
                         sc_filled := sc_filled c + sum_list filled\<rparr> in
              if write \<and> \<not> dry
              then bind_step check_space (\<lambda>_. bind_step (store_put key (rows_text fixed)) (\<lambda>_. give (Inr c')))
              else give (Inr c'))) m)"

fun normalise_keys :: "library \<Rightarrow> bool \<Rightarrow> schema_counts \<Rightarrow> string list \<Rightarrow> schema_counts step" where
  "normalise_keys L dry c [] = give (Inr c)"
| "normalise_keys L dry c (k # ks) = bind_step (normalise_object L dry c k) (\<lambda>c. normalise_keys L dry c ks)"

definition normalise_store :: "library \<Rightarrow> bool \<Rightarrow> schema_counts step" where
  "normalise_store L dry m =
     normalise_keys L dry \<lparr>sc_objects = 0, sc_rewritten = 0, sc_rows = 0, sc_changed = 0, sc_filled = 0\<rparr>
       (filter (ends_with ''.jsonl'') (store_keys ''repos/'' m)) m"

section \<open>Steps\<close>

lemma bind_step_simps [simp]:
  "s m = (Inl e, m') \<Longrightarrow> bind_step s f m = (Inl e, m')"
  "s m = (Inr x, m') \<Longrightarrow> bind_step s f m = f x m'"
  "bind_step (give (Inl e)) f m = (Inl e, m)"
  "bind_step (give (Inr x)) f m = f x m"
  by (simp_all add: bind_step_def give_def)

lemma bind_step_cases: "bind_step s f m = (r, m') \<longleftrightarrow>
    (\<exists>e. s m = (Inl e, m') \<and> r = Inl e) \<or> (\<exists>x m''. s m = (Inr x, m'') \<and> f x m'' = (r, m'))"
  by (auto simp: bind_step_def split: prod.splits sum.splits)

lemma store_steps [simp]:
  "store_put k d m = (Inr (), m\<lparr>mm_objects := dict_set k d (mm_objects m)\<rparr>)"
  "store_delete k m = (Inr (), m\<lparr>mm_objects := filter (\<lambda>(k', _). k' \<noteq> k) (mm_objects m)\<rparr>)"
  "give r m = (r, m)"
  by (simp_all add: store_put_def store_delete_def give_def)

lemma store_get_put [simp]:
  "store_get k (m\<lparr>mm_objects := dict_set k' d (mm_objects m)\<rparr>) = (if k = k' then Some d else store_get k m)"
  by (simp add: store_get_def)

lemma map_of_filter_keys: "map_of (filter (\<lambda>(k, _). P k) xs) k = (if P k then map_of xs k else None)"
  by (induction xs) auto

lemma store_get_delete [simp]:
  "store_get k (m\<lparr>mm_objects := filter (\<lambda>(k'', _). k'' \<noteq> k') (mm_objects m)\<rparr>) = (if k = k' then None else store_get k m)"
  by (simp add: store_get_def map_of_filter_keys)

end
