(* ===== verification/MemoryRows.thy ===== *)
theory MemoryRows
  imports MemoryStore
begin

text \<open>
  What the row objects of the memory store hold: reading an object gives back the rows it was written from, every
  write keeps the objects well formed, and a call of \<open>put_rows\<close> merges its rows by id, all of them or none.
\<close>

section \<open>Reading back an object\<close>

definition canon :: "table \<Rightarrow> table" where
  "canon r = sort_key fst (map (\<lambda>(k, v). (k, sorted_value v)) r)"

lemma canon_sorted: "sorted_value (VDict r) = VDict (canon r)"
  by (simp add: canon_def)

definition plain_row :: "library \<Rightarrow> table \<Rightarrow> bool" where
  "plain_row L r \<longleftrightarrow> plain (lib_float L) (VDict r)"

lemma canon_idem [simp]: "canon (canon r) = canon r"
  using sorted_value_idem [of "VDict r"] unfolding canon_sorted by simp

lemma plain_canon: "plain_row L r \<Longrightarrow> plain_row L (canon r)"
  using plain_sorted [of "lib_float L" "VDict r"] unfolding plain_row_def canon_sorted .

lemma row_line_canon [simp]: "row_line (canon r) = row_line r"
  unfolding row_line_def dumps_def canon_sorted by simp

lemma compact_ok [simp]: "style_ok (compact b)" "ascii_only (compact b) = b"
  by (simp_all add: compact_def style_ok_def)

lemma spaced_ok [simp]: "style_ok spaced" "ascii_only spaced"
  by (simp_all add: spaced_def style_ok_def)

lemma row_line_printable: "plain_row L r \<Longrightarrow> c \<in> set (row_line r) \<Longrightarrow> printable c"
  unfolding row_line_def dumps_def plain_row_def using plain_sorted printable_text by (metis compact_ok)

lemma row_line_start: "\<exists>s. row_line r = CHR ''{'' # s"
  by (simp add: row_line_def dumps_def)

lemma printable_not_break: "printable c \<Longrightarrow> \<not> line_break c \<and> code c \<noteq> 13"
  by (auto simp: printable_def line_break_def Let_def)

lemma code_newline [simp]: "code newline = 10"
  by (simp add: newline_def)

lemma line_break_newline [simp]: "line_break newline"
  by (simp add: line_break_def)

text \<open>One line is cut off at its line feed.\<close>

lemma text_lines_from_line:
  assumes "\<forall>c \<in> set l. printable c"
  shows "lines_from acc (l @ newline # s) = (rev acc @ l) # lines_from [] s"
  using assms
proof (induction l arbitrary: acc)
  case Nil
  then show ?case by (cases s) simp_all
next
  case (Cons c l)
  then have "\<not> line_break c" "code c \<noteq> 13" using printable_not_break by auto
  then show ?case using Cons by (cases l) simp_all
qed

lemma split_lines_rows:
  assumes "\<forall>r \<in> set rows. plain_row L r"
  shows "split_lines (rows_text rows) = map row_line rows"
  using assms
proof (induction rows)
  case (Cons r rows)
  then show ?case
    using text_lines_from_line [of "row_line r" "[]" "rows_text rows"] row_line_printable [of L r]
    by (simp add: rows_text_def split_lines_def)
qed (simp add: rows_text_def split_lines_def)

lemma utf8_decode_ascii: "\<forall>c \<in> set s. code c < 128 \<Longrightarrow> utf8_decode s = Inr s"
  by (induction s) simp_all

lemma rows_text_ascii: "\<forall>r \<in> set rows. plain_row L r \<Longrightarrow> c \<in> set (rows_text rows) \<Longrightarrow> code c < 128"
proof -
  assume "\<forall>r \<in> set rows. plain_row L r" "c \<in> set (rows_text rows)"
  then consider "c = newline" | "printable c" using row_line_printable by (auto simp: rows_text_def split: if_splits)
  then show ?thesis by cases (auto simp: printable_def)
qed

lemma strip_nonempty: "\<not> py_space c \<Longrightarrow> strip (c # s) \<noteq> []"
  by (simp add: strip_def lstrip_by_def rstrip_by_def)

lemma parse_line_row: "plain_row L r \<Longrightarrow> parse_line L (row_line r) = Inr (canon r)"
  using loads_dumps [of "lib_float L" "VDict r" "compact True"]
  unfolding plain_row_def by (simp add: parse_line_def row_line_def canon_sorted del: sorted_value.simps plain.simps)

text \<open>Reading an object gives the rows it was written from, their keys sorted.\<close>

lemma parse_rows_text:
  assumes "\<forall>r \<in> set rows. plain_row L r"
  shows "parse_lines L (rows_text rows) = Inr (map canon rows)"
proof -
  have "\<not> py_space (CHR ''{'')" by code_simp
  then have "strip (row_line r) \<noteq> []" for r using row_line_start [of r] strip_nonempty by metis
  then have "filter (\<lambda>raw. strip raw \<noteq> []) (map row_line rows) = map row_line rows"
    by (simp add: filter_map comp_def)
  moreover have "map_result (parse_line L) (map row_line rows) = Inr (map canon rows)"
    using assms parse_line_row by (induction rows) auto
  ultimately show ?thesis
    using utf8_decode_ascii [of "rows_text rows"] rows_text_ascii [OF assms]
    by (simp add: parse_lines_def split_lines_rows [OF assms])
qed

section \<open>The objects stay well formed\<close>

text \<open>A row as the store keeps it: valid, of the schema, its keys sorted, in the object of its repository and pin.\<close>

definition good_row :: "library \<Rightarrow> string \<Rightarrow> table \<Rightarrow> bool" where
  "good_row L key r \<longleftrightarrow> plain_row L r \<and> validate_row (VDict r) = Inr r \<and>
     list_all (\<lambda>f. is_str (value_of r f)) queryable \<and> object_key L r = Inr key"

definition row_ids :: "table list \<Rightarrow> string list" where
  "row_ids rows = map (\<lambda>r. field_text r ''id'') rows"

definition object_ok :: "library \<Rightarrow> string \<Rightarrow> string \<Rightarrow> bool" where
  "object_ok L key text = (case parse_lines L text of
     Inl _ \<Rightarrow> False
   | Inr rows \<Rightarrow> text = rows_text rows \<and> sorted_wrt (<) (row_ids rows) \<and> list_all (\<lambda>r. good_row L key r \<and> canon r = r) rows)"

definition row_key :: "string \<Rightarrow> bool" where
  "row_key k \<longleftrightarrow> starts_with ''repos/'' k \<and> ends_with ''.jsonl'' k"

definition store_ok :: "library \<Rightarrow> memory \<Rightarrow> bool" where
  "store_ok L m \<longleftrightarrow> distinct (map fst (mm_objects m)) \<and> list_all (\<lambda>(k, t). row_key k \<longrightarrow> object_ok L k t) (mm_objects m)"

definition rows_at :: "library \<Rightarrow> memory \<Rightarrow> string \<Rightarrow> table list" where
  "rows_at L m key = (case store_get key m of
     None \<Rightarrow> []
   | Some text \<Rightarrow> (case parse_lines L text of Inr rows \<Rightarrow> rows | Inl _ \<Rightarrow> []))"

definition row_at :: "library \<Rightarrow> memory \<Rightarrow> string \<Rightarrow> string \<Rightarrow> table option" where
  "row_at L m key i = map_of (map (\<lambda>r. (field_text r ''id'', r)) (rows_at L m key)) i"

lemma fill_field_str: "is_str (value_of row f) \<Longrightarrow> fill_field row f = Inr row"
  by (cases "value_of row f") (simp_all add: fill_field_def)

lemma normalise_row_id: "list_all (\<lambda>f. is_str (value_of row f)) queryable \<Longrightarrow> normalise_row row = Inr row"
proof -
  have "list_all (\<lambda>f. is_str (value_of row f)) fs \<Longrightarrow> fold_result fill_field row fs = Inr row" for fs
    by (induction fs) (simp_all add: fill_field_str)
  then show "list_all (\<lambda>f. is_str (value_of row f)) queryable \<Longrightarrow> normalise_row row = Inr row"
    by (simp add: normalise_row_def)
qed

lemma good_row_normal: "good_row L key r \<Longrightarrow> normalise_row r = Inr r"
  by (simp add: good_row_def normalise_row_id)

text \<open>What validation looks at.\<close>

lemma validate_row_iff:
  "validate_row (VDict r) = Inr r' \<longleftrightarrow> r' = r \<and> (\<forall>f \<in> set row_fields. text_field r f \<noteq> None) \<and>
     field_text r ''kind'' \<in> set row_kinds \<and> pin_match (field_text r ''pin'')"
  by (auto simp: validate_row_def memory_error_def split: if_splits)

lemma text_field_Some: "text_field r f \<noteq> None \<Longrightarrow> map_of r f = Some (VStr (field_text r f))"
  by (auto simp: text_field_def field_text_def split: option.splits pyval.splits if_splits)

lemma row_fields_id: "''id'' \<in> set row_fields" "''kind'' \<in> set row_fields" "''pin'' \<in> set row_fields" "''repo'' \<in> set row_fields"
  by code_simp+

lemma good_row_id: "good_row L key r \<Longrightarrow> id_of r = Inr (field_text r ''id'')"
  using row_fields_id(1) text_field_Some [of r "''id''"] by (auto simp: good_row_def validate_row_iff id_of_def)

text \<open>Sorting the keys changes nothing of that.\<close>

lemma distinct_sort_key: "distinct (map f xs) \<Longrightarrow> distinct (map f (sort_key g xs))"
  by (simp add: distinct_map)

lemma map_of_canon: "distinct (map fst r) \<Longrightarrow> map_of (canon r) f = map_option sorted_value (map_of r f)"
proof -
  assume d: "distinct (map fst r)"
  let ?s = "map (\<lambda>(k, v). (k, sorted_value v)) r"
  have keys: "distinct (map fst ?s)" using d by (simp add: case_prod_unfold comp_def)
  then have "distinct (map fst (sort_key fst ?s))" by (rule distinct_sort_key)
  then have "map_of (sort_key fst ?s) = map_of ?s"
    using keys by (intro map_of_inject_set [THEN iffD2]) simp_all
  then show ?thesis by (simp add: canon_def map_of_map)
qed

lemma plain_row_distinct: "plain_row L r \<Longrightarrow> distinct (map fst r)"
  by (simp add: plain_row_def)

lemma canon_fields:
  assumes "plain_row L r"
  shows "field_text (canon r) f = field_text r f" "text_field (canon r) f = text_field r f" "is_str (value_of (canon r) f) = is_str (value_of r f)"
proof -
  note m = map_of_canon [OF plain_row_distinct [OF assms], of f]
  have "field_text (canon r) f = field_text r f \<and> text_field (canon r) f = text_field r f \<and>
      is_str (value_of (canon r) f) = is_str (value_of r f)"
  proof (cases "map_of r f")
    case (Some v)
    then show ?thesis by (cases v) (simp_all add: m field_text_def text_field_def value_of_def)
  qed (simp add: m field_text_def text_field_def value_of_def)
  then show "field_text (canon r) f = field_text r f" "text_field (canon r) f = text_field r f"
    "is_str (value_of (canon r) f) = is_str (value_of r f)" by simp_all
qed

lemma good_row_canon: "good_row L key r \<Longrightarrow> good_row L key (canon r)"
  by (auto simp: good_row_def validate_row_iff canon_fields object_key_def plain_canon)

section \<open>Merging rows into an object\<close>

text \<open>The rows a group holds, under their ids.\<close>

definition good_group :: "library \<Rightarrow> string \<Rightarrow> rows_by_id \<Rightarrow> bool" where
  "good_group L key g \<longleftrightarrow> distinct (map fst g) \<and> list_all (\<lambda>(i, r). i = field_text r ''id'' \<and> good_row L key r) g"

lemma good_group_put: "good_group L key g \<Longrightarrow> good_row L key r \<Longrightarrow> good_group L key (dict_set (field_text r ''id'') r g)"
proof -
  have "list_all P (dict_set k v d)" if "list_all P d" "P (k, v)" for P and k :: string and v :: table and d
    using that by (induction k v d rule: dict_set.induct) auto
  then show "good_group L key g \<Longrightarrow> good_row L key r \<Longrightarrow> good_group L key (dict_set (field_text r ''id'') r g)"
    by (simp add: good_group_def distinct_dict_set)
qed

lemma good_group_update: "good_group L key g \<Longrightarrow> good_group L key h \<Longrightarrow> good_group L key (foldl (\<lambda>d (i, r). dict_set i r d) g h)"
proof (induction h arbitrary: g)
  case (Cons x h)
  then show ?case using good_group_put [of L key g "snd x"] by (cases x) (auto simp: good_group_def)
qed simp

lemma map_of_update: "distinct (map fst h) \<Longrightarrow> map_of (foldl (\<lambda>d (i, r). dict_set i r d) g h) = map_of g ++ map_of h"
proof (induction h arbitrary: g)
  case (Cons x h)
  then show ?case by (cases x) (auto simp: map_add_def fun_eq_iff map_of_eq_None_iff [symmetric] split: option.splits)
qed simp

definition keyed :: "table list \<Rightarrow> rows_by_id" where
  "keyed rows = map (\<lambda>r. (field_text r ''id'', r)) rows"

lemma stored_rows:
  assumes "distinct (row_ids rows)" "\<forall>r \<in> set rows. good_row L key r"
  shows "fold_result stored_row [] rows = Inr (keyed rows)"
proof -
  have append: "dict_set k v d = d @ [(k, v)]" if "k \<notin> fst ` set d" for k :: string and v :: table and d
    using that by (induction k v d rule: dict_set.induct) auto
  have "fold_result stored_row d rows = Inr (d @ keyed rows)" if "distinct (map fst d @ row_ids rows)" "\<forall>r \<in> set rows. good_row L key r" for d
    using that
  proof (induction rows arbitrary: d)
    case (Cons r rows)
    then have r: "good_row L key r" "field_text r ''id'' \<notin> fst ` set d" by (auto simp: row_ids_def)
    have "stored_row d r = Inr (d @ [(field_text r ''id'', r)])"
      by (simp add: stored_row_def good_row_id [OF r(1)] good_row_normal [OF r(1)] append [OF r(2)])
    then show ?case using Cons by (simp add: keyed_def row_ids_def)
  qed (simp add: keyed_def)
  then show ?thesis using assms by simp
qed

text \<open>An object as it is written from a group.\<close>

lemma object_written:
  assumes "good_group L key g"
  defines "rows \<equiv> map snd (sort_key fst g)"
  shows "object_ok L key (rows_text rows)" "parse_lines L (rows_text rows) = Inr (map canon rows)"
    "map_of (keyed (map canon rows)) = map_option canon \<circ> map_of g"
proof -
  have g: "\<And>i r. (i, r) \<in> set g \<Longrightarrow> i = field_text r ''id'' \<and> good_row L key r" "distinct (map fst g)"
    using assms(1) by (auto simp: good_group_def list_all_iff)
  then have rows: "\<forall>r \<in> set rows. good_row L key r" by (auto simp: rows_def)
  then show parse: "parse_lines L (rows_text rows) = Inr (map canon rows)"
    by (intro parse_rows_text) (simp add: good_row_def)
  have key: "keyed (map canon rows) = map (\<lambda>(i, r). (i, canon r)) (sort_key fst g)"
    using g(1) by (auto simp: keyed_def rows_def good_row_def canon_fields [of L])
  have d: "distinct (map fst (sort_key fst g))" using g(2) by (rule distinct_sort_key)
  then have "map_of (sort_key fst g) = map_of g"
    using g(2) by (intro map_of_inject_set [THEN iffD2]) simp_all
  then show "map_of (keyed (map canon rows)) = map_option canon \<circ> map_of g"
    by (simp add: key map_of_map fun_eq_iff)
  have "row_ids (map canon rows) = map fst (sort_key fst g)"
    using arg_cong [OF key, of "map fst"] by (simp add: keyed_def row_ids_def case_prod_unfold comp_def)
  then have "sorted_wrt (<) (row_ids (map canon rows))"
    using d by (simp add: strict_sorted_iff)
  moreover have "rows_text (map canon rows) = rows_text rows" by (simp add: rows_text_def comp_def)
  ultimately show "object_ok L key (rows_text rows)"
    using rows parse by (simp add: object_ok_def list_all_iff good_row_canon)
qed

lemma store_okD: "store_ok L m \<Longrightarrow> row_key k \<Longrightarrow> store_get k m = Some t \<Longrightarrow> object_ok L k t"
  by (auto simp: store_ok_def store_get_def list_all_iff dest: map_of_SomeD)

lemma store_ok_put:
  assumes "store_ok L m" "row_key k \<Longrightarrow> object_ok L k t"
  shows "store_ok L (m\<lparr>mm_objects := dict_set k t (mm_objects m)\<rparr>)"
proof -
  have "list_all P (dict_set k v d)" if "list_all P d" "P (k, v)" for P and v :: string and d
    using that by (induction k v d rule: dict_set.induct) auto
  then show ?thesis using assms by (simp add: store_ok_def distinct_dict_set)
qed

lemma store_ok_delete: "store_ok L m \<Longrightarrow> store_ok L (m\<lparr>mm_objects := filter (\<lambda>(k', _). k' \<noteq> k) (mm_objects m)\<rparr>)"
  by (auto simp: store_ok_def list_all_iff distinct_map_filter)

lemma rows_at_other: "store_get k m' = store_get k m \<Longrightarrow> rows_at L m' k = rows_at L m k"
  by (simp add: rows_at_def)

lemma rows_at_good:
  assumes "store_ok L m" "row_key k"
  shows "distinct (row_ids (rows_at L m k)) \<and> (\<forall>r \<in> set (rows_at L m k). good_row L k r \<and> canon r = r)"
proof (cases "store_get k m")
  case (Some t)
  from store_okD [OF assms Some] show ?thesis
    by (auto simp: rows_at_def Some object_ok_def list_all_iff strict_sorted_iff split: sum.splits)
qed (simp add: rows_at_def row_ids_def)

lemma object_key_row_key: "object_key L r = Inr k \<Longrightarrow> row_key k"
  by (cases "repo_dir L (field_text r ''repo'')") (auto simp: object_key_def row_key_def starts_with_def ends_with_iff)

text \<open>The rows a list of groups holds for an object and an id.\<close>

definition group_at :: "(string \<times> rows_by_id) list \<Rightarrow> string \<Rightarrow> string \<Rightarrow> table option" where
  "group_at groups k i = (case map_of groups k of None \<Rightarrow> None | Some g \<Rightarrow> map_of g i)"

definition good_groups :: "library \<Rightarrow> (string \<times> rows_by_id) list \<Rightarrow> bool" where
  "good_groups L groups \<longleftrightarrow> distinct (map fst groups) \<and> list_all (\<lambda>(k, g). row_key k \<and> good_group L k g) groups"

lemma put_group_ok:
  assumes "store_ok L m" "row_key key" "good_group L key new"
  shows "\<exists>m'. put_group L (key, new) m = (Inr (), m') \<and> store_ok L m' \<and>
    (\<forall>k. k \<noteq> key \<longrightarrow> store_get k m' = store_get k m) \<and>
    row_at L m' key = (\<lambda>i. case map_of new i of Some r \<Rightarrow> Some (canon r) | None \<Rightarrow> row_at L m key i)"
proof -
  let ?old = "rows_at L m key"
  note old = rows_at_good [OF assms(1,2)]
  have read: "(case store_get key m of None \<Rightarrow> Inr []
      | Some data \<Rightarrow> bind_result (parse_lines L data) (\<lambda>rows. fold_result stored_row [] rows)) = Inr (keyed ?old)"
  proof (cases "store_get key m")
    case None
    then show ?thesis by (simp add: rows_at_def keyed_def)
  next
    case (Some t)
    then obtain rows where "parse_lines L t = Inr rows"
      using store_okD [OF assms(1,2) Some] by (cases "parse_lines L t") (simp_all add: object_ok_def)
    then show ?thesis using stored_rows [of ?old L key] old Some by (simp add: rows_at_def)
  qed
  have "good_group L key (keyed ?old)"
    using old by (simp add: good_group_def keyed_def list_all_iff row_ids_def comp_def)
  define g where "g = foldl (\<lambda>d (i, r). dict_set i r d) (keyed ?old) new"
  have g: "good_group L key g"
    unfolding g_def by (rule good_group_update) fact+
  have new: "distinct (map fst new)" using assms(3) by (simp add: good_group_def)
  define t where "t = rows_text (map snd (sort_key fst g))"
  define m' where "m' = m\<lparr>mm_objects := dict_set key t (mm_objects m)\<rparr>"
  have "put_group L (key, new) m = (Inr (), m')"
    by (simp add: put_group_def read m'_def t_def g_def)
  moreover have "store_ok L m'"
    unfolding m'_def using store_ok_put [OF assms(1)] object_written(1) [OF g] t_def by blast
  moreover have "store_get k m' = store_get k m" if "k \<noteq> key" for k using that by (simp add: m'_def)
  moreover have "row_at L m' key i = (case map_of new i of Some r \<Rightarrow> Some (canon r) | None \<Rightarrow> row_at L m key i)" for i
  proof -
    have "rows_at L m' key = map canon (map snd (sort_key fst g))"
      by (simp add: rows_at_def m'_def t_def object_written(2) [OF g])
    then have "row_at L m' key i = map_option canon (map_of g i)"
      using object_written(3) [OF g] by (simp add: row_at_def keyed_def fun_eq_iff)
    moreover have "map_option canon (map_of (keyed ?old) i) = map_of (keyed ?old) i"
      using old by (cases "map_of (keyed ?old) i") (auto simp: keyed_def dest!: map_of_SomeD)
    ultimately show ?thesis
      unfolding g_def map_of_update [OF new] row_at_def keyed_def [symmetric]
      by (simp add: map_add_def split: option.splits)
  qed
  ultimately show ?thesis by blast
qed

lemma put_groups_ok:
  "store_ok L m \<Longrightarrow> good_groups L groups \<Longrightarrow> \<exists>m'. fold_step (put_group L) groups m = (Inr (), m') \<and> store_ok L m' \<and>
    (\<forall>k. k \<notin> fst ` set groups \<longrightarrow> store_get k m' = store_get k m) \<and>
    (\<forall>k i. row_at L m' k i = (case group_at groups k i of Some r \<Rightarrow> Some (canon r) | None \<Rightarrow> row_at L m k i))"
proof (induction groups arbitrary: m)
  case (Cons x groups)
  obtain key new where x: "x = (key, new)" by fastforce
  with Cons.prems have "row_key key" "good_group L key new" "good_groups L groups" "key \<notin> fst ` set groups"
    by (auto simp: good_groups_def)
  from put_group_ok [OF Cons.prems(1) this(1,2)] obtain m1 where m1: "put_group L (key, new) m = (Inr (), m1)"
    "store_ok L m1" "\<And>k. k \<noteq> key \<Longrightarrow> store_get k m1 = store_get k m"
    "row_at L m1 key = (\<lambda>i. case map_of new i of Some r \<Rightarrow> Some (canon r) | None \<Rightarrow> row_at L m key i)" by auto
  from Cons.IH [OF m1(2) \<open>good_groups L groups\<close>] obtain m2 where m2: "fold_step (put_group L) groups m1 = (Inr (), m2)"
    "store_ok L m2" "\<And>k. k \<notin> fst ` set groups \<Longrightarrow> store_get k m2 = store_get k m1"
    "\<And>k i. row_at L m2 k i = (case group_at groups k i of Some r \<Rightarrow> Some (canon r) | None \<Rightarrow> row_at L m1 k i)" by auto
  have other: "row_at L m1 k i = row_at L m k i" if "k \<noteq> key" for k i
    using rows_at_other [OF m1(3) [OF that]] by (simp add: row_at_def)
  have "map_of groups key = None" using \<open>key \<notin> _\<close> by (simp add: map_of_eq_None_iff)
  then have "row_at L m2 k i = (case group_at (x # groups) k i of Some r \<Rightarrow> Some (canon r) | None \<Rightarrow> row_at L m k i)" for k i
    using m2(4) [of k i] m1(4) other [of k i] by (cases "k = key") (auto simp: group_at_def x split: option.splits)
  moreover have "fold_step (put_group L) (x # groups) m = (Inr (), m2)" by (simp add: x m1(1) m2(1))
  ultimately show ?case using m2(2,3) m1(3) x by auto
qed (simp add: group_at_def)

section \<open>Writing rows\<close>

text \<open>A row with the fields of the schema filled in.\<close>

definition schema_row :: "table \<Rightarrow> table" where
  "schema_row r = (case normalise_row r of Inr r' \<Rightarrow> r' | Inl _ \<Rightarrow> r)"

lemma plain_dict_set: "plain_row L r \<Longrightarrow> plain (lib_float L) v \<Longrightarrow> plain_row L (dict_set k v r)"
proof -
  have "list_all P (dict_set k v d)" if "list_all P d" "P (k, v)" for P and v :: pyval and d
    using that by (induction k v d rule: dict_set.induct) auto
  then show "plain_row L r \<Longrightarrow> plain (lib_float L) v \<Longrightarrow> plain_row L (dict_set k v r)"
    by (simp add: plain_row_def distinct_dict_set)
qed

lemma fill_field_spec:
  assumes "fill_field r f = Inr r'"
  shows "\<And>g. g \<noteq> f \<Longrightarrow> map_of r' g = map_of r g" "is_str (value_of r' f)" "plain_row L r \<Longrightarrow> plain_row L r'"
  using assms by (auto simp: fill_field_def memory_error_def value_of_def plain_dict_set split: pyval.splits option.splits)

lemma normalise_row_spec:
  assumes "normalise_row r = Inr r'"
  shows "\<And>g. g \<notin> set queryable \<Longrightarrow> map_of r' g = map_of r g" "list_all (\<lambda>f. is_str (value_of r' f)) queryable"
    "plain_row L r \<Longrightarrow> plain_row L r'"
proof -
  have "(\<forall>g. g \<notin> set fs \<longrightarrow> map_of r' g = map_of r g) \<and> (\<forall>f \<in> set fs. is_str (value_of r' f)) \<and>
      (\<forall>f. is_str (value_of r f) \<longrightarrow> is_str (value_of r' f)) \<and> (plain_row L r \<longrightarrow> plain_row L r')"
    if "fold_result fill_field r fs = Inr r'" for fs
    using that
  proof (induction fs arbitrary: r)
    case (Cons f fs)
    then obtain r1 where r1: "fill_field r f = Inr r1" "fold_result fill_field r1 fs = Inr r'" by (auto simp: bind_result_eq_Inr)
    have "is_str (value_of r1 g)" if "is_str (value_of r g)" for g
      using fill_field_spec(1,2) [OF r1(1)] that by (cases "g = f") (simp_all add: value_of_def)
    then show ?case using Cons.IH [OF r1(2)] fill_field_spec [OF r1(1)] by auto
  qed simp
  from this [of queryable] show "\<And>g. g \<notin> set queryable \<Longrightarrow> map_of r' g = map_of r g"
    "list_all (\<lambda>f. is_str (value_of r' f)) queryable" "plain_row L r \<Longrightarrow> plain_row L r'"
    using assms by (auto simp: normalise_row_def list_all_iff)
qed

lemma not_queryable: "\<forall>f \<in> set row_fields. f \<notin> set queryable"
  by (auto simp: queryable_def)

text \<open>What the schema adds changes none of the fields every row has.\<close>

lemma normalised_good:
  assumes "validate_row (VDict r) = Inr r" "normalise_row r = Inr r'" "object_key L r = Inr key" "plain_row L r"
  shows "good_row L key r'" "object_key L r' = Inr key" "field_text r' ''id'' = field_text r ''id''"
proof -
  have same: "field_text r' f = field_text r f" "text_field r' f = text_field r f" if "f \<in> set row_fields" for f
    using normalise_row_spec(1) [OF assms(2)] not_queryable that by (simp_all add: field_text_def text_field_def)
  then have key: "object_key L r' = object_key L r" using row_fields_id by (simp add: object_key_def)
  then show "object_key L r' = Inr key" "field_text r' ''id'' = field_text r ''id''" using assms(3) same row_fields_id by simp_all
  show "good_row L key r'"
    using assms same row_fields_id key normalise_row_spec(2,3) [OF assms(2)]
    by (auto simp: good_row_def validate_row_iff)
qed

definition row_for :: "library \<Rightarrow> string \<Rightarrow> string \<Rightarrow> table \<Rightarrow> bool" where
  "row_for L k i r \<longleftrightarrow> object_key L r = Inr k \<and> field_text r ''id'' = i"

text \<open>The last row of a call for an object and an id.\<close>

definition last_row :: "library \<Rightarrow> table list \<Rightarrow> string \<Rightarrow> string \<Rightarrow> table option" where
  "last_row L rows k i = find (row_for L k i) (rev rows)"

lemma find_append: "find P (xs @ ys) = (case find P xs of Some x \<Rightarrow> Some x | None \<Rightarrow> find P ys)"
  by (induction xs) auto

lemma add_row_ok:
  assumes "add_row L groups r = Inr groups'" "good_groups L groups" "plain_row L r"
  shows "good_groups L groups'"
    "group_at groups' k i = (if row_for L k i r then Some (schema_row r) else group_at groups k i)" "groups' \<noteq> []"
proof -
  from assms(1) obtain r' key where r: "validate_row (VDict r) = Inr r" "normalise_row r = Inr r'" "object_key L r' = Inr key"
      and gs: "groups' = dict_set key (dict_set (field_text r' ''id'') r' (case map_of groups key of None \<Rightarrow> [] | Some g \<Rightarrow> g)) groups"
    by (auto simp: add_row_def bind_result_eq_Inr validate_row_iff Let_def)
  have "object_key L r = Inr key"
    using r normalise_row_spec(1) [OF r(2)] not_queryable row_fields_id by (simp add: object_key_def field_text_def)
  from normalised_good [OF r(1,2) this assms(3)] have r': "good_row L key r'" "field_text r' ''id'' = field_text r ''id''" by simp_all
  let ?g = "case map_of groups key of None \<Rightarrow> [] | Some g \<Rightarrow> g"
  have "good_group L key ?g"
    using assms(2) by (auto simp: good_groups_def good_group_def list_all_iff dest: map_of_SomeD split: option.splits)
  then have g: "good_group L key (dict_set (field_text r' ''id'') r' ?g)" using good_group_put r'(1) by blast
  have "list_all P (dict_set k v d)" if "list_all P d" "P (k, v)" for P and k :: string and v :: rows_by_id and d
    using that by (induction k v d rule: dict_set.induct) auto
  then show "good_groups L groups'"
    using assms(2) g object_key_row_key [OF r(3)] by (simp add: good_groups_def gs distinct_dict_set)
  show "group_at groups' k i = (if row_for L k i r then Some (schema_row r) else group_at groups k i)"
    using r'(2) \<open>object_key L r = Inr key\<close> r(2)
    by (auto simp: group_at_def gs row_for_def schema_row_def split: option.splits)
  show "groups' \<noteq> []" by (cases groups) (auto simp: gs)
qed

lemma add_rows_ok:
  "fold_result (add_row L) groups rows = Inr groups' \<Longrightarrow> good_groups L groups \<Longrightarrow> \<forall>r \<in> set rows. plain_row L r \<Longrightarrow>
    good_groups L groups' \<and> (groups \<noteq> [] \<or> rows \<noteq> [] \<longrightarrow> groups' \<noteq> []) \<and>
    (\<forall>k i. group_at groups' k i = (case last_row L rows k i of Some r \<Rightarrow> Some (schema_row r) | None \<Rightarrow> group_at groups k i))"
proof (induction rows arbitrary: groups)
  case (Cons r rows)
  then obtain g1 where g1: "add_row L groups r = Inr g1" "fold_result (add_row L) g1 rows = Inr groups'" by (auto simp: bind_result_eq_Inr)
  have r: "plain_row L r" using Cons.prems(3) by simp
  note one = add_row_ok [OF g1(1) Cons.prems(2) r]
  from Cons.IH [OF g1(2) one(1)] Cons.prems(3) one(2,3) show ?case
    by (auto simp: last_row_def find_append split: option.splits)
qed (simp add: last_row_def)

text \<open>The groups in the order of their keys hold the same rows.\<close>

lemma good_groups_sort: "good_groups L groups \<Longrightarrow> good_groups L (sort_key fst groups) \<and> group_at (sort_key fst groups) = group_at groups"
proof -
  assume g: "good_groups L groups"
  then have "distinct (map fst (sort_key fst groups))" by (intro distinct_sort_key) (simp add: good_groups_def)
  moreover from this have "map_of (sort_key fst groups) = map_of groups"
    using g by (intro map_of_inject_set [THEN iffD2]) (simp_all add: good_groups_def)
  ultimately show ?thesis using g by (simp add: good_groups_def list_all_iff group_at_def fun_eq_iff)
qed

lemma put_rows_spec:
  assumes "store_ok L m" "\<forall>r \<in> set rows. plain_row L r" "put_rows L rows m = (out, m')"
  shows "store_ok L m' \<and> (case out of
      Inl e \<Rightarrow> m' = m
    | Inr _ \<Rightarrow> \<forall>k i. row_at L m' k i = (case last_row L rows k i of Some r \<Rightarrow> Some (canon (schema_row r)) | None \<Rightarrow> row_at L m k i))"
proof (cases "fold_result (add_row L) [] rows")
  case (Inl e)
  then show ?thesis using assms by (auto simp: put_rows_def)
next
  case (Inr groups)
  have "good_groups L []" by (simp add: good_groups_def)
  from add_rows_ok [OF Inr this assms(2)] have groups: "good_groups L groups"
    "\<And>k i. group_at groups k i = map_option schema_row (last_row L rows k i)"
    by (auto simp: group_at_def split: option.splits)
  from good_groups_sort [OF this(1)] put_groups_ok [OF assms(1), of "sort_key fst groups"]
  obtain m1 where m1: "fold_step (put_group L) (sort_key fst groups) m = (Inr (), m1)" "store_ok L m1"
    "\<And>k i. row_at L m1 k i = (case group_at groups k i of Some r \<Rightarrow> Some (canon r) | None \<Rightarrow> row_at L m k i)" by auto
  have "(if groups = [] then give (Inr ()) else check_space) m = (Inr (), m) \<or>
      (\<exists>e. (if groups = [] then give (Inr ()) else check_space) m = (Inl e, m))"
    by (simp add: check_space_def)
  then have "out = Inr () \<and> m' = m1 \<or> (\<exists>e. out = Inl e \<and> m' = m)"
    using assms(3) by (auto simp: put_rows_def Inr m1(1))
  then show ?thesis
    using m1(2,3) assms(1) groups(2) by (auto split: option.splits)
qed

text \<open>C33. A call of \<open>put_rows\<close> merges every row it is given or writes nothing: an object then holds, for each id, the
  last row of the call for it with the schema's fields filled in, and else what it held; all objects stay well formed.\<close>

theorem put_rows_exact:
  assumes "store_ok L m" "\<forall>r \<in> set rows. plain_row L r" "put_rows L rows m = (out, m')"
  shows "store_ok L m' \<and> (case out of
      Inl e \<Rightarrow> m' = m
    | Inr _ \<Rightarrow> \<forall>k i. row_at L m' k i = (case last_row L rows k i of Some r \<Rightarrow> Some (canon (schema_row r)) | None \<Rightarrow> row_at L m k i))"
  using assms by (rule put_rows_spec)

section \<open>Dropping rows\<close>

lemma kept_rows:
  assumes "\<forall>r \<in> set rows. good_row L key r"
  shows "map_result (\<lambda>r. bind_result (id_of r) (\<lambda>i. if i \<in> set ids then Inr None else map_sum id Some (normalise_row r))) rows =
    Inr (map (\<lambda>r. if field_text r ''id'' \<in> set ids then None else Some r) rows)"
  using assms by (intro map_result_Inr) (simp add: good_row_id [of L key] good_row_normal [of L key])

lemma map_of_filter_values: "map_of (filter (\<lambda>x. P (fst x)) xs) k = (if P k then map_of xs k else None)"
  by (induction xs) auto

lemma drop_rows_spec:
  assumes "store_ok L m" "drop_rows L repo pin ids m = (out, m')"
  defines "key \<equiv> (case repo_dir L repo of Inr d \<Rightarrow> ''repos/'' @ d @ ''/'' @ pin @ ''.jsonl'' | Inl _ \<Rightarrow> [])"
  shows "store_ok L m' \<and> (case out of
      Inl e \<Rightarrow> repo_dir L repo = Inl e \<and> m' = m
    | Inr n \<Rightarrow> n = length (filter (\<lambda>r. field_text r ''id'' \<in> set ids) (rows_at L m key)) \<and>
        (\<forall>k i. row_at L m' k i = (if k = key \<and> i \<in> set ids then None else row_at L m k i)))"
proof (cases "repo_dir L repo")
  case (Inl e)
  then show ?thesis using assms by (auto simp: drop_rows_def)
next
  case (Inr d)
  have key: "key = ''repos/'' @ d @ ''/'' @ pin @ ''.jsonl''" by (simp add: key_def Inr)
  then have rk: "row_key key" by (simp add: row_key_def starts_with_def ends_with_iff)
  let ?rows = "rows_at L m key" and ?out = "\<lambda>r. field_text r ''id'' \<in> set ids"
  let ?kept = "filter (\<lambda>r. \<not> ?out r) ?rows"
  note good = rows_at_good [OF assms(1) rk]
  have none: "filter ?out ?rows = [] \<and> (\<forall>i \<in> set ids. row_at L m key i = None)" if "ids = [] \<or> length ?kept = length ?rows"
  proof -
    have "\<forall>r \<in> set ?rows. \<not> ?out r" using that filter_id_conv [of "\<lambda>r. \<not> ?out r" ?rows]
      by (metis empty_iff empty_set length_filter_less linorder_not_less order_refl)
    then show ?thesis by (auto simp: filter_empty_conv row_at_def map_of_eq_None_iff)
  qed
  show ?thesis
  proof (cases "store_get key m")
    case None
    then show ?thesis using assms(1,2) Inr key by (auto simp: drop_rows_def rows_at_def row_at_def)
  next
    case (Some t)
    obtain rows where rows: "parse_lines L t = Inr rows"
      using store_okD [OF assms(1) rk Some] by (cases "parse_lines L t") (simp_all add: object_ok_def)
    then have at: "rows = ?rows" by (simp add: rows_at_def Some)
    have "List.map_filter id (map (\<lambda>r. if ?out r then None else Some r) xs) = filter (\<lambda>r. \<not> ?out r) xs" for xs
      by (induction xs) (simp_all add: map_filter_simps)
    then have kept: "bind_result (parse_lines L t) (\<lambda>rows. bind_result (map_result (\<lambda>r. bind_result (id_of r)
        (\<lambda>i. if i \<in> set ids then Inr None else map_sum id Some (normalise_row r))) rows)
        (\<lambda>kept. Inr (length rows, List.map_filter id kept))) = Inr (length ?rows, ?kept)"
      using kept_rows [of rows L key ids] good at rows by simp
    have run: "drop_rows L repo pin ids m = (if ids = [] then (Inr 0, m) else (\<lambda>(n, kept).
        if length kept = n then give (Inr 0)
        else bind_step (if kept \<noteq> [] then store_put key (rows_text kept) else store_delete key) (\<lambda>_. give (Inr (n - length kept))))
        (length ?rows, ?kept) m)"
      unfolding drop_rows_def Inr bind_step_simps(4) Let_def key [symmetric] Some option.case kept ..
    consider (same) "ids = [] \<or> length ?kept = length ?rows" | (drop) "ids \<noteq> []" "length ?kept \<noteq> length ?rows" by blast
    then show ?thesis
    proof cases
      case same
      then have "out = Inr 0" "m' = m"
        using assms(2) unfolding run by (auto split: if_splits)
      then show ?thesis using none [OF same] assms(1) by auto
    next
      case drop
      have canon: "rows_text ?kept = rows_text (map canon ?kept)" by (simp add: rows_text_def comp_def)
      have same_rows: "map canon ?kept = ?kept" using good by (intro map_idI) auto
      have parse: "parse_lines L (rows_text ?kept) = Inr ?kept"
        using parse_rows_text [of ?kept L] good same_rows by (simp add: good_row_def)
      have "sorted_wrt (<) (row_ids ?rows)" using store_okD [OF assms(1) rk Some] rows at by (simp add: object_ok_def)
      then have "sorted_wrt (<) (row_ids ?kept)" unfolding row_ids_def by (simp add: sorted_wrt_map sorted_wrt_filter)
      then have ok: "object_ok L key (rows_text ?kept)"
        using parse good by (simp add: object_ok_def list_all_iff)
      define m1 where "m1 = (if ?kept \<noteq> [] then m\<lparr>mm_objects := dict_set key (rows_text ?kept) (mm_objects m)\<rparr>
        else m\<lparr>mm_objects := filter (\<lambda>(k', _). k' \<noteq> key) (mm_objects m)\<rparr>)"
      have "out = Inr (length ?rows - length ?kept) \<and> m' = m1"
        using assms(2) drop unfolding run m1_def by (auto split: if_splits)
      moreover have "length ?rows - length ?kept = length (filter ?out ?rows)"
        using sum_length_filter_compl [of ?out ?rows] by simp
      moreover have "store_ok L m1"
        using store_ok_put [OF assms(1) ok] store_ok_delete [OF assms(1), of key] by (simp add: m1_def)
      moreover have "rows_at L m1 key = ?kept" using parse by (auto simp: rows_at_def m1_def)
      then have "row_at L m1 key i = (if i \<in> set ids then None else row_at L m key i)" for i
        using map_of_filter_values [of "\<lambda>i. i \<notin> set ids" "keyed ?rows" i]
        by (simp add: row_at_def keyed_def filter_map comp_def)
      then have "row_at L m1 k i = (if k = key \<and> i \<in> set ids then None else row_at L m k i)" for k i
        using rows_at_other [of k m1 m L] by (cases "k = key") (simp_all add: row_at_def m1_def)
      ultimately show ?thesis by auto
    qed
  qed
qed

section \<open>Reading rows\<close>

text \<open>The objects a read looks at.\<close>

definition read_keys :: "memory \<Rightarrow> string option \<Rightarrow> string \<Rightarrow> string list" where
  "read_keys m pin prefix =
     filter (\<lambda>k. ends_with ''.jsonl'' k \<and> (case pin of None \<Rightarrow> True | Some p \<Rightarrow> ends_with (''/'' @ p @ ''.jsonl'') k)) (store_keys prefix m)"

definition read_prefix :: "library \<Rightarrow> string option \<Rightarrow> string result" where
  "read_prefix L repo = (case repo of Some r \<Rightarrow> if r = [] then Inr ''repos/'' else map_sum id (\<lambda>d. ''repos/'' @ d @ ''/'') (repo_dir L r)
     | None \<Rightarrow> Inr ''repos/'')"

definition wanted_query :: "string option \<Rightarrow> query \<Rightarrow> query" where
  "wanted_query kind q = (case kind of Some k \<Rightarrow> if k = [] then q else dict_set ''kind'' (Some k) q | None \<Rightarrow> q)"

definition row_version :: "library \<Rightarrow> memory \<Rightarrow> string \<Rightarrow> string" where
  "row_version L m key = ''sha256:'' @ lib_sha L (case store_get key m of Some t \<Rightarrow> t | None \<Rightarrow> [])"

lemma read_rows_parts:
  "read_rows L repo pin kind q m = bind_result (check_query kind q) (\<lambda>_. bind_result (read_prefix L repo) (\<lambda>prefix.
     map_sum id concat (map_result (select_rows L m (wanted_query kind q)) (read_keys m pin prefix))))"
  by (simp add: read_rows_def read_prefix_def read_keys_def wanted_query_def Let_def)

lemma read_prefix_repos: "read_prefix L repo = Inr prefix \<Longrightarrow> \<exists>s. prefix = ''repos/'' @ s"
  by (auto simp: read_prefix_def map_sum_def split: option.splits if_splits sum.splits)

lemma starts_with_iff: "starts_with p s \<longleftrightarrow> (\<exists>u. s = p @ u)"
  by (metis append_eq_conv_conj starts_with_def)

lemma read_keys_row_key: "read_prefix L repo = Inr prefix \<Longrightarrow> k \<in> set (read_keys m pin prefix) \<Longrightarrow> row_key k"
  using read_prefix_repos [of L repo prefix] by (auto simp: read_keys_def store_keys_def row_key_def starts_with_iff)

lemma select_rows_at:
  assumes "store_ok L m" "row_key key"
  shows "select_rows L m w key = Inr (map (\<lambda>r. \<lparr>rr_row = r, rr_key = key, rr_version = row_version L m key\<rparr>) (filter (row_matches w) (rows_at L m key)))"
proof (cases "store_get key m")
  case None
  then show ?thesis by (simp add: select_rows_def rows_at_def)
next
  case (Some t)
  then obtain rows where rows: "parse_lines L t = Inr rows" "sorted_wrt (<) (row_ids rows)" "\<forall>r \<in> set rows. good_row L key r"
    using store_okD [OF assms Some] by (cases "parse_lines L t") (auto simp: object_ok_def list_all_iff)
  let ?hits = "filter (row_matches w) rows"
  have "map_result (\<lambda>r. map_sum id (\<lambda>i. (i, r)) (id_of r)) ?hits = Inr (keyed ?hits)"
    unfolding keyed_def using rows(3) by (intro map_result_Inr) (simp add: good_row_id [of L key])
  moreover have "sort_key fst (keyed ?hits) = keyed ?hits"
  proof (rule sort_key_id_if_sorted)
    have "sorted_wrt (<) (row_ids ?hits)" using rows(2) unfolding row_ids_def by (simp add: sorted_wrt_map sorted_wrt_filter)
    then have "sorted (row_ids ?hits)" by (simp add: strict_sorted_iff)
    then show "sorted (map fst (keyed ?hits))" by (simp add: keyed_def row_ids_def comp_def)
  qed
  ultimately show ?thesis
    using rows(1) by (simp add: select_rows_def Some rows_at_def row_version_def keyed_def comp_def)
qed

text \<open>A read gives, object by object in the order of the keys and row by row in the order of the ids, exactly the rows
  the filter wants.\<close>

lemma read_rows_spec:
  assumes "store_ok L m" "check_query kind q = Inr ()" "read_prefix L repo = Inr prefix"
  shows "read_rows L repo pin kind q m = Inr (concat (map (\<lambda>k. map (\<lambda>r. \<lparr>rr_row = r, rr_key = k, rr_version = row_version L m k\<rparr>)
    (filter (row_matches (wanted_query kind q)) (rows_at L m k))) (read_keys m pin prefix)))"
  using assms select_rows_at [OF assms(1) read_keys_row_key [OF assms(3)]]
  by (simp add: read_rows_parts map_result_Inr)


lemma row_at_in: "row_at L m k i = Some r \<Longrightarrow> r \<in> set (rows_at L m k) \<and> field_text r ''id'' = i"
  by (auto simp: row_at_def dest!: map_of_SomeD)

lemma rows_at_row:
  assumes "store_ok L m" "row_key k" "r \<in> set (rows_at L m k)"
  shows "row_at L m k (field_text r ''id'') = Some r"
  using rows_at_good [OF assms(1,2)] assms(3)
  by (simp add: row_at_def row_ids_def map_of_eq_Some_iff comp_def)



section \<open>Ingest\<close>

definition index_ok :: "library \<Rightarrow> memory \<Rightarrow> bool" where
  "index_ok L m = (case store_index L m of Inr es \<Rightarrow> list_all (plain_row L) es | Inl _ \<Rightarrow> False)"

lemma index_entry_hit:
  "plain_row L (index_entry run task digest n now)" "ingest_hit run task digest (canon (index_entry run task digest n now))"
proof -
  show plain: "plain_row L (index_entry run task digest n now)" by (simp add: plain_row_def index_entry_def)
  show "ingest_hit run task digest (canon (index_entry run task digest n now))"
    unfolding ingest_hit_def map_of_canon [OF plain_row_distinct [OF plain]] by (simp add: index_entry_def)
qed


section \<open>A store in use\<close>

declare bind_step_def [code_unfold] bind_result_def [code_unfold]

definition sample_library :: library where
  "sample_library = \<lparr>lib_float = id, lib_url = (\<lambda>_. Inr (''host'', ''/o/n'')), lib_sha = (\<lambda>s. replicate 63 (CHR ''0'') @ [digit (length s mod 10)]),
     lib_succ = id\<rparr>"

definition sample_row :: "string \<Rightarrow> string \<Rightarrow> table" where
  "sample_row i note = [(''id'', VStr i), (''kind'', VStr ''verdict''), (''repo'', VStr ''o/n''), (''pin'', VStr (replicate 40 (CHR ''a''))),
     (''run'', VStr ''r''), (''task'', VStr ''t''), (''population'', VStr ''p''), (''split'', VStr ''s''), (''image'', VStr note)]"

definition empty_memory :: memory where
  "empty_memory = \<lparr>mm_objects = [], mm_free = 2 ^ 40\<rparr>"

definition sample_key :: string where
  "sample_key = ''repos/o__n/'' @ replicate 40 (CHR ''a'') @ ''.jsonl''"

lemma sample_plain: "plain_row sample_library (sample_row i note)"
  by (simp add: plain_row_def sample_row_def)

lemma empty_ok: "store_ok L empty_memory"
  by (simp add: store_ok_def empty_memory_def)

text \<open>Two rows of one id and another: the later of the two stays.\<close>

definition sample_rows :: "table list" where
  "sample_rows = [sample_row ''b'' ''one'', sample_row ''a'' ''two'', sample_row ''b'' ''three'']"

definition sample_store :: memory where
  "sample_store = snd (put_rows sample_library sample_rows empty_memory)"

lemma sample_put: "put_rows sample_library sample_rows empty_memory = (Inr (), sample_store)"
proof -
  have "fst (put_rows sample_library sample_rows empty_memory) = Inr ()" by code_simp
  then show ?thesis by (simp add: sample_store_def prod_eq_iff)
qed

lemma sample_rows_plain: "\<forall>r \<in> set sample_rows. plain_row sample_library r"
  by (simp add: sample_rows_def sample_plain)

lemma sample_ok: "store_ok sample_library sample_store"
  using put_rows_spec [OF empty_ok sample_rows_plain sample_put] by simp

lemma sample_last: "last_row sample_library sample_rows sample_key ''b'' = Some (sample_row ''b'' ''three'')"
  "last_row sample_library sample_rows sample_key ''a'' = Some (sample_row ''a'' ''two'')"
  by code_simp+

theorem put_rows_witness:
  "store_ok sample_library sample_store \<and>
   row_at sample_library sample_store sample_key ''b'' = Some (canon (schema_row (sample_row ''b'' ''three'')))"
  using put_rows_exact [OF empty_ok sample_rows_plain sample_put] by (simp add: sample_last)


lemma sample_object: "rows_at sample_library sample_store sample_key = map canon [schema_row (sample_row ''a'' ''two''), schema_row (sample_row ''b'' ''three'')]"
proof -
  let ?rows = "[schema_row (sample_row ''a'' ''two''), schema_row (sample_row ''b'' ''three'')]"
  have "store_get sample_key sample_store = Some (rows_text ?rows)" by code_simp
  moreover have "parse_lines sample_library (rows_text ?rows) = Inr (map canon ?rows)"
  proof (rule parse_rows_text)
    show "\<forall>r \<in> set ?rows. plain_row sample_library r" by code_simp
  qed
  ultimately show ?thesis by (simp add: rows_at_def)
qed



section \<open>Where the store surprises\<close>

text \<open>Two repositories with one directory: their rows of one pin share an object, and a read of one gives the rows of both.\<close>

lemma repo_dir_collision: "repo_dir sample_library ''h/a__b/c'' = repo_dir sample_library ''h/a/b__c'' \<and> ''h/a__b/c'' \<noteq> ''h/a/b__c''"
  by code_simp

text \<open>A blob whose object was damaged is not written again, and the read that follows drops it.\<close>

lemma damaged_blob_lost:
  assumes "blob_key prefix (lib_sha L data) = Inr key" "store_get key m = Some damaged" "lib_sha L damaged \<noteq> lib_sha L data"
  shows "put_blob L prefix data None m = (Inr (lib_sha L data), m)"
    "fst (get_blob L prefix (lib_sha L data) True m) = Inr None"
  using assms by (simp_all add: put_blob_def get_blob_def bind_step_def give_def)

end
