(* ===== verification/Board.thy ===== *)
theory Board
  imports MemoryRows
begin

text \<open>
  The search board (\<open>search/board.py\<close>): the state of a search, which only its coordinator may write. A commit
  validates the new state, writes it to the memory store by content and links it to the state before; a search is
  resumed from the name of a commit. A state is a table of JSON values.
\<close>

section \<open>Validation\<close>

definition item :: "table \<Rightarrow> string \<Rightarrow> pyval result" where
  "item d k = (case map_of d k of None \<Rightarrow> Inl (KeyError k) | Some v \<Rightarrow> Inr v)"

text \<open>Iteration over a value: a dict gives its keys, a text its characters.\<close>

fun iterate :: "pyval \<Rightarrow> pyval list result" where
  "iterate (VList xs) = Inr xs"
| "iterate (VDict d) = Inr (map (\<lambda>(k, _). VStr k) d)"
| "iterate (VStr s) = Inr (map (\<lambda>c. VStr [c]) s)"
| "iterate _ = Inl (TypeError ''not iterable'')"

definition end_reasons :: "pyval list" where
  "end_reasons = [VNone, VStr ''goal_met'', VStr ''budget_spent'', VStr ''exhausted'', VStr ''reason_refused'']"

definition required_keys :: "string \<Rightarrow> string list" where
  "required_keys kind = [''id'', ''step'', ''task_id'', if kind = ''intents'' then ''description'' else ''text'']"

definition check_entry :: "string \<Rightarrow> string list \<Rightarrow> pyval \<Rightarrow> string list result" where
  "check_entry kind ids row = (case row of
     VDict d \<Rightarrow>
       if \<exists>k \<in> set (required_keys kind). text_field d k = None then Inl (ValueError ''entry requires text and writer provenance'')
       else if field_text d ''id'' \<in> set ids then Inl (ValueError ''duplicate board id'')
       else Inr (ids @ [field_text d ''id''])
   | _ \<Rightarrow> Inl (AttributeError ''get''))"

definition entry_ids :: "table \<Rightarrow> string \<Rightarrow> string list result" where
  "entry_ids st kind = bind_result (item st kind) (\<lambda>v. bind_result (iterate v) (fold_result (check_entry kind) []))"

fun hashable :: "pyval \<Rightarrow> bool" where
  "hashable (VList _) = False" | "hashable (VDict _) = False" | "hashable _ = True"

text \<open>\<open>not isinstance(refs, list) or set(refs) - ids\<close>.\<close>

definition check_refs :: "string \<Rightarrow> string list \<Rightarrow> pyval \<Rightarrow> unit result" where
  "check_refs message ids refs = (case refs of
     VList xs \<Rightarrow>
       if list_ex (\<lambda>x. \<not> hashable x) xs then Inl (TypeError ''unhashable type'')
       else if list_ex (\<lambda>x. \<not> (\<exists>i \<in> set ids. x = VStr i)) xs then Inl (ValueError message)
       else Inr ()
   | _ \<Rightarrow> Inl (ValueError message))"

fun nonempty_text :: "pyval \<Rightarrow> bool" where
  "nonempty_text (VStr s) = (s \<noteq> [])" | "nonempty_text _ = False"

definition check_fact :: "string list \<Rightarrow> pyval \<Rightarrow> unit result" where
  "check_fact intents row = (case row of
     VDict d \<Rightarrow> (case value_of d ''evidence_refs'' of
         VList refs \<Rightarrow>
           if refs = [] then Inl (ValueError ''facts require evidence references'')
           else if list_ex (\<lambda>r. \<not> nonempty_text r) refs then Inl (ValueError ''invalid evidence reference'')
           else check_refs ''unknown source intent'' intents (value_of d ''from_intents'')
       | _ \<Rightarrow> Inl (ValueError ''facts require evidence references''))
   | _ \<Rightarrow> Inl (AttributeError ''get''))"

definition check_intent :: "string list \<Rightarrow> pyval \<Rightarrow> unit result" where
  "check_intent facts row = (case row of
     VDict d \<Rightarrow> bind_result (check_refs ''unknown source fact'' facts (value_of d ''from_facts'')) (\<lambda>_.
       let status = value_of d ''status''; claimant = value_of d ''claimant'' in
       if status \<notin> set [VStr ''open'', VStr ''claimed'', VStr ''concluded''] then Inl (ValueError ''invalid intent status'')
       else if status = VStr ''claimed'' \<and> \<not> truthy claimant then Inl (ValueError ''claimed intent requires claimant'')
       else if status = VStr ''open'' \<and> claimant \<noteq> VNone then Inl (ValueError ''open intent cannot have claimant'')
       else Inr ())
   | _ \<Rightarrow> Inl (AttributeError ''get''))"

definition check_each :: "(pyval \<Rightarrow> unit result) \<Rightarrow> table \<Rightarrow> string \<Rightarrow> unit result" where
  "check_each check st kind = bind_result (item st kind) (\<lambda>v. bind_result (iterate v) (fold_result (\<lambda>_. check) ()))"

definition validate_state :: "table \<Rightarrow> unit result" where
  "validate_state st =
     bind_result (item st ''end_reason'') (\<lambda>e.
       if e \<notin> set end_reasons then Inl (ValueError ''invalid end reason'')
       else bind_result (entry_ids st ''facts'') (\<lambda>facts. bind_result (entry_ids st ''intents'') (\<lambda>intents.
         bind_result (entry_ids st ''hints'') (\<lambda>hints.
           bind_result (check_each (check_fact intents) st ''facts'') (\<lambda>_. check_each (check_intent facts) st ''intents'')))))"

section \<open>The board\<close>

record board =
  bo_search :: string
  bo_coordinator :: string
  bo_max :: int
  bo_prefix :: string
  bo_head :: "string option"
  bo_state :: table

definition search_char :: "char \<Rightarrow> bool" where
  "search_char c \<longleftrightarrow> lower_letter c \<or> ascii_digit c"

definition search_id_match :: "string \<Rightarrow> bool" where
  "search_id_match s \<longleftrightarrow> s \<noteq> [] \<and> search_char (hd s) \<and> list_all (\<lambda>c. search_char c \<or> c = CHR ''-'') (tl s) \<and> length s \<le> 64"

definition first_state :: "string \<Rightarrow> table" where
  "first_state search = [(''search_id'', VStr search), (''version'', VInt 0), (''previous'', VNone), (''facts'', VList []),
     (''intents'', VList []), (''hints'', VList []), (''end_reason'', VNone), (''end_detail'', VNone), (''checkpoint'', VDict [])]"

definition new_board :: "library \<Rightarrow> string \<Rightarrow> string \<Rightarrow> int \<Rightarrow> board result" where
  "new_board L search coordinator limit =
     (if \<not> search_id_match search \<or> coordinator = [] \<or> limit < 256 then Inl (ValueError ''invalid board configuration'')
      else Inr \<lparr>bo_search = search, bo_coordinator = coordinator, bo_max = limit, bo_prefix = ''boards/'' @ lib_sha L search,
        bo_head = None, bo_state = first_state search\<rparr>)"

definition resume :: "library \<Rightarrow> string \<Rightarrow> string \<Rightarrow> string \<Rightarrow> int \<Rightarrow> board step" where
  "resume L search head coordinator limit =
     bind_step (give (new_board L search coordinator limit)) (\<lambda>b.
       bind_step (get_blob L (bo_prefix b) head True) (\<lambda>data. give (case data of
           None \<Rightarrow> Inl (ValueError ''missing or oversized board checkpoint'')
         | Some text \<Rightarrow>
             if int (length text) > limit then Inl (ValueError ''missing or oversized board checkpoint'')
             else bind_result (utf8_decode text) (\<lambda>text. case loads (lib_float L) text of
                 None \<Rightarrow> Inl (ValueError ''not JSON'')
               | Some (VDict st) \<Rightarrow> bind_result (item st ''search_id'') (\<lambda>s.
                   if s \<noteq> VStr search then Inl (ValueError ''checkpoint belongs to another search'')
                   else bind_result (validate_state st) (\<lambda>_. Inr (b\<lparr>bo_state := st, bo_head := Some head\<rparr>)))
               | Some _ \<Rightarrow> Inl (TypeError ''indices must be integers'')))))"

definition board_fields :: "string list" where
  "board_fields = [''facts'', ''intents'', ''hints'', ''end_reason'', ''end_detail'', ''checkpoint'']"

definition successor :: "library \<Rightarrow> pyval \<Rightarrow> pyval result" where
  "successor L v = (case v of
     VInt i \<Rightarrow> Inr (VInt (i + 1))
   | VBool b \<Rightarrow> Inr (VInt (if b then 2 else 1))
   | VFloat s \<Rightarrow> Inr (VFloat (lib_succ L s))
   | _ \<Rightarrow> Inl (TypeError ''unsupported operand''))"

text \<open>What \<open>allow_nan=False\<close> accepts.\<close>

fun finite_json :: "pyval \<Rightarrow> bool" where
  "finite_json (VFloat s) = (s \<notin> {''nan'', ''inf'', ''-inf''})"
| "finite_json (VList xs) = list_all finite_json xs"
| "finite_json (VDict d) = list_all (\<lambda>(k, v). finite_json v) d"
| "finite_json _ = True"

definition next_state :: "board \<Rightarrow> table \<Rightarrow> pyval \<Rightarrow> table" where
  "next_state b changes version =
     dict_set ''previous'' (case bo_head b of None \<Rightarrow> VNone | Some h \<Rightarrow> VStr h)
       (dict_set ''version'' version (foldl (\<lambda>d (k, v). dict_set k v d) (bo_state b) changes))"

definition commit :: "library \<Rightarrow> string \<Rightarrow> table \<Rightarrow> board \<Rightarrow> (string \<times> board) step" where
  "commit L writer changes b =
     (if writer \<noteq> bo_coordinator b then give (Inl (PermissionError ''only the coordinator may write the board''))
      else bind_step (give (item (bo_state b) ''end_reason'')) (\<lambda>e.
        if e \<noteq> VNone then give (Inl (ValueError ''search already ended''))
        else if \<not> fst ` set changes \<subseteq> set board_fields then give (Inl (ValueError ''unknown board fields''))
        else bind_step (give (bind_result (item (bo_state b) ''version'') (successor L))) (\<lambda>version.
          let st = next_state b changes version; data = dumps spaced (VDict st) in
          bind_step (give (validate_state st)) (\<lambda>_.
            if \<not> finite_json (VDict st) then give (Inl (ValueError ''Out of range float values are not JSON compliant''))
            else if int (length data) > bo_max b then give (Inl (ValueError ''board size cap exceeded''))
            else bind_step (put_blob L (bo_prefix b) data None) (\<lambda>head.
              give (Inr (head, b\<lparr>bo_state := st, bo_head := Some head\<rparr>)))))))"

text \<open>The candidate named by the manifest: a hint, never evidence.\<close>

definition candidate_of_hint :: "library \<Rightarrow> table \<Rightarrow> table option" where
  "candidate_of_hint L hint =
     (if field_text hint ''id'' = ''candidate''
      then (case loads (lib_float L) (field_text hint ''text'') of
          Some (VDict d) \<Rightarrow> Some (filter (\<lambda>(k, v). k \<in> set [''family'', ''file'', ''function'', ''oracle''] \<and> is_str v) d)
        | _ \<Rightarrow> None)
      else None)"

definition hints_of :: "table \<Rightarrow> table list" where
  "hints_of st = (case value_of st ''hints'' of VList xs \<Rightarrow> List.map_filter as_table xs | _ \<Rightarrow> [])"

definition board_candidate :: "library \<Rightarrow> board \<Rightarrow> table" where
  "board_candidate L b = (case List.map_filter (candidate_of_hint L) (hints_of (bo_state b)) of [] \<Rightarrow> [] | c # _ \<Rightarrow> c)"

section \<open>What validation accepts\<close>

text \<open>The entries of a kind.\<close>

definition entries :: "table \<Rightarrow> string \<Rightarrow> table list option" where
  "entries st kind = (case map_of st kind of
     Some (VList xs) \<Rightarrow> tables_of xs
   | Some (VDict d) \<Rightarrow> if d = [] then Some [] else None
   | Some (VStr s) \<Rightarrow> if s = [] then Some [] else None
   | _ \<Rightarrow> None)"

definition entry_ok :: "string \<Rightarrow> table \<Rightarrow> bool" where
  "entry_ok kind r \<longleftrightarrow> (\<forall>k \<in> set (required_keys kind). text_field r k \<noteq> None)"

definition refs_in :: "string list \<Rightarrow> pyval \<Rightarrow> bool" where
  "refs_in ids v \<longleftrightarrow> (\<exists>ys. v = VList (map VStr ys) \<and> set ys \<subseteq> set ids)"

definition fact_ok :: "string list \<Rightarrow> table \<Rightarrow> bool" where
  "fact_ok intents d \<longleftrightarrow> (\<exists>refs. value_of d ''evidence_refs'' = VList refs \<and> refs \<noteq> [] \<and> list_all nonempty_text refs) \<and>
     refs_in intents (value_of d ''from_intents'')"

definition intent_ok :: "string list \<Rightarrow> table \<Rightarrow> bool" where
  "intent_ok facts d \<longleftrightarrow> refs_in facts (value_of d ''from_facts'') \<and>
     (value_of d ''status'' = VStr ''open'' \<and> value_of d ''claimant'' = VNone \<or>
      value_of d ''status'' = VStr ''claimed'' \<and> truthy (value_of d ''claimant'') \<or> value_of d ''status'' = VStr ''concluded'')"

lemma check_refs_iff: "check_refs msg ids v = Inr () \<longleftrightarrow> refs_in ids v"
proof (cases v)
  case (VList xs)
  have "(\<forall>x \<in> set xs. \<exists>i \<in> set ids. x = VStr i) \<longleftrightarrow> (\<exists>ys. xs = map VStr ys \<and> set ys \<subseteq> set ids)"
  proof
    assume all: "\<forall>x \<in> set xs. \<exists>i \<in> set ids. x = VStr i"
    then have "\<exists>ys. xs = map VStr ys" by (intro ex_map_conv [THEN iffD2]) blast
    then show "\<exists>ys. xs = map VStr ys \<and> set ys \<subseteq> set ids" using all by auto
  next
    assume "\<exists>ys. xs = map VStr ys \<and> set ys \<subseteq> set ids"
    then show "\<forall>x \<in> set xs. \<exists>i \<in> set ids. x = VStr i" by fastforce
  qed
  moreover have "hashable x" if "\<exists>i \<in> set ids. x = VStr i" for x using that by auto
  ultimately show ?thesis by (auto simp: check_refs_def VList refs_in_def list_ex_iff)
qed (simp_all add: check_refs_def refs_in_def)

lemma check_fact_iff: "check_fact intents (VDict d) = Inr () \<longleftrightarrow> fact_ok intents d"
  by (auto simp: check_fact_def fact_ok_def check_refs_iff list_ex_iff list_all_iff split: pyval.splits)

lemma check_intent_iff: "check_intent facts (VDict d) = Inr () \<longleftrightarrow> intent_ok facts d"
  by (cases "check_refs ''unknown source fact'' facts (value_of d ''from_facts'')")
    (auto simp: check_intent_def intent_ok_def check_refs_iff [of "''unknown source fact''", symmetric] Let_def)

lemma check_entry_iff: "check_entry kind ids row = Inr ids' \<longleftrightarrow>
    (\<exists>r. row = VDict r \<and> entry_ok kind r \<and> field_text r ''id'' \<notin> set ids \<and> ids' = ids @ [field_text r ''id''])"
  by (auto simp: check_entry_def entry_ok_def split: pyval.splits)

lemma check_entries:
  "distinct ids \<Longrightarrow> fold_result (check_entry kind) ids rows = Inr ids' \<longleftrightarrow>
    (\<exists>rs. rows = map VDict rs \<and> ids' = ids @ row_ids rs \<and> distinct ids' \<and> (\<forall>r \<in> set rs. entry_ok kind r))"
proof (induction rows arbitrary: ids)
  case (Cons row rows)
  show ?case
  proof
    assume "fold_result (check_entry kind) ids (row # rows) = Inr ids'"
    then obtain r where r: "row = VDict r" "entry_ok kind r" "field_text r ''id'' \<notin> set ids"
      "fold_result (check_entry kind) (ids @ [field_text r ''id'']) rows = Inr ids'"
      by (auto simp: bind_result_eq_Inr check_entry_iff)
    with Cons.IH [of "ids @ [field_text r ''id'']"] Cons.prems obtain rs where
      "rows = map VDict rs" "ids' = ids @ [field_text r ''id''] @ row_ids rs" "distinct ids'" "\<forall>r \<in> set rs. entry_ok kind r" by auto
    with r show "\<exists>rs. row # rows = map VDict rs \<and> ids' = ids @ row_ids rs \<and> distinct ids' \<and> (\<forall>r \<in> set rs. entry_ok kind r)"
      by (intro exI [of _ "r # rs"]) (simp add: row_ids_def)
  next
    assume "\<exists>rs. row # rows = map VDict rs \<and> ids' = ids @ row_ids rs \<and> distinct ids' \<and> (\<forall>r \<in> set rs. entry_ok kind r)"
    then obtain r rs where r: "row = VDict r" "rows = map VDict rs" "ids' = (ids @ [field_text r ''id'']) @ row_ids rs" "distinct ids'"
      "entry_ok kind r" "\<forall>r \<in> set rs. entry_ok kind r" by (auto simp: row_ids_def Cons_eq_map_conv)
    then have "fold_result (check_entry kind) (ids @ [field_text r ''id'']) rows = Inr ids'"
      using Cons.IH [of "ids @ [field_text r ''id'']"] by auto
    then show "fold_result (check_entry kind) ids (row # rows) = Inr ids'"
      using r by (auto simp: bind_result_eq_Inr check_entry_iff)
  qed
qed (auto simp: row_ids_def)

lemma iterate_tables:
  "iterate v = Inr (map VDict rs) \<longleftrightarrow> v = VList (map VDict rs) \<or> rs = [] \<and> (v = VDict [] \<or> v = VStr [])"
  by (cases v; cases rs) (auto simp: Cons_eq_map_conv)

lemma entries_iff: "entries st kind = Some rs \<longleftrightarrow> (\<exists>v. map_of st kind = Some v \<and> iterate v = Inr (map VDict rs))"
  by (auto simp: entries_def iterate_tables tables_of_iff split: option.splits pyval.splits if_splits)

lemma entry_ids_iff: "entry_ids st kind = Inr ids \<longleftrightarrow>
    (\<exists>rs. entries st kind = Some rs \<and> ids = row_ids rs \<and> distinct ids \<and> (\<forall>r \<in> set rs. entry_ok kind r))"
proof -
  have "entry_ids st kind = Inr ids \<longleftrightarrow> (\<exists>v rows. map_of st kind = Some v \<and> iterate v = Inr rows \<and> fold_result (check_entry kind) [] rows = Inr ids)"
    by (auto simp: entry_ids_def bind_result_eq_Inr item_def split: option.splits)
  also have "\<dots> \<longleftrightarrow> (\<exists>rs. entries st kind = Some rs \<and> ids = row_ids rs \<and> distinct ids \<and> (\<forall>r \<in> set rs. entry_ok kind r))"
    using check_entries [of "[]" kind _ ids] by (auto simp: entries_iff)
  finally show ?thesis .
qed

lemma fold_unit: "fold_result (\<lambda>_. f) () xs = Inr () \<longleftrightarrow> (\<forall>x \<in> set xs. f x = Inr ())"
  by (induction xs) (auto simp: bind_result_eq_Inr)

lemma check_each_iff: "entries st kind = Some rs \<Longrightarrow> check_each check st kind = Inr () \<longleftrightarrow> (\<forall>r \<in> set rs. check (VDict r) = Inr ())"
  by (auto simp: entries_iff check_each_def item_def fold_unit)

definition valid_state :: "table \<Rightarrow> bool" where
  "valid_state st \<longleftrightarrow> (\<exists>facts intents hints.
     entries st ''facts'' = Some facts \<and> entries st ''intents'' = Some intents \<and> entries st ''hints'' = Some hints \<and>
     (\<exists>e \<in> set end_reasons. map_of st ''end_reason'' = Some e) \<and>
     distinct (row_ids facts) \<and> distinct (row_ids intents) \<and> distinct (row_ids hints) \<and>
     (\<forall>r \<in> set facts. entry_ok ''facts'' r \<and> fact_ok (row_ids intents) r) \<and>
     (\<forall>r \<in> set intents. entry_ok ''intents'' r \<and> intent_ok (row_ids facts) r) \<and>
     (\<forall>r \<in> set hints. entry_ok ''hints'' r))"

lemma validate_state_iff: "validate_state st = Inr () \<longleftrightarrow> valid_state st"
proof -
  have "validate_state st = Inr () \<longleftrightarrow> (\<exists>e facts intents hints. map_of st ''end_reason'' = Some e \<and> e \<in> set end_reasons \<and>
      entry_ids st ''facts'' = Inr facts \<and> entry_ids st ''intents'' = Inr intents \<and> entry_ids st ''hints'' = Inr hints \<and>
      check_each (check_fact intents) st ''facts'' = Inr () \<and> check_each (check_intent facts) st ''intents'' = Inr ())"
    by (simp add: validate_state_def bind_result_eq_Inr item_def split: option.split) blast
  also have "\<dots> \<longleftrightarrow> valid_state st"
    unfolding valid_state_def entry_ids_iff
    by (auto simp: check_each_iff check_fact_iff check_intent_iff)
  finally show ?thesis .
qed

section \<open>A state as it is read back\<close>

lemma sort_key_Nil_iff [simp]: "sort_key f xs = [] \<longleftrightarrow> xs = []"
  by (metis length_0_conv length_sort)

lemma canon_entries:
  assumes "distinct (map fst st)"
  shows "entries (canon st) kind = map_option (map canon) (entries st kind)"
proof -
  have "tables_of (map sorted_value xs) = map_option (map canon) (tables_of xs)" for xs
    by (induction xs rule: tables_of.induct) (auto simp: canon_def option.map_comp comp_def)
  then show ?thesis
    using map_of_canon [OF assms, of kind] by (cases "map_of st kind") (auto simp: entries_def canon_def split: pyval.splits)
qed

lemma plain_entries: "plain_row L st \<Longrightarrow> entries st kind = Some rs \<Longrightarrow> r \<in> set rs \<Longrightarrow> plain_row L r"
proof -
  assume st: "plain_row L st" and "entries st kind = Some rs" "r \<in> set rs"
  then have "map_of st kind = Some (VList (map VDict rs))"
    by (auto simp: entries_iff iterate_tables)
  then have "plain (lib_float L) (VList (map VDict rs))"
    using st by (auto simp: plain_row_def list_all_iff simp del: plain.simps(2) dest!: map_of_SomeD)
  then show "plain_row L r" using \<open>r \<in> set rs\<close> by (simp add: plain_row_def list_all_iff)
qed

lemma value_of_canon: "distinct (map fst r) \<Longrightarrow> value_of (canon r) f = sorted_value (value_of r f)"
  by (simp add: value_of_def map_of_canon split: option.splits)

lemma sorted_value_forms:
  "sorted_value v = VStr s \<longleftrightarrow> v = VStr s" "sorted_value v = VNone \<longleftrightarrow> v = VNone" "truthy (sorted_value v) = truthy v"
proof -
  show "sorted_value v = VStr s \<longleftrightarrow> v = VStr s" "sorted_value v = VNone \<longleftrightarrow> v = VNone" by (cases v; simp)+
  show "truthy (sorted_value v) = truthy v" by (cases v) simp_all
qed

lemma refs_in_sorted: "refs_in ids v \<Longrightarrow> refs_in ids (sorted_value v)"
  by (auto simp: refs_in_def comp_def)

lemma fact_ok_canon: "distinct (map fst r) \<Longrightarrow> fact_ok ids r \<Longrightarrow> fact_ok ids (canon r)"
proof -
  assume d: "distinct (map fst r)" and f: "fact_ok ids r"
  then obtain refs where refs: "value_of r ''evidence_refs'' = VList refs" "refs \<noteq> []" "list_all nonempty_text refs"
    by (auto simp: fact_ok_def)
  have "nonempty_text (sorted_value x)" if "nonempty_text x" for x using that by (cases x) simp_all
  then show "fact_ok ids (canon r)"
    using f refs by (auto simp: fact_ok_def value_of_canon [OF d] refs_in_sorted list_all_iff)
qed

lemma intent_ok_canon: "distinct (map fst r) \<Longrightarrow> intent_ok ids r \<Longrightarrow> intent_ok ids (canon r)"
  by (auto simp: intent_ok_def value_of_canon sorted_value_forms refs_in_sorted)

lemma valid_state_canon: "plain_row L st \<Longrightarrow> valid_state st \<Longrightarrow> valid_state (canon st)"
proof -
  assume st: "plain_row L st" and "valid_state st"
  then obtain facts intents hints e where v:
    "entries st ''facts'' = Some facts" "entries st ''intents'' = Some intents" "entries st ''hints'' = Some hints"
    "e \<in> set end_reasons" "map_of st ''end_reason'' = Some e"
    "distinct (row_ids facts)" "distinct (row_ids intents)" "distinct (row_ids hints)"
    "\<forall>r \<in> set facts. entry_ok ''facts'' r \<and> fact_ok (row_ids intents) r"
    "\<forall>r \<in> set intents. entry_ok ''intents'' r \<and> intent_ok (row_ids facts) r"
    "\<forall>r \<in> set hints. entry_ok ''hints'' r" unfolding valid_state_def by blast
  note d = plain_row_distinct [OF st]
  have rows: "plain_row L r" if "r \<in> set facts \<union> set intents \<union> set hints" for r
    using that plain_entries [OF st] v(1-3) by blast
  have ids: "row_ids (map canon rs) = row_ids rs" if "\<forall>r \<in> set rs. plain_row L r" for rs
    using that canon_fields(1) [of L] by (simp add: row_ids_def)
  have entry: "entry_ok kind (canon r) = entry_ok kind r" if "plain_row L r" for kind r
    using canon_fields(2) [OF that] by (simp add: entry_ok_def)
  have "sorted_value e = e" using v(4) by (auto simp: end_reasons_def)
  then have "map_of (canon st) ''end_reason'' = Some e" using v(5) by (simp add: map_of_canon [OF d])
  then show "valid_state (canon st)"
    unfolding valid_state_def canon_entries [OF d] v(1-3) option.map
    using v(4,6-) rows
    by (simp add: ids entry fact_ok_canon intent_ok_canon plain_row_distinct [of L])
qed

section \<open>A store by content\<close>

text \<open>What the board relies on: a text that was put is found under the name it was given, and stays found whatever is
  put later. \<open>room d s\<close> says that the name of \<open>d\<close> is not taken by anything else.\<close>

locale content_store =
  fixes put :: "string \<Rightarrow> 's \<Rightarrow> string result \<times> 's"
    and found :: "string \<Rightarrow> 's \<Rightarrow> string option"
    and room :: "string \<Rightarrow> 's \<Rightarrow> bool"
  assumes put_found: "put d s = (Inr k, s') \<Longrightarrow> room d s \<Longrightarrow> found k s' = Some d"
    and put_keeps: "put d s = (r, s') \<Longrightarrow> found k s = Some x \<Longrightarrow> found k s' = Some x"
begin

text \<open>A run of puts, oldest first, each with the name it was given.\<close>

inductive puts :: "'s \<Rightarrow> (string \<times> string) list \<Rightarrow> 's \<Rightarrow> bool" where
  none: "puts s [] s"
| one: "puts s log s' \<Longrightarrow> room d s' \<Longrightarrow> put d s' = (Inr k, s'') \<Longrightarrow> puts s (log @ [(k, d)]) s''"
| other: "puts s log s' \<Longrightarrow> put d s' = (r, s'') \<Longrightarrow> puts s log s''"

lemma puts_found: "puts s log s' \<Longrightarrow> (k, d) \<in> set log \<Longrightarrow> found k s' = Some d"
proof (induction rule: puts.induct)
  case (one s log s' d' k' s'')
  then show ?case using put_found [OF one.hyps(3,2)] put_keeps [OF one.hyps(3)] by auto
next
  case (other s log s' d' r s'')
  then show ?case using put_keeps [OF other.hyps(2)] by auto
qed simp

end

text \<open>The memory store under one prefix.\<close>

definition blob_found :: "library \<Rightarrow> string \<Rightarrow> string \<Rightarrow> memory \<Rightarrow> string option" where
  "blob_found L prefix name m = (case blob_key prefix name of
     Inl _ \<Rightarrow> None
   | Inr key \<Rightarrow> (case store_get key m of Some x \<Rightarrow> if lib_sha L x = name then Some x else None | None \<Rightarrow> None))"

definition blob_room :: "library \<Rightarrow> string \<Rightarrow> string \<Rightarrow> memory \<Rightarrow> bool" where
  "blob_room L prefix data m = (case blob_key prefix (lib_sha L data) of
     Inl _ \<Rightarrow> False
   | Inr key \<Rightarrow> (case store_get key m of Some x \<Rightarrow> x = data | None \<Rightarrow> True))"

text \<open>The outcome of \<open>put_blob\<close>: the blob was there, or it was written and nothing else changed.\<close>

lemma put_blob_cases:
  assumes "put_blob L prefix data None m = (out, m')"
  obtains (failed) e where "out = Inl e" "m' = m"
  | (present) key where "blob_key prefix (lib_sha L data) = Inr key" "store_get key m \<noteq> None" "out = Inr (lib_sha L data)" "m' = m"
  | (written) key where "blob_key prefix (lib_sha L data) = Inr key" "store_get key m = None" "out = Inr (lib_sha L data)"
      "m' = m\<lparr>mm_objects := dict_set key data (mm_objects m)\<rparr>"
proof (cases "blob_key prefix (lib_sha L data)")
  case (Inl e)
  then have "out = Inl e" "m' = m" using assms by (auto simp: put_blob_def)
  then show thesis by (rule failed)
next
  case (Inr key)
  show thesis
  proof (cases "store_get key m = None")
    case True
    then show thesis
      using assms failed written [OF Inr] Inr
      by (cases "mm_free m < 2 ^ 30") (auto simp: put_blob_def check_space_def bind_step_def)
  next
    case False
    then show thesis using assms present [OF Inr] Inr by (auto simp: put_blob_def)
  qed
qed

lemma blob_key_eq: "blob_key p n = Inr key \<Longrightarrow> blob_key p n' = Inr key \<Longrightarrow> n = n'"
  by (auto simp: blob_key_def Let_def memory_error_def split: if_splits)

lemma blob_key_name: "blob_key p n = Inr key \<Longrightarrow> n \<noteq> []"
  by (auto simp: blob_key_def Let_def memory_error_def blob_name_match_def split: if_splits)

interpretation blobs: content_store "\<lambda>d. put_blob L prefix d None" "blob_found L prefix" "blob_room L prefix" for L prefix
proof
  fix d s k s' assume put: "put_blob L prefix d None s = (Inr k, s')" and room: "blob_room L prefix d s"
  show "blob_found L prefix k s' = Some d"
    using put by (rule put_blob_cases) (use room in \<open>auto simp: blob_room_def blob_found_def\<close>)
next
  fix d s r s' k x assume put: "put_blob L prefix d None s = (r, s')" and x: "blob_found L prefix k s = Some x"
  show "blob_found L prefix k s' = Some x"
    using put by (rule put_blob_cases) (use x in \<open>auto simp: blob_found_def split: sum.splits option.splits if_splits\<close>)
qed

text \<open>A blob that is found is what a verified read gives, and the read changes nothing.\<close>

lemma get_blob_found: "blob_found L prefix name m = Some d \<Longrightarrow> get_blob L prefix name True m = (Inr (Some d), m)"
  by (auto simp: blob_found_def get_blob_def split: sum.splits option.splits if_splits)

text \<open>Whoever puts a blob, under whatever name, writes a key that is free.\<close>

lemma put_blob_any:
  assumes "put_blob L p d n m = (r, m')"
  shows "m' = m \<or> (\<exists>key. store_get key m = None \<and> m' = m\<lparr>mm_objects := dict_set key d (mm_objects m)\<rparr>)"
proof -
  define name where "name = (case n of Some n \<Rightarrow> if n = [] then lib_sha L d else n | None \<Rightarrow> lib_sha L d)"
  show ?thesis
  proof (cases "blob_key p name")
    case (Inl e)
    then show ?thesis using assms by (auto simp: put_blob_def name_def)
  next
    case (Inr key)
    then show ?thesis
      using assms
      by (cases "store_get key m = None"; cases "mm_free m < 2 ^ 30")
        (auto simp: put_blob_def name_def [symmetric] check_space_def bind_step_def)
  qed
qed

lemma put_blob_keeps:
  assumes "put_blob L p d n m = (r, m')" "blob_found L prefix k m = Some x"
  shows "blob_found L prefix k m' = Some x"
  using put_blob_any [OF assms(1)] assms(2) by (auto simp: blob_found_def split: sum.splits option.splits if_splits)

section \<open>Commits\<close>

lemma commit_facts:
  assumes "commit L writer changes b m = (out, m')"
  shows "case out of
      Inl e \<Rightarrow> m' = m
    | Inr (head, b') \<Rightarrow>
        writer = bo_coordinator b \<and> map_of (bo_state b) ''end_reason'' = Some VNone \<and> fst ` set changes \<subseteq> set board_fields \<and>
        (\<exists>v version. map_of (bo_state b) ''version'' = Some v \<and> successor L v = Inr version \<and>
          b' = b\<lparr>bo_state := next_state b changes version, bo_head := Some head\<rparr>) \<and>
        valid_state (bo_state b') \<and> finite_json (VDict (bo_state b')) \<and>
        int (length (dumps spaced (VDict (bo_state b')))) \<le> bo_max b \<and>
        put_blob L (bo_prefix b) (dumps spaced (VDict (bo_state b'))) None m = (Inr head, m')"
proof -
  have fail: "m' = m" if "put_blob L p d None m = (Inl e, m')" for p d e
    using that by (rule put_blob_cases) auto
  show ?thesis
    using assms fail
    by (auto simp: commit_def bind_step_cases item_def bind_result_eq_Inr Let_def validate_state_iff
        simp del: bind_step_simps finite_json.simps split: if_splits option.splits)
qed

text \<open>A run of a board: its commits, oldest first, with the blobs others put in between. A commit is counted on only where
  the name of its text is not taken by another text.\<close>

inductive board_run :: "library \<Rightarrow> board \<Rightarrow> (string \<times> table) list \<Rightarrow> memory \<Rightarrow> board \<Rightarrow> bool" for L b0 where
  start: "board_run L b0 [] m b0"
| commit: "board_run L b0 log m b \<Longrightarrow> plain_row L changes \<Longrightarrow> commit L w changes b m = (Inr (head, b'), m') \<Longrightarrow>
    blob_room L (bo_prefix b) (dumps spaced (VDict (bo_state b'))) m \<Longrightarrow> board_run L b0 (log @ [(head, bo_state b')]) m' b'"
| other: "board_run L b0 log m b \<Longrightarrow> put_blob L p d n m = (r, m') \<Longrightarrow> board_run L b0 log m' b"

inductive_cases board_run_startE: "board_run L b0 [] m b"

lemma map_of_changes: "f \<notin> fst ` set changes \<Longrightarrow> map_of (foldl (\<lambda>d (k, v). dict_set k v d) st changes) f = map_of st f"
proof (induction changes arbitrary: st)
  case (Cons x changes)
  then show ?case by (cases x) auto
qed simp

lemma next_state_fields:
  "map_of (next_state b changes v) ''version'' = Some v"
  "map_of (next_state b changes v) ''previous'' = Some (case bo_head b of None \<Rightarrow> VNone | Some h \<Rightarrow> VStr h)"
  "fst ` set changes \<subseteq> set board_fields \<Longrightarrow> map_of (next_state b changes v) ''search_id'' = map_of (bo_state b) ''search_id''"
proof -
  have "''search_id'' \<notin> set board_fields" by code_simp
  then show "fst ` set changes \<subseteq> set board_fields \<Longrightarrow> map_of (next_state b changes v) ''search_id'' = map_of (bo_state b) ''search_id''"
    using map_of_changes [of "''search_id''" changes "bo_state b"] by (auto simp: next_state_def)
qed (simp_all add: next_state_def)

lemma plain_next_state:
  assumes "plain_row L (bo_state b)" "plain_row L changes" "plain (lib_float L) v"
  shows "plain_row L (next_state b changes v)"
proof -
  have "plain_row L (foldl (\<lambda>d (k, v). dict_set k v d) st changes)" if "plain_row L st" "list_all (\<lambda>(k, v). plain (lib_float L) v) changes" for st changes
    using that
  proof (induction changes arbitrary: st)
    case (Cons x changes)
    then show ?case by (cases x) (simp add: plain_dict_set)
  qed simp
  then show ?thesis
    using assms by (auto simp: next_state_def plain_dict_set plain_row_def [of _ changes] split: option.split)
qed

text \<open>One commit as it stands in the log: valid, of the search, within the cap, readable under its name.\<close>

definition logged :: "library \<Rightarrow> board \<Rightarrow> memory \<Rightarrow> string \<times> table \<Rightarrow> bool" where
  "logged L b m = (\<lambda>(head, st). plain_row L st \<and> valid_state st \<and> map_of st ''search_id'' = Some (VStr (bo_search b)) \<and>
     int (length (dumps spaced (VDict st))) \<le> bo_max b \<and> blob_found L (bo_prefix b) head m = Some (dumps spaced (VDict st)))"

definition linked :: "(string \<times> table) list \<Rightarrow> bool" where
  "linked log \<longleftrightarrow> (\<forall>i < length log. map_of (snd (log ! i)) ''version'' = Some (VInt (int i + 1)) \<and>
     map_of (snd (log ! i)) ''previous'' = Some (if i = 0 then VNone else VStr (fst (log ! (i - 1)))) \<and>
     (i + 1 < length log \<longrightarrow> map_of (snd (log ! i)) ''end_reason'' = Some VNone))"

definition fresh_board :: "library \<Rightarrow> board \<Rightarrow> bool" where
  "fresh_board L b \<longleftrightarrow> new_board L (bo_search b) (bo_coordinator b) (bo_max b) = Inr b"

lemma fresh_boardD: "fresh_board L b \<Longrightarrow> bo_head b = None \<and> bo_state b = first_state (bo_search b)"
  by (cases b) (auto simp: fresh_board_def new_board_def split: if_splits)

definition run_ok :: "library \<Rightarrow> board \<Rightarrow> (string \<times> table) list \<Rightarrow> memory \<Rightarrow> board \<Rightarrow> bool" where
  "run_ok L b0 log m b \<longleftrightarrow>
     bo_search b = bo_search b0 \<and> bo_coordinator b = bo_coordinator b0 \<and> bo_max b = bo_max b0 \<and> bo_prefix b = bo_prefix b0 \<and>
     list_all (logged L b0 m) log \<and> linked log \<and>
     (if log = [] then b = b0 else bo_head b = Some (fst (last log)) \<and> bo_state b = snd (last log)) \<and>
     map_of (bo_state b) ''version'' = Some (VInt (int (length log))) \<and> plain_row L (bo_state b) \<and>
     map_of (bo_state b) ''search_id'' = Some (VStr (bo_search b0))"

lemma linked_snoc:
  assumes "linked log" "map_of st ''version'' = Some (VInt (int (length log) + 1))"
    "map_of st ''previous'' = Some (if log = [] then VNone else VStr (fst (last log)))"
    "log \<noteq> [] \<Longrightarrow> map_of (snd (last log)) ''end_reason'' = Some VNone"
  shows "linked (log @ [(head, st)])"
  unfolding linked_def
proof (intro allI impI)
  fix i assume "i < length (log @ [(head, st)])"
  then consider "i < length log" | "i = length log" by fastforce
  then show "map_of (snd ((log @ [(head, st)]) ! i)) ''version'' = Some (VInt (int i + 1)) \<and>
     map_of (snd ((log @ [(head, st)]) ! i)) ''previous'' = Some (if i = 0 then VNone else VStr (fst ((log @ [(head, st)]) ! (i - 1)))) \<and>
     (i + 1 < length (log @ [(head, st)]) \<longrightarrow> map_of (snd ((log @ [(head, st)]) ! i)) ''end_reason'' = Some VNone)"
  proof cases
    case 1
    have "map_of (snd (log ! i)) ''end_reason'' = Some VNone" if "i + 1 = length log"
    proof -
      have "last log = log ! i" using that by (metis add_diff_cancel_right' last_conv_nth list.size(3) nat.simps(3) Suc_eq_plus1)
      then show ?thesis using assms(4) 1 by (cases log) simp_all
    qed
    then show ?thesis using 1 assms(1) by (auto simp: linked_def nth_append)
  next
    case 2
    then show ?thesis using assms(2,3) by (cases "log = []") (auto simp: nth_append last_conv_nth)
  qed
qed

lemma logged_keeps:
  assumes "list_all (logged L b m) log" "put_blob L p d n m = (r, m')"
  shows "list_all (logged L b m') log"
  using assms(1) put_blob_keeps [OF assms(2)] by (auto simp: logged_def list_all_iff)

lemma board_run_ok: "board_run L b0 log m b \<Longrightarrow> fresh_board L b0 \<Longrightarrow> run_ok L b0 log m b"
proof (induction rule: board_run.induct)
  case (start m)
  then have "bo_state b0 = first_state (bo_search b0)" by (simp add: fresh_boardD)
  moreover have "plain_row L (first_state s)" for s by (simp add: plain_row_def first_state_def)
  ultimately show ?case by (simp add: run_ok_def linked_def first_state_def)
next
  case (commit log m b changes w head b' m')
  note ok = commit.IH [OF commit.prems, unfolded run_ok_def]
  from commit_facts [OF commit.hyps(3)] obtain version where c:
    "map_of (bo_state b) ''end_reason'' = Some VNone" "fst ` set changes \<subseteq> set board_fields"
    "successor L (VInt (int (length log))) = Inr version"
    "b' = b\<lparr>bo_state := next_state b changes version, bo_head := Some head\<rparr>"
    "valid_state (bo_state b')" "int (length (dumps spaced (VDict (bo_state b')))) \<le> bo_max b"
    "put_blob L (bo_prefix b) (dumps spaced (VDict (bo_state b'))) None m = (Inr head, m')"
    using ok by auto
  have version: "version = VInt (int (length log) + 1)" using c(3) by (simp add: successor_def)
  have plain: "plain_row L (bo_state b')" using plain_next_state ok commit.hyps(2) version by (simp add: c(4))
  have search: "map_of (bo_state b') ''search_id'' = Some (VStr (bo_search b0))"
    using next_state_fields(3) [OF c(2)] ok by (simp add: c(4))
  have "blob_found L (bo_prefix b) head m' = Some (dumps spaced (VDict (bo_state b')))"
    by (rule blobs.put_found [OF c(7) commit.hyps(4)])
  then have "list_all (logged L b0 m') (log @ [(head, bo_state b')])"
    using logged_keeps [OF _ c(7)] ok plain search c(5,6) by (simp add: logged_def)
  moreover have "linked (log @ [(head, bo_state b')])"
    using ok version c(1) by (intro linked_snoc) (auto simp: c(4) next_state_fields fresh_boardD [OF commit.prems])
  ultimately show ?case
    using ok plain search version c(4) next_state_fields(1) by (simp add: run_ok_def)
next
  case (other log m b p d n r m')
  then show ?case using logged_keeps [OF _ other.hyps(2)] by (auto simp: run_ok_def)
qed

lemma loads_state:
  assumes "plain_row L st"
  shows "utf8_decode (dumps spaced (VDict st)) = Inr (dumps spaced (VDict st)) \<and>
    loads (lib_float L) (dumps spaced (VDict st)) = Some (VDict (canon st))"
proof -
  have p: "plain (lib_float L) (VDict st)" using assms by (simp only: plain_row_def)
  have "printable c" if "c \<in> set (dumps spaced (VDict st))" for c
    using that plain_sorted [OF p] printable_text [of spaced "lib_float L" _ c] by (simp add: dumps_def del: json_text.simps sorted_value.simps plain.simps)
  then have "\<forall>c \<in> set (dumps spaced (VDict st)). code c < 128" by (fastforce simp: printable_def)
  then show ?thesis
    using loads_dumps [OF p, of spaced] by (simp add: utf8_decode_ascii canon_sorted del: sorted_value.simps)
qed

lemma resume_logged:
  assumes "fresh_board L b" "logged L b m (head, st)"
  shows "resume L (bo_search b) head (bo_coordinator b) (bo_max b) m = (Inr (b\<lparr>bo_state := canon st, bo_head := Some head\<rparr>), m)"
proof -
  have st: "plain_row L st" "valid_state st" "map_of st ''search_id'' = Some (VStr (bo_search b))"
    "int (length (dumps spaced (VDict st))) \<le> bo_max b" "blob_found L (bo_prefix b) head m = Some (dumps spaced (VDict st))"
    using assms(2) by (simp_all add: logged_def)
  have "item (canon st) ''search_id'' = Inr (VStr (bo_search b))"
    using st(3) map_of_canon [OF plain_row_distinct [OF st(1)]] by (simp add: item_def)
  moreover have "validate_state (canon st) = Inr ()"
    using valid_state_canon [OF st(1,2)] by (simp add: validate_state_iff)
  ultimately show ?thesis
    using assms(1) st(4) get_blob_found [OF st(5)] loads_state [OF st(1)]
    by (simp add: resume_def fresh_board_def bind_step_def not_less)
qed

text \<open>C37. Every commit can be taken up again: however often a board was committed and whatever blobs others put in
  between, resuming from the name of any commit gives the state of that commit (its keys sorted); the commits are
  linked by \<open>previous\<close>, numbered by \<open>version\<close> without gaps, valid, and none but the last has an end reason.\<close>

theorem board_history:
  assumes "fresh_board L b0" "board_run L b0 log m b" "i < length log"
  shows "resume L (bo_search b0) (fst (log ! i)) (bo_coordinator b0) (bo_max b0) m =
      (Inr (b0\<lparr>bo_state := canon (snd (log ! i)), bo_head := Some (fst (log ! i))\<rparr>), m) \<and>
    map_of (snd (log ! i)) ''version'' = Some (VInt (int i + 1)) \<and>
    map_of (snd (log ! i)) ''previous'' = Some (if i = 0 then VNone else VStr (fst (log ! (i - 1)))) \<and>
    valid_state (snd (log ! i)) \<and>
    (i + 1 < length log \<longrightarrow> map_of (snd (log ! i)) ''end_reason'' = Some VNone)"
proof -
  have ok: "list_all (logged L b0 m) log" "linked log" using board_run_ok [OF assms(2,1)] by (simp_all add: run_ok_def)
  then have at: "logged L b0 m (fst (log ! i), snd (log ! i))" using assms(3) by (simp add: list_all_length)
  then have "valid_state (snd (log ! i))" by (simp add: logged_def case_prod_unfold)
  then show ?thesis
    using resume_logged [OF assms(1) at] ok(2) assms(3) by (simp add: linked_def)
qed

text \<open>C38. A commit is all or nothing: it succeeds only for the coordinator, on a search that has not ended, with known
  fields, a valid state and a text within the cap, and then the new state carries the next version and the name of
  the state before; otherwise the store is as it was.\<close>

theorem commit_guarded:
  "case commit L writer changes b m of
      (Inl e, m') \<Rightarrow> m' = m
    | (Inr (head, b'), m') \<Rightarrow>
        writer = bo_coordinator b \<and> map_of (bo_state b) ''end_reason'' = Some VNone \<and> fst ` set changes \<subseteq> set board_fields \<and>
        valid_state (bo_state b') \<and> int (length (dumps spaced (VDict (bo_state b')))) \<le> bo_max b \<and>
        (\<exists>v version. map_of (bo_state b) ''version'' = Some v \<and> successor L v = Inr version \<and>
          map_of (bo_state b') ''version'' = Some version) \<and>
        map_of (bo_state b') ''previous'' = Some (case bo_head b of None \<Rightarrow> VNone | Some h \<Rightarrow> VStr h) \<and>
        bo_head b' = Some head"
proof (cases "commit L writer changes b m")
  case (Pair out m')
  from commit_facts [OF this] show ?thesis
    unfolding Pair by (cases out) (auto simp: next_state_fields split: prod.splits)
qed

text \<open>Validation accepts exactly the states whose entries are tables with the required texts and distinct ids, whose
  facts cite evidence and existing intents, whose intents cite existing facts and have a claimant when and only when
  they may, and whose end reason is one of the five.\<close>

theorem validate_state_exact: "validate_state st = Inr () \<longleftrightarrow> valid_state st"
  by (rule validate_state_iff)

section \<open>Snapshots\<close>

text \<open>What a worker is shown. The arguments are the YAML writer and whether the float of a text is at least two.\<close>

definition rows_of :: "table \<Rightarrow> string \<Rightarrow> table list" where
  "rows_of st kind = (case entries st kind of Some rs \<Rightarrow> rs | None \<Rightarrow> [])"

definition conclude_intent :: "table list \<Rightarrow> table \<Rightarrow> table" where
  "conclude_intent facts intent =
     (if value_of intent ''status'' = VStr ''concluded'' then
        let cited = map (\<lambda>f. value_of f ''id'')
              (filter (\<lambda>f. case value_of f ''from_intents'' of VList xs \<Rightarrow> value_of intent ''id'' \<in> set xs | _ \<Rightarrow> False) facts)
        in dict_set ''conclusion''
             (if cited \<noteq> [] then VDict [(''facts'', VList cited)]
              else VDict [(''failure'', value_or intent ''failure'' (VStr ''no confirmed facts''))]) intent
      else intent)"

text \<open>The newest facts keep their text: 2000 characters each, 12000 together.\<close>

definition trim_fact :: "nat \<Rightarrow> table \<Rightarrow> table" where
  "trim_fact remaining row =
     (let original = field_text row ''text''; kept = take (min 2000 remaining) original; row = dict_set ''text'' (VStr kept) row in
      if kept \<noteq> original then dict_set ''text_truncated'' (VBool True) row else row)"

fun trim_facts :: "nat \<Rightarrow> table list \<Rightarrow> table list" where
  "trim_facts remaining [] = []"
| "trim_facts remaining (f # fs) =
     trim_fact remaining f # trim_facts (remaining - length (field_text (trim_fact remaining f) ''text'')) fs"

definition at_least_two :: "(string \<Rightarrow> bool) \<Rightarrow> pyval \<Rightarrow> bool result" where
  "at_least_two ge v = (case v of
     VInt i \<Rightarrow> Inr (i \<ge> 2) | VBool b \<Rightarrow> Inr False | VFloat s \<Rightarrow> Inr (ge s) | _ \<Rightarrow> Inl (TypeError ''not supported between instances''))"

definition shown_rows :: "table \<Rightarrow> string \<Rightarrow> table list \<Rightarrow> pyval" where
  "shown_rows st kind rows = (if rows_of st kind = [] then value_of st kind else VList (map VDict rows))"

definition snapshot_extra :: "(string \<Rightarrow> bool) \<Rightarrow> table \<Rightarrow> table result" where
  "snapshot_extra ge st = (case as_table (value_or st ''checkpoint'' (VDict [])) of
     None \<Rightarrow> Inl (AttributeError ''get'')
   | Some checkpoint \<Rightarrow>
       bind_result (at_least_two ge (value_or checkpoint ''reason_completed'' (value_or checkpoint ''rounds'' (VInt 0)))) (\<lambda>two.
         Inr ((if truthy (value_of checkpoint ''duplicate_rejections'') then [(''rejections'', value_of checkpoint ''duplicate_rejections'')] else []) @
           (if two \<and> \<not> list_ex (\<lambda>f. truthy (value_of f ''demo'')) (rows_of st ''facts'')
            then [(''Priority'', VStr ''construct the demo now with the facts available, or finish with the precise blocker.'')] else []))))"

definition snapshot_view :: "library \<Rightarrow> board \<Rightarrow> table \<Rightarrow> table \<Rightarrow> pyval \<Rightarrow> table list \<Rightarrow> table list \<Rightarrow> table list \<Rightarrow> nat \<times> nat \<times> nat \<Rightarrow> pyval" where
  "snapshot_view L b budget extra version facts intents hints omitted =
     (let st = bo_state b; candidate = board_candidate L b in
      VDict ([(''version'', version), (''end_reason'', value_of st ''end_reason''), (''facts'', shown_rows st ''facts'' facts),
        (''intents'', shown_rows st ''intents'' intents), (''hints'', shown_rows st ''hints'' hints), (''candidate'', VDict candidate),
        (''family'', value_or candidate ''family'' (VStr ''unknown'')), (''budget_left'', VDict budget)] @ extra @
        [(''omitted'', VDict [(''facts'', VInt (int (fst omitted))), (''intents'', VInt (int (fst (snd omitted)))),
          (''hints'', VInt (int (snd (snd omitted))))])]))"

definition utf8_size :: "string \<Rightarrow> nat" where
  "utf8_size s = sum_list (map (\<lambda>c. if code c < 128 then 1 else 2) s)"

text \<open>The oldest entries go first, facts before intents before hints, until the text fits.\<close>

fun shrink :: "(table list \<Rightarrow> table list \<Rightarrow> table list \<Rightarrow> nat \<times> nat \<times> nat \<Rightarrow> string) \<Rightarrow> int \<Rightarrow>
    table list \<Rightarrow> table list \<Rightarrow> table list \<Rightarrow> nat \<times> nat \<times> nat \<Rightarrow> string result" where
  "shrink render limit facts intents hints (f, i, h) =
     (let text = render facts intents hints (f, i, h) in
      if int (utf8_size text) \<le> limit then Inr text
      else case facts of
        _ # fs \<Rightarrow> shrink render limit fs intents hints (f + 1, i, h)
      | [] \<Rightarrow> (case intents of
          _ # is \<Rightarrow> shrink render limit [] is hints (f, i + 1, h)
        | [] \<Rightarrow> (case hints of
            _ # hs \<Rightarrow> shrink render limit [] [] hs (f, i, h + 1)
          | [] \<Rightarrow> Inl (ValueError ''snapshot cap too small''))))"

definition snapshot :: "library \<Rightarrow> (pyval \<Rightarrow> string) \<Rightarrow> (string \<Rightarrow> bool) \<Rightarrow> int \<Rightarrow> table \<Rightarrow> board \<Rightarrow> string result" where
  "snapshot L dump ge limit budget b =
     (if limit < 128 then Inl (ValueError ''snapshot cap must be at least 128 bytes'')
      else bind_result (item (bo_state b) ''version'') (\<lambda>version. bind_result (snapshot_extra ge (bo_state b)) (\<lambda>extra.
        let st = bo_state b;
            facts = rev (trim_facts 12000 (rev (rows_of st ''facts'')));
            intents = map (conclude_intent (rows_of st ''facts'')) (rows_of st ''intents'') in
        shrink (\<lambda>fs is hs omitted. dump (snapshot_view L b budget extra version fs is hs omitted)) limit facts intents (rows_of st ''hints'') (0, 0, 0))))"

lemma shrink_spec:
  "shrink render limit facts intents hints (f, i, h) = Inr text \<Longrightarrow>
    int (utf8_size text) \<le> limit \<and> (\<exists>a b c. a \<le> length facts \<and> b \<le> length intents \<and> c \<le> length hints \<and>
      (0 < b \<longrightarrow> a = length facts) \<and> (0 < c \<longrightarrow> a = length facts \<and> b = length intents) \<and>
      text = render (drop a facts) (drop b intents) (drop c hints) (f + a, i + b, h + c))"
proof (induction render limit facts intents hints "(f, i, h)" arbitrary: f i h rule: shrink.induct)
  case (1 render limit facts intents hints f i h)
  show ?case
  proof (cases "int (utf8_size (render facts intents hints (f, i, h))) \<le> limit")
    case True
    then show ?thesis using 1(4) by (intro conjI exI [of _ 0]) simp_all
  next
    case False
    show ?thesis
    proof (cases facts)
      case (Cons x fs)
      from 1(3) [OF refl False Cons] 1(4) False Cons obtain a b c where
        "int (utf8_size text) \<le> limit" "a \<le> length fs" "b \<le> length intents" "c \<le> length hints" "0 < b \<longrightarrow> a = length fs"
        "0 < c \<longrightarrow> a = length fs \<and> b = length intents" "text = render (drop a fs) (drop b intents) (drop c hints) (f + 1 + a, i + b, h + c)"
        by auto
      then show ?thesis by (intro conjI exI [of _ "Suc a"] exI [of _ b] exI [of _ c]) (simp_all add: Cons)
    next
      case Nil
      show ?thesis
      proof (cases intents)
        case (Cons x js)
        from 1(2) [OF refl False Nil Cons] 1(4) False Nil Cons obtain a b c where
          "int (utf8_size text) \<le> limit" "a = 0" "b \<le> length js" "c \<le> length hints"
          "0 < c \<longrightarrow> b = length js" "text = render [] (drop b js) (drop c hints) (f, i + 1 + b, h + c)"
          by auto
        then show ?thesis by (intro conjI exI [of _ 0] exI [of _ "Suc b"] exI [of _ c]) (simp_all add: Nil Cons)
      next
        case none: Nil
        then obtain x hs where "hints = x # hs" using 1(4) False Nil by (cases hints) simp_all
        from 1(1) [OF refl False Nil none this] 1(4) False Nil none this obtain c where
          "int (utf8_size text) \<le> limit" "c \<le> length hs" "text = render [] [] (drop c hs) (f, i, h + 1 + c)"
          by auto
        then show ?thesis
          by (intro conjI exI [of _ 0] exI [of _ 0] exI [of _ "Suc c"]) (simp_all add: Nil none \<open>hints = x # hs\<close>)
      qed
    qed
  qed
qed

lemma trim_fact_text: "field_text (trim_fact n r) ''text'' = take (min 2000 n) (field_text r ''text'')"
  by (simp add: trim_fact_def Let_def field_text_def)

lemma trim_fact_length: "length (field_text (trim_fact n r) ''text'') \<le> n" "length (field_text (trim_fact n r) ''text'') \<le> 2000"
  unfolding trim_fact_text length_take by linarith+

lemma trim_facts_bound: "sum_list (map (\<lambda>r. length (field_text r ''text'')) (trim_facts n rs)) \<le> n"
proof (induction n rs rule: trim_facts.induct)
  case (2 n r rs)
  then show ?case using trim_fact_length(1) [of n r] by simp
qed simp

lemma trim_facts_each: "r \<in> set (trim_facts n rs) \<Longrightarrow> length (field_text r ''text'') \<le> 2000"
  by (induction n rs rule: trim_facts.induct) (auto simp only: trim_facts.simps list.set trim_fact_length(2) insert_iff empty_iff)

definition shown_facts :: "table \<Rightarrow> table list" where
  "shown_facts st = rev (trim_facts 12000 (rev (rows_of st ''facts'')))"

definition shown_intents :: "table \<Rightarrow> table list" where
  "shown_intents st = map (conclude_intent (rows_of st ''facts'')) (rows_of st ''intents'')"

lemma shown_facts_bound:
  "sum_list (map (\<lambda>r. length (field_text r ''text'')) (shown_facts st)) \<le> 12000" "length (shown_facts st) = length (rows_of st ''facts'')"
proof -
  have "length (trim_facts n rs) = length rs" for n rs by (induction n rs rule: trim_facts.induct) simp_all
  then show "length (shown_facts st) = length (rows_of st ''facts'')" by (simp add: shown_facts_def)
  show "sum_list (map (\<lambda>r. length (field_text r ''text'')) (shown_facts st)) \<le> 12000"
    using trim_facts_bound [of 12000 "rev (rows_of st ''facts'')"] by (simp add: shown_facts_def rev_map [symmetric])
qed

text \<open>C39. A snapshot keeps within its cap and hides nothing silently: it is the view of the newest entries of each kind with
  the number of entries left out of it, facts are left out before intents and intents before hints, and the facts shown
  have at most 2000 characters of text each and 12000 together.\<close>

theorem snapshot_bounded:
  assumes "snapshot L dump ge limit budget b = Inr text"
  defines "st \<equiv> bo_state b"
  shows "int (utf8_size text) \<le> limit \<and>
    sum_list (map (\<lambda>r. length (field_text r ''text'')) (shown_facts st)) \<le> 12000 \<and>
    (\<forall>r \<in> set (shown_facts st). length (field_text r ''text'') \<le> 2000) \<and>
    (\<exists>version extra f i h. item st ''version'' = Inr version \<and> snapshot_extra ge st = Inr extra \<and>
      f \<le> length (rows_of st ''facts'') \<and> i \<le> length (rows_of st ''intents'') \<and> h \<le> length (rows_of st ''hints'') \<and>
      (0 < i \<longrightarrow> f = length (rows_of st ''facts'')) \<and> (0 < h \<longrightarrow> f = length (rows_of st ''facts'') \<and> i = length (rows_of st ''intents'')) \<and>
      text = dump (snapshot_view L b budget extra version (drop f (shown_facts st)) (drop i (shown_intents st)) (drop h (rows_of st ''hints'')) (f, i, h)))"
proof -
  obtain version extra where v: "item st ''version'' = Inr version" "snapshot_extra ge st = Inr extra"
    and s: "shrink (\<lambda>fs is hs omitted. dump (snapshot_view L b budget extra version fs is hs omitted)) limit
      (shown_facts st) (shown_intents st) (rows_of st ''hints'') (0, 0, 0) = Inr text"
    using assms(1) by (auto simp: snapshot_def st_def shown_facts_def shown_intents_def bind_result_eq_Inr Let_def split: if_splits)
  have "length (shown_intents st) = length (rows_of st ''intents'')" by (simp add: shown_intents_def)
  then show ?thesis
    using shrink_spec [OF s] v shown_facts_bound [of st] trim_facts_each [of _ 12000 "rev (rows_of st ''facts'')"]
    by (simp add: shown_facts_def [symmetric] del: numeral_eq_Suc) (auto simp: shown_facts_def)
qed

section \<open>A search in use\<close>

definition sample_board :: board where
  "sample_board = \<lparr>bo_search = ''s1'', bo_coordinator = ''host'', bo_max = 4096, bo_prefix = ''boards/'' @ lib_sha sample_library ''s1'',
     bo_head = None, bo_state = first_state ''s1''\<rparr>"

definition sample_intent :: "string \<Rightarrow> table" where
  "sample_intent status = [(''id'', VStr ''i1''), (''step'', VStr ''reason''), (''task_id'', VStr ''t1''), (''description'', VStr ''look''),
     (''from_facts'', VList []), (''status'', VStr status)]"

definition sample_fact :: table where
  "sample_fact = [(''id'', VStr ''f1''), (''step'', VStr ''explore''), (''task_id'', VStr ''t2''), (''text'', VStr ''seen''),
     (''evidence_refs'', VList [VStr ''e'']), (''from_intents'', VList [VStr ''i1''])]"

definition first_changes :: table where
  "first_changes = [(''intents'', VList [VDict (sample_intent ''open'')])]"

definition second_changes :: table where
  "second_changes = [(''facts'', VList [VDict sample_fact]), (''intents'', VList [VDict (sample_intent ''concluded'')]), (''end_reason'', VStr ''goal_met'')]"

definition head_one :: string where
  "head_one = replicate 63 (CHR ''0'') @ ''6''"

definition head_two :: string where
  "head_two = replicate 63 (CHR ''0'') @ ''1''"

definition board_one :: board where
  "board_one = sample_board\<lparr>bo_head := Some head_one, bo_state := next_state sample_board first_changes (VInt 1)\<rparr>"

definition board_two :: board where
  "board_two = board_one\<lparr>bo_head := Some head_two, bo_state := next_state board_one second_changes (VInt 2)\<rparr>"

definition memory_one :: memory where
  "memory_one = empty_memory\<lparr>mm_objects := [(bo_prefix sample_board @ ''/'' @ head_one @ ''.json'', dumps spaced (VDict (bo_state board_one)))]\<rparr>"

definition memory_two :: memory where
  "memory_two = memory_one\<lparr>mm_objects := mm_objects memory_one @
     [(bo_prefix sample_board @ ''/'' @ head_two @ ''.json'', dumps spaced (VDict (bo_state board_two)))]\<rparr>"

lemma sample_commit_one: "commit sample_library ''host'' first_changes sample_board empty_memory = (Inr (head_one, board_one), memory_one)"
  by code_simp

lemma sample_commit_two: "commit sample_library ''host'' second_changes board_one memory_one = (Inr (head_two, board_two), memory_two)"
  by code_simp

lemma sample_room:
  "blob_room sample_library (bo_prefix sample_board) (dumps spaced (VDict (bo_state board_one))) empty_memory"
  "blob_room sample_library (bo_prefix board_one) (dumps spaced (VDict (bo_state board_two))) memory_one"
  by code_simp+

lemma sample_fresh: "fresh_board sample_library sample_board"
  by code_simp

lemma sample_run:
  "board_run sample_library sample_board [(head_one, bo_state board_one), (head_two, bo_state board_two)] memory_two board_two"
proof -
  have plain: "plain_row sample_library first_changes" "plain_row sample_library second_changes"
    by (simp_all add: plain_row_def first_changes_def second_changes_def sample_intent_def sample_fact_def)
  from board_run.commit [OF board_run.commit [OF board_run.start plain(1) sample_commit_one sample_room(1)] plain(2) sample_commit_two sample_room(2)]
  show ?thesis by simp
qed

theorem board_history_witness:
  "resume sample_library ''s1'' head_one ''host'' 4096 memory_two =
     (Inr (sample_board\<lparr>bo_state := canon (bo_state board_one), bo_head := Some head_one\<rparr>), memory_two) \<and>
   map_of (bo_state board_two) ''previous'' = Some (VStr head_one)"
proof -
  have "bo_search sample_board = ''s1''" "bo_coordinator sample_board = ''host''" "bo_max sample_board = 4096" by (simp_all add: sample_board_def)
  then show ?thesis
    using board_history [OF sample_fresh sample_run, of 0] board_history [OF sample_fresh sample_run, of 1] by simp
qed

theorem snapshot_witness:
  "\<exists>shown. snapshot sample_library py_str (\<lambda>_. False) 500 [] board_two = Inr shown \<and> int (utf8_size shown) \<le> 500"
proof -
  have "\<not> isl (snapshot sample_library py_str (\<lambda>_. False) 500 [] board_two)" by code_simp
  then obtain shown where "snapshot sample_library py_str (\<lambda>_. False) 500 [] board_two = Inr shown"
    by (cases "snapshot sample_library py_str (\<lambda>_. False) 500 [] board_two") auto
  with snapshot_bounded [OF this] show ?thesis by blast
qed

end
