(* ===== verification/Contracts.thy ===== *)
theory Contracts
  imports TraceState Prover MemoryRows
begin

text \<open>
  The contracts of the detection core (\<open>core/\<close>): the canonical trace and its bytes, verdicts, coverage, the admission
  of manifests and of fact packs, provenance stamps and the push consumer; and how a trace and a coverage of the
  prover conform to them (\<open>to_core_record\<close> of \<open>trace.py\<close>, \<open>to_core\<close> of \<open>hunt/prover.py\<close>). The SHA-256 text is an
  argument of the library record. The measured budget and the probes compute with floats and are left out.
\<close>

section \<open>Verdicts\<close>

datatype core_judgment = CUnguarded | CDischarged | CIndeterminate

definition core_judgments :: "(string \<times> core_judgment) list" where
  "core_judgments = [(''unguarded'', CUnguarded), (''discharged'', CDischarged), (''indeterminate'', CIndeterminate)]"

fun core_value :: "core_judgment \<Rightarrow> string" where
  "core_value CUnguarded = ''unguarded''"
| "core_value CDischarged = ''discharged''"
| "core_value CIndeterminate = ''indeterminate''"

definition as_clean :: "core_judgment \<Rightarrow> core_judgment result" where
  "as_clean j = (if j = CIndeterminate then Inl (ValueError ''indeterminate never converts to a clean judgment'') else Inr j)"

record proven_claim =
  pc_trace_id :: string
  pc_witness :: string
  pc_path :: string
  pc_line :: int
  pc_family :: string

record bounded_silence =
  bs_path :: string
  bs_reason :: string
  bs_coverage :: table

section \<open>The canonical trace\<close>

record core_hop =
  ch_function :: string
  ch_call_line :: "int option"
  ch_complete :: bool

record core_witness =
  cw_kind :: string
  cw_provenance :: string
  cw_relation :: string

record core_guard =
  cg_kind :: string
  cg_effect :: string

record core_trace =
  ct_entry :: string
  ct_hops :: "core_hop list"
  ct_operation_kind :: string
  ct_resource :: string
  ct_authority :: string
  ct_witnesses :: "core_witness list"
  ct_guards :: "core_guard list"
  ct_reasons :: "string list"
  ct_judgment :: core_judgment
  ct_digests :: "(string \<times> string) list"

definition core_hop_payload :: "core_hop \<Rightarrow> table" where
  "core_hop_payload h = [(''function'', VStr (ch_function h)), (''call_line'', optional_line (ch_call_line h)), (''complete'', VBool (ch_complete h))]"

definition core_witness_payload :: "core_witness \<Rightarrow> table" where
  "core_witness_payload w = [(''kind'', VStr (cw_kind w)), (''provenance'', VStr (cw_provenance w)), (''relation'', VStr (cw_relation w))]"

definition core_guard_payload :: "core_guard \<Rightarrow> table" where
  "core_guard_payload g = [(''kind'', VStr (cg_kind g)), (''effect'', VStr (cg_effect g))]"

definition text_table :: "(string \<times> string) list \<Rightarrow> table" where
  "text_table d = map (\<lambda>(k, v). (k, VStr v)) d"

definition core_payload :: "core_trace \<Rightarrow> table" where
  "core_payload t =
     [(''entry'', VStr (ct_entry t)), (''hops'', VList (map (\<lambda>h. VDict (core_hop_payload h)) (ct_hops t))),
      (''operation_kind'', VStr (ct_operation_kind t)), (''resource'', VStr (ct_resource t)), (''authority'', VStr (ct_authority t)),
      (''witnesses'', VList (map (\<lambda>w. VDict (core_witness_payload w)) (ct_witnesses t))),
      (''guards'', VList (map (\<lambda>g. VDict (core_guard_payload g)) (ct_guards t))), (''completeness_reasons'', texts_value (ct_reasons t)),
      (''judgment'', VStr (core_value (ct_judgment t))), (''digests'', VDict (text_table (ct_digests t)))]"

text \<open>\<open>json.loads(json.dumps(payload, sort_keys=True))\<close>, and the bytes.\<close>

definition core_record :: "library \<Rightarrow> core_trace \<Rightarrow> pyval option" where
  "core_record L t = loads (lib_float L) (dumps spaced (VDict (core_payload t)))"

fun utf8_encode :: "string \<Rightarrow> string" where
  "utf8_encode [] = []"
| "utf8_encode (c # s) =
     (if code c < 128 then [c] else [char_of (192 + code c div 64), char_of (128 + code c mod 64)]) @ utf8_encode s"

definition canonical :: "library \<Rightarrow> core_trace \<Rightarrow> string option" where
  "canonical L t = map_option (\<lambda>v. utf8_encode (dumps (compact False) v)) (core_record L t)"

text \<open>The core record of a trace of the prover.\<close>

definition or_unknown :: "string \<Rightarrow> string" where
  "or_unknown s = (if s = [] then ''unknown'' else s)"

definition to_core_record :: "trace \<Rightarrow> string \<Rightarrow> (string \<times> string) list \<Rightarrow> bool \<Rightarrow> core_trace result" where
  "to_core_record t entry digests complete =
     map_sum id (\<lambda>(judgment, reasons, witnesses, resource, authority).
       \<lparr>ct_entry = entry,
        ct_hops = map (\<lambda>h. \<lparr>ch_function = th_function h, ch_call_line = th_call_line h, ch_complete = complete\<rparr>) (tr_hops t),
        ct_operation_kind = tr_operation_kind t, ct_resource = resource, ct_authority = authority, ct_witnesses = witnesses,
        ct_guards = map (\<lambda>g. \<lparr>cg_kind = tg_kind g, cg_effect = tg_effect g\<rparr>) (concat (map th_guards (tr_hops t)) @ tr_guards_after t),
        ct_reasons = reasons, ct_judgment = judgment, ct_digests = digests\<rparr>)
     (case tr_state t of
        None \<Rightarrow> Inr (CIndeterminate, [''abstract_state_unset''], [], ''unknown'', ''unknown'')
      | Some s \<Rightarrow>
          bind_result (enum_of core_judgments (VStr (judgment_value (j_judgment (a_judgment s))))) (\<lambda>judgment.
            let c = j_completeness (a_judgment s) in
            Inr (judgment, if reasons c \<noteq> [] then reasons c else if \<not> is_complete c then [''incomplete''] else [],
              concat (map (\<lambda>m. map (\<lambda>e. \<lparr>cw_kind = ''witness'', cw_provenance = e, cw_relation = relation_value (m_relation m)\<rparr>) (m_evidence m))
                (j_matches (a_judgment s))),
              or_unknown (join_with '','' (rvalues (a_resource s))), or_unknown (join_with '','' (avalues (a_authority s))))))"

section \<open>Coverage\<close>

record core_coverage =
  cc_entry_points :: int
  cc_frameworks :: "(string \<times> int) list"
  cc_buckets :: core_buckets
  cc_unchecked :: "(string \<times> int) list"

definition validate_coverage :: "core_coverage \<Rightarrow> unit result" where
  "validate_coverage c =
     (let b = cc_buckets c in
      if min (cb_complete b) (min (cb_incomplete b) (cb_unresolved b)) < 0 then Inl (ValueError ''negative resolution bucket'')
      else if cb_complete b + cb_incomplete b + cb_unresolved b \<noteq> cb_calls b
      then Inl (ValueError ''resolution buckets must equal the call count'')
      else Inr ())"

definition to_core :: "int \<Rightarrow> (string \<times> int) list \<Rightarrow> (string \<times> int) list \<Rightarrow> (string \<times> int) list \<Rightarrow> core_coverage result" where
  "to_core entry_points frameworks unchecked counts =
     map_sum id (\<lambda>b. \<lparr>cc_entry_points = entry_points, cc_frameworks = frameworks, cc_buckets = b, cc_unchecked = unchecked\<rparr>)
       (to_core_buckets counts)"

definition check_reads :: "(string \<times> int) list \<Rightarrow> unit result" where
  "check_reads sizes =
     (if sort (map fst (filter (\<lambda>(_, size). size \<le> 0) sizes)) \<noteq> [] then Inl (ValueError ''zero-byte read of tracked input'') else Inr ())"

section \<open>The push consumer\<close>

record push_verdict =
  pv_claims :: "proven_claim list"
  pv_silence :: "bounded_silence list"
  pv_digests :: "(string \<times> string) list"

definition consume_verdict :: "core_trace \<Rightarrow> proven_claim list \<Rightarrow> bounded_silence list \<Rightarrow> push_verdict result" where
  "consume_verdict t claims silence =
     (if \<exists>c \<in> set claims. pc_witness c = [] \<or> pc_path c = [] \<or> pc_line c \<le> 0
      then Inl (ValueError ''proven claim lacks witness or exact location'')
      else if \<exists>s \<in> set silence. bs_reason s = [] then Inl (ValueError ''bounded silence lacks a coverage reason'')
      else Inr \<lparr>pv_claims = claims, pv_silence = silence, pv_digests = ct_digests t\<rparr>)"

section \<open>Admission manifests\<close>

record admission_manifest =
  am_produced_by :: string
  am_reviewed :: bool
  am_label_isolated :: bool
  am_spent :: bool
  am_population_role :: string
  am_revision :: string
  am_fact_set :: string
  am_acquisition :: string
  am_configuration :: string
  am_population :: string
  am_labels :: "string list"
  am_families :: "string list"

definition manifest_fields :: "string list" where
  "manifest_fields = [''produced_by'', ''reviewed'', ''label_isolated'', ''spent'', ''population_role'', ''analyzer_revision'',
     ''fact_set_digest'', ''acquisition_record_digest'', ''configuration_digest'', ''population_digest'', ''labels'']"

definition label_markers :: "string list" where
  "label_markers = [''vulnerability'', ''fix-location'', ''ordinary-change'']"

text \<open>\<open>str(payload[f])\<close>.\<close>

definition field_str :: "table \<Rightarrow> string \<Rightarrow> string" where
  "field_str d f = py_str (value_of d f)"

fun as_list :: "pyval \<Rightarrow> pyval list option" where
  "as_list (VList xs) = Some xs" | "as_list _ = None"

definition exposes_label :: "pyval list \<Rightarrow> bool" where
  "exposes_label labels \<longleftrightarrow> (\<exists>l \<in> set labels. \<exists>m \<in> set label_markers. contains_text m (py_str l))"

definition admission_error :: "string \<Rightarrow> 'a result" where
  "admission_error s = Inl (ValueError s)"

definition validate_manifest :: "table \<Rightarrow> string option \<Rightarrow> admission_manifest result" where
  "validate_manifest p expected =
     (if \<not> set manifest_fields \<subseteq> fst ` set p then admission_error ''malformed: missing required manifest fields''
      else if value_of p ''produced_by'' \<noteq> VStr ''valid-detection-benchmark'' then admission_error ''producer''
      else if value_of p ''reviewed'' \<noteq> VBool True then admission_error ''unreviewed: manifest lacks external review''
      else if value_of p ''label_isolated'' \<noteq> VBool True then admission_error ''label-isolated: isolation attestation missing''
      else case as_list (value_of p ''labels'') of
        None \<Rightarrow> admission_error ''label-exposure: manifest carries admission labels''
      | Some labels \<Rightarrow>
          if exposes_label labels then admission_error ''label-exposure: manifest carries admission labels''
          else if (case expected of None \<Rightarrow> False | Some d \<Rightarrow> value_of p ''acquisition_record_digest'' \<noteq> VStr d)
          then admission_error ''acquisition-output-changed: digest mismatch''
          else if value_of p ''spent'' = VBool True then admission_error ''spent: population already consumed''
          else (case as_list (value_or p ''families'' (VList [])) of
            None \<Rightarrow> admission_error ''malformed: families must be a sequence''
          | Some families \<Rightarrow> Inr
              \<lparr>am_produced_by = field_str p ''produced_by'', am_reviewed = True, am_label_isolated = True, am_spent = False,
               am_population_role = field_str p ''population_role'', am_revision = field_str p ''analyzer_revision'',
               am_fact_set = field_str p ''fact_set_digest'', am_acquisition = field_str p ''acquisition_record_digest'',
               am_configuration = field_str p ''configuration_digest'', am_population = field_str p ''population_digest'',
               am_labels = map py_str labels, am_families = map py_str families\<rparr>))"

section \<open>Fact packs\<close>

record fact_pack =
  fp_family :: string
  fp_facts :: "table list"
  fp_review :: string
  fp_digest :: string

definition short_digest :: "library \<Rightarrow> pyval \<Rightarrow> string" where
  "short_digest L v = take 12 (lib_sha L (dumps (compact True) v))"

definition pack_value :: "string \<Rightarrow> table list \<Rightarrow> pyval" where
  "pack_value family facts = VList [VStr family, VList (map VDict facts)]"

definition admit_fact_pack :: "library \<Rightarrow> string \<Rightarrow> table list \<Rightarrow> string \<Rightarrow> fact_pack result" where
  "admit_fact_pack L family facts review =
     (if review = [] then Inl (ValueError ''unreviewed fact pack refused: no review digest'')
      else Inr \<lparr>fp_family = family, fp_facts = facts, fp_review = review, fp_digest = short_digest L (pack_value family facts)\<rparr>)"

definition verify_fact_pack :: "library \<Rightarrow> fact_pack \<Rightarrow> table list \<Rightarrow> unit result" where
  "verify_fact_pack L pack facts =
     (if short_digest L (pack_value (fp_family pack) facts) \<noteq> fp_digest pack
      then Inl (ValueError ''fact content does not match the stamped digest of pack'') else Inr ())"

text \<open>The text of a pack file. \<open>note.encode()\<close> of what is not a text raises.\<close>

definition load_pack :: "library \<Rightarrow> string \<Rightarrow> fact_pack result" where
  "load_pack L text = (case loads (lib_float L) text of
     None \<Rightarrow> Inl (ValueError ''not JSON'')
   | Some payload \<Rightarrow> (case as_table payload of
       None \<Rightarrow> Inl (AttributeError ''get'')
     | Some d \<Rightarrow> (case as_table (value_or d ''review'' (VDict [])) of
         None \<Rightarrow> Inl (AttributeError ''get'')
       | Some review \<Rightarrow>
           let note = value_or review ''note'' (VStr []) in
           if \<not> truthy note then Inl (ValueError ''lacks a verifiable review attestation'')
           else (case note of
             VStr s \<Rightarrow>
               if value_of review ''digest'' \<noteq> VStr (lib_sha L (utf8_encode s)) then Inl (ValueError ''lacks a verifiable review attestation'')
               else (case value_of d ''facts'' of
                 VList xs \<Rightarrow> (case tables_of xs of
                     None \<Rightarrow> Inl (ValueError ''facts must be a list of objects'')
                   | Some facts \<Rightarrow> admit_fact_pack L (py_str (value_or d ''family'' (VStr []))) facts (field_text review ''digest''))
               | _ \<Rightarrow> Inl (ValueError ''facts must be a list of objects''))
           | _ \<Rightarrow> Inl (AttributeError ''encode'')))))"

definition admit_pack_file :: "library \<Rightarrow> string \<Rightarrow> string \<Rightarrow> fact_pack result" where
  "admit_pack_file L text review =
     bind_result (load_pack L text) (\<lambda>pack.
       if review \<noteq> fp_review pack then Inl (ValueError ''supplied review digest does not match the embedded attestation'') else Inr pack)"

section \<open>Provenance\<close>

definition digest_fields :: "string list" where
  "digest_fields = [''analyzer_revision'', ''fact_set_digest'', ''acquisition_record_digest'', ''configuration_digest'',
     ''population_digest'', ''input_digest'']"

definition input_digest :: "library \<Rightarrow> string \<Rightarrow> string \<Rightarrow> string" where
  "input_digest L change population = short_digest L (VList [VStr population, VStr change])"

definition stamp :: "library \<Rightarrow> string \<Rightarrow> string \<Rightarrow> string \<Rightarrow> string \<Rightarrow> string \<Rightarrow> string \<Rightarrow> (string \<times> string) list" where
  "stamp L revision facts acquisition configuration population change =
     [(''analyzer_revision'', revision), (''fact_set_digest'', facts), (''acquisition_record_digest'', acquisition),
      (''configuration_digest'', configuration), (''population_digest'', population), (''input_digest'', input_digest L change population)]"

definition verify_stamp :: "(string \<times> string) list \<Rightarrow> (string \<times> string) list \<Rightarrow> unit result" where
  "verify_stamp recorded rederived =
     (if \<exists>f \<in> set digest_fields. map_of recorded f \<noteq> map_of rederived f then Inl (ValueError ''digest mismatch'') else Inr ())"

section \<open>The bytes of a trace\<close>

lemma utf8_roundtrip: "utf8_decode (utf8_encode s) = Inr s"
proof (induction s)
  case (Cons c s)
  show ?case
  proof (cases "code c < 128")
    case False
    have c: "code c < 256" by simp
    then have "code c div 64 < 4" "\<not> code c div 64 < 2" using False by (simp_all add: less_mult_imp_div_less div_less_iff_less_mult)
    then have "code c div 64 \<in> {2, 3}" by auto
    moreover have "code c mod 64 < 64" by simp
    moreover have "char_of (128 + code c mod 64) = c" if "code c div 64 = 2"
    proof -
      have "128 + code c mod 64 = code c" using that div_mult_mod_eq [of "code c" 64] by linarith
      then show ?thesis by simp
    qed
    moreover have "char_of (192 + code c mod 64) = c" if "code c div 64 = 3"
    proof -
      have "192 + code c mod 64 = code c" using that div_mult_mod_eq [of "code c" 64] by linarith
      then show ?thesis by simp
    qed
    ultimately show ?thesis using False Cons by auto
  qed (simp add: Cons)
qed simp

lemma utf8_encode_inject: "utf8_encode s = utf8_encode t \<longleftrightarrow> s = t"
  using utf8_roundtrip by (metis sum.inject(2))

lemma text_table_map: "map_of (text_table d) = map_option VStr \<circ> map_of d" "map fst (text_table d) = map fst d"
  by (simp_all add: text_table_def map_of_map) (simp add: case_prod_unfold)

lemma core_payload_keys: "distinct (map fst (core_payload t))" "distinct (map fst (core_hop_payload h))"
  "distinct (map fst (core_witness_payload w))" "distinct (map fst (core_guard_payload g))"
  by (simp_all add: core_payload_def core_hop_payload_def core_witness_payload_def core_guard_payload_def)

lemma core_payload_plain: "distinct (map fst (ct_digests t)) \<Longrightarrow> plain fl (VDict (core_payload t))"
proof -
  have hop: "plain fl (VDict (core_hop_payload h))" for h by (cases "ch_call_line h") (simp_all add: core_hop_payload_def optional_line_def)
  have "plain fl (VDict (core_witness_payload w))" "plain fl (VDict (core_guard_payload g))" for w g
    by (simp_all add: core_witness_payload_def core_guard_payload_def)
  moreover assume "distinct (map fst (ct_digests t))"
  then have "plain fl (VDict (text_table (ct_digests t)))"
    by (simp add: text_table_map) (simp add: text_table_def list_all_iff case_prod_unfold)
  ultimately show ?thesis
    using hop by (simp add: core_payload_def texts_value_def list_all_iff del: plain.simps(3)) (simp add: list_all_iff)
qed

lemma canonical_text:
  assumes "distinct (map fst (ct_digests t))"
  shows "canonical L t = Some (utf8_encode (dumps (compact False) (VDict (canon (core_payload t)))))"
  using loads_dumps [OF core_payload_plain [OF assms] spaced_ok(1), of "lib_float L"]
  by (simp add: canonical_def core_record_def canon_sorted del: sorted_value.simps)

text \<open>What sorted tables tell apart.\<close>

lemma canon_eqD: "distinct (map fst r) \<Longrightarrow> distinct (map fst r') \<Longrightarrow> canon r = canon r' \<Longrightarrow>
    map_option sorted_value (map_of r f) = map_option sorted_value (map_of r' f)"
  by (metis map_of_canon)

lemma canon_dict_eqD: "sorted_value (VDict r) = sorted_value (VDict r') \<Longrightarrow> canon r = canon r'"
  by (simp add: canon_def)

lemma sorted_line [simp]: "sorted_value (optional_line x) = optional_line x" "optional_line x = optional_line y \<longleftrightarrow> x = y"
  by (auto simp: optional_line_def split: option.splits)

lemma core_hop_inject: "sorted_value (VDict (core_hop_payload h)) = sorted_value (VDict (core_hop_payload h')) \<longleftrightarrow> h = h'"
proof
  assume "sorted_value (VDict (core_hop_payload h)) = sorted_value (VDict (core_hop_payload h'))"
  note eq = canon_eqD [OF core_payload_keys(2,2) canon_dict_eqD [OF this]]
  show "h = h'" using eq [of "''function''"] eq [of "''call_line''"] eq [of "''complete''"]
    by (simp add: core_hop_payload_def)
qed simp

lemma core_witness_inject: "sorted_value (VDict (core_witness_payload w)) = sorted_value (VDict (core_witness_payload w')) \<longleftrightarrow> w = w'"
proof
  assume "sorted_value (VDict (core_witness_payload w)) = sorted_value (VDict (core_witness_payload w'))"
  note eq = canon_eqD [OF core_payload_keys(3,3) canon_dict_eqD [OF this]]
  show "w = w'" using eq [of "''kind''"] eq [of "''provenance''"] eq [of "''relation''"] by (simp add: core_witness_payload_def)
qed simp

lemma core_guard_inject: "sorted_value (VDict (core_guard_payload g)) = sorted_value (VDict (core_guard_payload g')) \<longleftrightarrow> g = g'"
proof
  assume "sorted_value (VDict (core_guard_payload g)) = sorted_value (VDict (core_guard_payload g'))"
  note eq = canon_eqD [OF core_payload_keys(4,4) canon_dict_eqD [OF this]]
  show "g = g'" using eq [of "''kind''"] eq [of "''effect''"] by (simp add: core_guard_payload_def)
qed simp

lemma map_sorted_inject:
  assumes "\<And>x y. sorted_value (f x) = sorted_value (f y) \<longleftrightarrow> x = y"
  shows "map (sorted_value \<circ> f) xs = map (sorted_value \<circ> f) ys \<longleftrightarrow> xs = ys"
  using assms by (intro inj_map_eq_map) (simp add: inj_def)

lemma core_value_inject: "core_value j = core_value k \<longleftrightarrow> j = k"
  by (cases j; cases k) simp_all

text \<open>Tables of texts with the same entries are sorted alike.\<close>

lemma canon_text_table:
  assumes "distinct (map fst d)" "distinct (map fst e)"
  shows "canon (text_table d) = canon (text_table e) \<longleftrightarrow> map_of d = map_of e"
proof
  assume eq: "canon (text_table d) = canon (text_table e)"
  have "map_option (sorted_value \<circ> VStr) (map_of d f) = map_option (sorted_value \<circ> VStr) (map_of e f)" for f
    using canon_eqD [OF _ _ eq, of f] assms by (simp add: text_table_map option.map_comp)
  moreover have "sorted_value \<circ> VStr = VStr" by auto
  moreover have "inj VStr" by (simp add: inj_def)
  ultimately show "map_of d = map_of e" by (intro ext) (metis option.inj_map_strong pyval.inject(4))
next
  assume "map_of d = map_of e"
  then have "set d = set e" using assms map_of_inject_set by blast
  then have "set (text_table d) = set (text_table e)" by (simp add: text_table_def)
  moreover have "map (\<lambda>(k, v). (k, sorted_value v)) (text_table x) = text_table x" for x by (simp add: text_table_def case_prod_unfold)
  moreover have "sort_key fst (text_table d) = sort_key fst (text_table e)" if "set (text_table d) = set (text_table e)"
  proof (rule map_sorted_distinct_set_unique [of fst])
    have keys: "distinct (map fst (text_table d))" "distinct (map fst (text_table e))" using assms by (simp_all add: text_table_map)
    then show "distinct (map fst (sort_key fst (text_table d)))" "distinct (map fst (sort_key fst (text_table e)))"
      by (auto intro: distinct_sort_key)
    show "inj_on fst (set (sort_key fst (text_table d)) \<union> set (sort_key fst (text_table e)))"
      using keys that by (simp add: distinct_map)
  qed (simp_all add: that)
  ultimately show "canon (text_table d) = canon (text_table e)" by (simp add: canon_def)
qed

text \<open>C40. The bytes of a trace are canonical: two traces have the same bytes exactly when they agree on every field, the
  digests compared as a table, so the order of the digests does not show and nothing else is lost.\<close>

theorem canonical_exact:
  assumes "distinct (map fst (ct_digests s))" "distinct (map fst (ct_digests t))"
  shows "canonical L s = canonical L t \<longleftrightarrow> s\<lparr>ct_digests := []\<rparr> = t\<lparr>ct_digests := []\<rparr> \<and> map_of (ct_digests s) = map_of (ct_digests t)"
proof -
  have plain: "plain (lib_float L) (VDict (core_payload s))" "plain (lib_float L) (VDict (core_payload t))"
    using assms core_payload_plain by blast+
  have "canonical L s = canonical L t \<longleftrightarrow> canon (core_payload s) = canon (core_payload t)"
    using dumps_inject [OF plain compact_ok(1), of False]
    by (simp add: canonical_text assms utf8_encode_inject dumps_def canon_sorted del: sorted_value.simps json_text.simps)
  also have "\<dots> \<longleftrightarrow> s\<lparr>ct_digests := []\<rparr> = t\<lparr>ct_digests := []\<rparr> \<and> map_of (ct_digests s) = map_of (ct_digests t)"
  proof
    assume "canon (core_payload s) = canon (core_payload t)"
    note eq = canon_eqD [OF core_payload_keys(1,1) this]
    have "ct_entry s = ct_entry t" using eq [of "''entry''"] by (simp add: core_payload_def)
    moreover have "ct_hops s = ct_hops t"
      using eq [of "''hops''"] map_sorted_inject [of "\<lambda>h. VDict (core_hop_payload h)" "ct_hops s" "ct_hops t"] core_hop_inject
      by (simp add: core_payload_def del: sorted_value.simps(2)) 
    moreover have "ct_operation_kind s = ct_operation_kind t" using eq [of "''operation_kind''"] by (simp add: core_payload_def)
    moreover have "ct_resource s = ct_resource t" using eq [of "''resource''"] by (simp add: core_payload_def)
    moreover have "ct_authority s = ct_authority t" using eq [of "''authority''"] by (simp add: core_payload_def)
    moreover have "ct_witnesses s = ct_witnesses t"
      using eq [of "''witnesses''"] map_sorted_inject [of "\<lambda>w. VDict (core_witness_payload w)" "ct_witnesses s" "ct_witnesses t"] core_witness_inject
      by (simp add: core_payload_def del: sorted_value.simps(2))
    moreover have "ct_guards s = ct_guards t"
      using eq [of "''guards''"] map_sorted_inject [of "\<lambda>g. VDict (core_guard_payload g)" "ct_guards s" "ct_guards t"] core_guard_inject
      by (simp add: core_payload_def del: sorted_value.simps(2))
    moreover have "ct_reasons s = ct_reasons t"
      using eq [of "''completeness_reasons''"] by (simp add: core_payload_def texts_value_def comp_def inj_map_eq_map inj_def)
    moreover have "ct_judgment s = ct_judgment t" using eq [of "''judgment''"] by (simp add: core_payload_def core_value_inject)
    moreover have "canon (text_table (ct_digests s)) = canon (text_table (ct_digests t))"
      using eq [of "''digests''"] by (simp add: core_payload_def canon_def)
    ultimately show "s\<lparr>ct_digests := []\<rparr> = t\<lparr>ct_digests := []\<rparr> \<and> map_of (ct_digests s) = map_of (ct_digests t)"
      using canon_text_table [OF assms] by simp
  next
    assume "s\<lparr>ct_digests := []\<rparr> = t\<lparr>ct_digests := []\<rparr> \<and> map_of (ct_digests s) = map_of (ct_digests t)"
    then have "canon (text_table (ct_digests s)) = canon (text_table (ct_digests t))" and "s\<lparr>ct_digests := []\<rparr> = t\<lparr>ct_digests := []\<rparr>"
      using canon_text_table [OF assms] by auto
    then show "canon (core_payload s) = canon (core_payload t)"
      by (cases s; cases t) (simp add: canon_def core_payload_def)
  qed
  finally show ?thesis .
qed

section \<open>Conformance\<close>

text \<open>The core record of a trace never claims more than the trace: it is discharged exactly when the prover's
  abstract state is, a record that is indeterminate cannot be turned into a clean one, a trace without a state is
  indeterminate, and a state that is not complete always comes with a reason.\<close>

theorem to_core_record_conservative:
  "case to_core_record t entry digests complete of
     Inl _ \<Rightarrow> False
   | Inr r \<Rightarrow> (ct_judgment r = CDischarged \<longleftrightarrow> (\<exists>s. tr_state t = Some s \<and> j_judgment (a_judgment s) = DISCHARGED)) \<and>
       (isl (as_clean (ct_judgment r)) \<longleftrightarrow> (\<forall>s. tr_state t = Some s \<longrightarrow> j_judgment (a_judgment s) = INDETERMINATE)) \<and>
       (ct_reasons r = [] \<longrightarrow> (\<exists>s. tr_state t = Some s \<and> is_complete (j_completeness (a_judgment s)))) \<and>
       length (ct_hops r) = length (tr_hops t) \<and> (\<forall>h \<in> set (ct_hops r). ch_complete h = complete)"
proof (cases "tr_state t")
  case None
  then show ?thesis by (simp add: to_core_record_def as_clean_def)
next
  case (Some s)
  show ?thesis
    by (cases "j_judgment (a_judgment s)")
      (auto simp: to_core_record_def Some enum_of_def core_judgments_def as_clean_def Let_def)
qed

text \<open>A coverage of the prover with no negative count conforms to the core: whatever \<open>to_core\<close> gives passes the
  validation of the core, and it raises exactly on a bucket the core does not know.\<close>

theorem to_core_validates:
  assumes "\<forall>(k, n) \<in> set counts. 0 \<le> n"
  shows "case to_core entries frameworks unchecked counts of
      Inl _ \<Rightarrow> \<exists>k \<in> fst ` set counts. map_of core_resolution_keys k = None
    | Inr c \<Rightarrow> validate_coverage c = Inr () \<and> cb_calls (cc_buckets c) = sum_list (map snd counts)"
proof (cases "to_core_buckets counts")
  case (Inl e)
  then show ?thesis by (force simp: to_core_def to_core_buckets_def Let_def split: if_splits)
next
  case (Inr b)
  have "0 \<le> bucket_sum name counts" for name
    unfolding bucket_sum_def using assms by (intro sum_list_nonneg) auto
  moreover have known: "\<forall>(k, v) \<in> set counts. map_of core_resolution_keys k \<noteq> None"
    using Inr by (auto simp: to_core_buckets_def split: if_splits)
  ultimately show ?thesis
    using Inr bucket_sums [OF known]
    by (auto simp: to_core_def to_core_buckets_def validate_coverage_def Let_def not_less split: if_splits)
qed

section \<open>Admission\<close>

definition admissible :: "table \<Rightarrow> string option \<Rightarrow> bool" where
  "admissible p expected \<longleftrightarrow> set manifest_fields \<subseteq> fst ` set p \<and>
     value_of p ''produced_by'' = VStr ''valid-detection-benchmark'' \<and> value_of p ''reviewed'' = VBool True \<and>
     value_of p ''label_isolated'' = VBool True \<and> value_of p ''spent'' \<noteq> VBool True \<and>
     (\<exists>labels. value_of p ''labels'' = VList labels \<and> \<not> exposes_label labels) \<and>
     (\<forall>d. expected = Some d \<longrightarrow> value_of p ''acquisition_record_digest'' = VStr d) \<and>
     (\<exists>families. value_or p ''families'' (VList []) = VList families)"

lemma as_list_iff: "as_list v = Some xs \<longleftrightarrow> v = VList xs" "as_list v = None \<longleftrightarrow> (\<forall>xs. v \<noteq> VList xs)"
  by (cases v; simp; blast)+

text \<open>A manifest is consumed exactly when it is complete, produced and reviewed outside, isolated from labels and free of
  them, unspent and of the expected acquisition; and the manifest that results carries no label with a marker.\<close>

theorem validate_manifest_exact:
  "case validate_manifest p expected of
     Inl e \<Rightarrow> \<not> admissible p expected
   | Inr m \<Rightarrow> admissible p expected \<and> (\<forall>l \<in> set (am_labels m). \<forall>k \<in> set label_markers. \<not> contains_text k l)"
proof (cases "admissible p expected")
  case True
  then obtain labels families where "value_of p ''labels'' = VList labels" "\<not> exposes_label labels"
    "value_or p ''families'' (VList []) = VList families" by (auto simp: admissible_def)
  then show ?thesis
    using True by (auto simp: admissible_def validate_manifest_def exposes_label_def split: option.split)
next
  case False
  have "isl (validate_manifest p expected)"
    using False unfolding admissible_def validate_manifest_def admission_error_def
    by (auto simp: as_list_iff split: option.split if_split)
  then show ?thesis using False by (cases "validate_manifest p expected") auto
qed

text \<open>A pack verifies against its own facts, whatever the order of their keys.\<close>

lemma verify_admitted:
  assumes "admit_fact_pack L family facts review = Inr pack" "map canon facts' = map canon facts"
  shows "verify_fact_pack L pack facts' = Inr ()"
proof -
  have same: "dumps (compact True) (pack_value family xs) = json_text (compact True) (VList [VStr family, VList (map VDict (map canon xs))])" for xs
    by (simp add: dumps_def pack_value_def canon_sorted comp_def del: sorted_value.simps(2) json_text.simps)
  have pack: "pack = \<lparr>fp_family = family, fp_facts = facts, fp_review = review, fp_digest = short_digest L (pack_value family facts)\<rparr>"
    using assms(1) by (auto simp: admit_fact_pack_def split: if_splits)
  have "short_digest L (pack_value family facts') = short_digest L (pack_value family facts)"
    unfolding short_digest_def same assms(2) ..
  then show ?thesis by (simp add: verify_fact_pack_def pack)
qed

section \<open>Samples\<close>

definition sample_trace :: "(string \<times> string) list \<Rightarrow> core_trace" where
  "sample_trace digests = \<lparr>ct_entry = ''GET /items'', ct_hops = [\<lparr>ch_function = ''show'', ch_call_line = Some 7, ch_complete = True\<rparr>],
     ct_operation_kind = ''object_read'', ct_resource = ''item'', ct_authority = ''unknown'', ct_witnesses = [], ct_guards = [],
     ct_reasons = [], ct_judgment = CUnguarded, ct_digests = digests\<rparr>"

theorem canonical_witness:
  "canonical sample_library (sample_trace [(''a'', ''1''), (''b'', ''2'')]) = canonical sample_library (sample_trace [(''b'', ''2''), (''a'', ''1'')]) \<and>
   canonical sample_library (sample_trace [(''a'', ''1'')]) \<noteq> canonical sample_library (sample_trace [])"
proof -
  have "canonical sample_library (sample_trace [(''a'', ''1''), (''b'', ''2'')]) = canonical sample_library (sample_trace [(''b'', ''2''), (''a'', ''1'')])"
    by (subst canonical_exact) (auto simp: sample_trace_def fun_eq_iff)
  moreover have "canonical sample_library (sample_trace [(''a'', ''1'')]) \<noteq> canonical sample_library (sample_trace [])"
  proof (subst canonical_exact)
    have "map_of [(''a'', ''1'')] ''a'' \<noteq> map_of [] ''a''" by simp
    then show "\<not> ((sample_trace [(''a'', ''1'')])\<lparr>ct_digests := []\<rparr> = (sample_trace [])\<lparr>ct_digests := []\<rparr> \<and>
        map_of (ct_digests (sample_trace [(''a'', ''1'')])) = map_of (ct_digests (sample_trace [])))"
      by (auto simp: sample_trace_def dest: fun_cong)
  qed (simp_all add: sample_trace_def)
  ultimately show ?thesis by blast
qed

theorem to_core_witness:
  "case to_core 2 [] [] [(''complete_calls'', 3), (''unresolved_calls'', 1)] of
     Inl _ \<Rightarrow> False | Inr c \<Rightarrow> validate_coverage c = Inr () \<and> cb_calls (cc_buckets c) = 4"
proof -
  have "\<not> isl (to_core 2 [] [] [(''complete_calls'', 3), (''unresolved_calls'', 1)])" by code_simp
  then show ?thesis
    using to_core_validates [of "[(''complete_calls'', 3), (''unresolved_calls'', 1)]" 2 "[]" "[]"]
    by (cases "to_core 2 [] [] [(''complete_calls'', 3), (''unresolved_calls'', 1)]") simp_all
qed

end
