(* ===== verification/Spec2Isabelle.thy ===== *)
theory Spec2Isabelle
  imports Implications CfgBuilderWf Prover Resolution Checker EvidencePaths ProverSample Board Contracts
begin

text \<open>
  A verification development for the access-control analysis of OpenUltraSAST
  (\<open>src/src/openultrasast\<close>): the part of the scanner that decides, for each operation that carries an
  obligation (a data read, a write, a setting), whether a witness on the way to it discharges the
  obligation, and that reports the operations nothing discharges; and for what keeps its results: the contracts
  of the detection core, the memory store and the board of a search.

  \<^bold>\<open>The parts and how they interact.\<close> A parser (outside the model) turns a file into an intra-file
  representation (\<open>semantic/ir.py\<close>, theory \<open>Ir\<close>) and a syntax tree. Obligation facts
  (\<open>semantic/obligations/facts.py\<close>, \<open>Facts\<close>) say which calls are obligated operations and which calls,
  decorators and constraints are dischargers; \<open>semantic/obligations/operations.py\<close> (\<open>Operations\<close>, \<open>Recognise\<close>)
  finds both in a function. Control-flow graphs (\<open>semantic/cfg.py\<close>: \<open>CfgGraph\<close>, \<open>CfgQueries\<close>, \<open>CfgBuilder\<close>,
  \<open>CfgBuilderWf\<close>, \<open>CfgStatements\<close>) are built from the syntax tree and asked whether a guard dominates an
  operation and what happens when it fails (\<open>semantic/obligations/dominance.py\<close>, \<open>cfg_dominance.py\<close>:
  \<open>Dominance\<close>). Calls resolve against the repository's symbols (\<open>resolution.py\<close>: \<open>Resolution\<close>), chains of
  callers lead back to entry points (\<open>paths.py\<close>: \<open>Paths\<close>), and summaries carry what a function holds to its
  callers (\<open>summaries.py\<close>: \<open>Components\<close>, \<open>Summaries\<close>, \<open>EvidencePaths\<close>). The abstract domain
  (\<open>abstract_domain.py\<close>: \<open>EvidenceDomain\<close>, \<open>Implications\<close>), witness matching (\<open>witness.py\<close>: \<open>WitnessMatch\<close>)
  and judgments (\<open>judgment.py\<close>: \<open>Judgment\<close>) combine match and dominance into a verdict per path and per pair.
  Two clients stand on this: the access-control prover of \<open>hunt/prover.py\<close> with the strict three-valued algebra
  (\<open>Prover\<close>: judgment and findings; \<open>Inventory\<close>: the files of a change, their handlers and callers;
  \<open>ProveChange\<close>: the whole run; \<open>ProverSound\<close>: what its results mean; \<open>ProverSample\<close>: a run), and the two-valued checker of \<open>checker.py\<close> (\<open>Checker\<close>), which also reads the declared
  policy (\<open>policy.py\<close>: \<open>Policy\<close>) and the practice of sibling handlers (\<open>siblings.py\<close>: \<open>Siblings\<close>).
  Shapes (\<open>shapes.py\<close>: \<open>Shapes\<close>) are the lessons learnt from a fixed vulnerability. Traces (\<open>trace.py\<close>: \<open>Origins\<close>,
  \<open>Trace\<close>, \<open>TraceState\<close>) explain a verdict hop by hop, and conform to the canonical records of \<open>core/\<close>
  (\<open>Contracts\<close>). Results are kept in the memory store (\<open>plane/memory.py\<close>: \<open>MemoryStore\<close>, and \<open>MemoryRows\<close> for what
  its rows are), as lines of JSON (\<open>Json\<close>); the coordinator of a search keeps its board there by content
  (\<open>search/board.py\<close>: \<open>Board\<close>), through the interface \<open>content_store\<close> that the blobs of the store provide.

  \<^bold>\<open>How code becomes definitions.\<close> A dataclass is a \<open>record\<close> with the same fields under a two-letter prefix, an
  enumeration a \<open>datatype\<close>; a function is a definition with the source's name (without the leading
  underscore, and renamed where HOL has the name), every exception a value of \<open>py_error\<close> on the left of a sum
  (\<open>Prelude\<close>). Dictionaries are association lists in insertion order, sets that are sorted afterwards are
  lists without repetition, Python integers are \<open>int\<close>, bit sets of dominators are Python integers of any
  size. Text is a list of characters; the regular expressions of the code are values of a small regular
  expression type with a matcher (\<open>PyText\<close>), values of parsed documents a datatype (\<open>PyValue\<close>).

  \<^bold>\<open>What the theories show.\<close>
  \<^item> \<open>EvidenceDomain\<close>, \<open>Implications\<close>, \<open>WitnessMatch\<close>, \<open>Judgment\<close>: the combinators are lattice operations (the locale
    \<open>alternative_join\<close>, interpreted on relations, resources and authorities); the implication search ends and
    finds exactly the reachable tokens; a path is judged discharged exactly when each required kind has a witness that
    definitely matches and definitely dominates, unguarded exactly when a kind is definitely absent and none
    undecided; aggregation does not depend on the order of paths.
  \<^item> \<open>CfgGraph\<close> to \<open>CfgStatements\<close>: the sweeps compute exactly the dominators of every graph; the builder only
    adds nodes and edges, never fails where the code does not, and its graphs are well formed; the queries
    (\<open>cfg_relation\<close>, \<open>branch_effect\<close>, \<open>node_at\<close>) agree with paths in the graph.
  \<^item> \<open>Dominance\<close>, \<open>Prover\<close>: definite evidence rests on a graph or on a declared scope, a strict discharge on a definite
    match and definite dominance, a strict finding on definite absence; degradations are recorded.
  \<^item> \<open>Resolution\<close>, \<open>Paths\<close>: a complete resolution names one callable symbol; the ancestors of a type are the transitive
    bases; composed paths are exactly the simple caller chains within the bounds.
  \<^item> \<open>Components\<close>, \<open>Summaries\<close>, \<open>EvidencePaths\<close>: the component search covers every symbol once, callees first; without
    a budget summaries refine their specification (the union over everything exactly reachable); a cutoff is never
    silent; the iteration ends when the sort keys do not tie, and an example that never ends when they do;
    evidence paths are exactly the simple chains of exact hops.
  \<^item> \<open>Facts\<close>, \<open>Policy\<close>, \<open>Shapes\<close>, \<open>Recognise\<close>: documents that load are valid, shapes survive their round trip,
    operations and witnesses are found exactly where the facts say.
  \<^item> \<open>Origins\<close>, \<open>Trace\<close>, \<open>TraceState\<close>: an origin that is not unknown has been traced; a trace shows the valid witnesses before
    each call; a stored abstract state reads back as itself.
  \<^item> \<open>ProverSound\<close>: a strict finding names a handler, a chain of exact hops and a path judged unguarded; the counts of the
    coverage account for every judged operation.
  \<^item> \<open>Json\<close>, \<open>MemoryStore\<close>, \<open>MemoryRows\<close>: what is printed reads back; a write merges its rows or changes nothing, a read
    finds exactly them, a removal takes exactly the given rows, a delivery goes in once.
  \<^item> \<open>Board\<close>: whatever is written in between, every commit can be resumed, and the commits form a chain; a snapshot keeps
    within its cap and counts what it leaves out.
  \<^item> \<open>Contracts\<close>: the bytes of a trace are equal exactly for equal traces; the conversions lose nothing; a manifest is
    consumed exactly when it is admissible.
  \<^item> \<open>Siblings\<close>, \<open>Checker\<close>: anomalies are exactly the departures from a practice; a finding is an operation with a
    required kind that no valid dominating witness covers; within a function nothing is missed.

  \<^bold>\<open>Arguments of the model.\<close> What comes from outside the sources is an argument: the parser's trees and
  representation, \<open>yaml\<close> and \<open>tomllib\<close> documents, \<open>re.compile\<close> on patterns that are data, \<open>hashlib\<close> digests, the clock, the
  interpreter's recursion limit and the order a set is iterated in. For a run of the prover the files and their
  parsed forms, the entry points of the mapping, the enforcement and \<open>ast.literal_eval\<close> are fields of a record; for the
  store and the board \<open>urlsplit\<close>, SHA-256, the text of a float and of a float plus one, the YAML writer and the comparison
  of a float with two. A float is its text. Hypotheses about them say what their
  documentation says (iteration yields each element once) and are shown satisfiable by the witnesses.

  \<^bold>\<open>Bounds and fuel.\<close> Loops are total functions with a measure wherever the code's loop ends; the dominator
  sweep and the implication search carry fuel, and lemmas show that the fuel given (one more than the number of
  bits that can be cleared, of tokens that can be added) is enough. The JSON reader carries
  fuel of twice the length of the text and two, and the round trip shows that it is enough for whatever the writer
  prints. The fixpoint of the summaries is a partial function,
  because it has no bound of its own.

  \<^bold>\<open>Not modelled.\<close> Parsers and syntax-tree adapters, framework enforcement (which reads Python, PHP and YAML with
  external parsers), the code property graph, model-driven scanning, learning, corpus preparation, the
  cluster plane, the push hook, the workers of a search, reports and command lines: they are process control, network
  and file I/O, floating-point statistics, or adapters of external tools. Of the modelled parts: the list of missing
  graphs among the prover's degradations, the text form of a trace, the S3 backend and the seeding of the store, the
  measured budget and the probes of the core, the check of a report's keys. Characters are those below 256. Logging and
  wall-clock timing are left out everywhere.
\<close>

end
